(* ===== verification/Prelude.thy ===== *)
theory Prelude
  imports Main "HOL-Library.AList"
begin

text \<open>
  Generic material shared by every component: the shape of a Python computation that may raise
  and that keeps the mutations made before the raise, Python dictionaries as association lists
  in insertion order, Python slices, and the fact collections the component proofs use.
\<close>

named_theorems dict_simps \<open>lookup laws of dictionaries and of the stores built on them\<close>
named_theorems inv_intros \<open>invariant preservation, one fact per operation\<close>

section \<open>Computations that may raise\<close>

text \<open>
  A method body that reads and writes a state \<open>'s\<close> returns a value or raises. The state is
  returned in both cases: Python does not undo what was written before a raise.
\<close>

type_synonym ('e, 's, 'a) comp = "'s \<Rightarrow> ('e + 'a) \<times> 's"

definition ret :: "'a \<Rightarrow> ('e, 's, 'a) comp" where
  "ret a = (\<lambda>s. (Inr a, s))"

definition raise :: "'e \<Rightarrow> ('e, 's, 'a) comp" where
  "raise e = (\<lambda>s. (Inl e, s))"

definition bindE :: "('e, 's, 'a) comp \<Rightarrow> ('a \<Rightarrow> ('e, 's, 'b) comp) \<Rightarrow> ('e, 's, 'b) comp" where
  "bindE m f = (\<lambda>s. case m s of (Inl e, s') \<Rightarrow> (Inl e, s') | (Inr a, s') \<Rightarrow> f a s')"

text \<open>\<open>try: m except Exception as e: h(e)\<close>.\<close>

definition catchE :: "('e, 's, 'a) comp \<Rightarrow> ('e \<Rightarrow> ('e, 's, 'a) comp) \<Rightarrow> ('e, 's, 'a) comp" where
  "catchE m h = (\<lambda>s. case m s of (Inl e, s') \<Rightarrow> h e s' | (Inr a, s') \<Rightarrow> (Inr a, s'))"

lemma ret_apply [simp]: "ret a s = (Inr a, s)"
  by (simp add: ret_def)

lemma raise_apply [simp]: "raise e s = (Inl e, s)"
  by (simp add: raise_def)

lemma bindE_Inr: "m s = (Inr a, s') \<Longrightarrow> bindE m f s = f a s'"
  by (simp add: bindE_def)

lemma bindE_Inl: "m s = (Inl e, s') \<Longrightarrow> bindE m f s = (Inl e, s')"
  by (simp add: bindE_def)

lemma bindE_ret [simp]: "bindE (ret a) f = f a"
  by (simp add: bindE_def fun_eq_iff)

lemma bindE_raise [simp]: "bindE (raise e) f = raise e"
  by (simp add: bindE_def fun_eq_iff)

lemma catchE_ret [simp]: "catchE (ret a) h = ret a"
  by (simp add: catchE_def fun_eq_iff)

lemma catchE_raise [simp]: "catchE (raise e) h = h e"
  by (simp add: catchE_def fun_eq_iff)

lemma bindE_assoc: "bindE (bindE m f) g = bindE m (\<lambda>a. bindE (f a) g)"
  by (auto simp: bindE_def fun_eq_iff split: prod.split sum.split)

definition is_ok :: "'e + 'a \<Rightarrow> bool" where
  "is_ok r = (case r of Inl _ \<Rightarrow> False | Inr _ \<Rightarrow> True)"

lemma is_ok_simps [simp]: "is_ok (Inr a)" "\<not> is_ok (Inl e)"
  by (simp_all add: is_ok_def)

lemma is_ok_iff: "is_ok r \<longleftrightarrow> (\<exists>a. r = Inr a)"
  by (cases r) simp_all

section \<open>Dictionaries\<close>

text \<open>
  A Python \<open>dict\<close> iterates in insertion order and assignment to a present key keeps its
  place. That is \<open>AList.update\<close>; \<open>pop\<close> is \<open>AList.delete\<close> and a lookup is \<open>map_of\<close>.
\<close>

type_synonym ('k, 'v) dict = "('k \<times> 'v) list"

abbreviation dict_get :: "('k, 'v) dict \<Rightarrow> 'k \<Rightarrow> 'v option" where
  "dict_get \<equiv> map_of"

abbreviation dict_set :: "'k \<Rightarrow> 'v \<Rightarrow> ('k, 'v) dict \<Rightarrow> ('k, 'v) dict" where
  "dict_set \<equiv> AList.update"

abbreviation dict_pop :: "'k \<Rightarrow> ('k, 'v) dict \<Rightarrow> ('k, 'v) dict" where
  "dict_pop \<equiv> AList.delete"

abbreviation dict_ok :: "('k, 'v) dict \<Rightarrow> bool" where
  "dict_ok d \<equiv> distinct (map fst d)"

lemma dict_get_set [simp, dict_simps]: "dict_get (dict_set k v d) = (dict_get d)(k \<mapsto> v)"
  by (simp add: update_conv')

lemma dict_get_pop [simp, dict_simps]: "dict_get (dict_pop k d) = (dict_get d)(k := None)"
  by (simp add: delete_conv')

lemma dict_ok_set [simp, inv_intros]: "dict_ok d \<Longrightarrow> dict_ok (dict_set k v d)"
  by (rule distinct_update)

lemma dict_ok_pop [simp, inv_intros]: "dict_ok d \<Longrightarrow> dict_ok (dict_pop k d)"
  by (rule distinct_delete)

lemma dict_get_Some_in: "dict_get d k = Some v \<Longrightarrow> (k, v) \<in> set d"
  by (rule map_of_SomeD)

lemma dict_get_iff_in: "dict_ok d \<Longrightarrow> dict_get d k = Some v \<longleftrightarrow> (k, v) \<in> set d"
  by (rule map_of_eq_Some_iff)

lemma dict_set_present: "k \<in> fst ` set d \<Longrightarrow> map fst (dict_set k v d) = map fst d"
  by (simp add: update_keys)

lemma dict_get_append: "k \<notin> fst ` set d \<Longrightarrow> dict_set k v d = d @ [(k, v)]"
  by (induction d) auto

lemma dict_get_rev: "dict_ok d \<Longrightarrow> dict_get (rev d) = dict_get d"
  by (simp add: map_of_inject_set rev_map [symmetric])

text \<open>A loop of assignments \<open>d[k(x)] = f(x)\<close>.\<close>

lemma dict_get_fold_set:
  "dict_get (fold (\<lambda>x. dict_set (k x) (f x)) xs d) i =
     (case map_of (rev (map (\<lambda>x. (k x, f x)) xs)) i of Some v \<Rightarrow> Some v | None \<Rightarrow> dict_get d i)"
  by (induction xs arbitrary: d) (auto simp: map_add_def split: option.splits)

lemma dict_get_fold_set_distinct:
  assumes "distinct (map k xs)"
  shows "dict_get (fold (\<lambda>x. dict_set (k x) (f x)) xs d) i =
     (case find (\<lambda>x. k x = i) xs of Some x \<Rightarrow> Some (f x) | None \<Rightarrow> dict_get d i)"
  using assms
proof (induction xs arbitrary: d)
  case (Cons x xs)
  have "find (\<lambda>y. k y = i) xs = None" if "k x = i"
    using Cons.prems that by (force simp: find_None_iff image_iff)
  then show ?case using Cons by (auto split: option.split)
qed simp

lemma dict_ok_fold_set: "dict_ok d \<Longrightarrow> dict_ok (fold (\<lambda>x. dict_set (k x) (f x)) xs d)"
  by (induction xs arbitrary: d) simp_all

lemma dict_ok_fold_pop: "dict_ok d \<Longrightarrow> dict_ok (fold (\<lambda>x. dict_pop (k x)) xs d)"
  by (induction xs arbitrary: d) simp_all

lemma dict_get_fold_pop:
  "dict_get (fold (\<lambda>x. dict_pop (k x)) xs d) i = (if i \<in> k ` set xs then None else dict_get d i)"
  by (induction xs arbitrary: d) auto

lemma find_Some_distinct:
  assumes "distinct (map k xs)" and "x \<in> set xs"
  shows "find (\<lambda>y. k y = k x) xs = Some x"
  using assms by (induction xs) (auto simp: image_iff)

section \<open>Slices\<close>

text \<open>\<open>xs[:i]\<close> and \<open>xs[i:]\<close>: a negative index counts from the end, both are clipped.\<close>

definition slice_index :: "nat \<Rightarrow> int \<Rightarrow> nat" where
  "slice_index n i = (if i < 0 then nat (int n + i) else min (nat i) n)"

definition py_take :: "int \<Rightarrow> 'a list \<Rightarrow> 'a list" where
  "py_take i xs = take (slice_index (length xs) i) xs"

definition py_drop :: "int \<Rightarrow> 'a list \<Rightarrow> 'a list" where
  "py_drop i xs = drop (slice_index (length xs) i) xs"

lemma py_take_nonneg: "0 \<le> i \<Longrightarrow> py_take i xs = take (nat i) xs"
  by (simp add: py_take_def slice_index_def min_def)

lemma set_py_take: "set (py_take i xs) \<subseteq> set xs"
  by (simp add: py_take_def set_take_subset)

lemma length_py_take: "0 \<le> i \<Longrightarrow> length (py_take i xs) = min (nat i) (length xs)"
  by (auto simp: py_take_nonneg)

lemma distinct_map_py_take: "distinct (map f xs) \<Longrightarrow> distinct (map f (py_take i xs))"
  by (simp add: py_take_def take_map [symmetric])

section \<open>Stable sort and folds\<close>

lemma distinct_map_sort_key: "distinct (map f xs) \<Longrightarrow> distinct (map f (sort_key g xs))"
  by (simp add: distinct_map)

lemma sorted_take_le_drop:
  assumes "sorted (map g xs)" and "x \<in> set (take n xs)" and "y \<in> set (drop n xs)"
  shows "g x \<le> g y"
proof -
  have "sorted (map g (take n xs) @ map g (drop n xs))"
    using assms(1) by (simp add: map_append [symmetric] del: map_append)
  then show ?thesis
    using assms(2,3) by (auto simp: sorted_append)
qed

lemma fold_invariant_list:
  assumes "P s" and "\<And>x s. x \<in> set xs \<Longrightarrow> P s \<Longrightarrow> P (f x s)"
  shows "P (fold f xs s)"
  using assms by (induction xs arbitrary: s) auto

end
