(* ===== verification/Types.thy ===== *)
theory Types
  imports Prelude Complex_Main
begin

text \<open>
  The data model: enums (\<open>enums.py\<close>), dataclasses (\<open>types.py\<close>), policy configuration
  (\<open>config.py\<close>) and the exception hierarchy (\<open>exceptions.py\<close>).
  Field names are the source's; a field whose name is shared by several dataclasses carries a
  short prefix of its class (\<open>att_\<close>, \<open>res_\<close>, \<open>out_\<close>, \<open>sub_\<close>).
  Text (\<open>str\<close>) is a list of code points below 256 and \<open>bytes\<close> a list of bytes, both as
  \<open>char list\<close>. A timezone-aware \<open>datetime\<close> is its instant, an \<open>int\<close> number of
  microseconds since 1970-01-01 UTC (the resolution of \<open>datetime\<close>); a duration in seconds
  is read by \<open>seconds\<close>. A \<open>float\<close> is the rational number it stands for.
\<close>

type_synonym time = int
type_synonym bytes = "char list"

definition seconds :: "int \<Rightarrow> time" where
  "seconds n = n * 1000000"

text \<open>What a \<open>datetime\<close> can hold: the years 1 to 9999.\<close>

definition valid_instant :: "time \<Rightarrow> bool" where
  "valid_instant t \<longleftrightarrow> seconds (- 62135596800) \<le> t \<and> t < seconds 253402300800"

lemma seconds_mono [simp]: "seconds a \<le> seconds b \<longleftrightarrow> a \<le> b"
  by (simp add: seconds_def)

lemma seconds_nonneg [simp]: "0 \<le> seconds a \<longleftrightarrow> 0 \<le> a"
  by (simp add: seconds_def)

section \<open>Enums\<close>

datatype WebhookScope = TENANT | GLOBAL

datatype DeliveryStatus =
  PENDING | IN_FLIGHT | SENT | FAILED_RETRY | DEAD_LETTERED | CANCELLED

datatype SubscriptionStatus = ACTIVE | PAUSED | DELETED

datatype RetryReason =
  HTTP_5XX | HTTP_408 | HTTP_429 | NETWORK_ERROR | TIMEOUT
| NON_RETRYABLE_4XX | PAYLOAD_TOO_LARGE | BLOCKED_IP_AT_SEND

datatype InvalidTargetReason =
  BAD_SCHEME | NOT_HTTPS | UNRESOLVABLE | PRIVATE_IP | LOOPBACK | LINK_LOCAL | CGNAT | ULA
| MULTICAST | RESERVED | NAT64 | SIX_TO_FOUR | BLOCKED_HOST | HAS_CREDENTIALS | PREFLIGHT_FAILED

text \<open>The string values the enums are stored and logged as.\<close>

fun status_value :: "DeliveryStatus \<Rightarrow> string" where
  "status_value PENDING = ''pending''"
| "status_value IN_FLIGHT = ''in_flight''"
| "status_value SENT = ''sent''"
| "status_value FAILED_RETRY = ''failed_retry''"
| "status_value DEAD_LETTERED = ''dead_lettered''"
| "status_value CANCELLED = ''cancelled''"

fun reason_value :: "InvalidTargetReason \<Rightarrow> string" where
  "reason_value BAD_SCHEME = ''bad_scheme''"
| "reason_value NOT_HTTPS = ''not_https''"
| "reason_value UNRESOLVABLE = ''unresolvable''"
| "reason_value PRIVATE_IP = ''private_ip''"
| "reason_value LOOPBACK = ''loopback''"
| "reason_value LINK_LOCAL = ''link_local''"
| "reason_value CGNAT = ''cgnat''"
| "reason_value ULA = ''ula''"
| "reason_value MULTICAST = ''multicast''"
| "reason_value RESERVED = ''reserved''"
| "reason_value NAT64 = ''nat64''"
| "reason_value SIX_TO_FOUR = ''six_to_four''"
| "reason_value BLOCKED_HOST = ''blocked_host''"
| "reason_value HAS_CREDENTIALS = ''has_credentials''"
| "reason_value PREFLIGHT_FAILED = ''preflight_failed''"

text \<open>\<open>DeliveryStatus(value)\<close>: the reverse lookup a store makes when it reads a row.\<close>

definition status_of_value :: "string \<Rightarrow> DeliveryStatus option" where
  "status_of_value v =
     find (\<lambda>st. status_value st = v)
       [PENDING, IN_FLIGHT, SENT, FAILED_RETRY, DEAD_LETTERED, CANCELLED]"

lemma status_of_value_value [simp]: "status_of_value (status_value st) = Some st"
  by (cases st) (simp_all add: status_of_value_def)

lemma status_of_value_Some: "status_of_value v = Some st \<Longrightarrow> status_value st = v"
  by (auto simp: status_of_value_def split: if_splits)

section \<open>Exceptions\<close>

text \<open>
  The package's own exceptions, the builtins its code relies on catching or letting through,
  and the three cases of an HTTP failure it tells apart. \<open>Other\<close> is any further exception
  of a collaborator, by class name and text.
\<close>

datatype exc =
  ValueError string
| WebhookStartupError string
| WebhookMetaMissing string
| UnknownEventName string
| WebhookPermissionDenied string
| SubscriptionLimitExceeded string
| EventLimitExceeded string
| DeliveryInFlight string
| TypeError string
| KeyError string
| OverflowError
| InvalidWebhookTarget InvalidTargetReason string
| UnknownProfile string
| IncompleteProfiles "string list"
| DeliveryNotFound string
| SubscriptionNotFound string
| WebhookEventCollision string string string
| WebhookTenantFieldMissing string string string
| SignatureVerificationError string
| WebhookVerificationError string
| HttpTimeout string string
| HttpRequestError string string
| Other string string

text \<open>\<open>exc.__class__.__name__\<close>.\<close>

fun exc_class_name :: "exc \<Rightarrow> string" where
  "exc_class_name (ValueError _) = ''ValueError''"
| "exc_class_name (TypeError _) = ''TypeError''"
| "exc_class_name (WebhookStartupError _) = ''WebhookStartupError''"
| "exc_class_name (WebhookMetaMissing _) = ''WebhookMetaMissing''"
| "exc_class_name (UnknownEventName _) = ''UnknownEventName''"
| "exc_class_name (WebhookPermissionDenied _) = ''WebhookPermissionDenied''"
| "exc_class_name (SubscriptionLimitExceeded _) = ''SubscriptionLimitExceeded''"
| "exc_class_name (EventLimitExceeded _) = ''EventLimitExceeded''"
| "exc_class_name (DeliveryInFlight _) = ''DeliveryInFlight''"
| "exc_class_name (KeyError _) = ''KeyError''"
| "exc_class_name OverflowError = ''OverflowError''"
| "exc_class_name (InvalidWebhookTarget _ _) = ''InvalidWebhookTarget''"
| "exc_class_name (UnknownProfile _) = ''UnknownProfile''"
| "exc_class_name (IncompleteProfiles _) = ''IncompleteProfiles''"
| "exc_class_name (DeliveryNotFound _) = ''DeliveryNotFound''"
| "exc_class_name (SubscriptionNotFound _) = ''SubscriptionNotFound''"
| "exc_class_name (WebhookEventCollision _ _ _) = ''WebhookEventCollision''"
| "exc_class_name (WebhookTenantFieldMissing _ _ _) = ''WebhookTenantFieldMissing''"
| "exc_class_name (SignatureVerificationError _) = ''SignatureVerificationError''"
| "exc_class_name (WebhookVerificationError _) = ''WebhookVerificationError''"
| "exc_class_name (HttpTimeout c _) = c"
| "exc_class_name (HttpRequestError c _) = c"
| "exc_class_name (Other c _) = c"

text \<open>\<open>str(exc)\<close> (a \<open>!r\<close> field is the text in quotes, without escapes): the message the constructor passes to \<open>Exception.__init__\<close>.\<close>

fun join :: "string \<Rightarrow> string list \<Rightarrow> string" where
  "join sep [] = []"
| "join sep [x] = x"
| "join sep (x # y # xs) = x @ sep @ join sep (y # xs)"

definition quoted :: "string \<Rightarrow> string" where
  "quoted s = [CHR 0x27] @ s @ [CHR 0x27]"

fun exc_text :: "exc \<Rightarrow> string" where
  "exc_text (ValueError m) = m"
| "exc_text (TypeError m) = m"
| "exc_text (WebhookStartupError m) = m"
| "exc_text (WebhookMetaMissing m) = m"
| "exc_text (UnknownEventName m) = m"
| "exc_text (WebhookPermissionDenied m) = m"
| "exc_text (SubscriptionLimitExceeded m) = m"
| "exc_text (EventLimitExceeded m) = m"
| "exc_text (DeliveryInFlight m) = m"
| "exc_text (KeyError k) = quoted k"
| "exc_text OverflowError = ''(34, '' @ quoted ''Numerical result out of range'' @ '')''"
| "exc_text (InvalidWebhookTarget r d) = (if d = [] then reason_value r else d)"
| "exc_text (UnknownProfile n) = ''unknown delivery profile '' @ quoted n"
| "exc_text (IncompleteProfiles ms) = ''no delivery profile for '' @ join '', '' ms"
| "exc_text (DeliveryNotFound _) = []"
| "exc_text (SubscriptionNotFound _) = []"
| "exc_text (WebhookEventCollision n a b) = n @ '': '' @ a @ '' vs '' @ b"
| "exc_text (WebhookTenantFieldMissing n c f) =
     n @ '': event class '' @ c @ '' has no attribute '' @ quoted f"
| "exc_text (SignatureVerificationError m) = m"
| "exc_text (WebhookVerificationError m) = m"
| "exc_text (HttpTimeout _ m) = m"
| "exc_text (HttpRequestError _ m) = m"
| "exc_text (Other _ m) = m"

text \<open>
  The class attributes \<open>status_code\<close> and \<open>error_code\<close> of the package's exceptions; the other
  classes have none.
\<close>

fun error_meta :: "exc \<Rightarrow> (int \<times> string) option" where
  "error_meta (WebhookStartupError _) = Some (500, ''WEBHOOK_STARTUP_ERROR'')"
| "error_meta (WebhookMetaMissing _) = Some (500, ''WEBHOOK_META_MISSING'')"
| "error_meta (WebhookEventCollision _ _ _) = Some (500, ''WEBHOOK_EVENT_COLLISION'')"
| "error_meta (WebhookTenantFieldMissing _ _ _) = Some (500, ''WEBHOOK_TENANT_FIELD_MISSING'')"
| "error_meta (UnknownEventName _) = Some (400, ''WEBHOOK_UNKNOWN_EVENT'')"
| "error_meta (InvalidWebhookTarget _ _) = Some (400, ''WEBHOOK_INVALID_TARGET'')"
| "error_meta (WebhookPermissionDenied _) = Some (403, ''WEBHOOK_FORBIDDEN'')"
| "error_meta (SubscriptionLimitExceeded _) = Some (409, ''WEBHOOK_SUBSCRIPTION_LIMIT'')"
| "error_meta (EventLimitExceeded _) = Some (409, ''WEBHOOK_EVENT_LIMIT'')"
| "error_meta (SubscriptionNotFound _) = Some (404, ''WEBHOOK_SUBSCRIPTION_NOT_FOUND'')"
| "error_meta (DeliveryNotFound _) = Some (404, ''WEBHOOK_DELIVERY_NOT_FOUND'')"
| "error_meta (DeliveryInFlight _) = Some (409, ''WEBHOOK_DELIVERY_IN_FLIGHT'')"
| "error_meta (IncompleteProfiles _) = Some (500, ''WEBHOOK_INCOMPLETE_PROFILES'')"
| "error_meta (UnknownProfile _) = Some (500, ''WEBHOOK_UNKNOWN_PROFILE'')"
| "error_meta _ = None"

section \<open>Dataclasses\<close>

definition DEFAULT_PROFILE :: string where
  "DEFAULT_PROFILE = ''default''"

record AttemptRecord =
  att_attempt :: int
  att_attempted_at :: time
  att_http_code :: "int option"
  att_duration_ms :: int
  att_error :: "string option"
  att_response_snippet :: string
  att_response_body :: bytes
  att_response_truncated :: bool

record DeliveryRecord =
  delivery_id :: string
  subscription_id :: string
  owner_id :: string
  event_name :: string
  event_id :: string
  schema_version :: string
  tenant_id :: "string option"
  data_json :: bytes
  emitted_at :: time
  target_url :: string
  resolved_ip :: string
  redelivery_of :: "string option"
  attempts :: int
  fire_at :: time
  created_at :: time
  status :: DeliveryStatus
  profile :: string
  secret_version :: "string option"

record HttpSendResult =
  res_status :: int
  res_headers :: "(string, string) dict"
  res_body_snippet :: string
  res_duration_ms :: int
  res_body :: bytes
  res_body_truncated :: bool

record DispatchOutcome =
  out_status :: DeliveryStatus
  out_next_fire_at :: "time option"
  out_attempt :: AttemptRecord

record SignatureHeaders =
  webhook_id :: string
  webhook_event :: string
  webhook_event_id :: string
  webhook_timestamp :: string
  webhook_signature :: string

definition as_dict :: "SignatureHeaders \<Rightarrow> (string, string) dict" where
  "as_dict h =
     [(''Webhook-Id'', webhook_id h),
      (''Webhook-Event'', webhook_event h),
      (''Webhook-Event-Id'', webhook_event_id h),
      (''Webhook-Timestamp'', webhook_timestamp h),
      (''Webhook-Signature'', webhook_signature h),
      (''Content-Type'', ''application/json'')]"

record ResolvedTarget =
  rt_host :: string
  rt_port :: int
  rt_scheme :: string
  rt_ips :: "string list"

section \<open>Configuration\<close>

record WebhookRetryConfig =
  max_attempts :: int
  base_delay_s :: rat
  backoff_factor :: rat
  max_delay_s :: rat
  jitter_pct :: rat

definition default_retry :: WebhookRetryConfig where
  "default_retry = \<lparr>max_attempts = 8, base_delay_s = 5, backoff_factor = 2, max_delay_s = 3600,
     jitter_pct = 3602879701896397 / 2 ^ 54\<rparr>"

text \<open>
  A subscription as the fan-out sees it. \<open>retry_overrides\<close> is carried and never read.
\<close>

record SubscriptionSnapshot =
  sub_id :: string
  sub_owner_id :: string
  sub_url :: string
  sub_resolved_ip :: string
  sub_retry_overrides :: "WebhookRetryConfig option"

record WebhookSecurityConfig =
  require_https_in_prod :: bool
  allow_http_in_dev :: bool
  blocked_cidrs :: "string list"
  allowed_hosts :: "string list option"
  trusted_private_hosts :: "string list"
  preflight_enabled :: bool
  preflight_timeout_s :: rat
  signature_window_s :: int
  max_response_bytes :: int
  secret_cache_ttl_s :: rat
  revalidate_every_s :: int
  revalidate_batch_size :: int
  max_resolve_failures :: int

definition default_blocked_cidrs :: "string list" where
  "default_blocked_cidrs =
     [''0.0.0.0/8'', ''::/128'', ''127.0.0.0/8'', ''10.0.0.0/8'', ''172.16.0.0/12'',
      ''192.168.0.0/16'', ''169.254.0.0/16'', ''100.64.0.0/10'', ''198.18.0.0/15'',
      ''224.0.0.0/4'', ''240.0.0.0/4'', ''255.255.255.255/32'', ''::1/128'', ''fc00::/7'',
      ''fe80::/10'', ''ff00::/8'', ''64:ff9b::/96'', ''2002::/16'', ''::ffff:0:0/96'']"

definition default_security :: WebhookSecurityConfig where
  "default_security = \<lparr>require_https_in_prod = True, allow_http_in_dev = True,
     blocked_cidrs = default_blocked_cidrs, allowed_hosts = None, trusted_private_hosts = [],
     preflight_enabled = True, preflight_timeout_s = 3, signature_window_s = 300,
     max_response_bytes = 8 * 1024, secret_cache_ttl_s = 5, revalidate_every_s = 3600,
     revalidate_batch_size = 100, max_resolve_failures = 3\<rparr>"

record WebhookLimitsConfig =
  max_subscriptions_per_user :: int
  max_events_per_subscription :: int
  per_host_concurrency :: int
  http_connect_timeout_s :: rat
  http_read_timeout_s :: rat
  http_total_timeout_s :: rat
  max_body_bytes :: int

definition default_limits :: WebhookLimitsConfig where
  "default_limits = \<lparr>max_subscriptions_per_user = 10, max_events_per_subscription = 50,
     per_host_concurrency = 3, http_connect_timeout_s = 5, http_read_timeout_s = 10,
     http_total_timeout_s = 15, max_body_bytes = 64 * 1024\<rparr>"

record WebhookDispatchConfig =
  enabled :: bool
  poll_interval_s :: rat
  batch_size :: int
  worker_concurrency :: int
  lease_ttl_s :: int
  reclaim_after_s :: int
  max_unhandled_attempts :: int
  drain_timeout_s :: rat
  on_outcome_timeout_s :: rat

definition default_dispatch :: WebhookDispatchConfig where
  "default_dispatch = \<lparr>enabled = True, poll_interval_s = 1, batch_size = 50,
     worker_concurrency = 20, lease_ttl_s = 30, reclaim_after_s = 60,
     max_unhandled_attempts = 5, drain_timeout_s = 10, on_outcome_timeout_s = 5\<rparr>"

record WebhookStorageConfig =
  key_prefix :: string
  retention_sent_s :: int
  retention_dead_s :: int
  attempts_history_limit :: int
  recent_stream_maxlen :: int
  idempotency_ttl_s :: int

definition default_storage :: WebhookStorageConfig where
  "default_storage = \<lparr>key_prefix = ''wh'', retention_sent_s = 7 * 86400,
     retention_dead_s = 30 * 86400, attempts_history_limit = 20, recent_stream_maxlen = 50,
     idempotency_ttl_s = 24 * 3600\<rparr>"

record WebhookPolicyConfig =
  cfg_retry :: WebhookRetryConfig
  cfg_security :: WebhookSecurityConfig
  cfg_limits :: WebhookLimitsConfig
  cfg_dispatch :: WebhookDispatchConfig
  cfg_storage :: WebhookStorageConfig

definition DEFAULT_WEBHOOK_POLICY :: WebhookPolicyConfig where
  "DEFAULT_WEBHOOK_POLICY = \<lparr>cfg_retry = default_retry, cfg_security = default_security,
     cfg_limits = default_limits, cfg_dispatch = default_dispatch,
     cfg_storage = default_storage\<rparr>"

end
