(* ===== verification/PyStr.thy ===== *)
theory PyStr
  imports Prelude
begin

text \<open>
  The \<open>str\<close> operations of the language the program uses, on code points below 256
  (Latin-1, which is also what an HTTP header decodes to): case folding, stripping, splitting,
  the character classes, \<open>int(s)\<close>, \<open>str(n)\<close> and UTF-8 encoding.
\<close>

section \<open>Character classes\<close>

abbreviation ord :: "char \<Rightarrow> nat" where
  "ord c \<equiv> of_char c"

definition is_space :: "char \<Rightarrow> bool" where
  "is_space c \<longleftrightarrow> (let n = ord c in (9 \<le> n \<and> n \<le> 13) \<or> (28 \<le> n \<and> n \<le> 32) \<or> n = 133 \<or> n = 160)"

definition is_ascii :: "char \<Rightarrow> bool" where
  "is_ascii c \<longleftrightarrow> ord c < 128"

definition is_decimal :: "char \<Rightarrow> bool" where
  "is_decimal c \<longleftrightarrow> 48 \<le> ord c \<and> ord c \<le> 57"

text \<open>
  \<open>str.isdigit\<close> is wider than the decimal digits: the superscripts two, three and one
  (178, 179, 185) count, although \<open>int\<close> and \<open>float\<close> refuse them.
\<close>

definition is_digit :: "char \<Rightarrow> bool" where
  "is_digit c \<longleftrightarrow> is_decimal c \<or> ord c \<in> {178, 179, 185}"

definition is_alpha_ascii :: "char \<Rightarrow> bool" where
  "is_alpha_ascii c \<longleftrightarrow> (65 \<le> ord c \<and> ord c \<le> 90) \<or> (97 \<le> ord c \<and> ord c \<le> 122)"

definition isdigit :: "string \<Rightarrow> bool" where
  "isdigit s \<longleftrightarrow> s \<noteq> [] \<and> list_all is_digit s"

definition isascii :: "string \<Rightarrow> bool" where
  "isascii s \<longleftrightarrow> list_all is_ascii s"

definition lower_char :: "char \<Rightarrow> char" where
  "lower_char c =
     (let n = ord c in
      if (65 \<le> n \<and> n \<le> 90) \<or> (192 \<le> n \<and> n \<le> 222 \<and> n \<noteq> 215) then char_of (n + 32) else c)"

definition lower :: "string \<Rightarrow> string" where
  "lower = map lower_char"

lemma lower_Nil [simp]: "lower [] = []"
  by (simp add: lower_def)

lemma lower_char_idem [simp]: "lower_char (lower_char c) = lower_char c"
proof -
  have "of_char (char_of (n + 32) :: char) = n + 32" if "n < 224" for n :: nat
    using that by (simp add: of_char_of)
  then show ?thesis
    by (auto simp: lower_char_def Let_def)
qed

lemma ord_lower_char:
  "ord (lower_char c) =
     (if (65 \<le> ord c \<and> ord c \<le> 90) \<or> (192 \<le> ord c \<and> ord c \<le> 222 \<and> ord c \<noteq> 215)
      then ord c + 32 else ord c)"
  by (auto simp: lower_char_def Let_def)

text \<open>Folding the case never produces a character that is no letter.\<close>

lemma lower_char_eq_iff:
  assumes "ord d < 97"
  shows "lower_char c = d \<longleftrightarrow> c = d \<and> \<not> (65 \<le> ord d \<and> ord d \<le> 90)"
proof
  assume "lower_char c = d"
  then have "ord (lower_char c) = ord d" by simp
  then show "c = d \<and> \<not> (65 \<le> ord d \<and> ord d \<le> 90)"
    using assms by (auto simp: ord_lower_char split: if_splits)
next
  assume "c = d \<and> \<not> (65 \<le> ord d \<and> ord d \<le> 90)"
  then show "lower_char c = d"
    using assms by (auto simp: lower_char_def Let_def)
qed

lemma lower_idem [simp]: "lower (lower s) = lower s"
  by (simp add: lower_def)

lemma lower_append [simp]: "lower (s @ t) = lower s @ lower t"
  by (simp add: lower_def)

section \<open>Stripping, splitting, partitioning\<close>

definition lstrip_by :: "(char \<Rightarrow> bool) \<Rightarrow> string \<Rightarrow> string" where
  "lstrip_by p s = dropWhile p s"

definition rstrip_by :: "(char \<Rightarrow> bool) \<Rightarrow> string \<Rightarrow> string" where
  "rstrip_by p s = rev (dropWhile p (rev s))"

definition strip :: "string \<Rightarrow> string" where
  "strip s = rstrip_by is_space (lstrip_by is_space s)"

lemma strip_no_space:
  assumes "list_all (\<lambda>c. \<not> is_space c) s"
  shows "strip s = s"
proof -
  have "dropWhile is_space t = t" if "list_all (\<lambda>c. \<not> is_space c) t" for t
    using that by (cases t) simp_all
  from this [of s] this [of "rev s"] assms show ?thesis
    by (simp add: strip_def rstrip_by_def lstrip_by_def)
qed

text \<open>\<open>s.partition(c)\<close> and \<open>s.rpartition(c)\<close> for a one-character separator.\<close>

fun partition_at :: "char \<Rightarrow> string \<Rightarrow> string \<times> bool \<times> string" where
  "partition_at c [] = ([], False, [])"
| "partition_at c (x # xs) =
     (if x = c then ([], True, xs)
      else (case partition_at c xs of (a, found, b) \<Rightarrow> (x # a, found, b)))"

definition rpartition_at :: "char \<Rightarrow> string \<Rightarrow> string \<times> bool \<times> string" where
  "rpartition_at c s =
     (case partition_at c (rev s) of (b, found, a) \<Rightarrow>
        if found then (rev a, True, rev b) else ([], False, s))"

lemma partition_at_append:
  "c \<notin> set a \<Longrightarrow> partition_at c (a @ c # b) = (a, True, b)"
  by (induction a) auto

lemma partition_at_absent: "c \<notin> set s \<Longrightarrow> partition_at c s = (s, False, [])"
  by (induction s) auto

lemma rpartition_at_absent: "c \<notin> set s \<Longrightarrow> rpartition_at c s = ([], False, s)"
  by (simp add: rpartition_at_def partition_at_absent)

text \<open>\<open>s.split(c)\<close>: always at least one part.\<close>

fun split_on :: "char \<Rightarrow> string \<Rightarrow> string list" where
  "split_on c [] = [[]]"
| "split_on c (x # xs) =
     (if x = c then [] # split_on c xs
      else (case split_on c xs of [] \<Rightarrow> [[x]] | p # ps \<Rightarrow> (x # p) # ps))"

text \<open>\<open>s.split()\<close>: the maximal runs of non-space characters.\<close>

fun words_from :: "string \<Rightarrow> string \<Rightarrow> string list" where
  "words_from acc [] = (if acc = [] then [] else [rev acc])"
| "words_from acc (x # xs) =
     (if is_space x then (if acc = [] then words_from [] xs else rev acc # words_from [] xs)
      else words_from (x # acc) xs)"

definition words :: "string \<Rightarrow> string list" where
  "words s = words_from [] s"

lemma words_from_no_space:
  "list_all (\<lambda>c. \<not> is_space c) s \<Longrightarrow>
   words_from acc s = (if acc = [] \<and> s = [] then [] else [rev acc @ s])"
  by (induction s arbitrary: acc) auto

lemma words_from_space:
  "list_all (\<lambda>c. \<not> is_space c) s \<Longrightarrow> is_space c \<Longrightarrow> rev acc @ s \<noteq> [] \<Longrightarrow>
   words_from acc (s @ c # t) = (rev acc @ s) # words_from [] t"
  by (induction s arbitrary: acc) auto

lemma words_single: "list_all (\<lambda>c. \<not> is_space c) s \<Longrightarrow> s \<noteq> [] \<Longrightarrow> words s = [s]"
  by (simp add: words_def words_from_no_space)

lemma words_two:
  "list_all (\<lambda>c. \<not> is_space c) s \<Longrightarrow> s \<noteq> [] \<Longrightarrow> list_all (\<lambda>c. \<not> is_space c) t \<Longrightarrow> t \<noteq> [] \<Longrightarrow>
   words (s @ CHR '' '' # t) = [s, t]"
  by (simp add: words_def words_from_space is_space_def words_from_no_space)

definition starts_with :: "string \<Rightarrow> string \<Rightarrow> bool" where
  "starts_with p s \<longleftrightarrow> take (length p) s = p"

definition ends_with :: "string \<Rightarrow> string \<Rightarrow> bool" where
  "ends_with p s \<longleftrightarrow> length p \<le> length s \<and> drop (length s - length p) s = p"

lemma ends_with_iff: "ends_with p s \<longleftrightarrow> (\<exists>t. s = t @ p)"
  by (auto simp: ends_with_def) (metis append_take_drop_id)

section \<open>Integers and text\<close>

definition digit_char :: "nat \<Rightarrow> char" where
  "digit_char n = char_of (48 + n)"

definition digit_val :: "char \<Rightarrow> nat" where
  "digit_val c = ord c - 48"

fun str_nat :: "nat \<Rightarrow> string" where
  "str_nat n = (if n < 10 then [digit_char n] else str_nat (n div 10) @ [digit_char (n mod 10)])"

declare str_nat.simps [simp del]

definition str_int :: "int \<Rightarrow> string" where
  "str_int i = (if i < 0 then CHR ''-'' # str_nat (nat (- i)) else str_nat (nat i))"

text \<open>
  The digits of an \<open>int\<close> literal: single underscores are allowed between digits. The flag
  says that the previous character was a digit.
\<close>

fun digits_value :: "nat \<Rightarrow> bool \<Rightarrow> string \<Rightarrow> nat option" where
  "digits_value acc after_digit [] = (if after_digit then Some acc else None)"
| "digits_value acc after_digit (c # cs) =
     (if is_decimal c then digits_value (acc * 10 + digit_val c) True cs
      else if c = CHR ''_'' \<and> after_digit then digits_value acc False cs
      else None)"

text \<open>The interpreter refuses more than 4300 digits (\<open>sys.get_int_max_str_digits()\<close>).\<close>

definition max_str_digits :: nat where
  "max_str_digits = 4300"

definition unsigned_value :: "string \<Rightarrow> nat option" where
  "unsigned_value s =
     (if max_str_digits < length (filter is_decimal s) then None else digits_value 0 False s)"

text \<open>\<open>int(s)\<close>; \<open>None\<close> stands for the \<open>ValueError\<close>.\<close>

definition py_int :: "string \<Rightarrow> int option" where
  "py_int s =
     (case strip s of
        [] \<Rightarrow> None
      | c # cs \<Rightarrow>
          if c = CHR ''-'' then map_option (\<lambda>n. - int n) (unsigned_value cs)
          else if c = CHR ''+'' then map_option int (unsigned_value cs)
          else map_option int (unsigned_value (c # cs)))"

lemma is_decimal_digit_char [simp]: "n < 10 \<Longrightarrow> is_decimal (digit_char n)"
  by (simp add: is_decimal_def digit_char_def of_char_of)

lemma digit_val_digit_char [simp]: "n < 10 \<Longrightarrow> digit_val (digit_char n) = n"
  by (simp add: digit_val_def digit_char_def of_char_of)

lemma is_decimal_not_space: "is_decimal c \<Longrightarrow> \<not> is_space c"
  by (auto simp: is_decimal_def is_space_def Let_def)

lemma is_decimal_ascii: "is_decimal c \<Longrightarrow> is_ascii c"
  by (simp add: is_decimal_def is_ascii_def)

lemma is_decimal_not_sign: "is_decimal c \<Longrightarrow> c \<noteq> CHR ''-'' \<and> c \<noteq> CHR ''+'' \<and> c \<noteq> CHR ''.''"
  by (auto simp: is_decimal_def)

lemma str_nat_not_Nil [simp]: "str_nat n \<noteq> []"
  by (subst str_nat.simps) simp

lemma str_nat_decimal: "list_all is_decimal (str_nat n)"
proof (induction n rule: str_nat.induct)
  case (1 n)
  then show ?case by (subst str_nat.simps) (auto simp: Let_def)
qed

lemma str_nat_length: "n < 10 ^ k \<Longrightarrow> 0 < k \<Longrightarrow> length (str_nat n) \<le> k"
proof (induction n arbitrary: k rule: str_nat.induct)
  case (1 n k)
  show ?case
  proof (cases "n < 10")
    case True
    with 1 show ?thesis by (subst str_nat.simps) simp
  next
    case False
    with "1.prems" obtain j where k: "k = Suc j" "0 < j"
      by (cases k; cases "k - 1") auto
    with "1.prems" have "n div 10 < 10 ^ j"
      by (simp add: less_mult_imp_div_less mult.commute)
    from "1.IH" [OF False this k(2)] False k(1) show ?thesis
      by (subst str_nat.simps) simp
  qed
qed

lemma digits_value_append:
  "list_all is_decimal xs \<Longrightarrow> xs \<noteq> [] \<Longrightarrow>
   digits_value acc b (xs @ ys)
     = digits_value (foldl (\<lambda>a c. a * 10 + digit_val c) acc xs) True ys"
proof (induction xs arbitrary: acc b)
  case Nil
  then show ?case by simp
next
  case (Cons x xs)
  then show ?case by (cases "xs = []") simp_all
qed

lemma foldl_str_nat: "foldl (\<lambda>a c. a * 10 + digit_val c) 0 (str_nat n) = n"
proof (induction n rule: str_nat.induct)
  case (1 n)
  then show ?case
    by (subst str_nat.simps) (auto simp: Let_def)
qed

lemma digits_value_str_nat: "digits_value 0 False (str_nat n) = Some n"
  using digits_value_append [of "str_nat n" 0 False "[]"]
  by (simp add: str_nat_decimal foldl_str_nat)

lemma unsigned_value_str_nat:
  "length (str_nat n) \<le> max_str_digits \<Longrightarrow> unsigned_value (str_nat n) = Some n"
  using str_nat_decimal [of n]
  by (simp add: unsigned_value_def digits_value_str_nat filter_id_conv list.pred_set)

lemma max_str_digits_pos: "0 < max_str_digits"
  by (simp add: max_str_digits_def)

text \<open>\<open>int(str(i)) == i\<close> while the digit limit is respected.\<close>

lemma py_int_str_int:
  assumes "\<bar>i\<bar> < 10 ^ max_str_digits"
  shows "py_int (str_int i) = Some i"
proof -
  define n where "n = nat \<bar>i\<bar>"
  have n: "n < 10 ^ max_str_digits"
    using assms by (simp add: n_def nat_less_iff)
  have u: "unsigned_value (str_nat n) = Some n"
    using n max_str_digits_pos by (intro unsigned_value_str_nat str_nat_length)
  have dec: "list_all (\<lambda>c. \<not> is_space c) (str_nat n)"
    using str_nat_decimal [of n] by (auto simp: list.pred_set is_decimal_not_space)
  have strip: "strip (str_nat n) = str_nat n" "strip (CHR ''-'' # str_nat n) = CHR ''-'' # str_nat n"
    using dec by (simp_all add: strip_no_space is_space_def)
  obtain c cs where c: "str_nat n = c # cs" "is_decimal c"
    using str_nat_decimal [of n] by (cases "str_nat n") auto
  show ?thesis
  proof (cases "i < 0")
    case True
    with strip(2) u show ?thesis
      by (simp add: py_int_def str_int_def n_def)
  next
    case False
    with strip(1) u c is_decimal_not_sign [OF c(2)] show ?thesis
      by (simp add: py_int_def str_int_def n_def)
  qed
qed

lemma str_int_chars: "c \<in> set (str_int i) \<Longrightarrow> is_decimal c \<or> c = CHR ''-''"
  using str_nat_decimal by (auto simp: str_int_def list.pred_set split: if_splits)

lemma str_int_not_Nil [simp]: "str_int i \<noteq> []"
  by (simp add: str_int_def)

lemma str_nat_inject: "str_nat m = str_nat n \<longleftrightarrow> m = n"
  by (metis foldl_str_nat)

lemma str_int_inject: "str_int i = str_int j \<longleftrightarrow> i = j"
proof
  have no_minus: "str_nat n \<noteq> CHR ''-'' # t" for n t
    using str_nat_decimal [of n] is_decimal_not_sign [of "CHR ''-''"] by auto
  assume "str_int i = str_int j"
  then show "i = j"
    using no_minus no_minus [symmetric]
    by (auto simp: str_int_def str_nat_inject split: if_splits)
qed simp

section \<open>UTF-8\<close>

text \<open>\<open>s.encode()\<close> of a text whose code points are below 256.\<close>

definition utf8_char :: "char \<Rightarrow> char list" where
  "utf8_char c =
     (let n = ord c in
      if n < 128 then [c] else [char_of (192 + n div 64), char_of (128 + n mod 64 :: nat)])"

definition encode :: "string \<Rightarrow> char list" where
  "encode s = concat (map utf8_char s)"

lemma encode_ascii: "isascii s \<Longrightarrow> encode s = s"
  by (induction s) (auto simp: encode_def isascii_def utf8_char_def is_ascii_def Let_def)

lemma of_char_less_256: "(of_char c :: nat) < 256"
  using range_nat_of_char by (auto simp: set_eq_iff)

lemma utf8_char_prefix_free:
  assumes "utf8_char c @ s = utf8_char d @ t"
  shows "c = d \<and> s = t"
proof -
  have hi: "of_char (char_of (192 + n div 64) :: char) = 192 + n div 64"
    and lo: "of_char (char_of (128 + n mod 64) :: char) = 128 + n mod 64" if "n < 256" for n :: nat
    using that by (auto simp: of_char_of)
  have inj: "x = y" if "ord x = (ord y :: nat)" for x y :: char
    using that by simp
  have bounds: "ord c < (256 :: nat)" "ord d < (256 :: nat)"
    by (rule of_char_less_256)+
  show ?thesis
  proof (cases "ord c < (128::nat)"; cases "ord d < (128::nat)")
    assume "ord c < (128::nat)" "ord d < (128::nat)"
    with assms show ?thesis by (simp add: utf8_char_def)
  next
    assume a: "ord c < (128::nat)" "\<not> ord d < (128::nat)"
    with assms have "c = char_of (192 + ord d div 64 :: nat)" by (simp add: utf8_char_def Let_def)
    with a hi [OF bounds(2)] show ?thesis by simp
  next
    assume a: "\<not> ord c < (128::nat)" "ord d < (128::nat)"
    with assms have "d = char_of (192 + ord c div 64 :: nat)" by (simp add: utf8_char_def Let_def)
    with a hi [OF bounds(1)] show ?thesis by simp
  next
    assume a: "\<not> ord c < (128::nat)" "\<not> ord d < (128::nat)"
    with assms have
      "char_of (192 + ord c div 64 :: nat) = (char_of (192 + ord d div 64 :: nat) :: char)"
      "char_of (128 + ord c mod 64 :: nat) = (char_of (128 + ord d mod 64 :: nat) :: char)"
      and st: "s = t"
      by (simp_all add: utf8_char_def Let_def)
    then have "192 + ord c div 64 = (192 + ord d div 64 :: nat)"
      and "128 + ord c mod 64 = (128 + ord d mod 64 :: nat)"
      using hi [OF bounds(1)] hi [OF bounds(2)] lo [OF bounds(1)] lo [OF bounds(2)] by metis+
    then have "ord c = (ord d :: nat)"
      by (metis add_left_cancel div_mult_mod_eq)
    with st inj show ?thesis by blast
  qed
qed

lemma encode_inject: "encode s = encode t \<longleftrightarrow> s = t"
proof
  have ne: "utf8_char c \<noteq> []" for c by (simp add: utf8_char_def Let_def)
  show "encode s = encode t \<Longrightarrow> s = t"
  proof (induction s arbitrary: t)
    case Nil
    then show ?case using ne by (cases t) (auto simp: encode_def)
  next
    case (Cons c s)
    then obtain d u where t: "t = d # u"
      using ne by (cases t) (auto simp: encode_def)
    with Cons.prems have "utf8_char c @ encode s = utf8_char d @ encode u"
      by (simp add: encode_def)
    from utf8_char_prefix_free [OF this] Cons.IH t show ?case by simp
  qed
qed simp

end
