(* ===== verification/IpAddr.thy ===== *)
theory IpAddr
  imports PyStr "HOL-Library.Word"
begin

unbundle bit_operations_syntax

text \<open>
  What the program uses of \<open>ipaddress\<close>: parsing of IPv4 and IPv6 text, networks in CIDR form
  with host bits masked (\<open>strict=False\<close>), membership, the IPv4-mapped unwrapping and the
  address classes. An address keeps its width: \<open>32 word\<close> and \<open>128 word\<close>.
\<close>

section \<open>Addresses\<close>

datatype addr = V4 "32 word" | V6 "128 word"

text \<open>\<open>IPv4Address(s)\<close>: four decimal octets, no leading zero, at most three digits each.\<close>

definition decimal_value :: "string \<Rightarrow> int" where
  "decimal_value s = foldl (\<lambda>a c. a * 10 + int (digit_val c)) 0 s"

definition parse_octet :: "string \<Rightarrow> int option" where
  "parse_octet s =
     (if s = [] \<or> \<not> list_all is_decimal s \<or> 3 < length s then None
      else if s \<noteq> ''0'' \<and> hd s = CHR ''0'' then None
      else if 255 < decimal_value s then None
      else Some (decimal_value s))"

definition horner :: "int \<Rightarrow> int list \<Rightarrow> int" where
  "horner b ds = foldl (\<lambda>a d. a * b + d) 0 ds"

definition parse_ipv4 :: "string \<Rightarrow> 32 word option" where
  "parse_ipv4 s =
     (let parts = split_on CHR ''.'' s in
      if length parts \<noteq> 4 then None
      else map_option (\<lambda>ds. word_of_int (horner 256 ds)) (those (map parse_octet parts)))"

text \<open>One group of an IPv6 address: one to four hexadecimal digits.\<close>

definition hex_val :: "char \<Rightarrow> int option" where
  "hex_val c =
     (let n = of_char c in
      if 48 \<le> n \<and> n \<le> 57 then Some (n - 48)
      else if 97 \<le> n \<and> n \<le> 102 then Some (n - 87)
      else if 65 \<le> n \<and> n \<le> 70 then Some (n - 55)
      else None)"

definition parse_hextet :: "string \<Rightarrow> int option" where
  "parse_hextet s =
     (if s = [] \<or> 4 < length s then None
      else map_option (horner 16) (those (map hex_val s)))"

text \<open>
  The parts of the text between colons: a dotted suffix becomes its two groups; \<open>None\<close> when
  the suffix is not an IPv4 address. A group computed from the suffix is kept as a number.
\<close>

datatype v6part = Txt string | Num int

fun part_value :: "v6part \<Rightarrow> int option" where
  "part_value (Txt s) = parse_hextet s"
| "part_value (Num n) = Some n"

definition v6_parts :: "string \<Rightarrow> v6part list option" where
  "v6_parts s =
     (let parts = split_on CHR '':'' s in
      if length parts < 3 then None
      else if CHR ''.'' \<in> set (last parts) then
        (case parse_ipv4 (last parts) of
           None \<Rightarrow> None
         | Some w \<Rightarrow> Some (map Txt (butlast parts) @ [Num (uint w div 65536), Num (uint w mod 65536)]))
      else Some (map Txt parts))"

text \<open>
  The positions of an empty part that is neither first nor last: where \<open>::\<close> skipped zeroes.
\<close>

definition skip_indices :: "v6part list \<Rightarrow> nat list" where
  "skip_indices parts = filter (\<lambda>i. parts ! i = Txt []) [1..<length parts - 1]"

definition hextets :: "v6part list \<Rightarrow> int list option" where
  "hextets parts =
     (case skip_indices parts of
        [] \<Rightarrow> if length parts = 8 then those (map part_value parts) else None
      | [i] \<Rightarrow>
          (let lead = (hd parts = Txt []); trail = (last parts = Txt []);
               hi = i - (if lead then 1 else 0);
               lo = length parts - i - 1 - (if trail then 1 else 0) in
           if (lead \<and> hi \<noteq> 0) \<or> (trail \<and> lo \<noteq> 0) then None
           else if 8 < hi + lo + 1 then None
           else
             (case (those (map part_value (take hi parts)),
                    those (map part_value (drop (length parts - lo) parts))) of
                (Some a, Some b) \<Rightarrow> Some (a @ replicate (8 - (hi + lo)) 0 @ b)
              | _ \<Rightarrow> None))
      | _ \<Rightarrow> None)"

text \<open>\<open>IPv6Address(s)\<close>: a scope suffix \<open>%zone\<close> is accepted and plays no part in membership.\<close>

definition parse_ipv6 :: "string \<Rightarrow> 128 word option" where
  "parse_ipv6 s =
     (case partition_at CHR ''%'' s of (a, scoped, zone) \<Rightarrow>
        if CHR ''/'' \<in> set s \<or> (scoped \<and> (zone = [] \<or> CHR ''%'' \<in> set zone)) then None
        else
          (case v6_parts a of
             None \<Rightarrow> None
           | Some parts \<Rightarrow>
               if 9 < length parts then None
               else map_option (\<lambda>hs. word_of_int (horner 65536 hs)) (hextets parts)))"

text \<open>\<open>ipaddress.ip_address(s)\<close>; \<open>None\<close> stands for the \<open>ValueError\<close>.\<close>

definition ip_address :: "string \<Rightarrow> addr option" where
  "ip_address s =
     (case parse_ipv4 s of
        Some w \<Rightarrow> Some (V4 w)
      | None \<Rightarrow> map_option V6 (parse_ipv6 s))"

section \<open>Networks\<close>

text \<open>A network of width \<open>'w\<close> is its base address and prefix length.\<close>

type_synonym 'w net = "'w word \<times> nat"

definition netmask :: "nat \<Rightarrow> 'w::len word" where
  "netmask n = NOT (mask (LENGTH('w) - n))"

text \<open>\<open>ip in net\<close>: the masked address is the masked base.\<close>

definition in_net :: "'w::len word \<Rightarrow> 'w net \<Rightarrow> bool" where
  "in_net a net = (a AND netmask (snd net) = fst net AND netmask (snd net))"

text \<open>
  The prefix of an IPv4 network is a length, a netmask or a hostmask; of an IPv6 network a
  length. Without a prefix the network is the single address.
\<close>

definition prefix_length :: "nat \<Rightarrow> string \<Rightarrow> nat option" where
  "prefix_length width s =
     (if s \<noteq> [] \<and> list_all is_decimal s \<and> decimal_value s \<le> int width then Some (nat (decimal_value s))
      else None)"

definition prefix_of_mask :: "32 word \<Rightarrow> nat option" where
  "prefix_of_mask w =
     (case find (\<lambda>n. netmask n = w) [0..<33] of
        Some n \<Rightarrow> Some n
      | None \<Rightarrow> find (\<lambda>n. netmask n = NOT w) [0..<33])"

definition parse_prefix4 :: "string \<Rightarrow> nat option" where
  "parse_prefix4 s =
     (case prefix_length 32 s of
        Some n \<Rightarrow> Some n
      | None \<Rightarrow> Option.bind (parse_ipv4 s) prefix_of_mask)"

definition IPv4Network :: "string \<Rightarrow> 32 net option" where
  "IPv4Network s =
     (case split_on CHR ''/'' s of
        [a] \<Rightarrow> map_option (\<lambda>w. (w, 32)) (parse_ipv4 a)
      | [a, p] \<Rightarrow>
          (case (parse_ipv4 a, parse_prefix4 p) of
             (Some w, Some n) \<Rightarrow> Some (w AND netmask n, n)
           | _ \<Rightarrow> None)
      | _ \<Rightarrow> None)"

definition IPv6Network :: "string \<Rightarrow> 128 net option" where
  "IPv6Network s =
     (case split_on CHR ''/'' s of
        [a] \<Rightarrow> map_option (\<lambda>w. (w, 128)) (parse_ipv6 a)
      | [a, p] \<Rightarrow>
          (case (parse_ipv6 a, prefix_length 128 p) of
             (Some w, Some n) \<Rightarrow> Some (w AND netmask n, n)
           | _ \<Rightarrow> None)
      | _ \<Rightarrow> None)"

section \<open>Membership is a range of addresses\<close>

lemma in_net_bits:
  fixes a :: "'w::len word"
  shows "in_net a (b, n) \<longleftrightarrow> (\<forall>i < LENGTH('w). LENGTH('w) - n \<le> i \<longrightarrow> bit a i = bit b i)"
  by (auto simp: in_net_def netmask_def bit_eq_iff bit_simps)

lemma in_net_drop_bit:
  fixes a :: "'w::len word"
  shows "in_net a (b, n) \<longleftrightarrow> drop_bit (LENGTH('w) - n) a = drop_bit (LENGTH('w) - n) b"
    (is "_ \<longleftrightarrow> ?R")
proof -
  let ?k = "LENGTH('w) - n"
  have "?R \<longleftrightarrow> (\<forall>j. bit (drop_bit ?k a) j = bit (drop_bit ?k b) j)"
    by (metis bit_eqI)
  also have "\<dots> \<longleftrightarrow> (\<forall>j. bit a (?k + j) = bit b (?k + j))"
    by (simp add: bit_drop_bit_eq)
  also have "\<dots> \<longleftrightarrow> (\<forall>i. ?k \<le> i \<longrightarrow> bit a i = bit b i)"
    by (metis le_add_diff_inverse le_add1)
  also have "\<dots> \<longleftrightarrow> in_net a (b, n)"
    by (auto simp: in_net_bits) (meson bit_imp_le_length not_le)+
  finally show ?thesis by simp
qed

lemma in_net_unat:
  fixes a :: "'w::len word"
  shows "in_net a (b, n) \<longleftrightarrow> unat a div 2 ^ (LENGTH('w) - n) = unat b div 2 ^ (LENGTH('w) - n)"
  by (simp add: in_net_drop_bit word_unat_eq_iff unat_drop_bit_eq drop_bit_nat_def)

lemma div_eq_range: "0 < d \<Longrightarrow> (x div d = q) \<longleftrightarrow> q * d \<le> x \<and> x < (q + 1) * d" for x d q :: nat
  by (metis Suc_eq_plus1 div_le_mono div_less_iff_less_mult div_mult_self_is_m le_antisym
      less_Suc_eq_le less_eq_div_iff_mult_less_eq order_refl)

text \<open>
  A network whose base has no host bits is the block of \<open>2 ^ (width - n)\<close> consecutive addresses
  from its base.
\<close>

lemma in_net_range:
  fixes a :: "'w::len word"
  assumes "unat b mod 2 ^ (LENGTH('w) - n) = 0"
  shows "in_net a (b, n) \<longleftrightarrow> unat b \<le> unat a \<and> unat a < unat b + 2 ^ (LENGTH('w) - n)"
proof -
  let ?d = "2 ^ (LENGTH('w) - n) :: nat"
  have b: "unat b = unat b div ?d * ?d"
    using assms by (metis add.right_neutral div_mult_mod_eq)
  have "in_net a (b, n) \<longleftrightarrow> unat b div ?d * ?d \<le> unat a \<and> unat a < (unat b div ?d + 1) * ?d"
    unfolding in_net_unat by (rule div_eq_range) simp
  then show ?thesis
    using b by (simp add: algebra_simps)
qed

section \<open>Classes of addresses\<close>

text \<open>\<open>ipv4_mapped\<close>: the low 32 bits of an address in \<open>::ffff:0:0/96\<close>.\<close>

definition ipv4_mapped :: "128 word \<Rightarrow> 32 word option" where
  "ipv4_mapped w = (if drop_bit 32 w = 65535 then Some (ucast w) else None)"

definition v4_mapped_addr :: "32 word \<Rightarrow> 128 word" where
  "v4_mapped_addr w = push_bit 32 65535 OR ucast w"

lemma ipv4_mapped_of_v4 [simp]: "ipv4_mapped (v4_mapped_addr w) = Some w"
proof -
  have "drop_bit 32 (v4_mapped_addr w) = 65535"
    by (rule bit_word_eqI) (auto simp: v4_mapped_addr_def bit_simps dest: bit_imp_le_length)
  moreover have "ucast (v4_mapped_addr w) = w"
    by (rule bit_word_eqI)
      (auto simp: v4_mapped_addr_def bit_simps simp del: push_bit_numeral)
  ultimately show ?thesis by (simp add: ipv4_mapped_def)
qed

fun is_loopback :: "addr \<Rightarrow> bool" where
  "is_loopback (V4 w) = in_net w (0x7F000000, 8)"
| "is_loopback (V6 w) = (w = 1)"

fun is_link_local :: "addr \<Rightarrow> bool" where
  "is_link_local (V4 w) = in_net w (0xA9FE0000, 16)"
| "is_link_local (V6 w) = in_net w (0xFE80 * 2 ^ 112, 10)"

fun is_multicast :: "addr \<Rightarrow> bool" where
  "is_multicast (V4 w) = in_net w (0xE0000000, 4)"
| "is_multicast (V6 w) = in_net w (0xFF00 * 2 ^ 112, 8)"

definition reserved_networks6 :: "128 net list" where
  "reserved_networks6 =
     [(0, 8), (0x0100 * 2 ^ 112, 8), (0x0200 * 2 ^ 112, 7), (0x0400 * 2 ^ 112, 6),
      (0x0800 * 2 ^ 112, 5), (0x1000 * 2 ^ 112, 4), (0x4000 * 2 ^ 112, 3), (0x6000 * 2 ^ 112, 3),
      (0x8000 * 2 ^ 112, 3), (0xA000 * 2 ^ 112, 3), (0xC000 * 2 ^ 112, 3), (0xE000 * 2 ^ 112, 4),
      (0xF000 * 2 ^ 112, 5), (0xF800 * 2 ^ 112, 6), (0xFE00 * 2 ^ 112, 9)]"

fun is_reserved :: "addr \<Rightarrow> bool" where
  "is_reserved (V4 w) = in_net w (0xF0000000, 4)"
| "is_reserved (V6 w) = list_ex (in_net w) reserved_networks6"

end
