(* ===== verification/UrlSplit.thy ===== *)
theory UrlSplit
  imports IpAddr
begin

text \<open>
  What the program uses of \<open>urllib.parse\<close>: \<open>urlsplit\<close> and the \<open>hostname\<close>, \<open>port\<close>,
  \<open>username\<close> and \<open>password\<close> properties of its result. \<open>urlsplit\<close> raises \<open>ValueError\<close>
  on unbalanced or invalid brackets, and so does \<open>port\<close> on a port that is not a number up
  to 65535. The NFKC check of the network location accepts every code point below 256.
\<close>

record split_result =
  scheme :: string
  netloc :: string
  url_path :: string
  url_query :: string
  url_fragment :: string

definition is_c0_or_space :: "char \<Rightarrow> bool" where
  "is_c0_or_space c \<longleftrightarrow> ord c \<le> 32"

definition is_unsafe_url_byte :: "char \<Rightarrow> bool" where
  "is_unsafe_url_byte c \<longleftrightarrow> ord c \<in> {9, 10, 13}"

definition is_scheme_char :: "char \<Rightarrow> bool" where
  "is_scheme_char c \<longleftrightarrow> is_alpha_ascii c \<or> is_decimal c \<or> c \<in> {CHR ''+'', CHR ''-'', CHR ''.''}"

definition is_hex_digit :: "char \<Rightarrow> bool" where
  "is_hex_digit c \<longleftrightarrow> hex_val c \<noteq> None"

definition split_scheme :: "string \<Rightarrow> string \<times> string" where
  "split_scheme url =
     (case partition_at CHR '':'' url of (s, found, rest) \<Rightarrow>
        if found \<and> s \<noteq> [] \<and> is_alpha_ascii (hd s) \<and> list_all is_scheme_char s then (lower s, rest)
        else ([], url))"

text \<open>The content of a bracketed host: \<open>vHEX.rest\<close>, or an IPv6 address.\<close>

definition bracketed_host_ok :: "string \<Rightarrow> bool" where
  "bracketed_host_ok h =
     (if h \<noteq> [] \<and> hd h = CHR ''v'' then
        (case partition_at CHR ''.'' (tl h) of (v, found, rest) \<Rightarrow>
           found \<and> v \<noteq> [] \<and> list_all is_hex_digit v \<and> rest \<noteq> [] \<and> CHR 0x0A \<notin> set rest)
      else (case ip_address h of Some (V6 _) \<Rightarrow> True | _ \<Rightarrow> False))"

definition host_and_port :: "string \<Rightarrow> string" where
  "host_and_port nl = (case rpartition_at CHR ''@'' nl of (_, _, h) \<Rightarrow> h)"

definition bracketed_netloc_ok :: "string \<Rightarrow> bool" where
  "bracketed_netloc_ok nl =
     (case partition_at CHR ''['' (host_and_port nl) of (front, found, bracketed) \<Rightarrow>
        if found then
          front = [] \<and>
          (case partition_at CHR '']'' bracketed of (h, _, port) \<Rightarrow>
             (port = [] \<or> hd port = CHR '':'') \<and> bracketed_host_ok h)
        else (case partition_at CHR '':'' (host_and_port nl) of (h, _, _) \<Rightarrow> bracketed_host_ok h))"

definition netloc_ok :: "string \<Rightarrow> bool" where
  "netloc_ok nl =
     (let opened = CHR ''['' \<in> set nl; closed = CHR '']'' \<in> set nl in
      opened = closed \<and> (opened \<longrightarrow> bracketed_netloc_ok nl))"

text \<open>\<open>urlsplit(url)\<close>; \<open>None\<close> stands for the \<open>ValueError\<close>.\<close>

definition urlsplit :: "string \<Rightarrow> split_result option" where
  "urlsplit url0 =
     (let url1 = filter (\<lambda>c. \<not> is_unsafe_url_byte c) (lstrip_by is_c0_or_space url0);
          (sch, url2) = split_scheme url1;
          has_netloc = starts_with ''//'' url2;
          delim = (\<lambda>c. c \<in> {CHR ''/'', CHR ''?'', CHR ''#''});
          nl = (if has_netloc then takeWhile (\<lambda>c. \<not> delim c) (drop 2 url2) else []);
          url3 = (if has_netloc then dropWhile (\<lambda>c. \<not> delim c) (drop 2 url2) else url2);
          (url4, _, frag) = partition_at CHR ''#'' url3;
          (pth, _, qry) = partition_at CHR ''?'' url4
      in if netloc_ok nl then
           Some \<lparr>scheme = sch, netloc = nl, url_path = pth, url_query = qry, url_fragment = frag\<rparr>
         else None)"

definition hostinfo :: "split_result \<Rightarrow> string \<times> string option" where
  "hostinfo p =
     (let hp = host_and_port (netloc p);
          (_, found, bracketed) = partition_at CHR ''['' hp;
          (h, _, port) =
            (if found then
               (case partition_at CHR '']'' bracketed of (h, _, r) \<Rightarrow>
                  (case partition_at CHR '':'' r of (_, f, pt) \<Rightarrow> (h, f, pt)))
             else partition_at CHR '':'' hp)
      in (h, if port = [] then None else Some port))"

text \<open>\<open>hostname\<close>: lower case, but for the zone of a scoped address.\<close>

definition hostname :: "split_result \<Rightarrow> string option" where
  "hostname p =
     (case fst (hostinfo p) of
        [] \<Rightarrow> None
      | c # cs \<Rightarrow>
          (case partition_at CHR ''%'' (c # cs) of (h, found, zone) \<Rightarrow>
             Some (lower h @ (if found then CHR ''%'' # zone else []))))"

text \<open>\<open>port\<close>: the outer \<open>None\<close> stands for the \<open>ValueError\<close>.\<close>

definition port_of :: "split_result \<Rightarrow> int option option" where
  "port_of p =
     (case snd (hostinfo p) of
        None \<Rightarrow> Some None
      | Some s \<Rightarrow>
          if list_all is_decimal s \<and> length s \<le> max_str_digits \<and> decimal_value s \<le> 65535
          then Some (Some (decimal_value s))
          else None)"

definition username :: "split_result \<Rightarrow> string option" where
  "username p =
     (case rpartition_at CHR ''@'' (netloc p) of (userinfo, found, _) \<Rightarrow>
        if found then Some (fst (partition_at CHR '':'' userinfo)) else None)"

definition password :: "split_result \<Rightarrow> string option" where
  "password p =
     (case rpartition_at CHR ''@'' (netloc p) of (userinfo, found, _) \<Rightarrow>
        (case partition_at CHR '':'' userinfo of (_, has_pw, pw) \<Rightarrow>
           if found \<and> has_pw then Some pw else None))"

text \<open>
  \<open>urlunsplit((scheme, netloc, path, query, fragment))\<close> for the parts of a split URL that had a
  network location.
\<close>

definition urlunsplit :: "split_result \<Rightarrow> string" where
  "urlunsplit p =
     (let url1 = (if netloc p \<noteq> [] then
                    ''//'' @ netloc p @
                    (if url_path p \<noteq> [] \<and> hd (url_path p) \<noteq> CHR ''/'' then CHR ''/'' # url_path p
                     else url_path p)
                  else url_path p);
          url2 = (if scheme p \<noteq> [] then scheme p @ '':'' @ url1 else url1);
          url3 = (if url_query p \<noteq> [] then url2 @ ''?'' @ url_query p else url2)
      in (if url_fragment p \<noteq> [] then url3 @ ''#'' @ url_fragment p else url3))"

lemma port_of_range: "port_of p = Some (Some n) \<Longrightarrow> 0 \<le> n \<and> n \<le> 65535"
proof -
  have "0 \<le> decimal_value s" for s
  proof -
    have "0 \<le> a \<Longrightarrow> 0 \<le> foldl (\<lambda>a c. a * 10 + int (digit_val c)) a s" for a
      by (induction s arbitrary: a) auto
    then show ?thesis by (simp add: decimal_value_def)
  qed
  then show "port_of p = Some (Some n) \<Longrightarrow> ?thesis"
    by (auto simp: port_of_def split: option.splits if_splits)
qed

section \<open>Splitting what was joined\<close>

definition is_delim :: "char \<Rightarrow> bool" where
  "is_delim c \<longleftrightarrow> c \<in> {CHR ''/'', CHR ''?'', CHR ''#''}"

definition plain :: "string \<Rightarrow> bool" where
  "plain s \<longleftrightarrow> list_all (\<lambda>c. \<not> is_unsafe_url_byte c) s"

lemma plain_simps [simp]:
  "plain []" "plain (c # s) \<longleftrightarrow> \<not> is_unsafe_url_byte c \<and> plain s" "plain (s @ t) \<longleftrightarrow> plain s \<and> plain t"
  by (simp_all add: plain_def)

definition scheme_ok :: "string \<Rightarrow> bool" where
  "scheme_ok s \<longleftrightarrow> s = [] \<or> (is_alpha_ascii (hd s) \<and> list_all is_scheme_char s \<and> lower s = s)"

text \<open>What the parts of a split URL with a network location look like.\<close>

definition split_ok :: "split_result \<Rightarrow> bool" where
  "split_ok p \<longleftrightarrow> scheme_ok (scheme p) \<and> netloc p \<noteq> [] \<and> list_all (\<lambda>c. \<not> is_delim c) (netloc p) \<and>
     netloc_ok (netloc p) \<and> (url_path p = [] \<or> hd (url_path p) = CHR ''/'') \<and>
     CHR ''?'' \<notin> set (url_path p) \<and> CHR ''#'' \<notin> set (url_path p) \<and> CHR ''#'' \<notin> set (url_query p) \<and>
     plain (netloc p) \<and> plain (url_path p) \<and> plain (url_query p) \<and> plain (url_fragment p)"

lemma partition_at_parts:
  "partition_at c s = (a, b, r) \<Longrightarrow> c \<notin> set a \<and> set a \<subseteq> set s \<and> set r \<subseteq> set s \<and> s = (if b then a @ c # r else a) \<and> (\<not> b \<longrightarrow> r = [])"
  by (induction s arbitrary: a b r) (auto split: prod.splits if_splits)

lemma plain_sub: "plain s \<Longrightarrow> set t \<subseteq> set s \<Longrightarrow> plain t"
  by (auto simp: plain_def list.pred_set)

lemma scheme_char_lower: "is_scheme_char c \<Longrightarrow> is_scheme_char (lower_char c)"
  by (auto simp: is_scheme_char_def is_alpha_ascii_def is_decimal_def ord_lower_char) (simp_all add: lower_char_def)

lemma alpha_lower: "is_alpha_ascii c \<Longrightarrow> is_alpha_ascii (lower_char c)"
  by (auto simp: is_alpha_ascii_def ord_lower_char)

lemma split_scheme_ok: "split_scheme u = (s, r) \<Longrightarrow> scheme_ok s \<and> set r \<subseteq> set u"
  by (auto simp: split_scheme_def scheme_ok_def lower_def hd_map alpha_lower list.pred_set scheme_char_lower
      split: prod.splits if_splits dest!: partition_at_parts)

lemma urlsplit_split_ok:
  assumes "urlsplit u = Some p" and "netloc p \<noteq> []"
  shows "split_ok p"
proof -
  let ?d = "\<lambda>c. c \<in> {CHR ''/'', CHR ''?'', CHR ''#''}"
  define url1 where "url1 = filter (\<lambda>c. \<not> is_unsafe_url_byte c) (lstrip_by is_c0_or_space u)"
  obtain sch url2 where s: "split_scheme url1 = (sch, url2)" by fastforce
  define nl where "nl = takeWhile (\<lambda>c. \<not> ?d c) (drop 2 url2)"
  define url3 where "url3 = dropWhile (\<lambda>c. \<not> ?d c) (drop 2 url2)"
  obtain url4 b frag where f: "partition_at CHR ''#'' url3 = (url4, b, frag)" by (cases "partition_at CHR ''#'' url3")
  obtain pth b' qry where q: "partition_at CHR ''?'' url4 = (pth, b', qry)" by (cases "partition_at CHR ''?'' url4")
  have p: "p = \<lparr>scheme = sch, netloc = nl, url_path = pth, url_query = qry, url_fragment = frag\<rparr>" "netloc_ok nl"
    using assms s f q by (auto simp: urlsplit_def url1_def [symmetric] nl_def url3_def Let_def split: if_splits prod.splits)
  have plain1: "plain url1" by (auto simp: plain_def url1_def list.pred_set)
  with split_scheme_ok [OF s] have sch: "scheme_ok sch" "plain url2" by (auto intro: plain_sub)
  have parts: "set nl \<subseteq> set url2" "set url3 \<subseteq> set url2"
    by (auto simp: nl_def url3_def dest!: set_takeWhileD set_dropWhileD in_set_dropD)
  have ends: "list_all (\<lambda>c. \<not> is_delim c) nl"
    by (auto simp: nl_def list.pred_set is_delim_def dest!: set_takeWhileD)
  have "url3 = [] \<or> is_delim (hd url3)"
    unfolding url3_def is_delim_def using hd_dropWhile [of "\<lambda>c. \<not> ?d c" "drop 2 url2"] by blast
  then have "pth = [] \<or> hd pth = CHR ''/''"
    using partition_at_parts [OF f] partition_at_parts [OF q]
    by (cases pth; cases url4) (auto simp: is_delim_def split: if_splits)
  moreover have "plain url4" "plain frag"
    using partition_at_parts [OF f] plain_sub [OF plain_sub [OF sch(2) parts(2)]] by blast+
  moreover have "plain pth" "plain qry"
    using partition_at_parts [OF q] plain_sub [OF \<open>plain url4\<close>] by blast+
  moreover have "CHR ''#'' \<notin> set url4" "CHR ''?'' \<notin> set pth" "set pth \<subseteq> set url4" "set qry \<subseteq> set url4"
    using partition_at_parts [OF f] partition_at_parts [OF q] by blast+
  ultimately show ?thesis
    using p sch ends plain_sub [OF sch(2) parts(1)] assms(2) by (auto simp: split_ok_def)
qed

lemma plain_scheme: "scheme_ok s \<Longrightarrow> plain s"
  by (auto simp: scheme_ok_def plain_def list.pred_set is_scheme_char_def is_alpha_ascii_def is_decimal_def is_unsafe_url_byte_def)

lemma urlsplit_urlunsplit:
  assumes "split_ok p"
  shows "urlsplit (urlunsplit p) = Some p"
proof -
  let ?d = "\<lambda>c. c \<in> {CHR ''/'', CHR ''?'', CHR ''#''}"
  define tail where "tail = url_path p @ (if url_query p \<noteq> [] then ''?'' @ url_query p else []) @
    (if url_fragment p \<noteq> [] then ''#'' @ url_fragment p else [])"
  define rest where "rest = ''//'' @ netloc p @ tail"
  have u: "urlunsplit p = (if scheme p \<noteq> [] then scheme p @ CHR '':'' # rest else rest)"
    using assms by (auto simp: urlunsplit_def split_ok_def tail_def rest_def Let_def)
  have "plain (urlunsplit p)"
    using assms plain_scheme by (auto simp: u split_ok_def rest_def tail_def is_unsafe_url_byte_def)
  then have plain: "filter (\<lambda>c. \<not> is_unsafe_url_byte c) (urlunsplit p) = urlunsplit p"
    by (simp add: plain_def list.pred_set filter_id_conv)
  have "urlunsplit p \<noteq> []" "\<not> is_c0_or_space (hd (urlunsplit p))"
    using assms by (auto simp: u split_ok_def scheme_ok_def rest_def is_c0_or_space_def is_alpha_ascii_def)
  then have strip: "lstrip_by is_c0_or_space (urlunsplit p) = urlunsplit p"
    by (cases "urlunsplit p") (auto simp: lstrip_by_def)
  have sch: "split_scheme (urlunsplit p) = (scheme p, rest)"
  proof (cases "scheme p = []")
    case True
    have "fst (partition_at CHR '':'' rest) = [] \<or> hd (fst (partition_at CHR '':'' rest)) = CHR ''/''"
      by (auto simp: rest_def split: prod.splits)
    with True show ?thesis
      by (auto simp: u split_scheme_def is_alpha_ascii_def split: prod.splits)
  next
    case False
    have "CHR '':'' \<notin> set (scheme p)"
      using assms by (auto simp: split_ok_def scheme_ok_def list.pred_set is_scheme_char_def is_alpha_ascii_def is_decimal_def)
    with False show ?thesis
      using assms by (auto simp: u split_scheme_def partition_at_append split_ok_def scheme_ok_def)
  qed
  have tail_delim: "tail = [] \<or> ?d (hd tail)"
    using assms by (cases "url_path p") (auto simp: tail_def split_ok_def)
  have nl: "takeWhile (\<lambda>c. \<not> ?d c) (netloc p @ tail) = netloc p" "dropWhile (\<lambda>c. \<not> ?d c) (netloc p @ tail) = tail"
    using assms tail_delim
    by (cases tail; auto simp: split_ok_def list.pred_set is_delim_def takeWhile_append2 dropWhile_append2)+
  have cut: "partition_at CHR ''#'' tail = (url_path p @ (if url_query p \<noteq> [] then ''?'' @ url_query p else []), url_fragment p \<noteq> [], url_fragment p)"
  proof (cases "url_fragment p = []")
    case True
    then show ?thesis using assms by (auto simp: tail_def split_ok_def intro!: partition_at_absent)
  next
    case False
    have "partition_at CHR ''#'' ((url_path p @ (if url_query p \<noteq> [] then ''?'' @ url_query p else [])) @ CHR ''#'' # url_fragment p)
      = (url_path p @ (if url_query p \<noteq> [] then ''?'' @ url_query p else []), True, url_fragment p)"
      by (rule partition_at_append) (use assms in \<open>auto simp: split_ok_def\<close>)
    with False show ?thesis by (simp add: tail_def)
  qed
  have q: "\<exists>b. partition_at CHR ''?'' (url_path p @ (if url_query p \<noteq> [] then ''?'' @ url_query p else [])) = (url_path p, b, url_query p)"
    using assms by (auto simp: split_ok_def partition_at_append partition_at_absent)
  show ?thesis
    using assms nl cut q
    by (auto simp: urlsplit_def strip plain sch Let_def rest_def starts_with_def split_ok_def)
qed

end
