(* ===== verification/SsrfGuard.thy ===== *)
theory SsrfGuard
  imports Types UrlSplit
begin

text \<open>
  \<open>ssrf_guard.py\<close>: the deny-list of networks, the check of an address (\<open>check_ip\<close>) with the
  per-name exemption, and the check of a whole URL (\<open>validate\<close>).

  \<open>idna\<close>, the codec behind \<open>h.encode("idna")\<close>, is an argument: \<open>None\<close> is its
  \<open>UnicodeError\<close>. What is relied on of it is \<open>idna_ascii\<close>: on ASCII text it returns the text
  unchanged or fails.
\<close>

type_synonym idna = "string \<Rightarrow> string option"

definition idna_ascii :: "idna \<Rightarrow> bool" where
  "idna_ascii idna \<longleftrightarrow> (\<forall>h. isascii h \<longrightarrow> idna h = None \<or> idna h = Some h)"

lemma idna_asciiD: "idna_ascii idna \<Longrightarrow> isascii h \<Longrightarrow> idna h = None \<or> idna h = Some h"
  by (simp add: idna_ascii_def)

section \<open>The deny-list\<close>

record BlockedCidrSet =
  nets_v4 :: "32 net list"
  nets_v6 :: "128 net list"

text \<open>A string that is not a network raises \<open>ValueError\<close>, here \<open>None\<close>.\<close>

fun from_strings :: "string list \<Rightarrow> BlockedCidrSet option" where
  "from_strings [] = Some \<lparr>nets_v4 = [], nets_v6 = []\<rparr>"
| "from_strings (c # cs) =
     (if CHR '':'' \<in> set c then
        (case IPv6Network c of
           None \<Rightarrow> None
         | Some n \<Rightarrow> map_option (\<lambda>b. b\<lparr>nets_v6 := n # nets_v6 b\<rparr>) (from_strings cs))
      else
        (case IPv4Network c of
           None \<Rightarrow> None
         | Some n \<Rightarrow> map_option (\<lambda>b. b\<lparr>nets_v4 := n # nets_v4 b\<rparr>) (from_strings cs)))"

fun contains :: "BlockedCidrSet \<Rightarrow> addr \<Rightarrow> bool" where
  "contains b (V4 w) = list_ex (in_net w) (nets_v4 b)"
| "contains b (V6 w) = list_ex (in_net w) (nets_v6 b)"

record UrlSafetyValidator =
  ssrf_security :: WebhookSecurityConfig
  ssrf_blocked :: BlockedCidrSet

definition mk_validator :: "WebhookSecurityConfig \<Rightarrow> UrlSafetyValidator option" where
  "mk_validator sec =
     map_option (\<lambda>b. \<lparr>ssrf_security = sec, ssrf_blocked = b\<rparr>) (from_strings (blocked_cidrs sec))"

section \<open>Host names\<close>

definition normalise_host :: "idna \<Rightarrow> string \<Rightarrow> string" where
  "normalise_host idna host =
     (let h = lower (rstrip_by (\<lambda>c. c = CHR ''.'') (strip host)) in
      case idna h of Some a \<Rightarrow> lower a | None \<Rightarrow> h)"

definition host_matches :: "idna \<Rightarrow> string \<Rightarrow> string list \<Rightarrow> bool" where
  "host_matches idna host patterns =
     (let h = normalise_host idna host in
      list_ex (\<lambda>pattern.
        let pat = lower pattern in
        if starts_with ''*.'' pat then ends_with (tl pat) h else h = pat) patterns)"

definition is_trusted_private :: "idna \<Rightarrow> string \<Rightarrow> int option \<Rightarrow> string list \<Rightarrow> bool" where
  "is_trusted_private idna host port patterns =
     (let h = normalise_host idna host in
      if h = [] then False
      else
        list_ex (\<lambda>pattern.
          let pat = strip (lower pattern) in
          if CHR '':'' \<in> set pat then
            (case rpartition_at CHR '':'' pat of (pat_host, _, pat_port) \<Rightarrow>
               h = pat_host \<and> map_option str_int port = Some pat_port)
          else h = pat) patterns)"

section \<open>Why an address is blocked\<close>

definition net_cgnat :: "32 net" where
  "net_cgnat = (0x64400000, 10)"

definition net_nat64 :: "128 net" where
  "net_nat64 = (0x0064FF9B * 2 ^ 96, 96)"

definition net_six_to_four :: "128 net" where
  "net_six_to_four = (0x2002 * 2 ^ 112, 16)"

definition net_ula :: "128 net" where
  "net_ula = (0xFC00 * 2 ^ 112, 7)"

fun in_net4 :: "addr \<Rightarrow> 32 net \<Rightarrow> bool" where
  "in_net4 (V4 w) n = in_net w n"
| "in_net4 (V6 _) _ = False"

fun in_net6 :: "addr \<Rightarrow> 128 net \<Rightarrow> bool" where
  "in_net6 (V6 w) n = in_net w n"
| "in_net6 (V4 _) _ = False"

definition reason_of :: "addr \<Rightarrow> InvalidTargetReason" where
  "reason_of a =
     (if is_loopback a then LOOPBACK
      else if is_link_local a then LINK_LOCAL
      else if is_multicast a then MULTICAST
      else if in_net4 a net_cgnat then CGNAT
      else if in_net6 a net_nat64 then NAT64
      else if in_net6 a net_six_to_four then SIX_TO_FOUR
      else if in_net6 a net_ula then ULA
      else if is_reserved a then RESERVED
      else PRIVATE_IP)"

section \<open>Checks\<close>

text \<open>An IPv4-mapped address is judged as the IPv4 address it reaches.\<close>

fun effective_addr :: "addr \<Rightarrow> addr" where
  "effective_addr (V4 w) = V4 w"
| "effective_addr (V6 w) = (case ipv4_mapped w of Some m \<Rightarrow> V4 m | None \<Rightarrow> V6 w)"

definition check_ip ::
  "idna \<Rightarrow> UrlSafetyValidator \<Rightarrow> string \<Rightarrow> string option \<Rightarrow> int option \<Rightarrow> exc + unit" where
  "check_ip idna v ip host port =
     (case ip_address ip of
        None \<Rightarrow> Inl (InvalidWebhookTarget UNRESOLVABLE ''invalid ip'')
      | Some a0 \<Rightarrow>
          (let a = effective_addr a0 in
           if \<not> contains (ssrf_blocked v) a then Inr ()
           else if (case host of
                      None \<Rightarrow> False
                    | Some h \<Rightarrow> is_trusted_private idna h port (trusted_private_hosts (ssrf_security v)))
             then Inr ()
           else Inl (InvalidWebhookTarget (reason_of a)
                       (''blocked ip ('' @ reason_value (reason_of a) @ '')''))))"

definition non_prod_envs :: "string list" where
  "non_prod_envs = [''dev'', ''test'', ''local'', ''testnet'']"

definition check_scheme :: "WebhookSecurityConfig \<Rightarrow> split_result \<Rightarrow> string \<Rightarrow> exc + unit" where
  "check_scheme sec p env =
     (if scheme p \<notin> {''http'', ''https''} then
        Inl (InvalidWebhookTarget BAD_SCHEME (''bad scheme: '' @ scheme p))
      else
        (let is_prod = env \<notin> set non_prod_envs in
         if scheme p = ''http'' \<and> is_prod \<and> require_https_in_prod sec then
           Inl (InvalidWebhookTarget NOT_HTTPS ''https required in prod'')
         else if scheme p = ''http'' \<and> \<not> is_prod \<and> \<not> allow_http_in_dev sec then
           Inl (InvalidWebhookTarget NOT_HTTPS ''http disabled'')
         else Inr ()))"

text \<open>\<open>x or default\<close> for optional text: a missing or empty value is false.\<close>

definition truthy :: "string option \<Rightarrow> bool" where
  "truthy x \<longleftrightarrow> x \<noteq> None \<and> x \<noteq> Some []"

definition check_credentials :: "split_result \<Rightarrow> exc + unit" where
  "check_credentials p =
     (if truthy (username p) \<or> truthy (password p) then
        Inl (InvalidWebhookTarget HAS_CREDENTIALS ''URL must not embed credentials'')
      else Inr ())"

definition check_host_allowlist :: "idna \<Rightarrow> WebhookSecurityConfig \<Rightarrow> split_result \<Rightarrow> exc + unit" where
  "check_host_allowlist idna sec p =
     (case allowed_hosts sec of
        None \<Rightarrow> Inr ()
      | Some allowed \<Rightarrow>
          (case hostname p of
             None \<Rightarrow> Inl (InvalidWebhookTarget BLOCKED_HOST ''missing host'')
           | Some h \<Rightarrow>
               if h = [] then Inl (InvalidWebhookTarget BLOCKED_HOST ''missing host'')
               else if host_matches idna h allowed then Inr ()
               else Inl (InvalidWebhookTarget BLOCKED_HOST
                           (''host not in allow-list: '' @ lower h))))"

fun check_each_ip ::
  "idna \<Rightarrow> UrlSafetyValidator \<Rightarrow> string list \<Rightarrow> string option \<Rightarrow> int option \<Rightarrow> exc + unit" where
  "check_each_ip idna v [] host port = Inr ()"
| "check_each_ip idna v (ip # ips) host port =
     (case check_ip idna v ip host port of
        Inl e \<Rightarrow> Inl e
      | Inr _ \<Rightarrow> check_each_ip idna v ips host port)"

definition check_ips ::
  "idna \<Rightarrow> UrlSafetyValidator \<Rightarrow> string list \<Rightarrow> string option \<Rightarrow> int option \<Rightarrow> exc + unit" where
  "check_ips idna v ips host port =
     (if ips = [] then Inl (InvalidWebhookTarget UNRESOLVABLE ''no resolved IPs'')
      else check_each_ip idna v ips host port)"

text \<open>
  \<open>parsed.port or (443 if parsed.scheme == "https" else 80)\<close>, the port every caller of the guard
  passes; the port 0 is false and takes the default.
\<close>

definition target_port :: "split_result \<Rightarrow> exc + int" where
  "target_port p =
     (case port_of p of
        None \<Rightarrow> Inl (ValueError ''port'')
      | Some po \<Rightarrow>
          (let default = (if scheme p = ''https'' then 443 else 80) in
           Inr (case po of None \<Rightarrow> default | Some n \<Rightarrow> if n = 0 then default else n)))"

definition validate ::
  "idna \<Rightarrow> UrlSafetyValidator \<Rightarrow> string \<Rightarrow> string list \<Rightarrow> string \<Rightarrow> exc + ResolvedTarget" where
  "validate idna v url resolved_ips env =
     (case urlsplit url of
        None \<Rightarrow> Inl (ValueError ''Invalid IPv6 URL'')
      | Some p \<Rightarrow>
          (case check_scheme (ssrf_security v) p env of Inl e \<Rightarrow> Inl e | Inr _ \<Rightarrow>
          (case check_credentials p of Inl e \<Rightarrow> Inl e | Inr _ \<Rightarrow>
          (case check_host_allowlist idna (ssrf_security v) p of Inl e \<Rightarrow> Inl e | Inr _ \<Rightarrow>
          (case target_port p of Inl e \<Rightarrow> Inl e | Inr port \<Rightarrow>
          (case check_ips idna v resolved_ips (hostname p) (Some port) of Inl e \<Rightarrow> Inl e | Inr _ \<Rightarrow>
             Inr \<lparr>rt_host = (case hostname p of None \<Rightarrow> [] | Some h \<Rightarrow> h), rt_port = port,
                  rt_scheme = scheme p, rt_ips = resolved_ips\<rparr>))))))"

section \<open>The shipped deny-list\<close>

definition default_nets_v4 :: "32 net list" where
  "default_nets_v4 =
     [(0x00000000, 8), (0x7F000000, 8), (0x0A000000, 8), (0xAC100000, 12), (0xC0A80000, 16),
      (0xA9FE0000, 16), (0x64400000, 10), (0xC6120000, 15), (0xE0000000, 4), (0xF0000000, 4),
      (0xFFFFFFFF, 32)]"

definition default_nets_v6 :: "128 net list" where
  "default_nets_v6 =
     [(0, 128), (1, 128), (0xFC00 * 2 ^ 112, 7), (0xFE80 * 2 ^ 112, 10), (0xFF00 * 2 ^ 112, 8),
      (0x0064FF9B * 2 ^ 96, 96), (0x2002 * 2 ^ 112, 16), (0xFFFF * 2 ^ 32, 96)]"

lemma from_strings_default:
  "from_strings default_blocked_cidrs
     = Some \<lparr>nets_v4 = default_nets_v4, nets_v6 = default_nets_v6\<rparr>"
  by code_simp

definition default_validator :: UrlSafetyValidator where
  "default_validator =
     \<lparr>ssrf_security = default_security,
      ssrf_blocked = \<lparr>nets_v4 = default_nets_v4, nets_v6 = default_nets_v6\<rparr>\<rparr>"

lemma mk_validator_default: "mk_validator default_security = Some default_validator"
  by (simp add: mk_validator_def default_validator_def default_security_def from_strings_default)

text \<open>The blocked IPv4 addresses as ranges of numbers.\<close>

definition blocked_v4_number :: "nat \<Rightarrow> bool" where
  "blocked_v4_number n \<longleftrightarrow>
     n < 0x01000000 \<or>
     (0x0A000000 \<le> n \<and> n < 0x0B000000) \<or>
     (0x64400000 \<le> n \<and> n < 0x64800000) \<or>
     (0x7F000000 \<le> n \<and> n < 0x80000000) \<or>
     (0xA9FE0000 \<le> n \<and> n < 0xA9FF0000) \<or>
     (0xAC100000 \<le> n \<and> n < 0xAC200000) \<or>
     (0xC0A80000 \<le> n \<and> n < 0xC0A90000) \<or>
     (0xC6120000 \<le> n \<and> n < 0xC6140000) \<or>
     0xE0000000 \<le> n"

lemma contains_default_v4:
  "contains (ssrf_blocked default_validator) (V4 w) \<longleftrightarrow> blocked_v4_number (unat w)"
proof -
  have "unat w < 2 ^ 32"
    using unsigned_less [of w, where ?'a = nat] by simp
  then show ?thesis
    by (auto simp: default_validator_def default_nets_v4_def blocked_v4_number_def in_net_range)
qed

text \<open>The blocked IPv6 addresses, likewise; the mapped range is the last one.\<close>

definition blocked_v6_number :: "nat \<Rightarrow> bool" where
  "blocked_v6_number n \<longleftrightarrow>
     n \<le> 1 \<or>
     (0x0064FF9B * 2 ^ 96 \<le> n \<and> n < 0x0064FF9B * 2 ^ 96 + 2 ^ 32) \<or>
     (0x2002 * 2 ^ 112 \<le> n \<and> n < 0x2003 * 2 ^ 112) \<or>
     (0xFC00 * 2 ^ 112 \<le> n \<and> n < 0xFE00 * 2 ^ 112) \<or>
     (0xFE80 * 2 ^ 112 \<le> n \<and> n < 0xFEC0 * 2 ^ 112) \<or>
     0xFF00 * 2 ^ 112 \<le> n \<or>
     (0xFFFF * 2 ^ 32 \<le> n \<and> n < 0x10000 * 2 ^ 32)"

lemma contains_default_v6:
  "contains (ssrf_blocked default_validator) (V6 w) \<longleftrightarrow> blocked_v6_number (unat w)"
proof -
  have "unat w < 2 ^ 128"
    using unsigned_less [of w, where ?'a = nat] by simp
  then show ?thesis
    by (auto simp: default_validator_def default_nets_v6_def blocked_v6_number_def in_net_range)
qed

fun default_blocked :: "addr \<Rightarrow> bool" where
  "default_blocked (V4 w) = blocked_v4_number (unat w)"
| "default_blocked (V6 w) = blocked_v6_number (unat w)"

lemma contains_default: "contains (ssrf_blocked default_validator) a \<longleftrightarrow> default_blocked a"
  by (cases a) (simp_all add: contains_default_v4 contains_default_v6 del: contains.simps)

section \<open>Lemmas on the checks\<close>

lemma check_ip_Inr_iff:
  "check_ip idna v ip host port = Inr () \<longleftrightarrow>
     (\<exists>a. ip_address ip = Some a \<and>
        (contains (ssrf_blocked v) (effective_addr a) \<longrightarrow>
           (\<exists>h. host = Some h \<and>
              is_trusted_private idna h port (trusted_private_hosts (ssrf_security v)))))"
  by (auto simp: check_ip_def Let_def split: option.splits)

lemma check_ip_cases:
  "check_ip idna v ip host port = Inr () \<or>
   (\<exists>r d. check_ip idna v ip host port = Inl (InvalidWebhookTarget r d))"
  by (auto simp: check_ip_def Let_def split: option.splits)

lemma check_each_ip_Inr:
  "check_each_ip idna v ips host port = Inr () \<longleftrightarrow>
     (\<forall>ip \<in> set ips. check_ip idna v ip host port = Inr ())"
  by (induction ips) (auto split: sum.splits)

lemma check_ips_Inr:
  "check_ips idna v ips host port = Inr () \<longleftrightarrow>
     ips \<noteq> [] \<and> (\<forall>ip \<in> set ips. check_ip idna v ip host port = Inr ())"
  by (simp add: check_ips_def check_each_ip_Inr)

lemma isascii_lower: "isascii s \<Longrightarrow> isascii (lower s)"
  by (induction s)
    (auto simp: isascii_def lower_def lower_char_def is_ascii_def Let_def)

lemma set_rstrip_by: "set (rstrip_by p s) \<subseteq> set s"
  by (auto simp: rstrip_by_def dest: set_dropWhileD)

lemma set_strip: "set (strip s) \<subseteq> set s"
  using set_rstrip_by by (fastforce simp: strip_def lstrip_by_def dest: set_dropWhileD)

lemma isascii_mono: "isascii s \<Longrightarrow> set t \<subseteq> set s \<Longrightarrow> isascii t"
  by (auto simp: isascii_def list.pred_set)

text \<open>On an ASCII name the IDNA fold changes nothing.\<close>

lemma normalise_host_ascii:
  assumes "idna_ascii idna" and "isascii host"
  shows "normalise_host idna host = lower (rstrip_by (\<lambda>c. c = CHR ''.'') (strip host))"
proof -
  let ?h = "lower (rstrip_by (\<lambda>c. c = CHR ''.'') (strip host))"
  have "isascii (rstrip_by (\<lambda>c. c = CHR ''.'') (strip host))"
    using assms(2) set_rstrip_by set_strip by (blast intro: isascii_mono)
  then have "idna ?h = None \<or> idna ?h = Some ?h"
    using assms(1) by (intro idna_asciiD isascii_lower)
  then show ?thesis by (auto simp: normalise_host_def)
qed

lemma is_trusted_private_empty:
  "idna_ascii idna \<Longrightarrow> \<not> is_trusted_private idna [] port pats"
  by (simp add: is_trusted_private_def normalise_host_ascii isascii_def strip_def rstrip_by_def
      lstrip_by_def)

lemma is_trusted_private_no_patterns [simp]: "\<not> is_trusted_private idna h port []"
  by (simp add: is_trusted_private_def Let_def)

lemma target_port_range: "target_port p = Inr n \<Longrightarrow> 1 \<le> n \<and> n \<le> 65535"
  using port_of_range [of p]
  by (fastforce simp: target_port_def Let_def split: option.splits if_splits)

lemma check_scheme_Inr:
  "check_scheme sec p env = Inr () \<Longrightarrow>
     scheme p \<in> {''http'', ''https''} \<and>
     (env \<notin> set non_prod_envs \<and> require_https_in_prod sec \<longrightarrow> scheme p = ''https'')"
  by (auto simp: check_scheme_def Let_def split: if_splits)

lemma check_host_allowlist_Inr:
  "check_host_allowlist idna sec p = Inr () \<Longrightarrow> allowed_hosts sec = Some al \<Longrightarrow>
     (\<exists>h. hostname p = Some h \<and> host_matches idna h al)"
  by (auto simp: check_host_allowlist_def split: option.splits if_splits)

text \<open>What an accepted URL satisfies, collected from the steps of \<open>validate\<close>.\<close>

lemma validate_Inr:
  assumes "validate idna v url ips env = Inr t"
  obtains p where "urlsplit url = Some p" "check_scheme (ssrf_security v) p env = Inr ()"
    "check_credentials p = Inr ()" "check_host_allowlist idna (ssrf_security v) p = Inr ()"
    "target_port p = Inr (rt_port t)"
    "check_ips idna v ips (hostname p) (Some (rt_port t)) = Inr ()"
    "rt_host t = (case hostname p of None \<Rightarrow> [] | Some h \<Rightarrow> h)"
    "rt_scheme t = scheme p" "rt_ips t = ips"
  using assms by (auto simp: validate_def split: option.splits sum.splits)

lemma rpartition_at_append:
  "c \<notin> set b \<Longrightarrow> rpartition_at c (a @ c # b) = (a, True, b)"
  by (simp add: rpartition_at_def partition_at_append)

lemma rpartition_at_found:
  "rpartition_at c s = (a, True, b) \<Longrightarrow> s = a @ c # b"
proof -
  have part: "partition_at c t = (x, True, y) \<Longrightarrow> t = x @ c # y" for t x y
    by (induction t arbitrary: x) (auto split: if_splits prod.splits)
  show "rpartition_at c s = (a, True, b) \<Longrightarrow> s = a @ c # b"
    by (auto simp: rpartition_at_def split: prod.splits if_splits dest!: part)
      (metis rev_append rev.simps(2) append.assoc append_Cons append_Nil rev_rev_ident)
qed

lemma rpartition_at_present: "c \<in> set s \<Longrightarrow> \<exists>a b. rpartition_at c s = (a, True, b)"
proof -
  have part: "c \<in> set t \<Longrightarrow> \<exists>a b. partition_at c t = (a, True, b)" for t
    by (induction t) (auto split: prod.splits)
  show "c \<in> set s \<Longrightarrow> ?thesis"
    using part [of "rev s"] by (auto simp: rpartition_at_def)
qed

lemma str_int_no_colon: "CHR '':'' \<notin> set (str_int n)"
  using str_int_chars [of "CHR '':''" n] by (auto simp: is_decimal_def)

text \<open>
  A trusted entry names the host alone or the host with one port; nothing in it acts as a
  wildcard.
\<close>

lemma trusted_entry_iff:
  assumes "CHR '':'' \<notin> set h"
  shows "(if CHR '':'' \<in> set pat then
            (case rpartition_at CHR '':'' pat of (pat_host, _, pat_port) \<Rightarrow>
               h = pat_host \<and> map_option str_int port = Some pat_port)
          else h = pat)
         \<longleftrightarrow> pat = h \<or> (\<exists>n. port = Some n \<and> pat = h @ CHR '':'' # str_int n)"
    (is "?L \<longleftrightarrow> ?R")
proof
  assume ?L
  then show ?R
    using rpartition_at_present [of "CHR '':''" pat]
    by (auto split: if_splits prod.splits dest!: rpartition_at_found)
next
  assume ?R
  then show ?L
    using assms by (auto simp: rpartition_at_append str_int_no_colon)
qed

section \<open>Properties\<close>

text \<open>
  C13: with the shipped configuration (no trusted host) the guard accepts an address exactly when
  it lies outside the listed private, loopback, link-local, CGNAT, benchmark, multicast,
  reserved, NAT64 and 6to4 ranges, an IPv4-mapped address being judged as its IPv4 address.
  Every bound is exact, and the host and port passed make no difference.
\<close>

theorem default_guard_exact:
  assumes "ip_address ip = Some a"
  shows "is_ok (check_ip idna default_validator ip host port)
           \<longleftrightarrow> \<not> default_blocked (effective_addr a)"
proof -
  have "trusted_private_hosts (ssrf_security default_validator) = []"
    by (simp add: default_validator_def default_security_def)
  then show ?thesis
    using assms by (auto simp: is_ok_iff check_ip_Inr_iff contains_default)
qed

theorem default_guard_exact_witness:
  "is_ok (check_ip (\<lambda>_. None) default_validator ''172.32.0.1'' None None) \<and>
   \<not> is_ok (check_ip (\<lambda>_. None) default_validator ''::ffff:172.31.255.255'' None None)"
proof -
  have a: "ip_address ''172.32.0.1'' = Some (V4 0xAC200001)" by code_simp
  have b: "ip_address ''::ffff:172.31.255.255'' = Some (V6 0xFFFFAC1FFFFF)" by code_simp
  have m: "ipv4_mapped 0xFFFFAC1FFFFF = Some 0xAC1FFFFF" by code_simp
  show ?thesis
    using default_guard_exact [OF a] default_guard_exact [OF b]
    by (simp add: blocked_v4_number_def m)
qed

text \<open>
  An IPv4-mapped IPv6 address gets the same verdict, error included, as the IPv4 address
  embedded in it, whatever the configuration, host and port.
\<close>

theorem mapped_judged_as_v4:
  assumes "ip_address ip6 = Some (V6 (v4_mapped_addr w))" and "ip_address ip4 = Some (V4 w)"
  shows "check_ip idna v ip6 host port = check_ip idna v ip4 host port"
  using assms by (simp add: check_ip_def)

theorem mapped_judged_as_v4_witness:
  "check_ip (\<lambda>_. None) default_validator ''::ffff:10.0.0.1'' (Some ''db'') (Some 80)
     = check_ip (\<lambda>_. None) default_validator ''10.0.0.1'' (Some ''db'') (Some 80)"
proof (rule mapped_judged_as_v4)
  show "ip_address ''::ffff:10.0.0.1'' = Some (V6 (v4_mapped_addr 0x0A000001))" by code_simp
  show "ip_address ''10.0.0.1'' = Some (V4 0x0A000001)" by code_simp
qed

text \<open>
  The exemption is per name. For an ASCII host without a colon, a blocked address is let
  through exactly when one configured entry, lower-cased and stripped, is the normalised host
  itself or the normalised host, a colon and the decimal port asked for. There is no wildcard
  and no suffix match.
\<close>

theorem trusted_private_exact:
  assumes "idna_ascii idna" and "isascii host" and "CHR '':'' \<notin> set host"
  defines "h \<equiv> lower (rstrip_by (\<lambda>c. c = CHR ''.'') (strip host))"
  shows "is_trusted_private idna host port patterns \<longleftrightarrow>
     h \<noteq> [] \<and>
     (\<exists>p \<in> set patterns. strip (lower p) = h \<or>
        (\<exists>n. port = Some n \<and> strip (lower p) = h @ CHR '':'' # str_int n))"
proof -
  have n: "normalise_host idna host = h"
    unfolding h_def by (rule normalise_host_ascii [OF assms(1,2)])
  have "lower_char c = CHR '':'' \<Longrightarrow> c = CHR '':''" for c
    by (simp add: lower_char_eq_iff)
  then have "CHR '':'' \<notin> set h"
    using assms(3) set_rstrip_by set_strip by (fastforce simp: h_def lower_def)
  note entry = trusted_entry_iff [OF this]
  show ?thesis
    by (simp add: is_trusted_private_def n Let_def entry list_ex_iff)
qed

theorem trusted_private_exact_witness:
  "is_trusted_private (\<lambda>_. None) ''Receiver.'' (Some 9000) [''receiver:9000''] \<and>
   \<not> is_trusted_private (\<lambda>_. None) ''a.internal'' (Some 9000) [''*.internal'']"
proof -
  have i: "idna_ascii (\<lambda>_. None)" by (simp add: idna_ascii_def)
  have r: "isascii ''Receiver.''" "CHR '':'' \<notin> set ''Receiver.''"
    "lower (rstrip_by (\<lambda>c. c = CHR ''.'') (strip ''Receiver.'')) = ''receiver''"
    "strip (lower ''receiver:9000'') = ''receiver:9000''"
    by code_simp+
  have n: "str_int 9000 = ''9000''"
    by (simp add: str_int_def str_nat.simps digit_char_def char_of_def bit_0)
  have a: "isascii ''a.internal''" "CHR '':'' \<notin> set ''a.internal''"
    "lower (rstrip_by (\<lambda>c. c = CHR ''.'') (strip ''a.internal'')) = ''a.internal''"
    "strip (lower ''*.internal'') = ''*.internal''"
    by code_simp+
  show ?thesis
    using trusted_private_exact [OF i r(1,2), of "Some 9000" "[''receiver:9000'']"]
      trusted_private_exact [OF i a(1,2), of "Some 9000" "[''*.internal'']"]
    by (simp add: r(3,4) a(3,4) n)
qed

text \<open>
  C8: what \<open>validate\<close> lets through. The URL parses; its scheme is http or https, and https in a
  production environment that requires it; it embeds no credentials; with an allow-list its host
  matches it; the port is between 1 and 65535; at least one address was resolved, and each one
  parses and is outside the deny-list or belongs to a trusted host.
\<close>

theorem validate_sound:
  assumes "validate idna v url ips env = Inr t"
  shows "\<exists>p. urlsplit url = Some p \<and> rt_scheme t = scheme p
    \<and> rt_scheme t \<in> {''http'', ''https''}
    \<and> (env \<notin> set non_prod_envs \<and> require_https_in_prod (ssrf_security v)
         \<longrightarrow> rt_scheme t = ''https'')
    \<and> \<not> truthy (username p) \<and> \<not> truthy (password p)
    \<and> (\<forall>al. allowed_hosts (ssrf_security v) = Some al \<longrightarrow>
         (\<exists>h. hostname p = Some h \<and> host_matches idna h al))
    \<and> 1 \<le> rt_port t \<and> rt_port t \<le> 65535
    \<and> rt_ips t = ips \<and> ips \<noteq> []
    \<and> (\<forall>ip \<in> set ips. \<exists>a. ip_address ip = Some a \<and>
         (contains (ssrf_blocked v) (effective_addr a) \<longrightarrow>
           (\<exists>h. hostname p = Some h \<and>
              is_trusted_private idna h (Some (rt_port t))
                (trusted_private_hosts (ssrf_security v)))))"
proof -
  obtain p where p: "urlsplit url = Some p" "check_scheme (ssrf_security v) p env = Inr ()"
    "check_credentials p = Inr ()" "check_host_allowlist idna (ssrf_security v) p = Inr ()"
    "target_port p = Inr (rt_port t)"
    "check_ips idna v ips (hostname p) (Some (rt_port t)) = Inr ()"
    "rt_scheme t = scheme p" "rt_ips t = ips"
    using assms by (elim validate_Inr) blast
  note scheme = check_scheme_Inr [OF p(2)]
  note port = target_port_range [OF p(5)]
  have cred: "\<not> truthy (username p)" "\<not> truthy (password p)"
    using p(3) by (auto simp: check_credentials_def split: if_splits)
  have ips: "ips \<noteq> []" "\<And>ip. ip \<in> set ips \<Longrightarrow>
      check_ip idna v ip (hostname p) (Some (rt_port t)) = Inr ()"
    using p(6) by (auto simp: check_ips_Inr)
  show ?thesis
  proof (intro exI [of _ p] conjI ballI)
    fix ip assume "ip \<in> set ips"
    from ips(2) [OF this, unfolded check_ip_Inr_iff]
    show "\<exists>a. ip_address ip = Some a \<and> (contains (ssrf_blocked v) (effective_addr a) \<longrightarrow>
        (\<exists>h. hostname p = Some h \<and> is_trusted_private idna h (Some (rt_port t))
           (trusted_private_hosts (ssrf_security v))))" .
  qed (use p(1,7,8) scheme port cred ips(1) check_host_allowlist_Inr [OF p(4)] in auto)
qed

text \<open>
  The two lines of defence agree. Every address of a target that \<open>validate\<close> accepted passes
  the dispatcher's re-check for the same host and port, so an accepted target is never
  dead-lettered as blocked unless its address changed.
\<close>

theorem validate_then_check_ip:
  assumes "idna_ascii idna" and "validate idna v url ips env = Inr t" and "ip \<in> set (rt_ips t)"
  shows "check_ip idna v ip (Some (rt_host t)) (Some (rt_port t)) = Inr ()"
proof -
  obtain p where "check_ips idna v ips (hostname p) (Some (rt_port t)) = Inr ()"
    and host: "rt_host t = (case hostname p of None \<Rightarrow> [] | Some h \<Rightarrow> h)" and "rt_ips t = ips"
    using assms(2) by (elim validate_Inr) blast
  then have "check_ip idna v ip (hostname p) (Some (rt_port t)) = Inr ()"
    using assms(3) by (auto simp: check_ips_Inr)
  then show ?thesis
    using host is_trusted_private_empty [OF assms(1)]
    by (auto simp: check_ip_Inr_iff split: option.splits)
qed

lemma validate_example:
  "validate Some default_validator ''https://a.example/hook'' [''1.1.1.1''] ''prod''
     = Inr \<lparr>rt_host = ''a.example'', rt_port = 443, rt_scheme = ''https'', rt_ips = [''1.1.1.1'']\<rparr>"
  by code_simp

theorem validate_sound_witness:
  "\<exists>p. urlsplit ''https://a.example/hook'' = Some p \<and> scheme p = ''https'' \<and>
     \<not> truthy (username p)"
  using validate_sound [OF validate_example] by auto

theorem validate_then_check_ip_witness:
  "check_ip Some default_validator ''1.1.1.1'' (Some ''a.example'') (Some 443) = Inr ()"
proof -
  have "idna_ascii Some" by (simp add: idna_ascii_def)
  from validate_then_check_ip [OF this validate_example, of "''1.1.1.1''"] show ?thesis by simp
qed

end
