(* ===== verification/PyFloat.thy ===== *)
theory PyFloat
  imports Main "HOL-Library.Log_Nat" Complex_Main
begin

text \<open>
  Python's \<open>float\<close>: IEEE 754 binary64, round to nearest, ties to even. A finite float is the
  rational it stands for; \<open>fl\<close> rounds an exact result to the nearest one (subnormals
  included, the overflow to infinity is left to the operations). Also the rounding that
  \<open>timedelta(seconds=x)\<close> and \<open>timedelta.total_seconds()\<close> make.
\<close>

section \<open>Round half to even\<close>

definition rhe :: "rat \<Rightarrow> int" where
  "rhe x = (let f = \<lfloor>x\<rfloor>; r = x - of_int f in
     if r < 1 / 2 then f else if 1 / 2 < r then f + 1 else if even f then f else f + 1)"

lemma rhe_of_int [simp]: "rhe (of_int n) = n"
  by (simp add: rhe_def)

lemma rhe_0 [simp]: "rhe 0 = 0"
  by (simp add: rhe_def)

lemma rhe_bounds: "\<lfloor>x\<rfloor> \<le> rhe x" "rhe x \<le> \<lfloor>x\<rfloor> + 1"
  by (auto simp: rhe_def Let_def)

lemma rhe_mono:
  assumes "x \<le> y"
  shows "rhe x \<le> rhe y"
proof (cases "\<lfloor>x\<rfloor> = \<lfloor>y\<rfloor>")
  case True
  then show ?thesis using assms by (auto simp: rhe_def Let_def)
next
  case False
  then have "\<lfloor>x\<rfloor> + 1 \<le> \<lfloor>y\<rfloor>" using floor_mono [OF assms] by linarith
  then show ?thesis using rhe_bounds(2) [of x] rhe_bounds(1) [of y] by linarith
qed

lemma rhe_nonneg: "0 \<le> x \<Longrightarrow> 0 \<le> rhe x"
  using rhe_mono [of 0 x] by simp

section \<open>The binary exponent\<close>

definition expo :: "rat \<Rightarrow> int" where
  "expo x = (case quotient_of x of (n, d) \<Rightarrow>
     let k = int (floorlog 2 (nat n)) - int (floorlog 2 (nat d)) in
     if 2 powi k \<le> x then k else k - 1)"

lemma bitlen_bounds:
  assumes "0 < (n::int)"
  shows "2 powi (int (floorlog 2 (nat n)) - 1) \<le> (of_int n :: rat)"
    and "(of_int n :: rat) < 2 powi int (floorlog 2 (nat n))"
proof -
  let ?b = "floorlog 2 (nat n)"
  have b: "0 < ?b" using assms by (simp add: floorlog_def)
  have "2 ^ (?b - 1) \<le> nat n \<and> nat n < 2 ^ ?b"
    using floorlog_bounds [of "nat n" 2] assms by simp
  then have "(2::int) ^ (?b - 1) \<le> n" "n < 2 ^ ?b"
    using assms by (auto simp: nat_less_iff le_nat_iff)
  then have "of_int (2 ^ (?b - 1)) \<le> (of_int n :: rat)" "(of_int n :: rat) < of_int (2 ^ ?b)"
    by (simp_all only: of_int_le_iff of_int_less_iff)
  moreover have "int ?b - 1 = int (?b - 1)" using b by simp
  ultimately show "2 powi (int ?b - 1) \<le> (of_int n :: rat)" "(of_int n :: rat) < 2 powi int ?b"
    by (simp_all only: power_int_of_nat of_int_power of_int_numeral)
qed

lemma less_powi_shift: "x * 2 powi d < (2::rat) powi n \<longleftrightarrow> x < 2 powi (n - d)"
  by (simp add: power_int_diff pos_less_divide_eq)

lemma powi_shift_le: "(2::rat) powi n \<le> x * 2 powi d \<longleftrightarrow> 2 powi (n - d) \<le> x"
  by (simp add: power_int_diff pos_divide_le_eq)

lemma expo_bounds:
  assumes "0 < x"
  shows "2 powi expo x \<le> x" and "x < 2 powi (expo x + 1)"
proof -
  obtain n d where q: "quotient_of x = (n, d)" by (cases "quotient_of x")
  have d: "0 < d" by (rule quotient_of_denom_pos [OF q])
  have x: "x = of_int n / of_int d" by (rule quotient_of_div [OF q])
  then have n: "0 < n" using assms d by (simp add: zero_less_divide_iff)
  let ?bn = "int (floorlog 2 (nat n))" and ?bd = "int (floorlog 2 (nat d))"
  have "x * 2 powi (?bd - 1) \<le> x * of_int d"
    using bitlen_bounds(1) [OF d] assms by (simp add: mult_left_mono)
  also have "x * of_int d = of_int n" using d x by simp
  also have "of_int n < (2 powi ?bn :: rat)" by (rule bitlen_bounds(2) [OF n])
  finally have "x < 2 powi (?bn - (?bd - 1))" by (simp only: less_powi_shift)
  moreover have "?bn - (?bd - 1) = ?bn - ?bd + 1" by simp
  ultimately have up: "x < 2 powi (?bn - ?bd + 1)" by simp
  have "2 powi (?bn - 1) \<le> (of_int n :: rat)" by (rule bitlen_bounds(1) [OF n])
  also have "of_int n = x * of_int d" using d x by simp
  also have "\<dots> \<le> x * 2 powi ?bd"
    using bitlen_bounds(2) [OF d] assms by (simp add: mult_left_mono)
  finally have "2 powi (?bn - 1 - ?bd) \<le> x" by (simp only: powi_shift_le)
  moreover have "?bn - 1 - ?bd = ?bn - ?bd - 1" by simp
  ultimately have lo: "2 powi (?bn - ?bd - 1) \<le> x" by simp
  show "2 powi expo x \<le> x" and "x < 2 powi (expo x + 1)"
    using up lo by (auto simp: expo_def q Let_def)
qed

lemma powi_less_exp: "(2::rat) powi a < 2 powi b \<Longrightarrow> a < b"
  using power_int_increasing [of b a "2::rat"] by (meson linorder_not_le one_le_numeral)

lemma powi_mono2: "a \<le> b \<Longrightarrow> (2::rat) powi a \<le> 2 powi b"
  by (simp add: power_int_increasing)

lemma expo_le:
  assumes "0 < x" and "x < 2 powi (k + 1)"
  shows "expo x \<le> k"
proof -
  have "(2::rat) powi expo x < 2 powi (k + 1)" using expo_bounds(1) [OF assms(1)] assms(2) by simp
  then show ?thesis by (auto dest: powi_less_exp)
qed

lemma expo_mono:
  assumes "0 < x" and "x \<le> y"
  shows "expo x \<le> expo y"
  using assms expo_bounds(2) [of y] by (intro expo_le) auto

section \<open>Rounding to binary64\<close>

text \<open>The exponent of the last place: 52 bits below the leading one, at least \<open>2 ^ -1074\<close>.\<close>

definition ulp_exp :: "rat \<Rightarrow> int" where
  "ulp_exp x = max (expo x) (- 1022) - 52"

definition fl_pos :: "rat \<Rightarrow> rat" where
  "fl_pos x = of_int (rhe (x / 2 powi ulp_exp x)) * 2 powi ulp_exp x"

definition fl :: "rat \<Rightarrow> rat" where
  "fl x = (if x = 0 then 0 else if 0 < x then fl_pos x else - fl_pos (- x))"

lemma fl_0 [simp]: "fl 0 = 0"
  by (simp add: fl_def)

lemma fl_minus [simp]: "fl (- x) = - fl x"
  by (simp add: fl_def)

lemma two_powi_pos [simp]: "0 < (2::rat) powi k"
  by simp

lemma fl_pos_nonneg: "0 < x \<Longrightarrow> 0 \<le> fl_pos x"
  by (simp add: fl_pos_def rhe_nonneg)

lemma powi_ratio:
  assumes "a \<le> b"
  shows "(2::rat) powi b / 2 powi a = of_int (2 ^ nat (b - a))"
proof -
  have "(2::rat) powi b / 2 powi a = 2 powi (b - a)" by (simp add: power_int_diff)
  also have "b - a = int (nat (b - a))" using assms by simp
  finally show ?thesis by (simp only: power_int_of_nat of_int_power of_int_numeral)
qed

text \<open>A multiple of the last place is a fixed point of the rounding.\<close>

lemma fl_pos_grid:
  assumes "x = of_int m * 2 powi k" and "ulp_exp x \<le> k"
  shows "fl_pos x = x"
proof -
  have "x / 2 powi ulp_exp x = of_int (m * 2 ^ nat (k - ulp_exp x))"
    using powi_ratio [OF assms(2)] unfolding assms(1) by (simp add: times_divide_eq_right [symmetric]
      del: times_divide_eq_right)
  then have "fl_pos x = x / 2 powi ulp_exp x * 2 powi ulp_exp x"
    unfolding fl_pos_def by (simp only: rhe_of_int)
  then show ?thesis by simp
qed

lemma fl_representable_pos:
  assumes m: "0 < m" "m \<le> 2 ^ 53" and k: "- 1074 \<le> k"
  shows "fl_pos (of_int m * 2 powi k) = of_int m * 2 powi k"
proof (cases "m = 2 ^ 53")
  case False
  let ?x = "of_int m * 2 powi k :: rat"
  have "m < 2 ^ 53" using m False by simp
  then have "(of_int m :: rat) < of_int (2 ^ 53)" by (simp only: of_int_less_iff)
  then have "?x < 2 powi (52 + k + 1)" by (simp add: power_int_add)
  moreover have "0 < ?x" using m by simp
  ultimately have "expo ?x \<le> 52 + k" by (intro expo_le)
  then show ?thesis using k by (intro fl_pos_grid [OF refl]) (simp add: ulp_exp_def)
next
  case True
  let ?x = "of_int m * 2 powi k :: rat"
  have x: "?x = of_int 1 * 2 powi (53 + k)" using True by (simp add: power_int_add)
  have "?x < 2 powi (53 + k + 1)" by (simp add: x power_int_add)
  moreover have "0 < ?x" using m by simp
  ultimately have "expo ?x \<le> 53 + k" by (intro expo_le)
  then have "ulp_exp ?x \<le> 53 + k" using k by (simp add: ulp_exp_def)
  then show ?thesis by (intro fl_pos_grid [OF x])
qed

lemma fl_representable:
  assumes "\<bar>m\<bar> \<le> 2 ^ 53" and "- 1074 \<le> k"
  shows "fl (of_int m * 2 powi k) = of_int m * 2 powi k"
proof (cases m "0::int" rule: linorder_cases)
  case less
  then have "(of_int m :: rat) * 2 powi k < 0" by (simp add: mult_less_0_iff)
  then show ?thesis
    using fl_representable_pos [of "- m" k] less assms by (simp add: fl_def)
next
  case greater
  then show ?thesis using fl_representable_pos [of m k] assms by (simp add: fl_def)
qed simp

lemma fl_of_int: "\<bar>m\<bar> \<le> 2 ^ 53 \<Longrightarrow> fl (of_int m) = of_int m"
  using fl_representable [of m 0] by simp

text \<open>Every rounded value is a multiple of its last place with at most 53 bits.\<close>

lemma ulp_exp_ge: "- 1074 \<le> ulp_exp x"
  by (simp add: ulp_exp_def)

lemma rhe_mantissa:
  assumes "0 < x"
  shows "rhe (x / 2 powi ulp_exp x) \<le> 2 ^ 53"
proof -
  have "expo x + 1 \<le> ulp_exp x + 53" by (simp add: ulp_exp_def)
  then have "x < 2 powi (ulp_exp x + 53)"
    using expo_bounds(2) [OF assms] powi_mono2 by (meson less_le_trans)
  then have "x / 2 powi ulp_exp x \<le> of_int (2 ^ 53)"
    by (simp add: power_int_add pos_divide_le_eq)
  then show ?thesis using rhe_mono rhe_of_int by metis
qed

lemma fl_pos_idem: "0 < x \<Longrightarrow> fl (fl_pos x) = fl_pos x"
  unfolding fl_pos_def
  using rhe_mantissa [of x] rhe_nonneg [of "x / 2 powi ulp_exp x"]
  by (intro fl_representable) (simp_all add: ulp_exp_ge)

lemma fl_idem [simp]: "fl (fl x) = fl x"
proof (cases x "0::rat" rule: linorder_cases)
  case less
  then show ?thesis using fl_pos_idem [of "- x"] by (simp add: fl_def [of x])
next
  case greater
  then show ?thesis using fl_pos_idem [of x] by (simp add: fl_def [of x])
qed simp

lemma fl_pos_mono:
  assumes "0 < x" and "x \<le> y"
  shows "fl_pos x \<le> fl_pos y"
proof (cases "ulp_exp x = ulp_exp y")
  case True
  have "x / 2 powi ulp_exp y \<le> y / 2 powi ulp_exp y"
    using assms(2) by (simp add: divide_right_mono)
  then show ?thesis using True by (simp add: fl_pos_def rhe_mono)
next
  case False
  then have lt: "ulp_exp x + 1 \<le> ulp_exp y"
    using expo_mono [OF assms] by (simp add: ulp_exp_def)
  then have "ulp_exp y + 52 = expo y" using ulp_exp_ge [of x] by (simp add: ulp_exp_def)
  then have "2 powi (ulp_exp y + 52) \<le> y" using expo_bounds(1) [of y] assms by simp
  then have "of_int (2 ^ 52) \<le> y / 2 powi ulp_exp y"
    by (simp add: power_int_add pos_le_divide_eq)
  then have y: "2 ^ 52 \<le> rhe (y / 2 powi ulp_exp y)" using rhe_mono rhe_of_int by metis
  have "fl_pos x \<le> of_int (2 ^ 53) * 2 powi ulp_exp x"
    unfolding fl_pos_def
    by (intro mult_right_mono) (simp_all only: of_int_le_iff rhe_mantissa [OF assms(1)]
        less_imp_le [OF two_powi_pos])
  also have "\<dots> = of_int (2 ^ 52) * 2 powi (ulp_exp x + 1)" by (simp add: power_int_add)
  also have "\<dots> \<le> of_int (2 ^ 52) * 2 powi ulp_exp y"
    using powi_mono2 [OF lt] by simp
  also have "\<dots> \<le> fl_pos y"
    unfolding fl_pos_def
    by (intro mult_right_mono) (simp_all only: of_int_le_iff y less_imp_le [OF two_powi_pos])
  finally show ?thesis .
qed

lemma fl_nonneg: "0 \<le> x \<Longrightarrow> 0 \<le> fl x"
  by (simp add: fl_def fl_pos_nonneg)

lemma fl_mono:
  assumes "x \<le> y"
  shows "fl x \<le> fl y"
proof (cases "0 < x")
  case True
  then show ?thesis using fl_pos_mono [OF True assms] assms by (simp add: fl_def)
next
  case False
  show ?thesis
  proof (cases "0 \<le> y")
    case True
    have "0 \<le> fl (- x)" using False by (intro fl_nonneg) simp
    then show ?thesis using fl_nonneg [OF True] by simp
  next
    case neg: False
    then show ?thesis using fl_pos_mono [of "- y" "- x"] assms False by (simp add: fl_def)
  qed
qed

lemma fl_le: "x \<le> y \<Longrightarrow> fl y = y \<Longrightarrow> fl x \<le> y"
  using fl_mono by fastforce

lemma fl_ge: "y \<le> x \<Longrightarrow> fl y = y \<Longrightarrow> y \<le> fl x"
  using fl_mono by fastforce

lemma fl_double:
  assumes "fl x = x"
  shows "fl (2 * x) = 2 * x"
proof -
  have pos: "fl (2 * z) = 2 * z" if "0 < z" "fl z = z" for z
  proof -
    from that have "z = of_int (rhe (z / 2 powi ulp_exp z)) * 2 powi ulp_exp z"
      by (simp add: fl_def fl_pos_def)
    then have z: "2 * z = of_int (rhe (z / 2 powi ulp_exp z)) * 2 powi (ulp_exp z + 1)"
      by (simp add: power_int_add)
    have "0 \<le> rhe (z / 2 powi ulp_exp z)" using that by (simp add: rhe_nonneg)
    then show ?thesis
      unfolding z using rhe_mantissa [OF that(1)] ulp_exp_ge [of z] by (intro fl_representable) simp_all
  qed
  show ?thesis
  proof (cases x "0::rat" rule: linorder_cases)
    case less
    then have "fl (2 * - x) = 2 * - x" using pos [of "- x"] assms by simp
    then show ?thesis by (simp del: fl_minus add: fl_minus [of "2 * x", simplified])
  next
    case greater
    then show ?thesis using pos assms by simp
  qed simp
qed

section \<open>Arithmetic\<close>

text \<open>Floats with their infinities and NaN (the sign of zero plays no part in the program).\<close>

datatype pyfloat = Fin rat | PosInf | NegInf | NaN

definition overflow_bound :: rat where
  "overflow_bound = 2 ^ 1024"

definition to_float :: "rat \<Rightarrow> pyfloat" where
  "to_float x = (let y = fl x in
     if overflow_bound \<le> y then PosInf else if y \<le> - overflow_bound then NegInf else Fin y)"

fun f_neg :: "pyfloat \<Rightarrow> pyfloat" where
  "f_neg (Fin x) = Fin (- x)"
| "f_neg PosInf = NegInf"
| "f_neg NegInf = PosInf"
| "f_neg NaN = NaN"

fun f_add :: "pyfloat \<Rightarrow> pyfloat \<Rightarrow> pyfloat" where
  "f_add (Fin x) (Fin y) = to_float (x + y)"
| "f_add NaN _ = NaN"
| "f_add _ NaN = NaN"
| "f_add PosInf NegInf = NaN"
| "f_add NegInf PosInf = NaN"
| "f_add PosInf _ = PosInf"
| "f_add _ PosInf = PosInf"
| "f_add NegInf _ = NegInf"
| "f_add _ NegInf = NegInf"

definition f_sub :: "pyfloat \<Rightarrow> pyfloat \<Rightarrow> pyfloat" where
  "f_sub a b = f_add a (f_neg b)"

definition inf_times :: "rat \<Rightarrow> pyfloat" where
  "inf_times x = (if x = 0 then NaN else if 0 < x then PosInf else NegInf)"

fun f_mul :: "pyfloat \<Rightarrow> pyfloat \<Rightarrow> pyfloat" where
  "f_mul (Fin x) (Fin y) = to_float (x * y)"
| "f_mul NaN _ = NaN"
| "f_mul _ NaN = NaN"
| "f_mul PosInf (Fin x) = inf_times x"
| "f_mul (Fin x) PosInf = inf_times x"
| "f_mul NegInf (Fin x) = inf_times (- x)"
| "f_mul (Fin x) NegInf = inf_times (- x)"
| "f_mul PosInf PosInf = PosInf"
| "f_mul NegInf NegInf = PosInf"
| "f_mul _ _ = NegInf"

fun f_less :: "pyfloat \<Rightarrow> pyfloat \<Rightarrow> bool" where
  "f_less (Fin x) (Fin y) = (x < y)"
| "f_less NaN _ = False"
| "f_less _ NaN = False"
| "f_less PosInf _ = False"
| "f_less _ NegInf = False"
| "f_less _ _ = True"

text \<open>\<open>min(a, b)\<close> and \<open>max(a, b)\<close> keep the first argument unless the second is smaller
  (larger).\<close>

definition f_min :: "pyfloat \<Rightarrow> pyfloat \<Rightarrow> pyfloat" where
  "f_min a b = (if f_less b a then b else a)"

definition f_max :: "pyfloat \<Rightarrow> pyfloat \<Rightarrow> pyfloat" where
  "f_max a b = (if f_less a b then b else a)"

text \<open>
  \<open>x ** n\<close> of a finite float and a natural number, correctly rounded; \<open>None\<close> is the
  \<open>OverflowError\<close> Python raises where the C function overflows.
\<close>

definition f_pow :: "rat \<Rightarrow> nat \<Rightarrow> pyfloat option" where
  "f_pow x n = (case to_float (x ^ n) of Fin y \<Rightarrow> Some (Fin y) | _ \<Rightarrow> None)"

text \<open>\<open>rng.uniform(a, b)\<close> is \<open>a + (b - a) * rng.random()\<close>; the draw is an argument.\<close>

definition uniform :: "rat \<Rightarrow> pyfloat \<Rightarrow> pyfloat \<Rightarrow> pyfloat" where
  "uniform u a b = f_add a (f_mul (f_sub b a) (Fin u))"

lemma overflow_bound_pos [simp]: "0 < overflow_bound"
  by (simp add: overflow_bound_def)

lemma overflow_bound_code [code]: "overflow_bound = of_int (2 ^ 1024)"
  by (simp add: overflow_bound_def)

lemma to_float_Fin: "\<bar>fl x\<bar> < overflow_bound \<Longrightarrow> to_float x = Fin (fl x)"
  by (auto simp: to_float_def Let_def abs_less_iff)

lemma to_float_le: "0 \<le> x \<Longrightarrow> x \<le> y \<Longrightarrow> fl y = y \<Longrightarrow> y < overflow_bound \<Longrightarrow> to_float x = Fin (fl x)"
  using fl_le [of x y] fl_nonneg [of x] by (intro to_float_Fin) simp

lemma to_float_abs_le:
  "\<bar>x\<bar> \<le> y \<Longrightarrow> fl y = y \<Longrightarrow> y < overflow_bound \<Longrightarrow> to_float x = Fin (fl x)"
  using fl_le [of x y] fl_ge [of "- y" x] by (intro to_float_Fin) (auto simp: abs_less_iff abs_le_iff)

section \<open>Durations\<close>

text \<open>
  \<open>timedelta(seconds=x)\<close> in microseconds: the integral part is exact and the fraction times
  a million is a float product, rounded half to even. A duration of a billion days or more, and
  an infinite one, raises \<open>OverflowError\<close>; NaN raises \<open>ValueError\<close>. Both are \<open>None\<close>.
\<close>

definition trunc :: "rat \<Rightarrow> int" where
  "trunc x = (if 0 \<le> x then \<lfloor>x\<rfloor> else - \<lfloor>- x\<rfloor>)"

definition micros :: "rat \<Rightarrow> int" where
  "micros x = trunc x * 1000000 + rhe (fl ((x - of_int (trunc x)) * 1000000))"

definition max_delta_us :: int where
  "max_delta_us = 1000000000 * 86400 * 1000000"

definition timedelta_us :: "pyfloat \<Rightarrow> int option" where
  "timedelta_us d = (case d of
     Fin x \<Rightarrow> (let us = micros x in
       if - (max_delta_us - 86400 * 1000000) \<le> us \<and> us < max_delta_us then Some us else None)
   | _ \<Rightarrow> None)"

text \<open>\<open>timedelta.total_seconds()\<close>: the exact quotient, rounded.\<close>

definition total_seconds :: "int \<Rightarrow> rat" where
  "total_seconds us = fl (of_int us / 1000000)"

lemma micros_of_int [simp]: "micros (of_int n) = n * 1000000"
  by (simp add: micros_def trunc_def)

lemma micros_nonneg:
  assumes "0 \<le> x"
  shows "0 \<le> micros x"
proof -
  have "of_int (trunc x) \<le> x" and "0 \<le> trunc x" using assms by (simp_all add: trunc_def)
  then show ?thesis by (simp add: micros_def rhe_nonneg fl_nonneg)
qed

text \<open>Rounding never reaches past the next whole second.\<close>

lemma micros_le_ceiling:
  assumes "0 \<le> x" and "x \<le> of_int n"
  shows "micros x \<le> n * 1000000"
proof (cases "x = of_int n")
  case False
  have t: "of_int (trunc x) \<le> x" "x < of_int (trunc x) + 1"
    using assms(1) floor_correct [of x] by (simp_all add: trunc_def)
  then have "(of_int (trunc x) :: rat) < of_int n" using assms(2) False by linarith
  then have n: "trunc x + 1 \<le> n" by simp
  have "(x - of_int (trunc x)) * 1000000 \<le> of_int 1000000" using t by simp
  moreover have "fl (of_int 1000000) = of_int 1000000" by (rule fl_of_int) simp
  ultimately have "fl ((x - of_int (trunc x)) * 1000000) \<le> of_int 1000000" by (rule fl_le)
  then have "rhe (fl ((x - of_int (trunc x)) * 1000000)) \<le> 1000000" using rhe_mono rhe_of_int by metis
  then have "micros x \<le> (trunc x + 1) * 1000000" by (simp add: micros_def)
  also have "\<dots> \<le> n * 1000000" using n by simp
  finally show ?thesis .
qed simp

end
