(* ===== verification/Policy.thy ===== *)
theory Policy
  imports Types PyStr PyFloat
begin

text \<open>
  Retry classification and the delay before the next attempt (\<open>policy.py\<close>).
  \<open>parsedate\<close> stands for \<open>email.utils.parsedate_to_datetime\<close>, the standard library's
  HTTP-date parser: an aware date, a date without a zone, or the \<open>TypeError\<close> or \<open>ValueError\<close>
  the code catches. \<open>u\<close> is the draw of \<open>rng.random()\<close>.
\<close>

datatype parsed_date = Aware time | Naive | Unparsable

definition decimal_nat :: "string \<Rightarrow> nat" where
  "decimal_nat s = foldl (\<lambda>n c. 10 * n + digit_val c) 0 s"

text \<open>\<open>float(text)\<close> of a text whose characters are all digits in the sense of \<open>isdigit\<close>.\<close>

definition float_of_digits :: "string \<Rightarrow> exc + pyfloat" where
  "float_of_digits text =
     (if list_all is_decimal text then Inr (to_float (of_nat (decimal_nat text)))
      else Inl (ValueError (''could not convert string to float: '' @ quoted text)))"

definition parse_retry_after ::
  "(string \<Rightarrow> parsed_date) \<Rightarrow> string option \<Rightarrow> time \<Rightarrow> exc + pyfloat option" where
  "parse_retry_after parsedate raw now =
     (case raw of
        None \<Rightarrow> Inr None
      | Some r \<Rightarrow>
          (let text = strip r in
           if text = [] then Inr None
           else if isdigit text then
             (case float_of_digits text of Inl e \<Rightarrow> Inl e | Inr d \<Rightarrow> Inr (Some d))
           else (case parsedate text of
               Unparsable \<Rightarrow> Inr None
             | Naive \<Rightarrow> Inr None
             | Aware date \<Rightarrow> Inr (Some (f_max (Fin 0) (Fin (total_seconds (date - now))))))))"

definition RETRYABLE_REASONS :: "RetryReason list" where
  "RETRYABLE_REASONS = [HTTP_5XX, HTTP_408, HTTP_429, NETWORK_ERROR, TIMEOUT]"

definition classify_status :: "int \<Rightarrow> RetryReason option" where
  "classify_status st =
     (if 200 \<le> st \<and> st < 300 then None
      else if 500 \<le> st then Some HTTP_5XX
      else if st = 408 then Some HTTP_408
      else if st = 429 then Some HTTP_429
      else Some NON_RETRYABLE_4XX)"

fun classify_exception :: "exc \<Rightarrow> RetryReason" where
  "classify_exception (HttpTimeout _ _) = TIMEOUT"
| "classify_exception _ = NETWORK_ERROR"

definition retry_on :: "RetryReason \<Rightarrow> int \<Rightarrow> WebhookRetryConfig \<Rightarrow> bool" where
  "retry_on reason attempt cfg \<longleftrightarrow>
     reason \<in> set RETRYABLE_REASONS \<and> attempt < max_attempts cfg"

definition next_delay_s ::
  "rat \<Rightarrow> int \<Rightarrow> WebhookRetryConfig \<Rightarrow> pyfloat option \<Rightarrow> exc + pyfloat" where
  "next_delay_s u attempt cfg retry_after_s =
     (case retry_after_s of
        Some r \<Rightarrow> Inr (f_min r (Fin (max_delay_s cfg)))
      | None \<Rightarrow>
          (case f_pow (backoff_factor cfg) (nat (max (attempt - 1) 0)) of
             None \<Rightarrow> Inl OverflowError
           | Some p \<Rightarrow>
               (let base = f_mul (Fin (base_delay_s cfg)) p;
                    capped = f_min base (Fin (max_delay_s cfg));
                    jitter = f_mul capped (Fin (jitter_pct cfg))
                in Inr (f_max (Fin 0) (f_add capped (uniform u (f_neg jitter) jitter))))))"

definition outcome_status :: "RetryReason option \<Rightarrow> bool \<Rightarrow> DeliveryStatus" where
  "outcome_status reason will_retry =
     (case reason of None \<Rightarrow> SENT
      | Some _ \<Rightarrow> if will_retry then FAILED_RETRY else DEAD_LETTERED)"

section \<open>Classification\<close>

lemma classify_status_None [simp]: "classify_status st = None \<longleftrightarrow> 200 \<le> st \<and> st < 300"
  by (simp add: classify_status_def)

lemma classify_status_retryable:
  "(\<exists>r. classify_status st = Some r \<and> r \<in> set RETRYABLE_REASONS)
     \<longleftrightarrow> 500 \<le> st \<or> st = 408 \<or> st = 429"
  by (auto simp: classify_status_def RETRYABLE_REASONS_def)

lemma classify_exception_retryable [simp]: "classify_exception e \<in> set RETRYABLE_REASONS"
  by (cases e) (simp_all add: RETRYABLE_REASONS_def)

lemma not_retryable [simp]:
  "PAYLOAD_TOO_LARGE \<notin> set RETRYABLE_REASONS" "BLOCKED_IP_AT_SEND \<notin> set RETRYABLE_REASONS"
  "NON_RETRYABLE_4XX \<notin> set RETRYABLE_REASONS"
  by (simp_all add: RETRYABLE_REASONS_def)

section \<open>The back-off\<close>

text \<open>
  The configurations the bounds are stated for: non-negative floats, a jitter of at most the
  whole delay and a cap far from the overflow threshold.
\<close>

definition retry_cfg_ok :: "WebhookRetryConfig \<Rightarrow> bool" where
  "retry_cfg_ok cfg \<longleftrightarrow>
     0 \<le> base_delay_s cfg \<and> 0 \<le> backoff_factor cfg \<and>
     0 \<le> max_delay_s cfg \<and> max_delay_s cfg \<le> 2 ^ 1000 \<and> fl (max_delay_s cfg) = max_delay_s cfg \<and>
     0 \<le> jitter_pct cfg \<and> jitter_pct cfg \<le> 1"

text \<open>The delay before jitter, as a specification: the geometric back-off, cut at the cap.\<close>

definition capped_backoff :: "WebhookRetryConfig \<Rightarrow> int \<Rightarrow> rat" where
  "capped_backoff cfg attempt =
     min (fl (base_delay_s cfg * fl (backoff_factor cfg ^ nat (max (attempt - 1) 0))))
       (max_delay_s cfg)"

lemma fl_power_two: "fl (2 ^ 1000) = 2 ^ 1000"
  using fl_representable [of 1 1000] by simp

lemma fl_power_two': "fl (2 ^ 1001) = 2 ^ 1001"
  using fl_representable [of 1 1001] by simp

lemma f_pow_Some: "f_pow x n = Some p \<Longrightarrow> p = Fin (fl (x ^ n))"
  by (auto simp: f_pow_def to_float_def Let_def split: pyfloat.splits if_splits)

lemma f_pow_None_iff: "0 \<le> x \<Longrightarrow> f_pow x n = None \<longleftrightarrow> overflow_bound \<le> fl (x ^ n)"
  using fl_nonneg [of "x ^ n"] overflow_bound_pos
  by (auto simp: f_pow_def to_float_def Let_def split: pyfloat.splits if_splits)

lemma capped_eq:
  assumes "retry_cfg_ok cfg" and "f_pow (backoff_factor cfg) (nat (max (attempt - 1) 0)) = Some p"
  shows "f_min (f_mul (Fin (base_delay_s cfg)) p) (Fin (max_delay_s cfg))
     = Fin (capped_backoff cfg attempt)"
proof -
  let ?y = "base_delay_s cfg * fl (backoff_factor cfg ^ nat (max (attempt - 1) 0))"
  have "0 \<le> fl ?y" using assms(1) by (simp add: retry_cfg_ok_def fl_nonneg)
  moreover have "max_delay_s cfg < overflow_bound"
    using assms(1) by (simp add: retry_cfg_ok_def overflow_bound_def) 
  ultimately show ?thesis
    using f_pow_Some [OF assms(2)] overflow_bound_pos
    by (auto simp: f_min_def capped_backoff_def to_float_def Let_def min_def)
qed

lemma capped_backoff_range:
  assumes "retry_cfg_ok cfg"
  shows "0 \<le> capped_backoff cfg n" "capped_backoff cfg n \<le> max_delay_s cfg"
    "fl (capped_backoff cfg n) = capped_backoff cfg n"
  using assms by (auto simp: retry_cfg_ok_def capped_backoff_def fl_nonneg min_def)

lemma jitter_range:
  assumes "0 \<le> c" "fl c = c" "0 \<le> p" "p \<le> 1"
  shows "0 \<le> fl (c * p)" "fl (c * p) \<le> c"
  using assms mult_left_mono [of p 1 c] by (auto intro!: fl_nonneg fl_le)

text \<open>A uniform draw between \<open>- j\<close> and \<open>j\<close> stays between them, rounding included.\<close>

lemma uniform_range:
  assumes j: "0 \<le> j" "fl j = j" "j \<le> 2 ^ 1000" and u: "0 \<le> u" "u \<le> 1"
  shows "\<exists>w. uniform u (f_neg (Fin j)) (Fin j) = Fin w \<and> - j \<le> w \<and> w \<le> j"
proof -
  have two: "2 * j \<le> 2 ^ 1001" using mult_left_mono [OF j(3), of 2] by simp
  note dbl = fl_double [OF j(2)]
  have lt: "2 * j < overflow_bound" using two by (simp add: overflow_bound_def) 
  have s: "f_sub (Fin j) (f_neg (Fin j)) = Fin (2 * j)"
    using to_float_le [of "2 * j" "2 * j"] j(1) dbl lt by (simp add: f_sub_def mult_2 [symmetric])
  have m: "2 * j * u \<le> 2 * j" "0 \<le> 2 * j * u" using j(1) u by (simp_all add: mult_left_le)
  let ?z = "fl (2 * j * u)"
  have z: "to_float (2 * j * u) = Fin ?z" "0 \<le> ?z" "?z \<le> 2 * j"
    using to_float_le [OF m(2,1) dbl lt] fl_nonneg [OF m(2)] fl_le [OF m(1) dbl] by auto
  have b: "\<bar>- j + ?z\<bar> \<le> j" using z by auto
  have jo: "j < overflow_bound" using lt j(1) by simp
  have "uniform u (f_neg (Fin j)) (Fin j) = Fin (fl (- j + ?z))"
    using to_float_abs_le [OF b j(2) jo] by (simp add: uniform_def s [simplified] z(1))
  moreover have "fl (- j + ?z) \<le> j" using b j(2) by (intro fl_le) (auto simp: abs_le_iff)
  moreover have "- j \<le> fl (- j + ?z)" using b j(2) by (intro fl_ge) (auto simp: abs_le_iff)
  ultimately show ?thesis by blast
qed

lemma capped_lt_power: "retry_cfg_ok cfg \<Longrightarrow> capped_backoff cfg n \<le> 2 ^ 1000"
  using capped_backoff_range(2) [of cfg n] by (auto simp: retry_cfg_ok_def)

lemma f_max_0: "f_max (Fin 0) (Fin x) = Fin (max 0 x)"
  by (simp add: f_max_def max_def)

lemma next_delay_jittered:
  assumes ok: "retry_cfg_ok cfg" and u: "0 \<le> u" "u \<le> 1"
    and run: "next_delay_s u attempt cfg None = Inr d"
  defines "c \<equiv> capped_backoff cfg attempt" and "j \<equiv> fl (capped_backoff cfg attempt * jitter_pct cfg)"
  shows "\<exists>x. d = Fin x \<and> fl (c - j) \<le> x \<and> x \<le> fl (c + j)"
proof -
  obtain p where p: "f_pow (backoff_factor cfg) (nat (max (attempt - 1) 0)) = Some p"
    using run by (cases "f_pow (backoff_factor cfg) (nat (max (attempt - 1) 0))")
      (simp_all add: next_delay_s_def)
  note c = capped_backoff_range [OF ok, of attempt, folded c_def]
  have pct: "0 \<le> jitter_pct cfg" "jitter_pct cfg \<le> 1" using ok by (simp_all add: retry_cfg_ok_def)
  note jr = jitter_range [OF c(1,3) pct, folded c_def]
  have j: "j = fl (c * jitter_pct cfg)" by (simp add: j_def c_def)
  have c1000: "c \<le> 2 ^ 1000" unfolding c_def by (rule capped_lt_power [OF ok])
  have lt: "c < overflow_bound" "2 * c < overflow_bound"
    using mult_left_mono [OF c1000, of 2] by (simp_all add: overflow_bound_def)
  have jit: "f_mul (Fin c) (Fin (jitter_pct cfg)) = Fin j"
  proof -
    have "c * jitter_pct cfg \<le> c" "0 \<le> c * jitter_pct cfg"
      using c(1) pct by (simp_all add: mult_left_le)
    then show ?thesis using to_float_le [OF _ _ c(3) lt(1)] by (simp add: j)
  qed
  obtain w where w: "uniform u (f_neg (Fin j)) (Fin j) = Fin w" "- j \<le> w" "w \<le> j"
    using uniform_range [of j u] jr c1000 u by (auto simp: j)
  have "\<bar>c + w\<bar> \<le> 2 * c" using w jr c(1) by (auto simp: j abs_le_iff)
  then have add: "f_add (Fin c) (Fin w) = Fin (fl (c + w))"
    using to_float_abs_le [OF _ fl_double [OF c(3)] lt(2)] by simp
  have "d = f_max (Fin 0) (Fin (fl (c + w)))"
    using run capped_eq [OF ok p] jit w(1) add
    by (simp add: next_delay_s_def p Let_def c_def)
  moreover have "0 \<le> fl (c + w)" using w(2) jr(2) by (intro fl_nonneg) (simp add: j)
  moreover have "fl (c - j) \<le> fl (c + w)" "fl (c + w) \<le> fl (c + j)"
    using w(2,3) by (simp_all add: fl_mono)
  ultimately show ?thesis by (simp add: f_max_0 max_def)
qed

text \<open>Under the shipped configuration the delays are exact powers of two times five.\<close>

lemma default_retry_ok: "retry_cfg_ok default_retry"
proof -
  have "fl (of_int 3600) = of_int 3600" by (rule fl_of_int) simp
  then show ?thesis by (simp add: retry_cfg_ok_def default_retry_def)
qed

lemma fl_two_power: "fl (2 ^ k) = 2 ^ k"
  using fl_representable [of 1 "int k"] by simp

lemma fl_five_two_power: "fl (5 * 2 ^ k) = 5 * 2 ^ k"
  using fl_representable [of 5 "int k"] by simp

lemma capped_backoff_default:
  "capped_backoff default_retry n = min (5 * 2 ^ nat (max (n - 1) 0)) 3600"
  by (simp add: capped_backoff_def default_retry_def fl_two_power fl_five_two_power)

lemma float_of_digits_range:
  "float_of_digits t = Inr d \<Longrightarrow> d = PosInf \<or> (\<exists>x. d = Fin x \<and> 0 \<le> x)"
  using fl_nonneg [of "of_nat (decimal_nat t)"]
  by (auto simp: float_of_digits_def to_float_def Let_def not_le split: if_splits)

lemma parse_retry_after_range:
  "parse_retry_after pd raw now = Inr (Some d) \<Longrightarrow> d = PosInf \<or> (\<exists>x. d = Fin x \<and> 0 \<le> x)"
  by (auto simp: parse_retry_after_def f_max_def Let_def
      dest!: float_of_digits_range
      split: option.splits if_splits sum.splits parsed_date.splits)

section \<open>Properties\<close>

text \<open>
  C16: the delay before an attempt, when the receiver named none, is the geometric back-off cut
  at the cap, moved by at most the configured fraction of itself either way, float rounding
  included; it is finite and never negative.
\<close>

theorem next_delay_bounds:
  assumes "retry_cfg_ok cfg" and "0 \<le> u" and "u \<le> 1"
    and "next_delay_s u attempt cfg None = Inr d"
  defines "c \<equiv> capped_backoff cfg attempt"
  shows "\<exists>x. d = Fin x \<and> 0 \<le> x \<and> fl (c - fl (c * jitter_pct cfg)) \<le> x
    \<and> x \<le> fl (c + fl (c * jitter_pct cfg)) \<and> 0 \<le> c \<and> c \<le> max_delay_s cfg"
proof -
  note c = capped_backoff_range [OF assms(1), of attempt, folded c_def]
  have "0 \<le> jitter_pct cfg" "jitter_pct cfg \<le> 1" using assms(1) by (simp_all add: retry_cfg_ok_def)
  from jitter_range [OF c(1,3) this] have "0 \<le> fl (c - fl (c * jitter_pct cfg))"
    by (intro fl_nonneg) simp
  then show ?thesis
    using next_delay_jittered [OF assms(1-4), folded c_def] c(1,2) by force
qed

theorem next_delay_bounds_witness:
  "\<exists>x. next_delay_s (1 / 2) 3 default_retry None = Inr (Fin x) \<and> 0 \<le> x"
proof -
  have "\<exists>d. next_delay_s (1 / 2) 3 default_retry None = Inr d"
    using f_pow_None_iff [of "backoff_factor default_retry" 2]
    by (cases "f_pow (backoff_factor default_retry) 2")
      (simp_all add: next_delay_s_def Let_def default_retry_def overflow_bound_def
        fl_two_power [of 2, simplified])
  then show ?thesis
    using next_delay_bounds [OF default_retry_ok, of "1 / 2" 3] by fastforce
qed

text \<open>
  With the shipped retry configuration the n-th delay is \<open>5 * 2 ^ (n - 1)\<close> seconds capped
  at an hour before jitter, and computing it raises \<open>OverflowError\<close> exactly from the 1025th
  attempt on (a \<open>max_attempts\<close> raised beyond that would meet it).
\<close>

theorem default_schedule:
  "capped_backoff default_retry n = min (5 * 2 ^ nat (max (n - 1) 0)) 3600
   \<and> (next_delay_s u n default_retry None = Inl OverflowError \<longleftrightarrow> 1025 \<le> n)"
proof -
  let ?k = "nat (max (n - 1) 0)"
  have "overflow_bound \<le> 2 ^ ?k \<longleftrightarrow> 1024 \<le> ?k"
    unfolding overflow_bound_def by (rule power_increasing_iff) simp
  then have "f_pow 2 ?k = None \<longleftrightarrow> 1025 \<le> n"
    by (simp add: f_pow_None_iff fl_two_power) linarith
  then have "next_delay_s u n default_retry None = Inl OverflowError \<longleftrightarrow> 1025 \<le> n"
    by (simp add: next_delay_s_def default_retry_def Let_def
        split: option.split) auto
  then show ?thesis by (simp add: capped_backoff_default)
qed

text \<open>
  The back-off never shrinks: a later attempt waits at least as long before jitter, up to
  the cap.
\<close>

theorem backoff_monotone:
  assumes "retry_cfg_ok cfg" and "1 \<le> backoff_factor cfg" and "m \<le> n"
  shows "capped_backoff cfg m \<le> capped_backoff cfg n"
proof -
  have "nat (max (m - 1) 0) \<le> nat (max (n - 1) 0)" using assms(3) by simp
  then have "fl (backoff_factor cfg ^ nat (max (m - 1) 0)) \<le> fl (backoff_factor cfg ^ nat (max (n - 1) 0))"
    using assms(2) by (intro fl_mono power_increasing)
  then have "base_delay_s cfg * fl (backoff_factor cfg ^ nat (max (m - 1) 0))
      \<le> base_delay_s cfg * fl (backoff_factor cfg ^ nat (max (n - 1) 0))"
    using assms(1) by (intro mult_left_mono) (simp_all add: retry_cfg_ok_def)
  then show ?thesis unfolding capped_backoff_def by (meson fl_mono min.mono order_refl)
qed

theorem backoff_monotone_witness:
  "capped_backoff default_retry 2 \<le> capped_backoff default_retry 11"
  using backoff_monotone [OF default_retry_ok, of 2 11] by (simp add: default_retry_def)

text \<open>
  A wait the receiver named is honoured up to the cap and never jittered: whatever
  \<open>Retry-After\<close> parses to, the delay is a number of seconds between zero and the cap, even for
  a digit string that overflows a float or a date in the past.
\<close>

theorem retry_after_capped:
  assumes "parse_retry_after pd raw now = Inr (Some r)" and "retry_cfg_ok cfg"
  shows "\<exists>x. next_delay_s u attempt cfg (Some r) = Inr (Fin x) \<and> 0 \<le> x \<and> x \<le> max_delay_s cfg"
  using parse_retry_after_range [OF assms(1)] assms(2)
  by (auto simp: next_delay_s_def f_min_def retry_cfg_ok_def)

theorem retry_after_capped_witness:
  "\<exists>r x. parse_retry_after (\<lambda>_. Unparsable) (Some '' 120 '') 0 = Inr (Some r) \<and>
     next_delay_s 0 1 default_retry (Some r) = Inr (Fin x) \<and> x \<le> 3600"
proof -
  have "strip '' 120 '' = ''120''" "isdigit ''120''" "list_all is_decimal ''120''" by code_simp+
  then obtain r where r: "parse_retry_after (\<lambda>_. Unparsable) (Some '' 120 '') 0 = Inr (Some r)"
    by (simp add: parse_retry_after_def float_of_digits_def)
  from retry_after_capped [OF this default_retry_ok, of 0 1]
  obtain x where "next_delay_s 0 1 default_retry (Some r) = Inr (Fin x)"
    and "x \<le> max_delay_s default_retry" by blast
  then show ?thesis using r by (auto simp: default_retry_def)
qed


end
