(* ===== verification/Envelope.thy ===== *)
theory Envelope
  imports Types PyStr
begin

text \<open>
  What goes on the wire (\<open>envelope.py\<close>, \<open>body.py\<close>) and the redaction of event payloads
  (\<open>WebhookMeta\<close> of \<open>meta.py\<close> as far as redaction reads it). JSON values are the values of
  Python's \<open>json\<close> module: an object is a dictionary in insertion order and a float carries the
  text \<open>float.__repr__\<close> gives it. \<open>loads\<close> stands for \<open>json.loads\<close> (\<open>None\<close> is the
  \<open>ValueError\<close>), \<open>isoformat\<close> for \<open>datetime.isoformat\<close>, whose text depends on the zone that
  an instant does not keep, and \<open>sha256\<close> for \<open>hashlib.sha256(..).hexdigest()\<close>.
\<close>

section \<open>JSON\<close>

datatype json =
  JNull | JBool bool | JInt int | JFloat string | JStr string
| JList "json list" | JObj "(string \<times> json) list"

definition hex_digit :: "nat \<Rightarrow> char" where
  "hex_digit n = (if n < 10 then char_of (48 + n) else char_of (87 + n))"

text \<open>The escapes of \<open>ensure_ascii\<close>: everything outside the printable ASCII range is escaped.\<close>

definition escape_char :: "char \<Rightarrow> string" where
  "escape_char c =
     (if c = CHR 0x22 then [CHR 0x5C, CHR 0x22]
      else if c = CHR 0x5C then [CHR 0x5C, CHR 0x5C]
      else if c = CHR 0x0A then [CHR 0x5C, CHR ''n'']
      else if c = CHR 0x0D then [CHR 0x5C, CHR ''r'']
      else if c = CHR 0x09 then [CHR 0x5C, CHR ''t'']
      else if c = CHR 0x0C then [CHR 0x5C, CHR ''f'']
      else if c = CHR 0x08 then [CHR 0x5C, CHR ''b'']
      else if 32 \<le> ord c \<and> ord c \<le> 126 then [c]
      else [CHR 0x5C, CHR ''u'', CHR ''0'', CHR ''0'',
            hex_digit (ord c div 16), hex_digit (ord c mod 16)])"

definition dumps_str :: "string \<Rightarrow> string" where
  "dumps_str s = CHR 0x22 # concat (map escape_char s) @ [CHR 0x22]"

text \<open>Code point order, the order \<open>sort_keys\<close> sorts keys in.\<close>

fun str_le :: "string \<Rightarrow> string \<Rightarrow> bool" where
  "str_le [] _ = True"
| "str_le (_ # _) [] = False"
| "str_le (a # as) (b # bs) = (ord a < ord b \<or> a = b \<and> str_le as bs)"

fun insert_key :: "string \<times> 'a \<Rightarrow> (string \<times> 'a) list \<Rightarrow> (string \<times> 'a) list" where
  "insert_key kv [] = [kv]"
| "insert_key kv (x # xs) = (if str_le (fst kv) (fst x) then kv # x # xs else x # insert_key kv xs)"

definition sort_keys :: "(string \<times> 'a) list \<Rightarrow> (string \<times> 'a) list" where
  "sort_keys kvs = foldr insert_key kvs []"

text \<open>\<open>json.dumps(v, separators=(",", ":"), sort_keys=True)\<close>.\<close>

fun dumps :: "json \<Rightarrow> string" where
  "dumps JNull = ''null''"
| "dumps (JBool b) = (if b then ''true'' else ''false'')"
| "dumps (JInt i) = str_int i"
| "dumps (JFloat r) = r"
| "dumps (JStr s) = dumps_str s"
| "dumps (JList vs) = ''['' @ join '','' (map dumps vs) @ '']''"
| "dumps (JObj kvs) =
     ''{'' @ join '','' (map (\<lambda>(k, t). dumps_str k @ '':'' @ t)
       (sort_keys (map (\<lambda>(k, v). (k, dumps v)) kvs))) @ ''}''"

text \<open>\<open>json.dumps(v, separators=(item, key))\<close>: the keys in their own order.\<close>

fun dumps_seps :: "string \<Rightarrow> string \<Rightarrow> json \<Rightarrow> string" where
  "dumps_seps item key JNull = ''null''"
| "dumps_seps item key (JBool b) = (if b then ''true'' else ''false'')"
| "dumps_seps item key (JInt i) = str_int i"
| "dumps_seps item key (JFloat r) = r"
| "dumps_seps item key (JStr s) = dumps_str s"
| "dumps_seps item key (JList vs) = ''['' @ join item (map (dumps_seps item key) vs) @ '']''"
| "dumps_seps item key (JObj kvs) =
     ''{'' @ join item (map (\<lambda>(k, t). dumps_str k @ key @ t)
       (map (\<lambda>(k, v). (k, dumps_seps item key v)) kvs)) @ ''}''"

section \<open>Redaction\<close>

record WebhookMeta =
  meta_name :: string
  meta_description :: string
  meta_scopes :: "WebhookScope list"
  meta_tenant_field :: "string option"
  meta_since :: string
  meta_sample_payload :: "(string, json) dict option"
  redacted_fields :: "string list"
  allow_sensitive :: bool

definition REDACTED_PLACEHOLDER :: string where
  "REDACTED_PLACEHOLDER = ''<redacted>''"

text \<open>
  \<open>re.search(p + "$", s)\<close> for a literal \<open>p\<close>: \<open>$\<close> matches at the end and before a final
  newline.
\<close>

definition search_at_end :: "string \<Rightarrow> string \<Rightarrow> bool" where
  "search_at_end p s \<longleftrightarrow> ends_with p s \<or> ends_with (p @ [CHR 0x0A]) s"

fun infix_of :: "string \<Rightarrow> string \<Rightarrow> bool" where
  "infix_of p [] = (p = [])"
| "infix_of p (c # cs) = (starts_with p (c # cs) \<or> infix_of p cs)"

definition should_auto_redact :: "string \<Rightarrow> bool" where
  "should_auto_redact field_name \<longleftrightarrow>
     search_at_end ''_enc'' field_name \<or> search_at_end ''_token'' field_name \<or>
     infix_of ''password'' (lower field_name) \<or> search_at_end ''secret'' (lower field_name)"

fun redact_items ::
  "WebhookMeta \<Rightarrow> (string \<times> json) list \<Rightarrow> (string, json) dict \<Rightarrow> (string, json) dict" where
  "redact_items m [] redacted = redacted"
| "redact_items m ((k, v) # kvs) redacted =
     (if k = ''meta'' then redact_items m kvs redacted
      else if k \<in> set (redacted_fields m) then
        redact_items m kvs (dict_set k (JStr REDACTED_PLACEHOLDER) redacted)
      else if \<not> allow_sensitive m \<and> should_auto_redact k then
        redact_items m kvs (dict_set k (JStr REDACTED_PLACEHOLDER) redacted)
      else redact_items m kvs (dict_set k v redacted))"

definition redact_payload :: "(string, json) dict \<Rightarrow> WebhookMeta \<Rightarrow> (string, json) dict" where
  "redact_payload data m = redact_items m data []"

definition hidden :: "WebhookMeta \<Rightarrow> string \<Rightarrow> bool" where
  "hidden m k \<longleftrightarrow> k \<in> set (redacted_fields m) \<or> \<not> allow_sensitive m \<and> should_auto_redact k"

lemma redact_items_eq:
  assumes "dict_ok (rev acc @ data)"
  shows "redact_items m data acc = acc @ map (\<lambda>(k, v).
      (k, if hidden m k then JStr REDACTED_PLACEHOLDER else v)) (filter (\<lambda>(k, v). k \<noteq> ''meta'') data)"
  using assms
  by (induction m data acc rule: redact_items.induct)
    (auto simp: hidden_def dict_get_append image_iff)

lemma redact_payload_eq:
  "dict_ok data \<Longrightarrow> redact_payload data m = map (\<lambda>(k, v).
      (k, if hidden m k then JStr REDACTED_PLACEHOLDER else v)) (filter (\<lambda>(k, v). k \<noteq> ''meta'') data)"
  by (simp add: redact_payload_def redact_items_eq)

section \<open>Envelope and body encoders\<close>

record WebhookEnvelope =
  env_id :: string
  env_event :: string
  env_event_id :: string
  env_schema_version :: string
  env_emitted_at :: time
  env_tenant_id :: "string option"
  env_attempt :: int
  env_redelivery_of :: "string option"
  env_data :: json

definition API_VERSION :: string where
  "API_VERSION = ''1''"

definition opt_str :: "string option \<Rightarrow> json" where
  "opt_str s = (case s of None \<Rightarrow> JNull | Some t \<Rightarrow> JStr t)"

definition to_body :: "(time \<Rightarrow> string) \<Rightarrow> WebhookEnvelope \<Rightarrow> bytes" where
  "to_body isoformat e = encode (dumps (JObj
     [(''id'', JStr (env_id e)),
      (''api_version'', JStr API_VERSION),
      (''event'', JStr (env_event e)),
      (''event_id'', JStr (env_event_id e)),
      (''schema_version'', JStr (env_schema_version e)),
      (''emitted_at'', JStr (isoformat (env_emitted_at e))),
      (''tenant_id'', opt_str (env_tenant_id e)),
      (''attempt'', JInt (env_attempt e)),
      (''redelivery_of'', opt_str (env_redelivery_of e)),
      (''data'', env_data e)]))"

text \<open>A body encoder is the function its \<open>encode\<close> method computes; it may raise.\<close>

type_synonym body_encoder = "DeliveryRecord \<Rightarrow> int \<Rightarrow> exc + bytes"

definition EnvelopeEncoder ::
  "(bytes \<Rightarrow> json option) \<Rightarrow> (time \<Rightarrow> string) \<Rightarrow> body_encoder" where
  "EnvelopeEncoder loads isoformat record attempt =
     Inr (to_body isoformat
       \<lparr>env_id = delivery_id record, env_event = event_name record,
        env_event_id = event_id record, env_schema_version = schema_version record,
        env_emitted_at = emitted_at record, env_tenant_id = tenant_id record,
        env_attempt = attempt, env_redelivery_of = redelivery_of record,
        env_data = (case loads (data_json record) of Some v \<Rightarrow> v | None \<Rightarrow> JObj [])\<rparr>)"

definition RawEncoder :: body_encoder where
  "RawEncoder record attempt = Inr (data_json record)"

section \<open>Properties\<close>

lemma map_of_redacted:
  "map_of (map (\<lambda>(k, v). (k, if hidden m k then p else v)) (filter (\<lambda>(k, v). k \<noteq> ''meta'') d)) k
     = (if k = ''meta'' then None
        else if hidden m k then map_option (\<lambda>_. p) (map_of d k) else map_of d k)"
  by (induction d) auto


definition sample_meta :: WebhookMeta where
  "sample_meta = \<lparr>meta_name = ''user.updated'', meta_description = [], meta_scopes = [TENANT],
     meta_tenant_field = Some ''user_id'', meta_since = ''1.0.0'', meta_sample_payload = None,
     redacted_fields = [''iban''], allow_sensitive = False\<rparr>"


end
