(* ===== verification/Signer.thy ===== *)
theory Signer
  imports Envelope PyFloat
begin

text \<open>
  Signing and verification: \<open>HmacSigner\<close> (\<open>signer.py\<close>) and the receiver-side helper
  (\<open>verify.py\<close>). \<open>sha256\<close> and \<open>hmac\<close> stand for the hex digests \<open>hashlib\<close> and
  \<open>hmac.new(key, msg, sha256)\<close> give. A signer is the pair of functions its two methods
  compute (\<open>SignerProtocol\<close>); header collections are dictionaries.
\<close>

section \<open>The signer interface\<close>

text \<open>
  What \<open>sign\<close> hands back (\<open>SignedHeaders\<close>): the shipped header set, or an object of the
  signer's own of which only \<open>as_dict\<close> is used.
\<close>

datatype SignedHeaders = Shipped SignatureHeaders | Custom "(string, string) dict"

fun headers_of :: "SignedHeaders \<Rightarrow> (string, string) dict" where
  "headers_of (Shipped h) = as_dict h"
| "headers_of (Custom d) = d"

record Signer =
  sgn_sign :: "string \<Rightarrow> string \<Rightarrow> string \<Rightarrow> bytes \<Rightarrow> string \<Rightarrow> time \<Rightarrow> exc + SignedHeaders"
  sgn_verify :: "bytes \<Rightarrow> (string, string) dict \<Rightarrow> string \<Rightarrow> time \<Rightarrow> int \<Rightarrow> exc + unit"

section \<open>Shared steps\<close>

text \<open>\<open>int(now.timestamp())\<close> of an aware datetime.\<close>

definition posix_seconds :: "time \<Rightarrow> int" where
  "posix_seconds now = trunc (total_seconds now)"

definition signed_message :: "(bytes \<Rightarrow> string) \<Rightarrow> int \<Rightarrow> string \<Rightarrow> bytes \<Rightarrow> bytes" where
  "signed_message sha256 ts event body =
     encode (str_int ts @ ''.'' @ event @ ''.'' @ sha256 body)"

text \<open>\<open>{k.lower(): v for k, v in headers.items()}\<close>\<close>

definition lowered :: "(string, string) dict \<Rightarrow> (string, string) dict" where
  "lowered headers = fold (\<lambda>(k, v). dict_set (lower k) v) headers []"

definition get_or_empty :: "(string, string) dict \<Rightarrow> string \<Rightarrow> string" where
  "get_or_empty d k = (case dict_get d k of None \<Rightarrow> [] | Some v \<Rightarrow> v)"

text \<open>The macs of the parts of the header that carry the given version label.\<close>

definition provided_macs :: "string \<Rightarrow> string \<Rightarrow> string list" where
  "provided_macs version sig =
     map (\<lambda>part. snd (snd (partition_at CHR ''='' part)))
       (filter (\<lambda>part. fst (partition_at CHR ''='' part) = version
                 \<and> snd (snd (partition_at CHR ''='' part)) \<noteq> []) (words sig))"

text \<open>\<open>hmac.compare_digest\<close> refuses text outside ASCII; \<open>any\<close> stops at the first match.\<close>

definition compare_digest :: "string \<Rightarrow> string \<Rightarrow> exc + bool" where
  "compare_digest a b =
     (if isascii a \<and> isascii b then Inr (a = b)
      else Inl (TypeError ''comparing strings with non-ASCII characters is not supported''))"

fun any_match :: "string \<Rightarrow> string list \<Rightarrow> exc + bool" where
  "any_match expected [] = Inr False"
| "any_match expected (m # ms) =
     (case compare_digest expected m of
        Inl e \<Rightarrow> Inl e
      | Inr b \<Rightarrow> if b then Inr True else any_match expected ms)"

section \<open>\<open>HmacSigner\<close>\<close>

definition hmac_sign ::
  "(bytes \<Rightarrow> string) \<Rightarrow> (bytes \<Rightarrow> bytes \<Rightarrow> string) \<Rightarrow> string \<Rightarrow>
   string \<Rightarrow> string \<Rightarrow> string \<Rightarrow> bytes \<Rightarrow> string \<Rightarrow> time \<Rightarrow> SignatureHeaders" where
  "hmac_sign sha256 hmac version delivery event_nm event body secret now =
     (let ts = posix_seconds now;
          mac = hmac (encode secret) (signed_message sha256 ts event body)
      in \<lparr>webhook_id = delivery, webhook_event = event_nm, webhook_event_id = event,
          webhook_timestamp = str_int ts, webhook_signature = version @ ''='' @ mac\<rparr>)"

definition hmac_verify ::
  "(bytes \<Rightarrow> string) \<Rightarrow> (bytes \<Rightarrow> bytes \<Rightarrow> string) \<Rightarrow> string \<Rightarrow>
   bytes \<Rightarrow> (string, string) dict \<Rightarrow> string \<Rightarrow> time \<Rightarrow> int \<Rightarrow> exc + unit" where
  "hmac_verify sha256 hmac version body headers secret now window_s =
     (let low = lowered headers;
          ts_raw = get_or_empty low ''webhook-timestamp'';
          event = get_or_empty low ''webhook-event-id'';
          sig = get_or_empty low ''webhook-signature''
      in if ts_raw = [] \<or> sig = [] then Inl (SignatureVerificationError ''missing headers'')
         else (case py_int ts_raw of
             None \<Rightarrow> Inl (SignatureVerificationError ''bad timestamp'')
           | Some ts \<Rightarrow>
               if window_s < \<bar>posix_seconds now - ts\<bar>
               then Inl (SignatureVerificationError ''timestamp out of window'')
               else (let expected = hmac (encode secret) (signed_message sha256 ts event body);
                         macs = provided_macs version sig
                     in if macs = []
                        then Inl (SignatureVerificationError ''unsupported signature version'')
                        else (case any_match expected macs of
                            Inl e \<Rightarrow> Inl e
                          | Inr True \<Rightarrow> Inr ()
                          | Inr False \<Rightarrow> Inl (SignatureVerificationError ''bad mac'')))))"

definition V1 :: string where
  "V1 = ''v1''"

definition HmacSigner ::
  "(bytes \<Rightarrow> string) \<Rightarrow> (bytes \<Rightarrow> bytes \<Rightarrow> string) \<Rightarrow> string \<Rightarrow> Signer" where
  "HmacSigner sha256 hmac version =
     \<lparr>sgn_sign = (\<lambda>delivery event_nm event body secret now.
        Inr (Shipped (hmac_sign sha256 hmac version delivery event_nm event body secret now))),
      sgn_verify = hmac_verify sha256 hmac version\<rparr>"

section \<open>\<open>verify_webhook\<close>\<close>

definition DEFAULT_WINDOW_S :: int where
  "DEFAULT_WINDOW_S = 300"

definition header_value :: "(string, string) dict \<Rightarrow> string \<Rightarrow> string" where
  "header_value headers name =
     (case dict_get headers name of
        Some v \<Rightarrow> v
      | None \<Rightarrow> get_or_empty (lowered headers) (lower name))"

text \<open>\<open>datetime.fromtimestamp(ts, tz=UTC)\<close>: years 1 to 9999.\<close>

definition from_timestamp :: "int \<Rightarrow> exc + time" where
  "from_timestamp ts =
     (if - 62135596800 \<le> ts \<and> ts < 253402300800 then Inr (seconds ts)
      else Inl (ValueError ''year is out of range''))"

text \<open>\<open>clock\<close> is the value of \<open>int(time.time())\<close>, read when no \<open>now_ts\<close> is passed.\<close>

definition verify_via_signer ::
  "Signer \<Rightarrow> string \<Rightarrow> bytes \<Rightarrow> (string, string) dict \<Rightarrow> int option \<Rightarrow> int \<Rightarrow> int \<Rightarrow> exc + unit" where
  "verify_via_signer signer secret body headers now_ts window_s clock =
     (let current = (case now_ts of Some t \<Rightarrow> t | None \<Rightarrow> clock);
          outcome = (case from_timestamp current of
              Inl e \<Rightarrow> Inl e
            | Inr now \<Rightarrow> sgn_verify signer body headers secret now window_s)
      in case outcome of
           Inr u \<Rightarrow> Inr u
         | Inl (SignatureVerificationError m) \<Rightarrow> Inl (WebhookVerificationError m)
         | Inl (WebhookVerificationError m) \<Rightarrow> Inl (WebhookVerificationError m)
         | Inl e \<Rightarrow> Inl (WebhookVerificationError (exc_class_name e @ '': '' @ exc_text e)))"

definition verify_webhook ::
  "(bytes \<Rightarrow> string) \<Rightarrow> (bytes \<Rightarrow> bytes \<Rightarrow> string) \<Rightarrow>
   string \<Rightarrow> bytes \<Rightarrow> (string, string) dict \<Rightarrow> int option \<Rightarrow> int \<Rightarrow> Signer option \<Rightarrow> int \<Rightarrow> exc + unit" where
  "verify_webhook sha256 hmac secret body headers now_ts window_s signer clock =
     (case signer of
        Some sg \<Rightarrow> verify_via_signer sg secret body headers now_ts window_s clock
      | None \<Rightarrow>
          (let ts_raw = header_value headers ''Webhook-Timestamp'';
               event = header_value headers ''Webhook-Event-Id'';
               sig = header_value headers ''Webhook-Signature''
           in if ts_raw = [] \<or> sig = []
              then Inl (WebhookVerificationError ''missing Webhook-Timestamp or Webhook-Signature header'')
              else (case py_int ts_raw of
                  None \<Rightarrow> Inl (WebhookVerificationError ''malformed Webhook-Timestamp'')
                | Some ts \<Rightarrow>
                    (let current = (case now_ts of Some t \<Rightarrow> t | None \<Rightarrow> clock)
                     in if window_s < \<bar>current - ts\<bar>
                        then Inl (WebhookVerificationError
                          ''timestamp outside the freshness window (possible replay)'')
                        else (let expected = hmac (encode secret) (signed_message sha256 ts event body);
                                  macs = provided_macs ''v1'' sig
                              in if macs = []
                                 then Inl (WebhookVerificationError ''unsupported signature version'')
                                 else (case any_match expected macs of
                                     Inl e \<Rightarrow> Inl e
                                   | Inr True \<Rightarrow> Inr ()
                                   | Inr False \<Rightarrow>
                                       Inl (WebhookVerificationError ''signature mismatch'')))))))"

section \<open>Header lookup\<close>

definition names_distinct :: "(string, string) dict \<Rightarrow> bool" where
  "names_distinct headers \<longleftrightarrow> distinct (map fst (map (\<lambda>(k, v). (lower k, v)) headers))"

text \<open>The header arrives with its value, under a name that may differ in case.\<close>

definition carries :: "(string, string) dict \<Rightarrow> string \<Rightarrow> string \<Rightarrow> bool" where
  "carries headers name v \<longleftrightarrow> list_ex (\<lambda>(k, w). lower k = lower name \<and> w = v) headers"

definition carries_all :: "(string, string) dict \<Rightarrow> (string, string) dict \<Rightarrow> bool" where
  "carries_all headers sent \<longleftrightarrow> list_all (\<lambda>(k, v). carries headers k v) sent"

lemma fold_lowered_get:
  "dict_get (fold (\<lambda>(k, v). dict_set (lower k) v) hs d) n =
     (case map_of (rev (map (\<lambda>(k, v). (lower k, v)) hs)) n of
        Some v \<Rightarrow> Some v | None \<Rightarrow> dict_get d n)"
  by (induction hs arbitrary: d)
    (auto simp: map_add_def split: option.splits)

lemma lowered_get:
  assumes "names_distinct hs"
  shows "dict_get (lowered hs) n = map_of (map (\<lambda>(k, v). (lower k, v)) hs) n"
proof -
  have "distinct (map fst (map (\<lambda>(k, v). (lower k, v)) hs))"
    using assms by (simp only: names_distinct_def)
  from dict_get_rev [OF this] show ?thesis by (simp add: lowered_def fold_lowered_get split: option.split)
qed

lemma lowered_carries:
  assumes "names_distinct hs" and "carries hs name v"
  shows "dict_get (lowered hs) (lower name) = Some v"
proof -
  have "(lower name, v) \<in> set (map (\<lambda>(k, v). (lower k, v)) hs)"
    using assms(2) by (force simp: carries_def list_ex_iff)
  moreover have "distinct (map fst (map (\<lambda>(k, v). (lower k, v)) hs))"
    using assms(1) by (simp only: names_distinct_def)
  ultimately show ?thesis by (simp add: lowered_get [OF assms(1)] map_of_is_SomeI)
qed

lemma header_value_lowered:
  assumes "names_distinct hs"
  shows "header_value hs name = get_or_empty (lowered hs) (lower name)"
proof (cases "dict_get hs name")
  case (Some v)
  then have "carries hs name v" by (auto simp: carries_def list_ex_iff dest!: map_of_SomeD)
  then show ?thesis
    using lowered_carries [OF assms] Some by (simp add: header_value_def get_or_empty_def)
qed (simp add: header_value_def)

section \<open>Timestamps\<close>

lemma trunc_of_int [simp]: "trunc (of_int n) = n"
  by (simp add: trunc_def)

lemma trunc_le: "x \<le> of_int n \<Longrightarrow> trunc x \<le> n"
  by (auto simp: trunc_def floor_le_iff le_floor_iff) linarith+

lemma trunc_ge: "of_int n \<le> x \<Longrightarrow> n \<le> trunc x"
  by (auto simp: trunc_def floor_le_iff le_floor_iff) linarith+

lemma posix_seconds_of_seconds [simp]:
  "\<bar>n\<bar> \<le> 2 ^ 53 \<Longrightarrow> posix_seconds (seconds n) = n"
  by (simp add: posix_seconds_def total_seconds_def seconds_def fl_of_int)

lemma posix_seconds_range:
  assumes "valid_instant t"
  shows "\<bar>posix_seconds t\<bar> \<le> 253402300800"
proof -
  let ?m = "253402300800 :: int"
  have m: "fl (of_int ?m) = of_int ?m" "fl (of_int (- ?m)) = of_int (- ?m)"
    by (rule fl_of_int, simp)+
  have "(of_int t :: rat) / 1000000 \<le> of_int ?m" "- of_int ?m \<le> (of_int t :: rat) / 1000000"
    using assms by (simp_all add: valid_instant_def seconds_def pos_divide_le_eq pos_le_divide_eq)
  then have "fl (of_int t / 1000000) \<le> of_int ?m" "of_int (- ?m) \<le> fl (of_int t / 1000000)"
    using fl_le [OF _ m(1)] fl_ge [OF _ m(2)] by simp_all
  then show ?thesis
    unfolding posix_seconds_def total_seconds_def abs_le_iff
    by (metis trunc_le trunc_ge minus_le_iff)
qed

lemma py_int_posix [simp]: "valid_instant t \<Longrightarrow> py_int (str_int (posix_seconds t)) = Some (posix_seconds t)"
proof (rule py_int_str_int)
  assume "valid_instant t"
  then have "\<bar>posix_seconds t\<bar> < 10 ^ 12" using posix_seconds_range by fastforce
  also have "(10::int) ^ 12 \<le> 10 ^ max_str_digits"
    by (rule power_increasing) (simp_all add: max_str_digits_def)
  finally show "\<bar>posix_seconds t\<bar> < 10 ^ max_str_digits" .
qed

section \<open>Macs in a signature header\<close>

text \<open>What \<open>hexdigest()\<close> returns: a non-empty text of lower-case hex digits.\<close>

definition is_hex_lower :: "char \<Rightarrow> bool" where
  "is_hex_lower c \<longleftrightarrow> is_decimal c \<or> 97 \<le> ord c \<and> ord c \<le> 102"

definition hex_text :: "string \<Rightarrow> bool" where
  "hex_text m \<longleftrightarrow> m \<noteq> [] \<and> list_all is_hex_lower m"

definition hex_hmac :: "(bytes \<Rightarrow> bytes \<Rightarrow> string) \<Rightarrow> bool" where
  "hex_hmac hmac \<longleftrightarrow> (\<forall>k m. hex_text (hmac k m))"

lemma is_hex_lower_plain: "is_hex_lower c \<Longrightarrow> \<not> is_space c \<and> is_ascii c"
  by (auto simp: is_hex_lower_def is_decimal_def is_space_def is_ascii_def)

lemma hex_text_plain:
  assumes "hex_text m"
  shows "list_all (\<lambda>c. \<not> is_space c) m" "isascii m" "m \<noteq> []"
  using assms is_hex_lower_plain by (auto simp: hex_text_def list_all_iff isascii_def)

lemma v1_part:
  assumes "hex_text m"
  shows "list_all (\<lambda>c. \<not> is_space c) (V1 @ ''='' @ m)" "V1 @ ''='' @ m \<noteq> []"
    "partition_at CHR ''='' (V1 @ ''='' @ m) = (V1, True, m)"
  using hex_text_plain [OF assms] partition_at_append [of "CHR ''=''" V1 m]
  by (simp_all add: V1_def is_space_def)

lemma provided_macs_single: "hex_text m \<Longrightarrow> provided_macs V1 (V1 @ ''='' @ m) = [m]"
  using words_single [OF v1_part(1,2), of m] hex_text_plain(3) [of m]
  by (simp add: provided_macs_def v1_part(3) [simplified])

lemma provided_macs_two:
  "hex_text m \<Longrightarrow> hex_text n \<Longrightarrow>
   provided_macs V1 ((V1 @ ''='' @ m) @ CHR '' '' # (V1 @ ''='' @ n)) = [m, n]"
  using words_two [OF v1_part(1,2) v1_part(1,2), of m n] hex_text_plain(3) [of m] hex_text_plain(3) [of n]
  by (simp add: provided_macs_def v1_part(3) [simplified])

lemma any_match_ascii:
  "isascii e \<Longrightarrow> list_all isascii ms \<Longrightarrow> any_match e ms = Inr (e \<in> set ms)"
  by (induction ms) (auto simp: compare_digest_def)

lemma any_match_sound: "any_match e ms = Inr True \<Longrightarrow> e \<in> set ms"
  by (induction ms) (auto simp: compare_digest_def split: if_splits)

lemma any_match_Inl:
  "any_match e ms = Inl x \<Longrightarrow>
   (\<exists>t. x = TypeError t) \<and> (\<not> isascii e \<or> (\<exists>m \<in> set ms. \<not> isascii m))"
  by (induction ms) (auto simp: compare_digest_def split: if_splits)

section \<open>Verification, exactly\<close>

lemma hmac_verify_ok_iff:
  "hmac_verify sha256 hmac version body hs secret now w = Inr () \<longleftrightarrow>
     get_or_empty (lowered hs) ''webhook-timestamp'' \<noteq> [] \<and>
     get_or_empty (lowered hs) ''webhook-signature'' \<noteq> [] \<and>
     (\<exists>ts. py_int (get_or_empty (lowered hs) ''webhook-timestamp'') = Some ts \<and>
        \<bar>posix_seconds now - ts\<bar> \<le> w \<and>
        any_match (hmac (encode secret)
            (signed_message sha256 ts (get_or_empty (lowered hs) ''webhook-event-id'') body))
          (provided_macs version (get_or_empty (lowered hs) ''webhook-signature'')) = Inr True)"
  by (auto simp: hmac_verify_def Let_def split: option.splits sum.splits bool.splits)

lemma verify_webhook_ok_iff:
  "verify_webhook sha256 hmac secret body hs (Some t) w None clock = Inr () \<longleftrightarrow>
     header_value hs ''Webhook-Timestamp'' \<noteq> [] \<and> header_value hs ''Webhook-Signature'' \<noteq> [] \<and>
     (\<exists>ts. py_int (header_value hs ''Webhook-Timestamp'') = Some ts \<and> \<bar>t - ts\<bar> \<le> w \<and>
        any_match (hmac (encode secret)
            (signed_message sha256 ts (header_value hs ''Webhook-Event-Id'') body))
          (provided_macs ''v1'' (header_value hs ''Webhook-Signature'')) = Inr True)"
  by (auto simp: verify_webhook_def Let_def split: option.splits sum.splits bool.splits)

lemma lower_header_names:
  "lower ''Webhook-Timestamp'' = ''webhook-timestamp''"
  "lower ''Webhook-Event-Id'' = ''webhook-event-id''"
  "lower ''Webhook-Signature'' = ''webhook-signature''"
  by code_simp+

text \<open>The message determines the timestamp, the event id and the digest of the body.\<close>

lemma signed_message_inject:
  assumes "signed_message sha256 ts e b = signed_message sha256 ts' e' b'"
    and "length (sha256 b) = length (sha256 b')"
  shows "ts = ts' \<and> e = e' \<and> sha256 b = sha256 b'"
proof -
  have eq: "str_int ts @ CHR ''.'' # e @ CHR ''.'' # sha256 b
      = str_int ts' @ CHR ''.'' # e' @ CHR ''.'' # sha256 b'"
    using assms(1) by (simp add: signed_message_def encode_inject)
  have dot: "CHR ''.'' \<notin> set (str_int i)" for i
    using str_int_chars [of "CHR ''.''" i] by (auto simp: is_decimal_def)
  have "partition_at CHR ''.'' (str_int ts @ CHR ''.'' # e @ CHR ''.'' # sha256 b)
      = partition_at CHR ''.'' (str_int ts' @ CHR ''.'' # e' @ CHR ''.'' # sha256 b')"
    using eq by simp
  then have "str_int ts = str_int ts' \<and> e @ CHR ''.'' # sha256 b = e' @ CHR ''.'' # sha256 b'"
    by (simp add: partition_at_append [OF dot])
  then show ?thesis using assms(2) by (simp add: str_int_inject append_eq_append_conv)
qed

section \<open>The contract of a signer\<close>

text \<open>
  \<open>SignerProtocol\<close> keeps both directions together: what a signer signs, it accepts, when the
  headers arrive with their values (the case of their names may change) and the clocks are
  within the window. A signer is given with the digest functions it is built from.
\<close>

locale signer_scheme =
  fixes mk :: "(bytes \<Rightarrow> string) \<Rightarrow> (bytes \<Rightarrow> bytes \<Rightarrow> string) \<Rightarrow> Signer"
  assumes accepts_own:
    "hex_hmac hmac \<Longrightarrow> sgn_sign (mk sha256 hmac) d n e b secret now = Inr sent \<Longrightarrow>
     valid_instant now \<Longrightarrow> names_distinct hs \<Longrightarrow> carries_all hs (headers_of sent) \<Longrightarrow>
     \<bar>posix_seconds now' - posix_seconds now\<bar> \<le> w \<Longrightarrow>
     sgn_verify (mk sha256 hmac) b hs secret now' w = Inr ()"
begin

lemma receiver_accepts:
  assumes "hex_hmac hmac" and "sgn_sign (mk sha256 hmac) d n e b secret now = Inr sent"
    and "valid_instant now" and "names_distinct hs" and "carries_all hs (headers_of sent)"
    and "- 62135596800 \<le> t" and "t < 253402300800" and "\<bar>t - posix_seconds now\<bar> \<le> w"
  shows "verify_webhook sha' hmac' secret b hs (Some t) w (Some (mk sha256 hmac)) clock = Inr ()"
proof -
  have "posix_seconds (seconds t) = t" using assms(6,7) by (intro posix_seconds_of_seconds) simp
  then have "sgn_verify (mk sha256 hmac) b hs secret (seconds t) w = Inr ()"
    using assms by (intro accepts_own) simp_all
  then show ?thesis
    using assms(6,7) by (simp add: verify_webhook_def verify_via_signer_def from_timestamp_def)
qed

end

lemma signed_headers_carried:
  assumes "names_distinct hs"
    and "carries_all hs (as_dict (hmac_sign sha256 hmac V1 d n e b secret now))"
  shows "dict_get (lowered hs) ''webhook-timestamp'' = Some (str_int (posix_seconds now))"
    "dict_get (lowered hs) ''webhook-event-id'' = Some e"
    "dict_get (lowered hs) ''webhook-signature''
       = Some (V1 @ ''='' @ hmac (encode secret) (signed_message sha256 (posix_seconds now) e b))"
proof -
  have c: "carries hs ''Webhook-Timestamp'' (str_int (posix_seconds now))"
    "carries hs ''Webhook-Event-Id'' e"
    "carries hs ''Webhook-Signature''
       (V1 @ ''='' @ hmac (encode secret) (signed_message sha256 (posix_seconds now) e b))"
    using assms(2) by (simp_all add: carries_all_def as_dict_def hmac_sign_def Let_def)
  show "dict_get (lowered hs) ''webhook-timestamp'' = Some (str_int (posix_seconds now))"
    "dict_get (lowered hs) ''webhook-event-id'' = Some e"
    "dict_get (lowered hs) ''webhook-signature''
       = Some (V1 @ ''='' @ hmac (encode secret) (signed_message sha256 (posix_seconds now) e b))"
    using c[THEN lowered_carries [OF assms(1)]] unfolding lower_header_names .
qed

lemma hmac_accepts_own:
  assumes hex: "hex_hmac hmac" and now: "valid_instant now" and hs: "names_distinct hs"
    and sent: "carries_all hs (as_dict (hmac_sign sha256 hmac V1 d n e b secret now))"
    and w: "\<bar>posix_seconds now' - posix_seconds now\<bar> \<le> w"
  shows "hmac_verify sha256 hmac V1 b hs secret now' w = Inr ()"
proof -
  let ?mac = "hmac (encode secret) (signed_message sha256 (posix_seconds now) e b)"
  have m: "hex_text ?mac" using hex by (simp add: hex_hmac_def)
  have "any_match ?mac [?mac] = Inr True"
    using any_match_ascii [of ?mac "[?mac]"] hex_text_plain(2) [OF m] by simp
  then show ?thesis
    unfolding hmac_verify_ok_iff get_or_empty_def
    using signed_headers_carried [OF hs sent] provided_macs_single [OF m] py_int_posix [OF now] w
    by (simp add: V1_def)
qed

interpretation hmac_scheme: signer_scheme "\<lambda>sha256 hmac. HmacSigner sha256 hmac V1"
  by unfold_locales (auto simp: HmacSigner_def intro: hmac_accepts_own)

lemma verifiers_agree_ok:
  assumes "names_distinct hs" and "- 62135596800 \<le> t" and "t < 253402300800"
  shows "verify_webhook sha256 hmac secret body hs (Some t) w None clock = Inr () \<longleftrightarrow>
     hmac_verify sha256 hmac V1 body hs secret (seconds t) w = Inr ()"
proof -
  have "posix_seconds (seconds t) = t" using assms(2,3) by (intro posix_seconds_of_seconds) simp
  then show ?thesis
    unfolding verify_webhook_ok_iff hmac_verify_ok_iff header_value_lowered [OF assms(1)]
      lower_header_names V1_def by simp
qed

section \<open>Properties\<close>

text \<open>
  C9: what the shipped signer signs, both shipped verifiers accept: headers that arrive with
  their values under names of any case, a receiver clock within the window, the same secret and
  body. This covers \<open>HmacSigner.verify\<close>, the dependency-free \<open>verify_webhook\<close>, and
  \<open>verify_webhook\<close> given the signer.
\<close>

theorem sign_verify_roundtrip:
  assumes "hex_hmac hmac" and "valid_instant now" and "names_distinct hs"
    and "carries_all hs (as_dict (hmac_sign sha256 hmac V1 d n e b secret now))"
    and "- 62135596800 \<le> t" and "t < 253402300800" and "\<bar>t - posix_seconds now\<bar> \<le> w"
  shows "hmac_verify sha256 hmac V1 b hs secret (seconds t) w = Inr ()
    \<and> verify_webhook sha256 hmac secret b hs (Some t) w None clock = Inr ()
    \<and> verify_webhook sha256 hmac secret b hs (Some t) w (Some (HmacSigner sha256 hmac V1)) clock = Inr ()"
proof (intro conjI)
  have "posix_seconds (seconds t) = t" using assms(5,6) by (intro posix_seconds_of_seconds) simp
  then show *: "hmac_verify sha256 hmac V1 b hs secret (seconds t) w = Inr ()"
    using assms by (intro hmac_accepts_own) simp_all
  show "verify_webhook sha256 hmac secret b hs (Some t) w None clock = Inr ()"
    using * verifiers_agree_ok [OF assms(3,5,6)] by simp
  show "verify_webhook sha256 hmac secret b hs (Some t) w (Some (HmacSigner sha256 hmac V1)) clock = Inr ()"
    by (rule hmac_scheme.receiver_accepts [OF assms(1) _ assms(2,3) _ assms(5-7), where d = d and n = n
          and e = e and sent = "Shipped (hmac_sign sha256 hmac V1 d n e b secret now)"])
      (simp_all add: HmacSigner_def assms(4))
qed

text \<open>Headers as a framework hands them over: lower-cased names, further headers.\<close>

definition sample_sha :: "bytes \<Rightarrow> string" where
  "sample_sha body = replicate 64 CHR ''a''"

definition sample_hmac :: "bytes \<Rightarrow> bytes \<Rightarrow> string" where
  "sample_hmac key msg = ''0f''"

definition sample_headers :: "(string, string) dict" where
  "sample_headers =
     [(''host'', ''h''), (''webhook-id'', ''d''), (''webhook-event'', ''n''),
      (''webhook-event-id'', ''e.1''), (''webhook-timestamp'', ''12''),
      (''webhook-signature'', ''v1=0f''), (''content-type'', ''application/json'')]"

lemma sample_hex: "hex_hmac sample_hmac"
  by (simp add: hex_hmac_def hex_text_def is_hex_lower_def is_decimal_def sample_hmac_def)

lemma str_int_12: "str_int 12 = ''12''"
  by (simp add: str_int_def str_nat.simps digit_char_def char_of_def bit_0)

lemma sample_carried:
  "names_distinct sample_headers"
  "carries_all sample_headers
     (as_dict (hmac_sign sample_sha sample_hmac V1 ''d'' ''n'' ''e.1'' b secret (seconds 12)))"
proof -
  show "names_distinct sample_headers" by code_simp
  have "posix_seconds (seconds 12) = 12" by simp
  moreover have "carries sample_headers ''Webhook-Id'' ''d''" by code_simp
  moreover have "carries sample_headers ''Webhook-Event'' ''n''" by code_simp
  moreover have "carries sample_headers ''Webhook-Event-Id'' ''e.1''" by code_simp
  moreover have "carries sample_headers ''Webhook-Timestamp'' ''12''" by code_simp
  moreover have "carries sample_headers ''Webhook-Signature'' ''v1=0f''" by code_simp
  moreover have "carries sample_headers ''Content-Type'' ''application/json''" by code_simp
  ultimately show "carries_all sample_headers
      (as_dict (hmac_sign sample_sha sample_hmac V1 ''d'' ''n'' ''e.1'' b secret (seconds 12)))"
    by (simp add: carries_all_def as_dict_def hmac_sign_def sample_hmac_def V1_def str_int_12)
qed

lemma valid_12: "valid_instant (seconds 12)"
  by (simp add: valid_instant_def seconds_def)

theorem sign_verify_roundtrip_witness:
  "verify_webhook sample_sha sample_hmac ''s'' ''{}'' sample_headers (Some 300) 300 None 0 = Inr ()"
  using sign_verify_roundtrip [OF sample_hex valid_12 sample_carried(1), of sample_sha "''d''" "''n''"
      "''e.1''" "''{}''" "''s''" 300 300 0] sample_carried(2) by simp

text \<open>
  C14: nothing else is accepted. If a receiver accepts a body and headers whose only \<open>v1\<close> mac
  is one the signer made for some timestamp, event id and body, then the timestamp, the event
  id and the body digest are those, or the two signed messages collide under HMAC. The
  timestamp is within the window in either case.
\<close>

theorem altered_delivery_needs_collision:
  assumes "hmac_verify sha256 hmac version body hs secret now w = Inr ()"
    and "provided_macs version (get_or_empty (lowered hs) ''webhook-signature'')
      = [hmac (encode secret) (signed_message sha256 ts0 e0 b0)]"
    and "length (sha256 body) = length (sha256 b0)"
  shows "\<exists>ts. py_int (get_or_empty (lowered hs) ''webhook-timestamp'') = Some ts
    \<and> \<bar>posix_seconds now - ts\<bar> \<le> w
    \<and> (let m = signed_message sha256 ts (get_or_empty (lowered hs) ''webhook-event-id'') body;
            m0 = signed_message sha256 ts0 e0 b0
        in m \<noteq> m0 \<and> hmac (encode secret) m = hmac (encode secret) m0
           \<or> ts = ts0 \<and> get_or_empty (lowered hs) ''webhook-event-id'' = e0 \<and> sha256 body = sha256 b0)"
proof -
  let ?e = "get_or_empty (lowered hs) ''webhook-event-id''"
  obtain ts where ts: "py_int (get_or_empty (lowered hs) ''webhook-timestamp'') = Some ts"
    "\<bar>posix_seconds now - ts\<bar> \<le> w"
    and m: "any_match (hmac (encode secret) (signed_message sha256 ts ?e body))
      [hmac (encode secret) (signed_message sha256 ts0 e0 b0)] = Inr True"
    using assms(1,2) unfolding hmac_verify_ok_iff by auto
  show ?thesis
    using ts any_match_sound [OF m] signed_message_inject [of sha256 ts ?e body ts0 e0 b0, OF _ assms(3)]
    by (auto simp: Let_def)
qed

theorem altered_delivery_needs_collision_witness:
  "\<exists>ts. py_int ''12'' = Some ts \<and> \<bar>posix_seconds (seconds 300) - ts\<bar> \<le> 300"
proof -
  have ok: "hmac_verify sample_sha sample_hmac V1 ''{}'' sample_headers ''s'' (seconds 300) 300 = Inr ()"
    by (rule hmac_accepts_own [OF sample_hex valid_12 sample_carried(1,2)]) simp
  have g: "get_or_empty (lowered sample_headers) ''webhook-timestamp'' = ''12''"
    "get_or_empty (lowered sample_headers) ''webhook-signature'' = ''v1=0f''"
    "provided_macs V1 ''v1=0f'' = [''0f'']"
    by code_simp+
  have "provided_macs V1 (get_or_empty (lowered sample_headers) ''webhook-signature'')
      = [sample_hmac (encode ''s'') (signed_message sample_sha 12 ''e.1'' ''{}'')]"
    by (simp add: g sample_hmac_def)
  from altered_delivery_needs_collision [OF ok this] show ?thesis unfolding g by blast
qed

text \<open>
  C18: the two shipped verifiers do not drift. Whenever no two header names differ only in case,
  \<open>verify_webhook\<close> and \<open>HmacSigner.verify\<close> accept the same deliveries, whatever the headers hold.
\<close>

theorem verifiers_agree:
  assumes "names_distinct hs" and "- 62135596800 \<le> t" and "t < 253402300800"
  shows "is_ok (verify_webhook sha256 hmac secret body hs (Some t) w None clock)
     \<longleftrightarrow> is_ok (hmac_verify sha256 hmac V1 body hs secret (seconds t) w)"
  using verifiers_agree_ok [OF assms, of sha256 hmac secret body w clock] by (simp add: is_ok_iff)

theorem verifiers_agree_witness:
  "is_ok (verify_webhook sample_sha sample_hmac ''s'' ''{}'' sample_headers (Some 313) 300 None 0)
     \<longleftrightarrow> is_ok (hmac_verify sample_sha sample_hmac V1 ''{}'' sample_headers ''s'' (seconds 313) 300)"
  by (rule verifiers_agree [OF sample_carried(1)]) simp_all

text \<open>
  With a signer of the host's own, the receiver's call raises \<open>WebhookVerificationError\<close> or
  nothing, whatever the signer raises, and it accepts exactly what the signer accepts at the
  instant asked for.
\<close>

theorem custom_signer_error_surface:
  "(case verify_webhook sha256 hmac secret body hs now_ts w (Some sg) clock of
      Inl e \<Rightarrow> (\<exists>m. e = WebhookVerificationError m)
    | Inr _ \<Rightarrow> (\<exists>now. from_timestamp (case now_ts of Some t \<Rightarrow> t | None \<Rightarrow> clock) = Inr now
        \<and> sgn_verify sg body hs secret now w = Inr ()))"
  by (auto simp: verify_webhook_def verify_via_signer_def Let_def
      split: sum.splits exc.splits option.splits)

text \<open>
  Without a signer the same call is documented to raise \<open>WebhookVerificationError\<close> on any
  mismatch, but a first \<open>v1\<close> mac that holds a character outside ASCII lets the \<open>TypeError\<close> of
  \<open>compare_digest\<close> out, in \<open>verify_webhook\<close> and in \<open>HmacSigner.verify\<close> alike.
\<close>

theorem non_ascii_mac_escapes:
  assumes "names_distinct hs" and "- 62135596800 \<le> t" and "t < 253402300800"
    and "py_int (header_value hs ''Webhook-Timestamp'') = Some ts" and "\<bar>t - ts\<bar> \<le> w"
    and "provided_macs V1 (header_value hs ''Webhook-Signature'') = m # ms" and "\<not> isascii m"
  shows "verify_webhook sha256 hmac secret body hs (Some t) w None clock
      = Inl (TypeError ''comparing strings with non-ASCII characters is not supported'')
    \<and> hmac_verify sha256 hmac V1 body hs secret (seconds t) w
      = Inl (TypeError ''comparing strings with non-ASCII characters is not supported'')"
proof -
  have [simp]: "posix_seconds (seconds t) = t" using assms(2,3) by (intro posix_seconds_of_seconds) simp
  have "py_int [] = None" "provided_macs V1 [] = []"
    by (simp_all add: py_int_def strip_def lstrip_by_def rstrip_by_def provided_macs_def words_def)
  then have ne: "header_value hs ''Webhook-Timestamp'' \<noteq> []" "header_value hs ''Webhook-Signature'' \<noteq> []"
    using assms(4,6) by auto
  have any: "any_match e (m # ms)
      = Inl (TypeError ''comparing strings with non-ASCII characters is not supported'')" for e
    using assms(7) by (simp add: compare_digest_def)
  show ?thesis
    using ne assms(4-6) unfolding header_value_lowered [OF assms(1)] lower_header_names
    by (simp add: verify_webhook_def hmac_verify_def Let_def any [simplified]
        header_value_lowered [OF assms(1)] lower_header_names V1_def)
qed

theorem non_ascii_mac_escapes_witness:
  "verify_webhook sample_sha sample_hmac ''s'' ''{}''
     [(''Webhook-Timestamp'', ''12''), (''Webhook-Signature'', ''v1='' @ [CHR 0xE9])]
     (Some 12) 300 None 0
   = Inl (TypeError ''comparing strings with non-ASCII characters is not supported'')"
proof -
  let ?hs = "[(''Webhook-Timestamp'', ''12''), (''Webhook-Signature'', ''v1='' @ [CHR 0xE9])]"
  have "names_distinct ?hs" "py_int (header_value ?hs ''Webhook-Timestamp'') = Some 12"
    "provided_macs V1 (header_value ?hs ''Webhook-Signature'') = [[CHR 0xE9]]" "\<not> isascii [CHR 0xE9]"
    by code_simp+
  from non_ascii_mac_escapes [OF this(1) _ _ this(2) _ this(3,4), of 12 300] show ?thesis by simp
qed

end
