(* ===== verification/Protocols.thy ===== *)
theory Protocols
  imports Types
begin

text \<open>
  The protocols the services are written against (\<open>protocols.py\<close>), each as the record of the
  operations its methods compute, and the two pieces of code they carry: the grace window of a
  rotated secret and the versioned read that drops a cached secret.
\<close>

section \<open>Secrets\<close>

record SecretMaterial =
  sec_current :: string
  sec_previous :: "string option"
  sec_previous_expires_at :: "time option"

definition previous_at :: "SecretMaterial \<Rightarrow> time \<Rightarrow> string option" where
  "previous_at m now =
     (case (sec_previous m, sec_previous_expires_at m) of
        (Some p, Some expires) \<Rightarrow> if expires \<le> now then None else Some p
      | _ \<Rightarrow> None)"

definition grace_until :: "time \<Rightarrow> int \<Rightarrow> exc + time" where
  "grace_until now grace_s =
     (if grace_s < 0 then Inl (ValueError ''grace_s must be >= 0'')
      else if valid_instant (now + seconds grace_s) then Inr (now + seconds grace_s)
      else Inl (Other ''OverflowError'' ''date value out of range''))"

text \<open>A cipher is the pair \<open>(seal, open)\<close>; the default keeps the text.\<close>

type_synonym SecretCipher = "(string \<Rightarrow> string) \<times> (string \<Rightarrow> string)"

definition IdentityCipher :: SecretCipher where
  "IdentityCipher = (\<lambda>raw. raw, \<lambda>sealed. sealed)"

text \<open>A reader over its own state \<open>'r\<close>, and with it the versions it has seen per subscription.\<close>

record 'r secret_reader =
  sr_get :: "string \<Rightarrow> (exc, 'r, SecretMaterial) comp"
  sr_invalidate :: "string \<Rightarrow> (exc, 'r, unit) comp"

record 'r reader_state =
  rd_cache :: 'r
  rd_seen :: "(string, string) dict"

definition on_cache :: "(exc, 'r, 'a) comp \<Rightarrow> (exc, 'r reader_state, 'a) comp" where
  "on_cache m = (\<lambda>s. case m (rd_cache s) of (res, c) \<Rightarrow> (res, s\<lparr>rd_cache := c\<rparr>))"

definition get_versioned ::
  "'r secret_reader \<Rightarrow> string \<Rightarrow> string option \<Rightarrow> (exc, 'r reader_state, SecretMaterial) comp" where
  "get_versioned rd sid version = (\<lambda>s.
     if version \<noteq> None \<and> dict_get (rd_seen s) sid \<noteq> version then
       bindE (on_cache (sr_invalidate rd sid))
         (\<lambda>_ s'. on_cache (sr_get rd sid) (s'\<lparr>rd_seen := dict_set sid (the version) (rd_seen s')\<rparr>)) s
     else on_cache (sr_get rd sid) s)"

section \<open>Sending\<close>

record PostCall =
  pc_url :: string
  pc_body :: bytes
  pc_headers :: "(string, string) dict"
  pc_resolved_ip :: "string option"
  pc_connect_timeout_s :: rat
  pc_read_timeout_s :: rat
  pc_total_timeout_s :: rat
  pc_max_response_bytes :: int

text \<open>\<open>post\<close> answers one call or raises; \<open>resolve\<close> answers an address, nothing, or raises.\<close>

type_synonym http_sender = "PostCall \<Rightarrow> exc + HttpSendResult"
type_synonym target_resolver = "string \<Rightarrow> exc + string option"

text \<open>\<open>for_event\<close> of a subscription reader over its state.\<close>

type_synonym 'q subscription_reader =
  "string \<Rightarrow> string option \<Rightarrow> (exc, 'q, SubscriptionSnapshot list) comp"

section \<open>Facts\<close>

lemma previous_at_Some:
  "previous_at m now = Some p \<longleftrightarrow>
     sec_previous m = Some p \<and> (\<exists>e. sec_previous_expires_at m = Some e \<and> now < e)"
  by (auto simp: previous_at_def split: option.split)

text \<open>A rotation keeps the old secret valid exactly for the grace asked for.\<close>

lemma grace_window:
  assumes "grace_until now g = Inr e"
  shows "previous_at \<lparr>sec_current = new, sec_previous = Some old, sec_previous_expires_at = Some e\<rparr> t
     = (if t < now + seconds g then Some old else None)"
  using assms by (auto simp: grace_until_def previous_at_def split: if_splits)

end
