(* ===== verification/StoreSpec.thy ===== *)
theory StoreSpec
  imports Types
begin

text \<open>
  The delivery store interface (\<open>WebhookDeliveryStoreProtocol\<close> of \<open>protocols.py\<close>) and its
  contract, the behaviour suite of \<open>testing/store_contract.py\<close> made general. A store is the
  record of its operations over a state \<open>'s\<close>; each runs to its end before the next one starts
  (the in-process lock of the memory store, a transaction or a single command of the others).
  The contract is stated on what a store shows: for each delivery id the row, and its lease.
\<close>

record 's delivery_store =
  enqueue_many :: "DeliveryRecord list \<Rightarrow> (exc, 's, unit) comp"
  claim_batch :: "time \<Rightarrow> int \<Rightarrow> int \<Rightarrow> (exc, 's, DeliveryRecord list) comp"
  reclaim_stale :: "time \<Rightarrow> (exc, 's, int) comp"
  mark_sent :: "string \<Rightarrow> AttemptRecord \<Rightarrow> (exc, 's, unit) comp"
  schedule_retry :: "string \<Rightarrow> time \<Rightarrow> AttemptRecord \<Rightarrow> (exc, 's, unit) comp"
  mark_dead :: "string \<Rightarrow> AttemptRecord \<Rightarrow> (exc, 's, unit) comp"
  append_attempt :: "string \<Rightarrow> AttemptRecord \<Rightarrow> (exc, 's, unit) comp"
  store_get :: "string \<Rightarrow> (exc, 's, DeliveryRecord option) comp"
  recent_for_subscription :: "string \<Rightarrow> int \<Rightarrow> (exc, 's, DeliveryRecord list) comp"

section \<open>The abstract state\<close>

datatype row = Row (row_rec: DeliveryRecord) (row_lease: "time option")

type_synonym view = "string \<Rightarrow> row option"

definition claimable :: "DeliveryStatus \<Rightarrow> bool" where
  "claimable st \<longleftrightarrow> st = PENDING \<or> st = FAILED_RETRY"

definition ready :: "time \<Rightarrow> row \<Rightarrow> bool" where
  "ready now r \<longleftrightarrow> claimable (status (row_rec r)) \<and> fire_at (row_rec r) \<le> now"

definition stale :: "time \<Rightarrow> row \<Rightarrow> bool" where
  "stale now r \<longleftrightarrow> status (row_rec r) = IN_FLIGHT \<and>
     (case row_lease r of None \<Rightarrow> False | Some e \<Rightarrow> e < now)"

definition leased :: "time \<Rightarrow> row \<Rightarrow> row" where
  "leased expiry r = Row ((row_rec r)\<lparr>status := IN_FLIGHT\<rparr>) (Some expiry)"

definition released :: "row \<Rightarrow> row" where
  "released r = Row ((row_rec r)\<lparr>status := PENDING\<rparr>) None"

definition settled :: "DeliveryStatus \<Rightarrow> int \<Rightarrow> row \<Rightarrow> row" where
  "settled st k r = Row ((row_rec r)\<lparr>status := st, attempts := k\<rparr>) None"

definition retried :: "time \<Rightarrow> int \<Rightarrow> row \<Rightarrow> row" where
  "retried t k r = Row ((row_rec r)\<lparr>status := FAILED_RETRY, fire_at := t, attempts := k\<rparr>) None"

definition with_attempts :: "int \<Rightarrow> row \<Rightarrow> row" where
  "with_attempts k r = Row ((row_rec r)\<lparr>attempts := k\<rparr>) (row_lease r)"

text \<open>Rows are filed under their own id, and a lease is held exactly while in flight.\<close>

definition view_ok :: "view \<Rightarrow> bool" where
  "view_ok v \<longleftrightarrow> finite (dom v) \<and> (\<forall>did r. v did = Some r \<longrightarrow>
     delivery_id (row_rec r) = did \<and> (row_lease r \<noteq> None \<longleftrightarrow> status (row_rec r) = IN_FLIGHT))"

definition enqueued :: "DeliveryRecord list \<Rightarrow> view \<Rightarrow> view" where
  "enqueued rs v = (\<lambda>did. case v did of
      Some r \<Rightarrow> Some r
    | None \<Rightarrow> map_option (\<lambda>r. Row r None) (find (\<lambda>r. delivery_id r = did) rs))"

text \<open>
  A claim takes the earliest ready rows, at most \<open>n\<close> of them and all of them when there are no
  more, leases each and hands it over; the status it shows in the returned record is open.
\<close>

definition claim_ok :: "view \<Rightarrow> time \<Rightarrow> time \<Rightarrow> int \<Rightarrow> DeliveryRecord list \<Rightarrow> view \<Rightarrow> bool" where
  "claim_ok v now expiry n batch v' \<longleftrightarrow>
     distinct (map delivery_id batch) \<and>
     (\<forall>r \<in> set batch. \<exists>row. v (delivery_id r) = Some row \<and> ready now row \<and>
        r\<lparr>status := IN_FLIGHT\<rparr> = (row_rec row)\<lparr>status := IN_FLIGHT\<rparr>) \<and>
     (\<forall>did. v' did = (if did \<in> delivery_id ` set batch then map_option (leased expiry) (v did) else v did)) \<and>
     (\<forall>r \<in> set batch. \<forall>did row. did \<notin> delivery_id ` set batch \<longrightarrow> v did = Some row \<longrightarrow> ready now row
        \<longrightarrow> fire_at r \<le> fire_at (row_rec row)) \<and>
     int (length batch) \<le> n \<and>
     (int (length batch) < n \<longrightarrow>
        (\<forall>did row. v did = Some row \<longrightarrow> ready now row \<longrightarrow> did \<in> delivery_id ` set batch))"

definition reclaimed :: "time \<Rightarrow> view \<Rightarrow> view" where
  "reclaimed now v = (\<lambda>did. map_option (\<lambda>r. if stale now r then released r else r) (v did))"

definition stale_ids :: "time \<Rightarrow> view \<Rightarrow> string set" where
  "stale_ids now v = {did. \<exists>r. v did = Some r \<and> stale now r}"

section \<open>Runs of a store\<close>

text \<open>
  The events of a store, each with what the caller passed and what it got. A caller marks only
  rows that exist and enqueues only pending ones, as the engine does.
\<close>

datatype event =
  Enqueue "DeliveryRecord list"
| Claim time int int "DeliveryRecord list"
| Reclaim time
| MarkSent string AttemptRecord
| Retry string time AttemptRecord
| MarkDead string AttemptRecord
| Append string AttemptRecord

inductive store_step :: "'s delivery_store \<Rightarrow> event \<Rightarrow> 's \<Rightarrow> 's \<Rightarrow> bool" for st where
  step_enqueue: "list_all (\<lambda>r. status r = PENDING) rs \<Longrightarrow> enqueue_many st rs s = (Inr (), s') \<Longrightarrow>
    store_step st (Enqueue rs) s s'"
| step_claim: "0 \<le> n \<Longrightarrow> claim_batch st now ttl n s = (Inr batch, s') \<Longrightarrow>
    store_step st (Claim now ttl n batch) s s'"
| step_reclaim: "reclaim_stale st now s = (Inr k, s') \<Longrightarrow> store_step st (Reclaim now) s s'"
| step_sent: "store_get st did s = (Inr (Some r), s0) \<Longrightarrow> mark_sent st did a s = (Inr (), s') \<Longrightarrow>
    store_step st (MarkSent did a) s s'"
| step_retry: "store_get st did s = (Inr (Some r), s0) \<Longrightarrow> schedule_retry st did t a s = (Inr (), s') \<Longrightarrow>
    store_step st (Retry did t a) s s'"
| step_dead: "store_get st did s = (Inr (Some r), s0) \<Longrightarrow> mark_dead st did a s = (Inr (), s') \<Longrightarrow>
    store_step st (MarkDead did a) s s'"
| step_append: "store_get st did s = (Inr (Some r), s0) \<Longrightarrow> append_attempt st did a s = (Inr (), s') \<Longrightarrow>
    store_step st (Append did a) s s'"

inductive_cases step_EnqueueE: "store_step st (Enqueue rs) s s'"
inductive_cases step_ClaimE: "store_step st (Claim now ttl n batch) s s'"
inductive_cases step_ReclaimE: "store_step st (Reclaim now) s s'"
inductive_cases step_SentE: "store_step st (MarkSent did a) s s'"
inductive_cases step_RetryE: "store_step st (Retry did t a) s s'"
inductive_cases step_DeadE: "store_step st (MarkDead did a) s s'"
inductive_cases step_AppendE: "store_step st (Append did a) s s'"

inductive store_run :: "'s delivery_store \<Rightarrow> 's \<Rightarrow> event list \<Rightarrow> 's \<Rightarrow> bool" for st where
  run_Nil: "store_run st s [] s"
| run_Cons: "store_step st e s s' \<Longrightarrow> store_run st s' es s'' \<Longrightarrow> store_run st s (e # es) s''"

text \<open>
  A row a claim cannot take: leased until \<open>x\<close>, or terminal. Only a retry of the row, or a
  reclaim after \<open>x\<close>, can put it back.
\<close>

definition terminal :: "DeliveryStatus \<Rightarrow> bool" where
  "terminal st \<longleftrightarrow> st = SENT \<or> st = DEAD_LETTERED"

definition held :: "time \<Rightarrow> row \<Rightarrow> bool" where
  "held x r \<longleftrightarrow> terminal (status (row_rec r)) \<or> status (row_rec r) = IN_FLIGHT \<and> row_lease r = Some x"

fun releases :: "string \<Rightarrow> time \<Rightarrow> event \<Rightarrow> bool" where
  "releases did x (Retry d t a) = (d = did)"
| "releases did x (Reclaim now) = (x < now)"
| "releases did x _ = False"

lemma held_not_ready: "held x r \<Longrightarrow> \<not> ready now r"
  by (auto simp: held_def ready_def claimable_def terminal_def)

lemma held_settled [simp]: "held x (settled SENT k r)" "held x (settled DEAD_LETTERED k r)"
  by (simp_all add: held_def settled_def terminal_def)

lemma held_leased [simp]: "held x (leased x r)"
  by (simp add: held_def leased_def)

lemma held_with_attempts [simp]: "held x (with_attempts k r) \<longleftrightarrow> held x r"
  by (simp add: held_def with_attempts_def)

lemma held_not_stale: "held x r \<Longrightarrow> \<not> x < now \<Longrightarrow> \<not> stale now r"
  by (auto simp: held_def stale_def terminal_def)

lemma claim_ok_not_ready:
  "claim_ok v now x n batch v' \<Longrightarrow> v did = Some r \<Longrightarrow> \<not> ready now r \<Longrightarrow>
   did \<notin> delivery_id ` set batch \<and> v' did = Some r"
  by (auto simp: claim_ok_def)

lemma claim_ok_leased:
  "claim_ok v now x n batch v' \<Longrightarrow> did \<in> delivery_id ` set batch \<Longrightarrow>
   \<exists>r. v did = Some r \<and> ready now r \<and> v' did = Some (leased x r)"
  by (fastforce simp: claim_ok_def)

section \<open>The contract\<close>

text \<open>
  Stores keep instants at a resolution of their own: \<open>grain\<close> is what an instant becomes when it
  is written or compared, the identity for a store that keeps microseconds. \<open>keep\<close> is a record
  as the store gives it back.
\<close>

locale delivery_store_contract =
  fixes st :: "'s delivery_store" and view :: "'s \<Rightarrow> view" and inv :: "'s \<Rightarrow> bool"
    and grain :: "time \<Rightarrow> time" and keep :: "DeliveryRecord \<Rightarrow> DeliveryRecord"
  assumes grain_mono: "t \<le> t' \<Longrightarrow> grain t \<le> grain t'"
    and grain_seconds: "grain (t + seconds n) = grain t + seconds n"
    and keep_id: "delivery_id (keep d) = delivery_id d" and keep_status: "status (keep d) = status d"
    and keep_fire_at: "fire_at (keep d) = grain (fire_at d)"
    and keep_profile: "profile d \<noteq> [] \<Longrightarrow> profile (keep d) = profile d"
    and keep_version: "secret_version (keep d) = secret_version d"
    and view_ok: "inv s \<Longrightarrow> view_ok (view s)"
    and enqueue: "inv s \<Longrightarrow> list_all (\<lambda>r. status r = PENDING) rs \<Longrightarrow>
      \<exists>s'. enqueue_many st rs s = (Inr (), s') \<and> inv s' \<and>
        view s' = enqueued (map keep rs) (view s)"
    and claim: "inv s \<Longrightarrow> 0 \<le> n \<Longrightarrow>
      \<exists>batch s'. claim_batch st now ttl n s = (Inr batch, s') \<and> inv s' \<and>
        claim_ok (view s) (grain now) (grain now + seconds ttl) n batch (view s')"
    and reclaim: "inv s \<Longrightarrow>
      \<exists>s'. reclaim_stale st now s = (Inr (int (card (stale_ids (grain now) (view s)))), s') \<and> inv s' \<and>
        view s' = reclaimed (grain now) (view s)"
    and sent: "inv s \<Longrightarrow> view s did = Some r \<Longrightarrow>
      \<exists>k s'. mark_sent st did a s = (Inr (), s') \<and> inv s' \<and>
        view s' = (view s)(did \<mapsto> settled SENT k r) \<and> k \<in> {attempts (row_rec r), att_attempt a}"
    and dead: "inv s \<Longrightarrow> view s did = Some r \<Longrightarrow>
      \<exists>k s'. mark_dead st did a s = (Inr (), s') \<and> inv s' \<and>
        view s' = (view s)(did \<mapsto> settled DEAD_LETTERED k r) \<and> k \<in> {attempts (row_rec r), att_attempt a}"
    and retry: "inv s \<Longrightarrow> view s did = Some r \<Longrightarrow>
      \<exists>k s'. schedule_retry st did t a s = (Inr (), s') \<and> inv s' \<and>
        view s' = (view s)(did \<mapsto> retried (grain t) k r) \<and>
        (att_attempt a = attempts (row_rec r) + 1 \<longrightarrow> k = attempts (row_rec r) + 1)"
    and append: "inv s \<Longrightarrow> view s did = Some r \<Longrightarrow>
      \<exists>k s'. append_attempt st did a s = (Inr (), s') \<and> inv s' \<and>
        view s' = (view s)(did \<mapsto> with_attempts k r) \<and> k \<in> {attempts (row_rec r), att_attempt a}"
    and get: "inv s \<Longrightarrow> store_get st did s = (Inr (map_option row_rec (view s did)), s)"
    and recent: "inv s \<Longrightarrow> 0 < n \<Longrightarrow>
      \<exists>rs. recent_for_subscription st sid n s = (Inr rs, s) \<and> int (length rs) \<le> n \<and>
        (\<forall>r \<in> set rs. subscription_id r = sid \<and> (\<exists>row. view s (delivery_id r) = Some row \<and> row_rec row = r))"
begin

lemma step_inv: "store_step st e s s' \<Longrightarrow> inv s \<Longrightarrow> inv s'"
proof (induction rule: store_step.induct)
  case (step_enqueue rs s s')
  then show ?case using enqueue [of s rs] by auto
next
  case (step_claim n now ttl s batch s')
  then show ?case using claim [of s n now ttl] by auto
next
  case (step_reclaim now s k s')
  then show ?case using reclaim [of s now] by auto
next
  case (step_sent did s r s0 a s')
  then show ?case using sent [of s did _ a] get [of s did] by auto
next
  case (step_retry did s r s0 t a s')
  then show ?case using retry [of s did _ t a] get [of s did] by auto
next
  case (step_dead did s r s0 a s')
  then show ?case using dead [of s did _ a] get [of s did] by auto
next
  case (step_append did s r s0 a s')
  then show ?case using append [of s did _ a] get [of s did] by auto
qed

text \<open>No other event takes a held row away from its holder.\<close>

lemma step_held:
  assumes "store_step st e s s'" and "inv s" and "view s did = Some r" and "held (grain x) r"
    and "\<not> releases did x e"
  shows "\<exists>r'. view s' did = Some r' \<and> held (grain x) r'"
  using assms
proof (induction rule: store_step.induct)
  case (step_enqueue rs s s')
  then show ?case using enqueue [of s rs] by (auto simp: enqueued_def)
next
  case (step_claim n now ttl s batch s')
  obtain b s1 where c: "claim_batch st now ttl n s = (Inr b, s1)"
    "claim_ok (view s) (grain now) (grain now + seconds ttl) n b (view s1)"
    using claim [OF step_claim.prems(1) step_claim.hyps(1)] by blast
  have "\<not> ready (grain now) r" using step_claim.prems(3) by (rule held_not_ready)
  from claim_ok_not_ready [OF c(2) step_claim.prems(2) this] show ?case
    using c(1) step_claim by auto
next
  case (step_reclaim now s k s')
  then have "\<not> grain x < grain now" using grain_mono [of now x] by simp
  then have "\<not> stale (grain now) r" using step_reclaim.prems(3) by (intro held_not_stale [of "grain x"])
  then show ?case using reclaim [of s now] step_reclaim by (auto simp: reclaimed_def)
next
  case (step_sent d s r' s0 a s')
  then show ?case using sent [of s d _ a] get [of s d] by fastforce
next
  case (step_retry d s r' s0 t a s')
  then show ?case using retry [of s d _ t a] get [of s d] by fastforce
next
  case (step_dead d s r' s0 a s')
  then show ?case using dead [of s d _ a] get [of s d] by fastforce
next
  case (step_append d s r' s0 a s')
  then show ?case using append [of s d _ a] get [of s d] by fastforce
qed

lemma run_inv: "store_run st s es s' \<Longrightarrow> inv s \<Longrightarrow> inv s'"
  by (induction rule: store_run.induct) (auto intro: step_inv)

lemma run_held:
  "store_run st s es s' \<Longrightarrow> inv s \<Longrightarrow> view s did = Some r \<Longrightarrow> held (grain x) r \<Longrightarrow>
   \<not> list_ex (releases did x) es \<Longrightarrow> \<exists>r'. view s' did = Some r' \<and> held (grain x) r'"
proof (induction arbitrary: r rule: store_run.induct)
  case (run_Cons e s s' es s'')
  then show ?case using step_held [of e s s' did r x] step_inv by fastforce
qed auto

lemma claim_takes_not_held:
  assumes "store_step st (Claim now ttl n batch) s s'" and "inv s" and "view s did = Some r" and "held x r"
  shows "did \<notin> delivery_id ` set batch"
proof -
  have "claim_ok (view s) (grain now) (grain now + seconds ttl) n batch (view s')"
    using assms(1) claim [OF assms(2), of n now ttl] by (auto elim!: step_ClaimE)
  from claim_ok_not_ready [OF this assms(3) held_not_ready [OF assms(4)]] show ?thesis by simp
qed

text \<open>
  A claimed row is not handed out again while its lease runs: only a retry of that row, or a
  reclaim after the lease, comes between two claims of it.
\<close>

lemma exclusive_claims:
  assumes "inv s" and "store_step st (Claim now ttl n batch) s s1" and "store_run st s1 es s2"
    and "store_step st (Claim now' ttl' n' batch') s2 s3"
    and "did \<in> delivery_id ` set batch" and "\<not> list_ex (releases did (now + seconds ttl)) es"
  shows "did \<notin> delivery_id ` set batch'"
proof -
  have "claim_ok (view s) (grain now) (grain now + seconds ttl) n batch (view s1)"
    using assms(2) claim [OF assms(1), of n now ttl] by (auto elim!: step_ClaimE)
  from claim_ok_leased [OF this assms(5)] obtain r where
    "view s1 did = Some (leased (grain (now + seconds ttl)) r)" by (auto simp: grain_seconds)
  moreover have i1: "inv s1" by (rule step_inv [OF assms(2,1)])
  ultimately obtain r' where "view s2 did = Some r'" "held (grain (now + seconds ttl)) r'"
    using run_held [OF assms(3) i1 _ _ assms(6)] by fastforce
  then show ?thesis
    using claim_takes_not_held [OF assms(4) run_inv [OF assms(3) i1]] by blast
qed

text \<open>A settled row stays settled, and is never claimed, until someone retries it.\<close>

lemma terminal_forever:
  assumes "inv s" and "view s did = Some r" and "terminal (status (row_rec r))"
    and "store_run st s es s'" and "\<not> list_ex (\<lambda>e. \<exists>t a. e = Retry did t a) es"
  shows "\<exists>r'. view s' did = Some r' \<and> terminal (status (row_rec r'))"
  using assms(4,1-3,5)
proof (induction arbitrary: r rule: store_run.induct)
  case (run_Cons e s s' es s'')
  have "\<exists>r'. view s' did = Some r' \<and> terminal (status (row_rec r'))"
  proof -
    define x where "x = (case e of Reclaim t \<Rightarrow> t | _ \<Rightarrow> 0)"
    have "held (grain x) r" "\<not> releases did x e"
      using run_Cons.prems(3,4) by (cases e; simp add: held_def x_def)+
    from step_held [OF run_Cons.hyps(1) run_Cons.prems(1,2) this] obtain r1 where
      r1: "view s' did = Some r1" "held (grain x) r1" by blast
    moreover have apart: "grain (x + seconds 1) \<noteq> grain x" unfolding grain_seconds by (simp add: seconds_def)
    moreover have "held (grain (x + seconds 1)) r" using run_Cons.prems(3) by (simp add: held_def)
    moreover have "\<not> releases did (x + seconds 1) e"
      using run_Cons.prems(4) by (cases e) (simp_all add: x_def seconds_def)
    ultimately show ?thesis
      using step_held [OF run_Cons.hyps(1) run_Cons.prems(1,2), of "x + seconds 1"] apart by (auto simp: held_def)
  qed
  then show ?case using run_Cons step_inv by fastforce
qed auto

text \<open>A claim abandoned by a crashed worker comes back once its lease has run out.\<close>

lemma crash_recovery:
  assumes "inv s" and "store_step st (Claim now ttl n batch) s s1"
    and "did \<in> delivery_id ` set batch"
    and "grain (now + seconds ttl) < grain t" and "store_step st (Reclaim t) s1 s2"
  shows "\<exists>r. view s2 did = Some (Row r None) \<and> status r = PENDING \<and> fire_at r \<le> grain now"
proof -
  have "claim_ok (view s) (grain now) (grain now + seconds ttl) n batch (view s1)"
    using assms(2) claim [OF assms(1), of n now ttl] by (auto elim!: step_ClaimE)
  from claim_ok_leased [OF this assms(3)] obtain r where
    r: "ready (grain now) r" "view s1 did = Some (leased (grain now + seconds ttl) r)" by blast
  have "view s2 = reclaimed (grain t) (view s1)"
    using assms(5) reclaim [OF step_inv [OF assms(2,1)], of t] by (auto elim!: step_ReclaimE)
  then show ?thesis
    using r assms(4) by (simp add: grain_seconds reclaimed_def stale_def leased_def released_def ready_def)
qed

end

text \<open>
  Stores that keep the attempts apart from the row: logging one does not touch the row. It holds
  of the in-memory store and of the document store, not of the relational one.
\<close>

locale attempt_log_contract = delivery_store_contract +
  assumes append_log: "inv s \<Longrightarrow> view s did = Some r \<Longrightarrow>
    \<exists>s'. append_attempt st did a s = (Inr (), s') \<and> inv s' \<and> view s' = view s"

section \<open>Sample rows\<close>

definition sample_record :: "string \<Rightarrow> time \<Rightarrow> DeliveryRecord" where
  "sample_record did t = \<lparr>delivery_id = did, subscription_id = ''sub-1'', owner_id = ''owner-1'',
     event_name = ''order.paid'', event_id = ''e-1'', schema_version = ''1'', tenant_id = None,
     data_json = ''{}'', emitted_at = 0, target_url = ''https://receiver.example/hook'',
     resolved_ip = ''1.1.1.1'', redelivery_of = None, attempts = 0, fire_at = t, created_at = 0,
     status = PENDING, profile = DEFAULT_PROFILE, secret_version = None\<rparr>"

definition sample_attempt :: AttemptRecord where
  "sample_attempt = \<lparr>att_attempt = 1, att_attempted_at = 0, att_http_code = Some 200,
     att_duration_ms = 5, att_error = None, att_response_snippet = [], att_response_body = [],
     att_response_truncated = False\<rparr>"

end
