(* ===== verification/Profiles.thy ===== *)
theory Profiles
  imports Signer Protocols StoreSpec
begin

text \<open>
  Delivery profiles (\<open>profiles.py\<close>): retry, body, signer and response cap per kind of delivery.
  A kind is a string enum: a class name and its members in order. A key of the mapping given
  to \<open>complete\<close> is a plain string or a member of some enum; keys are equal when their string
  values are.
\<close>

record DeliveryProfile =
  prof_retry :: "WebhookRetryConfig option"
  prof_body :: body_encoder
  prof_signer :: "Signer option"
  prof_max_response_bytes :: "int option"
  honour_retry_after :: bool

text \<open>\<open>DeliveryProfile()\<close> with the envelope encoder as its default body.\<close>

definition default_profile :: "body_encoder \<Rightarrow> DeliveryProfile" where
  "default_profile envelope = \<lparr>prof_retry = None, prof_body = envelope, prof_signer = None,
     prof_max_response_bytes = None, honour_retry_after = True\<rparr>"

record Kinds =
  kinds_name :: string
  kinds_members :: "(string \<times> string) list"

datatype kind_key = Plain string | Member (km_class: string) (km_name: string) (km_value: string)

fun key_value :: "kind_key \<Rightarrow> string" where
  "key_value (Plain s) = s"
| "key_value (Member _ _ v) = v"

fun key_repr :: "kind_key \<Rightarrow> string" where
  "key_repr (Plain s) = quoted s"
| "key_repr (Member c n v) = ''<'' @ c @ ''.'' @ n @ '': '' @ quoted v @ ''>''"

fun is_member :: "Kinds \<Rightarrow> kind_key \<Rightarrow> bool" where
  "is_member kinds (Plain _) = False"
| "is_member kinds (Member c n v) = (c = kinds_name kinds)"

type_synonym ProfileRegistry = "(string, DeliveryProfile) dict"

definition complete ::
  "Kinds \<Rightarrow> (kind_key \<times> DeliveryProfile) list \<Rightarrow> exc + ProfileRegistry" where
  "complete kinds profiles =
     (let foreign = filter (\<lambda>k. \<not> is_member kinds k) (map fst profiles);
          missing = filter (\<lambda>v. v \<notin> set (map key_value (map fst profiles)))
                      (map snd (kinds_members kinds))
      in if foreign \<noteq> [] then
           Inl (TypeError (''profile keys must be '' @ kinds_name kinds @ '' members, got ['' @
             join '', '' (map key_repr foreign) @ '']''))
         else if missing \<noteq> [] then Inl (IncompleteProfiles missing)
         else Inr (fold (\<lambda>(k, p). dict_set (key_value k) p) profiles []))"

definition single :: "body_encoder \<Rightarrow> DeliveryProfile option \<Rightarrow> ProfileRegistry" where
  "single envelope prof =
     [(DEFAULT_PROFILE, case prof of Some p \<Rightarrow> p | None \<Rightarrow> default_profile envelope)]"

definition profile_of :: "ProfileRegistry \<Rightarrow> DeliveryRecord \<Rightarrow> exc + DeliveryProfile" where
  "profile_of reg record =
     (case dict_get reg (profile record) of
        None \<Rightarrow> Inl (UnknownProfile (profile record))
      | Some p \<Rightarrow> Inr p)"

section \<open>Properties\<close>

lemma fold_registry_get:
  "dict_get (fold (\<lambda>(k, p). dict_set (key_value k) p) ps d) v =
     (case map_of (rev (map (\<lambda>(k, p). (key_value k, p)) ps)) v of
        Some p \<Rightarrow> Some p | None \<Rightarrow> dict_get d v)"
  by (induction ps arbitrary: d) (auto simp: map_add_def split: option.splits)

text \<open>
  A registry that \<open>complete\<close> builds serves every kind. For each member of the enum, a row
  that names the member's value gets the profile given for it, so no row of a known kind fails
  with \<open>UnknownProfile\<close>; a row that names anything else does.
\<close>

theorem complete_serves_every_kind:
  assumes "complete kinds profiles = Inr reg"
    and "distinct (map key_value (map fst profiles))"
  shows "(v \<in> snd ` set (kinds_members kinds) \<and> profile record = v \<longrightarrow>
      (\<exists>k p. (k, p) \<in> set profiles \<and> is_member kinds k \<and> key_value k = v \<and> profile_of reg record = Inr p))
    \<and> (profile record \<notin> key_value ` fst ` set profiles \<longrightarrow>
      profile_of reg record = Inl (UnknownProfile (profile record)))"
proof -
  let ?ps = "map (\<lambda>(k, p). (key_value k, p)) profiles"
  have members: "list_all (\<lambda>(k, _). is_member kinds k) profiles"
    and all: "snd ` set (kinds_members kinds) \<subseteq> key_value ` fst ` set profiles"
    and reg: "reg = fold (\<lambda>(k, p). dict_set (key_value k) p) profiles []"
    using assms(1)
    by (auto simp: complete_def Let_def filter_empty_conv list_all_iff image_image split: if_splits)
  have "map fst ?ps = map key_value (map fst profiles)" by (simp add: case_prod_beta comp_def)
  then have d: "distinct (map fst ?ps)" using assms(2) by (simp only:)
  have get: "dict_get reg u = map_of ?ps u" for u
    using dict_get_rev [OF d] by (simp add: reg fold_registry_get rev_map split: option.split)
  have hit: "profile_of reg record = Inr p"
    if "(k, p) \<in> set profiles" "key_value k = profile record" for k p
  proof -
    have "(profile record, p) \<in> set ?ps" using that by force
    then show ?thesis using d by (simp add: profile_of_def get map_of_is_SomeI)
  qed
  have miss: "profile_of reg record = Inl (UnknownProfile (profile record))"
    if "profile record \<notin> key_value ` fst ` set profiles"
  proof -
    have "profile record \<notin> fst ` set ?ps" using that by force
    then show ?thesis by (simp add: profile_of_def get map_of_eq_None_iff [THEN iffD2])
  qed
  have "\<exists>k p. (k, p) \<in> set profiles \<and> is_member kinds k \<and> key_value k = v \<and> profile_of reg record = Inr p"
    if v: "v \<in> snd ` set (kinds_members kinds)" "profile record = v"
  proof -
    have "v \<in> key_value ` fst ` set profiles" using all v(1) by blast
    then obtain k p where k: "(k, p) \<in> set profiles" "key_value k = v" by force
    moreover have "is_member kinds k" using members k(1) by (auto simp: list_all_iff)
    ultimately show ?thesis using hit [OF k(1)] v(2) by metis
  qed
  then show ?thesis using miss by blast
qed

definition sample_row :: "string \<Rightarrow> DeliveryRecord" where
  "sample_row prof = (sample_record ''d-1'' 0)\<lparr>profile := prof\<rparr>"

definition sample_kinds :: Kinds where
  "sample_kinds = \<lparr>kinds_name = ''Kind'', kinds_members = [(''HOOK'', ''hook''), (''PUSH'', ''push'')]\<rparr>"

theorem complete_serves_every_kind_witness:
  "\<exists>reg p. complete sample_kinds [(Member ''Kind'' ''HOOK'' ''hook'', default_profile RawEncoder),
        (Member ''Kind'' ''PUSH'' ''push'', default_profile RawEncoder)] = Inr reg \<and>
     profile_of reg (sample_row ''push'') = Inr p"
proof -
  let ?ps = "[(Member ''Kind'' ''HOOK'' ''hook'', default_profile RawEncoder),
        (Member ''Kind'' ''PUSH'' ''push'', default_profile RawEncoder)]"
  obtain reg where "complete sample_kinds ?ps = Inr reg"
    by (simp add: complete_def sample_kinds_def)
  with complete_serves_every_kind [OF this, of "''push''" "sample_row ''push''"]
  show ?thesis by (auto simp: sample_kinds_def sample_row_def)
qed

end
