(* ===== verification/MemoryStore.thy ===== *)
theory MemoryStore
  imports StoreSpec
begin

text \<open>
  \<open>MemoryWebhookDeliveryStore\<close> (\<open>stores/memory.py\<close>): three dictionaries under one lock. A
  subscript on a missing key raises \<open>KeyError\<close>; what was written before it stays.
\<close>

record MemState =
  mem_records :: "(string, DeliveryRecord) dict"
  mem_attempts :: "(string, AttemptRecord list) dict"
  mem_leases :: "(string, time) dict"

definition mem_empty :: MemState where
  "mem_empty = \<lparr>mem_records = [], mem_attempts = [], mem_leases = []\<rparr>"

definition mem_insert :: "DeliveryRecord \<Rightarrow> MemState \<Rightarrow> MemState" where
  "mem_insert r s =
     (if dict_get (mem_records s) (delivery_id r) = None
      then s\<lparr>mem_records := dict_set (delivery_id r) r (mem_records s),
             mem_attempts := dict_set (delivery_id r) [] (mem_attempts s)\<rparr>
      else s)"

definition mem_enqueue_many :: "DeliveryRecord list \<Rightarrow> (exc, MemState, unit) comp" where
  "mem_enqueue_many records = (\<lambda>s. (Inr (), fold mem_insert records s))"

text \<open>\<open>self._attempts[delivery_id].append(attempt)\<close> and the release of the lease.\<close>

definition mem_log_and_release :: "string \<Rightarrow> AttemptRecord \<Rightarrow> (exc, MemState, unit) comp" where
  "mem_log_and_release did attempt = (\<lambda>s.
     case dict_get (mem_attempts s) did of
       None \<Rightarrow> (Inl (KeyError did), s)
     | Some hist \<Rightarrow>
         (Inr (), s\<lparr>mem_attempts := dict_set did (hist @ [attempt]) (mem_attempts s),
                    mem_leases := dict_pop did (mem_leases s)\<rparr>))"

definition mem_set_status :: "string \<Rightarrow> DeliveryStatus \<Rightarrow> (exc, MemState, unit) comp" where
  "mem_set_status did st = (\<lambda>s.
     case dict_get (mem_records s) did of
       None \<Rightarrow> (Inl (KeyError did), s)
     | Some r \<Rightarrow> (Inr (), s\<lparr>mem_records := dict_set did (r\<lparr>status := st\<rparr>) (mem_records s)\<rparr>))"

definition mem_mark_sent :: "string \<Rightarrow> AttemptRecord \<Rightarrow> (exc, MemState, unit) comp" where
  "mem_mark_sent did attempt =
     bindE (mem_set_status did SENT) (\<lambda>_. mem_log_and_release did attempt)"

definition mem_schedule_retry :: "string \<Rightarrow> time \<Rightarrow> AttemptRecord \<Rightarrow> (exc, MemState, unit) comp" where
  "mem_schedule_retry did fire attempt = (\<lambda>s.
     case dict_get (mem_records s) did of
       None \<Rightarrow> (Inl (KeyError did), s)
     | Some r \<Rightarrow> mem_log_and_release did attempt
         (s\<lparr>mem_records := dict_set did
              (r\<lparr>status := FAILED_RETRY, fire_at := fire, attempts := attempts r + 1\<rparr>)
              (mem_records s)\<rparr>))"

definition mem_mark_dead :: "string \<Rightarrow> AttemptRecord \<Rightarrow> (exc, MemState, unit) comp" where
  "mem_mark_dead did attempt =
     bindE (mem_set_status did DEAD_LETTERED) (\<lambda>_. mem_log_and_release did attempt)"

definition mem_append_attempt :: "string \<Rightarrow> AttemptRecord \<Rightarrow> (exc, MemState, unit) comp" where
  "mem_append_attempt did attempt = (\<lambda>s.
     (Inr (), s\<lparr>mem_attempts := dict_set did
        ((case dict_get (mem_attempts s) did of None \<Rightarrow> [] | Some hist \<Rightarrow> hist) @ [attempt])
        (mem_attempts s)\<rparr>))"

definition mem_get :: "string \<Rightarrow> (exc, MemState, DeliveryRecord option) comp" where
  "mem_get did = (\<lambda>s. (Inr (dict_get (mem_records s) did), s))"

definition mem_recent_for_subscription ::
  "string \<Rightarrow> int \<Rightarrow> (exc, MemState, DeliveryRecord list) comp" where
  "mem_recent_for_subscription sid limit = (\<lambda>s.
     (Inr (py_drop (- limit) (filter (\<lambda>r. subscription_id r = sid) (map snd (mem_records s)))), s))"

definition mem_lease :: "time \<Rightarrow> DeliveryRecord \<Rightarrow> MemState \<Rightarrow> MemState" where
  "mem_lease expiry r s =
     s\<lparr>mem_records := dict_set (delivery_id r) (r\<lparr>status := IN_FLIGHT\<rparr>) (mem_records s),
       mem_leases := dict_set (delivery_id r) expiry (mem_leases s)\<rparr>"

definition mem_ready :: "time \<Rightarrow> MemState \<Rightarrow> DeliveryRecord list" where
  "mem_ready now s = sort_key fire_at
     (filter (\<lambda>r. status r \<in> {PENDING, FAILED_RETRY} \<and> fire_at r \<le> now) (map snd (mem_records s)))"

definition mem_claim_batch :: "time \<Rightarrow> int \<Rightarrow> int \<Rightarrow> (exc, MemState, DeliveryRecord list) comp" where
  "mem_claim_batch now ttl_s n = (\<lambda>s.
     let batch = py_take n (mem_ready now s)
     in (Inr batch, fold (mem_lease (now + seconds ttl_s)) batch s))"

text \<open>The comprehension that looks up each expired lease's record.\<close>

fun mem_stale :: "time \<Rightarrow> (string, DeliveryRecord) dict \<Rightarrow> (string \<times> time) list \<Rightarrow> exc + string list" where
  "mem_stale now records [] = Inr []"
| "mem_stale now records ((did, expiry) # rest) =
     (if expiry < now then
        (case dict_get records did of
           None \<Rightarrow> Inl (KeyError did)
         | Some r \<Rightarrow>
             (case mem_stale now records rest of
                Inl e \<Rightarrow> Inl e
              | Inr ids \<Rightarrow> Inr (if status r = IN_FLIGHT then did # ids else ids)))
      else mem_stale now records rest)"

definition mem_release :: "string \<Rightarrow> MemState \<Rightarrow> MemState" where
  "mem_release did s =
     s\<lparr>mem_records := (case dict_get (mem_records s) did of
          None \<Rightarrow> mem_records s
        | Some r \<Rightarrow> dict_set did (r\<lparr>status := PENDING\<rparr>) (mem_records s)),
       mem_leases := dict_pop did (mem_leases s)\<rparr>"

definition mem_reclaim_stale :: "time \<Rightarrow> (exc, MemState, int) comp" where
  "mem_reclaim_stale now = (\<lambda>s.
     case mem_stale now (mem_records s) (mem_leases s) of
       Inl e \<Rightarrow> (Inl e, s)
     | Inr ids \<Rightarrow> (Inr (int (length ids)), fold mem_release ids s))"

definition mem_store :: "MemState delivery_store" where
  "mem_store = \<lparr>enqueue_many = mem_enqueue_many, claim_batch = mem_claim_batch,
     reclaim_stale = mem_reclaim_stale, mark_sent = mem_mark_sent,
     schedule_retry = mem_schedule_retry, mark_dead = mem_mark_dead,
     append_attempt = mem_append_attempt, store_get = mem_get,
     recent_for_subscription = mem_recent_for_subscription\<rparr>"

section \<open>What the store shows, and its invariant\<close>

definition mem_view :: "MemState \<Rightarrow> view" where
  "mem_view s = (\<lambda>did. map_option (\<lambda>r. Row r (dict_get (mem_leases s) did)) (dict_get (mem_records s) did))"

text \<open>
  Every record is filed under its id and has an attempt list; a lease is kept exactly for the
  rows in flight.
\<close>

definition maps_ok ::
  "(string \<rightharpoonup> DeliveryRecord) \<Rightarrow> (string \<rightharpoonup> AttemptRecord list) \<Rightarrow> (string \<rightharpoonup> time) \<Rightarrow> bool" where
  "maps_ok R A L \<longleftrightarrow>
     (\<forall>did r. R did = Some r \<longrightarrow>
        delivery_id r = did \<and> A did \<noteq> None \<and> (L did \<noteq> None \<longleftrightarrow> status r = IN_FLIGHT)) \<and>
     (\<forall>did. L did \<noteq> None \<longrightarrow> R did \<noteq> None)"

definition mem_inv :: "MemState \<Rightarrow> bool" where
  "mem_inv s \<longleftrightarrow>
     dict_ok (mem_records s) \<and> dict_ok (mem_attempts s) \<and> dict_ok (mem_leases s) \<and>
     maps_ok (dict_get (mem_records s)) (dict_get (mem_attempts s)) (dict_get (mem_leases s))"

declare map_of_eq_Some_iff [simp del]

lemma maps_ok_new:
  "maps_ok R A L \<Longrightarrow> R did = None \<Longrightarrow> delivery_id r = did \<Longrightarrow> status r \<noteq> IN_FLIGHT \<Longrightarrow>
   maps_ok (R(did \<mapsto> r)) (A(did \<mapsto> h)) L"
  by (auto simp: maps_ok_def)

lemma maps_ok_settle:
  "maps_ok R A L \<Longrightarrow> delivery_id r = did \<Longrightarrow> status r \<noteq> IN_FLIGHT \<Longrightarrow>
   maps_ok (R(did \<mapsto> r)) (A(did \<mapsto> h)) (L(did := None))"
  by (auto simp: maps_ok_def)

lemma maps_ok_lease:
  "maps_ok R A L \<Longrightarrow> R did \<noteq> None \<Longrightarrow> delivery_id r = did \<Longrightarrow> status r = IN_FLIGHT \<Longrightarrow>
   maps_ok (R(did \<mapsto> r)) A (L(did \<mapsto> e))"
  by (auto simp: maps_ok_def)

lemma maps_ok_release:
  "maps_ok R A L \<Longrightarrow> R did \<noteq> None \<Longrightarrow> delivery_id r = did \<Longrightarrow> status r \<noteq> IN_FLIGHT \<Longrightarrow>
   maps_ok (R(did \<mapsto> r)) A (L(did := None))"
  by (auto simp: maps_ok_def)

lemma maps_ok_append: "maps_ok R A L \<Longrightarrow> maps_ok R (A(did \<mapsto> h)) L"
  by (auto simp: maps_ok_def)

lemma maps_ok_D:
  "maps_ok R A L \<Longrightarrow> R did = Some r \<Longrightarrow>
   delivery_id r = did \<and> (\<exists>h. A did = Some h) \<and> (L did \<noteq> None \<longleftrightarrow> status r = IN_FLIGHT)"
  "maps_ok R A L \<Longrightarrow> R did = None \<Longrightarrow> L did = None"
  unfolding maps_ok_def by blast+

lemma mem_inv_empty: "mem_inv mem_empty"
  by (simp add: mem_inv_def mem_empty_def maps_ok_def)

lemma mem_view_Some:
  "mem_view s did = Some r \<longleftrightarrow>
     dict_get (mem_records s) did = Some (row_rec r) \<and> row_lease r = dict_get (mem_leases s) did"
  by (cases r) (auto simp: mem_view_def)

lemma mem_view_ok:
  assumes "mem_inv s"
  shows "view_ok (mem_view s)"
proof -
  have "dom (mem_view s) = dom (dict_get (mem_records s))" by (auto simp: mem_view_def)
  moreover have "maps_ok (dict_get (mem_records s)) (dict_get (mem_attempts s)) (dict_get (mem_leases s))"
    using assms by (simp add: mem_inv_def)
  ultimately show ?thesis
    by (auto simp: view_ok_def mem_view_Some finite_dom_map_of dest!: maps_ok_D(1))
qed

section \<open>Enqueue\<close>

lemma mem_insert_inv [inv_intros]:
  "mem_inv s \<Longrightarrow> status r = PENDING \<Longrightarrow> mem_inv (mem_insert r s)"
  by (simp add: mem_inv_def mem_insert_def maps_ok_new)

lemma mem_insert_view:
  assumes "mem_inv s"
  shows "mem_view (mem_insert r s) = enqueued [r] (mem_view s)"
proof -
  have "maps_ok (dict_get (mem_records s)) (dict_get (mem_attempts s)) (dict_get (mem_leases s))"
    using assms by (simp add: mem_inv_def)
  then show ?thesis
    using maps_ok_D(2) by (auto simp: mem_insert_def mem_view_def enqueued_def fun_eq_iff split: option.splits)
qed

lemma enqueued_Nil [simp]: "enqueued [] v = v"
  by (auto simp: enqueued_def fun_eq_iff split: option.split)

lemma enqueued_Cons: "enqueued (r # rs) v = enqueued rs (enqueued [r] v)"
  by (auto simp: enqueued_def fun_eq_iff split: option.splits)

lemma mem_enqueue:
  "mem_inv s \<Longrightarrow> list_all (\<lambda>r. status r = PENDING) rs \<Longrightarrow>
   mem_inv (fold mem_insert rs s) \<and> mem_view (fold mem_insert rs s) = enqueued rs (mem_view s)"
proof (induction rs arbitrary: s)
  case (Cons r rs)
  then show ?case using enqueued_Cons [of r rs] by (simp add: mem_insert_inv mem_insert_view)
qed simp

section \<open>Marks\<close>

lemma mem_inv_get:
  assumes "mem_inv s" and "mem_view s did = Some r"
  shows "dict_get (mem_records s) did = Some (row_rec r)" "delivery_id (row_rec r) = did"
    "\<exists>h. dict_get (mem_attempts s) did = Some h" "row_lease r = dict_get (mem_leases s) did"
  using assms maps_ok_D(1) [of "dict_get (mem_records s)" "dict_get (mem_attempts s)"
      "dict_get (mem_leases s)" did]
  by (auto simp: mem_inv_def mem_view_Some)

lemma mem_settle:
  assumes "mem_inv s" and "mem_view s did = Some r" and "st \<noteq> IN_FLIGHT"
  shows "\<exists>s'. bindE (mem_set_status did st) (\<lambda>_. mem_log_and_release did a) s = (Inr (), s') \<and>
    mem_inv s' \<and> mem_view s' = (mem_view s)(did \<mapsto> settled st (attempts (row_rec r)) r)"
proof -
  obtain h where g: "dict_get (mem_records s) did = Some (row_rec r)" "delivery_id (row_rec r) = did"
    "dict_get (mem_attempts s) did = Some h"
    using mem_inv_get [OF assms(1,2)] by blast
  then show ?thesis
    using assms(1,3)
    by (auto simp: bindE_def mem_set_status_def mem_log_and_release_def mem_inv_def
        mem_view_def settled_def fun_eq_iff intro!: maps_ok_settle)
qed

lemma mem_retry:
  assumes "mem_inv s" and "mem_view s did = Some r"
  shows "\<exists>s'. mem_schedule_retry did t a s = (Inr (), s') \<and>
    mem_inv s' \<and> mem_view s' = (mem_view s)(did \<mapsto> retried t (attempts (row_rec r) + 1) r)"
proof -
  obtain h where g: "dict_get (mem_records s) did = Some (row_rec r)" "delivery_id (row_rec r) = did"
    "dict_get (mem_attempts s) did = Some h"
    using mem_inv_get [OF assms(1,2)] by blast
  then show ?thesis
    using assms(1)
    by (auto simp: mem_schedule_retry_def mem_log_and_release_def mem_inv_def
        mem_view_def retried_def fun_eq_iff intro!: maps_ok_settle)
qed

lemma mem_append:
  assumes "mem_inv s"
  shows "\<exists>s'. mem_append_attempt did a s = (Inr (), s') \<and> mem_inv s' \<and> mem_view s' = mem_view s"
  using assms by (simp add: mem_append_attempt_def mem_inv_def mem_view_def maps_ok_append)

section \<open>Claims\<close>

lemma mem_values_ids:
  assumes "mem_inv s"
  shows "map delivery_id (map snd (mem_records s)) = map fst (mem_records s)"
proof -
  have "delivery_id (snd x) = fst x" if "x \<in> set (mem_records s)" for x
    using assms that maps_ok_D(1) map_of_is_SomeI [of "mem_records s" "fst x" "snd x"]
    by (auto simp: mem_inv_def)
  then show ?thesis by simp
qed

lemma mem_values_get:
  assumes "mem_inv s"
  shows "r \<in> set (map snd (mem_records s)) \<longleftrightarrow> dict_get (mem_records s) (delivery_id r) = Some r"
proof
  assume "r \<in> set (map snd (mem_records s))"
  then obtain k where k: "(k, r) \<in> set (mem_records s)" by auto
  then have "dict_get (mem_records s) k = Some r"
    using assms by (simp add: mem_inv_def map_of_eq_Some_iff)
  moreover have "delivery_id r = k"
    using calculation assms maps_ok_D(1) by (fastforce simp: mem_inv_def)
  ultimately show "dict_get (mem_records s) (delivery_id r) = Some r" by simp
next
  assume "dict_get (mem_records s) (delivery_id r) = Some r"
  then show "r \<in> set (map snd (mem_records s))" by (force dest: map_of_SomeD)
qed

lemma mem_ready_set:
  assumes "mem_inv s"
  shows "r \<in> set (mem_ready now s) \<longleftrightarrow>
     dict_get (mem_records s) (delivery_id r) = Some r \<and> claimable (status r) \<and> fire_at r \<le> now"
  using mem_values_get [OF assms, of r] by (auto simp: mem_ready_def claimable_def)

lemma mem_ready_distinct:
  assumes "mem_inv s"
  shows "distinct (map delivery_id (mem_ready now s))"
proof -
  have "distinct (map delivery_id (map snd (mem_records s)))"
    using assms unfolding mem_values_ids [OF assms] by (simp add: mem_inv_def)
  then show ?thesis
    unfolding mem_ready_def by (intro distinct_map_sort_key distinct_map_filter)
qed

lemma mem_lease_fold:
  "mem_records (fold (mem_lease e) batch s)
     = fold (\<lambda>r. dict_set (delivery_id r) (r\<lparr>status := IN_FLIGHT\<rparr>)) batch (mem_records s)"
  "mem_leases (fold (mem_lease e) batch s) = fold (\<lambda>r. dict_set (delivery_id r) e) batch (mem_leases s)"
  by (induction batch arbitrary: s) (simp_all add: mem_lease_def)

lemma mem_lease_inv [inv_intros]:
  "mem_inv s \<Longrightarrow> dict_get (mem_records s) (delivery_id r) \<noteq> None \<Longrightarrow> mem_inv (mem_lease e r s)"
  by (auto simp: mem_inv_def mem_lease_def intro!: maps_ok_lease)

lemma mem_lease_fold_inv:
  assumes "mem_inv s" and "\<And>r. r \<in> set batch \<Longrightarrow> dict_get (mem_records s) (delivery_id r) \<noteq> None"
  shows "mem_inv (fold (mem_lease e) batch s)"
  using assms
proof (induction batch arbitrary: s)
  case (Cons r batch)
  have "mem_inv (mem_lease e r s)" using Cons.prems by (intro mem_lease_inv) auto
  moreover have "dict_get (mem_records (mem_lease e r s)) (delivery_id r') \<noteq> None" if "r' \<in> set batch" for r'
    using Cons.prems that by (simp add: mem_lease_def)
  ultimately show ?case using Cons.IH by simp
qed simp

lemma mem_claim_view:
  assumes inv: "mem_inv s" and dist: "distinct (map delivery_id batch)"
    and rec: "\<And>r. r \<in> set batch \<Longrightarrow> dict_get (mem_records s) (delivery_id r) = Some r"
  shows "mem_view (fold (mem_lease e) batch s) did =
    (if did \<in> delivery_id ` set batch then map_option (leased e) (mem_view s did) else mem_view s did)"
proof (cases "did \<in> delivery_id ` set batch")
  case True
  then obtain r where r: "r \<in> set batch" "delivery_id r = did" by auto
  then have "find (\<lambda>x. delivery_id x = did) batch = Some r"
    using find_Some_distinct [OF dist r(1)] by simp
  then show ?thesis
    using True r rec [OF r(1)]
    by (simp add: mem_view_def mem_lease_fold dict_get_fold_set_distinct [OF dist] leased_def)
next
  case False
  then have "find (\<lambda>x. delivery_id x = did) batch = None" by (auto simp: find_None_iff)
  then show ?thesis
    using False by (simp add: mem_view_def mem_lease_fold dict_get_fold_set_distinct [OF dist])
qed

lemma mem_claim:
  assumes inv: "mem_inv s" and n: "0 \<le> n"
  shows "\<exists>batch s'. mem_claim_batch now ttl n s = (Inr batch, s') \<and> mem_inv s' \<and>
    claim_ok (mem_view s) now (now + seconds ttl) n batch (mem_view s')"
proof -
  let ?ready = "mem_ready now s" and ?e = "now + seconds ttl"
  define batch where "batch = py_take n ?ready"
  have batch: "batch = take (nat n) ?ready" using n by (simp add: batch_def py_take_nonneg)
  have dist: "distinct (map delivery_id batch)"
    unfolding batch_def by (intro distinct_map_py_take mem_ready_distinct [OF inv])
  have sub: "r \<in> set ?ready" if "r \<in> set batch" for r
    using that set_py_take unfolding batch_def by fastforce
  have rec: "dict_get (mem_records s) (delivery_id r) = Some r" "claimable (status r)" "fire_at r \<le> now"
    if "r \<in> set batch" for r
    using sub [OF that] mem_ready_set [OF inv] by auto
  have ready_in: "row_rec row \<in> set ?ready \<and> delivery_id (row_rec row) = did"
    if "mem_view s did = Some row" "ready now row" for did row
    using mem_inv_get [OF inv that(1)] that(2) by (simp add: mem_ready_set [OF inv] ready_def)
  have sorted: "sorted (map fire_at ?ready)" by (simp add: mem_ready_def)
  have rest: "row_rec row \<in> set (drop (nat n) ?ready)"
    if "mem_view s did = Some row" "ready now row" "did \<notin> delivery_id ` set batch" for did row
  proof -
    have "row_rec row \<in> set (take (nat n) ?ready) \<union> set (drop (nat n) ?ready)"
      using ready_in [OF that(1,2)] by (metis append_take_drop_id set_append)
    then show ?thesis using ready_in [OF that(1,2)] that(3) batch by blast
  qed
  have "claim_ok (mem_view s) now ?e n batch (mem_view (fold (mem_lease ?e) batch s))"
    unfolding claim_ok_def
  proof (intro conjI allI ballI impI)
    show "distinct (map delivery_id batch)" by (rule dist)
    show "\<exists>row. mem_view s (delivery_id r) = Some row \<and> ready now row \<and>
        r\<lparr>status := IN_FLIGHT\<rparr> = (row_rec row)\<lparr>status := IN_FLIGHT\<rparr>" if "r \<in> set batch" for r
      using rec [OF that] by (simp add: mem_view_def ready_def)
    show "mem_view (fold (mem_lease ?e) batch s) did = (if did \<in> delivery_id ` set batch
        then map_option (leased ?e) (mem_view s did) else mem_view s did)" for did
      by (rule mem_claim_view [OF inv dist rec(1)])
    show "fire_at r \<le> fire_at (row_rec row)"
      if "r \<in> set batch" "did \<notin> delivery_id ` set batch" "mem_view s did = Some row" "ready now row"
      for r did row
      using sorted_take_le_drop [OF sorted _ rest [OF that(3,4,2)]] that(1) batch by simp
    show "int (length batch) \<le> n" using n batch by simp
    show "did \<in> delivery_id ` set batch"
      if "int (length batch) < n" "mem_view s did = Some row" "ready now row" for did row
      using rest [OF that(2,3)] that(1) batch n by (cases "did \<in> delivery_id ` set batch") auto
  qed
  moreover have "mem_inv (fold (mem_lease ?e) batch s)"
    by (rule mem_lease_fold_inv [OF inv]) (simp add: rec(1))
  ultimately show ?thesis by (simp add: mem_claim_batch_def Let_def batch_def)
qed

section \<open>Reclaim\<close>

lemma mem_stale_eq:
  assumes "\<forall>(did, e) \<in> set leases. R did \<noteq> None" and "R = dict_get records"
  shows "mem_stale now records leases = Inr (map fst (filter (\<lambda>(did, e). e < now \<and>
      (case R did of None \<Rightarrow> False | Some r \<Rightarrow> status r = IN_FLIGHT)) leases))"
  using assms by (induction leases) (auto split: if_splits option.splits)

lemma mem_release_fold:
  "mem_leases (fold mem_release ids s) = fold (\<lambda>d. dict_pop d) ids (mem_leases s)"
  by (induction ids arbitrary: s) (simp_all add: mem_release_def)

lemma mem_release_inv [inv_intros]:
  assumes "mem_inv s"
  shows "mem_inv (mem_release did s)"
proof (cases "dict_get (mem_records s) did")
  case None
  then have "dict_get (mem_leases s) did = None" using assms maps_ok_D(2) by (auto simp: mem_inv_def)
  then have "(dict_get (mem_leases s))(did := None) = dict_get (mem_leases s)" by auto
  then show ?thesis using None assms by (simp add: mem_inv_def mem_release_def)
next
  case (Some r)
  then have "delivery_id r = did" using assms maps_ok_D(1) by (fastforce simp: mem_inv_def)
  then show ?thesis
    using Some assms by (auto simp: mem_inv_def mem_release_def intro!: maps_ok_release)
qed

lemma mem_release_view:
  "mem_view (mem_release d s) did = (if did = d then map_option released (mem_view s did) else mem_view s did)"
  by (auto simp: mem_view_def mem_release_def released_def split: option.split)

lemma released_idem [simp]: "released (released r) = released r"
  by (simp add: released_def)

lemma mem_release_fold_view:
  "mem_inv s \<Longrightarrow> mem_inv (fold mem_release ids s) \<and>
   mem_view (fold mem_release ids s) did =
     (if did \<in> set ids then map_option released (mem_view s did) else mem_view s did)"
  by (induction ids arbitrary: s)
    (auto simp: mem_release_view mem_release_inv option.map_comp comp_def)

lemma mem_reclaim:
  assumes inv: "mem_inv s"
  shows "\<exists>s'. mem_reclaim_stale now s = (Inr (int (card (stale_ids now (mem_view s)))), s') \<and>
    mem_inv s' \<and> mem_view s' = reclaimed now (mem_view s)"
proof -
  let ?R = "dict_get (mem_records s)" and ?L = "mem_leases s"
  define ids where "ids = map fst (filter (\<lambda>(did, e). e < now \<and>
      (case ?R did of None \<Rightarrow> False | Some r \<Rightarrow> status r = IN_FLIGHT)) ?L)"
  have L: "dict_get ?L did = Some e \<longleftrightarrow> (did, e) \<in> set ?L" for did e
    using inv by (simp add: mem_inv_def map_of_eq_Some_iff)
  have "\<forall>(did, e) \<in> set ?L. ?R did \<noteq> None"
    using inv L maps_ok_D(2) [of ?R _ "dict_get ?L"] by (fastforce simp: mem_inv_def)
  then have stale: "mem_stale now (mem_records s) ?L = Inr ids"
    unfolding ids_def by (intro mem_stale_eq) simp_all
  have "did \<in> set ids \<longleftrightarrow> did \<in> stale_ids now (mem_view s)" for did
    using L by (force simp: ids_def stale_ids_def mem_view_def stale_def split: option.splits)
  then have ids: "set ids = stale_ids now (mem_view s)" by blast
  have "distinct ids" using inv by (auto simp: ids_def mem_inv_def intro: distinct_map_filter)
  then have card: "length ids = card (stale_ids now (mem_view s))"
    using ids distinct_card by metis
  have "mem_view (fold mem_release ids s) did = reclaimed now (mem_view s) did" for did
    using mem_release_fold_view [OF inv, of ids did]
    by (cases "mem_view s did") (auto simp: reclaimed_def ids stale_ids_def)
  then have "mem_view (fold mem_release ids s) = reclaimed now (mem_view s)" by blast
  then show ?thesis
    using mem_release_fold_view [OF inv] by (simp add: mem_reclaim_stale_def stale card)
qed

section \<open>The store meets the contract\<close>

lemma py_drop_length: "0 < n \<Longrightarrow> int (length (py_drop (- n) xs)) \<le> n"
  by (auto simp: py_drop_def slice_index_def)

lemma set_py_drop: "x \<in> set (py_drop i xs) \<Longrightarrow> x \<in> set xs"
  by (auto simp: py_drop_def dest: in_set_dropD)

lemma mem_recent:
  assumes inv: "mem_inv s" and "0 < n"
  shows "\<exists>rs. mem_recent_for_subscription sid n s = (Inr rs, s) \<and> int (length rs) \<le> n \<and>
    (\<forall>r \<in> set rs. subscription_id r = sid \<and>
      (\<exists>row. mem_view s (delivery_id r) = Some row \<and> row_rec row = r))"
proof -
  let ?rs = "py_drop (- n) (filter (\<lambda>r. subscription_id r = sid) (map snd (mem_records s)))"
  have r: "subscription_id r = sid" "dict_get (mem_records s) (delivery_id r) = Some r"
    if "r \<in> set ?rs" for r
    using set_py_drop [OF that] mem_values_get [OF inv, of r] unfolding set_filter mem_Collect_eq
    by blast+
  have "\<exists>row. mem_view s (delivery_id r) = Some row \<and> row_rec row = r" if "r \<in> set ?rs" for r
    using r(2) [OF that] by (simp add: mem_view_def)
  then show ?thesis
    using py_drop_length [OF assms(2)] r(1) unfolding mem_recent_for_subscription_def by blast
qed

interpretation mem: delivery_store_contract mem_store mem_view mem_inv "\<lambda>t. t" "\<lambda>r. r"
proof unfold_locales
  fix s did r a t rs now ttl n sid
  show "mem_inv s \<Longrightarrow> view_ok (mem_view s)" by (rule mem_view_ok)
  show "mem_inv s \<Longrightarrow> list_all (\<lambda>r. status r = PENDING) rs \<Longrightarrow>
      \<exists>s'. enqueue_many mem_store rs s = (Inr (), s') \<and> mem_inv s' \<and> mem_view s' = enqueued (map (\<lambda>r. r) rs) (mem_view s)"
    using mem_enqueue by (simp add: mem_store_def mem_enqueue_many_def)
  show "mem_inv s \<Longrightarrow> 0 \<le> n \<Longrightarrow>
      \<exists>batch s'. claim_batch mem_store now ttl n s = (Inr batch, s') \<and> mem_inv s' \<and>
        claim_ok (mem_view s) now (now + seconds ttl) n batch (mem_view s')"
    using mem_claim by (simp add: mem_store_def)
  show "mem_inv s \<Longrightarrow> \<exists>s'. reclaim_stale mem_store now s
        = (Inr (int (card (stale_ids now (mem_view s)))), s') \<and> mem_inv s' \<and>
        mem_view s' = reclaimed now (mem_view s)"
    using mem_reclaim by (simp add: mem_store_def)
  show "mem_inv s \<Longrightarrow> mem_view s did = Some r \<Longrightarrow>
      \<exists>k s'. mark_sent mem_store did a s = (Inr (), s') \<and> mem_inv s' \<and>
        mem_view s' = (mem_view s)(did \<mapsto> settled SENT k r) \<and> k \<in> {attempts (row_rec r), att_attempt a}"
    using mem_settle [of s did r SENT a] by (auto simp: mem_store_def mem_mark_sent_def)
  show "mem_inv s \<Longrightarrow> mem_view s did = Some r \<Longrightarrow>
      \<exists>k s'. mark_dead mem_store did a s = (Inr (), s') \<and> mem_inv s' \<and>
        mem_view s' = (mem_view s)(did \<mapsto> settled DEAD_LETTERED k r) \<and>
        k \<in> {attempts (row_rec r), att_attempt a}"
    using mem_settle [of s did r DEAD_LETTERED a] by (auto simp: mem_store_def mem_mark_dead_def)
  show "mem_inv s \<Longrightarrow> mem_view s did = Some r \<Longrightarrow>
      \<exists>k s'. schedule_retry mem_store did t a s = (Inr (), s') \<and> mem_inv s' \<and>
        mem_view s' = (mem_view s)(did \<mapsto> retried t k r) \<and>
        (att_attempt a = attempts (row_rec r) + 1 \<longrightarrow> k = attempts (row_rec r) + 1)"
    using mem_retry [of s did r t a] by (auto simp: mem_store_def)
  show "mem_inv s \<Longrightarrow> mem_view s did = Some r \<Longrightarrow>
      \<exists>k s'. append_attempt mem_store did a s = (Inr (), s') \<and> mem_inv s' \<and>
        mem_view s' = (mem_view s)(did \<mapsto> with_attempts k r) \<and> k \<in> {attempts (row_rec r), att_attempt a}"
  proof -
    assume *: "mem_inv s" "mem_view s did = Some r"
    have "with_attempts (attempts (row_rec r)) r = r" by (cases r) (simp add: with_attempts_def)
    then show "\<exists>k s'. append_attempt mem_store did a s = (Inr (), s') \<and> mem_inv s' \<and>
        mem_view s' = (mem_view s)(did \<mapsto> with_attempts k r) \<and> k \<in> {attempts (row_rec r), att_attempt a}"
      using mem_append [OF *(1), of did a] *(2) by (force simp: mem_store_def fun_upd_idem)
  qed
  show "mem_inv s \<Longrightarrow> store_get mem_store did s = (Inr (map_option row_rec (mem_view s did)), s)"
    by (simp add: mem_store_def mem_get_def mem_view_def option.map_comp comp_def option.map_ident)
  show "mem_inv s \<Longrightarrow> 0 < n \<Longrightarrow>
      \<exists>rs. recent_for_subscription mem_store sid n s = (Inr rs, s) \<and> int (length rs) \<le> n \<and>
        (\<forall>r \<in> set rs. subscription_id r = sid \<and>
          (\<exists>row. mem_view s (delivery_id r) = Some row \<and> row_rec row = r))"
    using mem_recent by (simp add: mem_store_def)
qed simp_all

interpretation mem_log: attempt_log_contract mem_store mem_view mem_inv "\<lambda>t. t" "\<lambda>r. r"
  by unfold_locales (use mem_append in \<open>simp add: mem_store_def\<close>)

section \<open>Properties\<close>

text \<open>The states the store can get into: those a run from the empty store ends in.\<close>

definition mem_reachable :: "MemState \<Rightarrow> bool" where
  "mem_reachable s \<longleftrightarrow> (\<exists>es. store_run mem_store mem_empty es s)"

lemma mem_reachable_inv: "mem_reachable s \<Longrightarrow> mem_inv s"
  using mem.run_inv mem_inv_empty by (auto simp: mem_reachable_def)

text \<open>
  C5: two claims of the in-memory store never hand out the same row while its lease runs. In
  any run from the empty store, between a claim of a row and the next claim of it there is a
  retry of that row or a reclaim at an instant after the first claim's lease.
\<close>

theorem mem_claims_exclusive:
  assumes "mem_reachable s" and "store_step mem_store (Claim now ttl n batch) s s1"
    and "store_run mem_store s1 es s2"
    and "store_step mem_store (Claim now' ttl' n' batch') s2 s3"
    and "did \<in> delivery_id ` set batch"
    and "\<forall>e \<in> set es. \<not> releases did (now + seconds ttl) e"
  shows "did \<notin> delivery_id ` set batch'"
  by (rule mem.exclusive_claims [OF mem_reachable_inv [OF assms(1)] assms(2-5)])
    (use assms(6) in \<open>simp add: list_ex_iff\<close>)

text \<open>A store that holds one row, after one claim.\<close>

definition sample_s1 :: MemState where
  "sample_s1 = snd (mem_enqueue_many [sample_record ''a'' 0] mem_empty)"

definition sample_s2 :: MemState where
  "sample_s2 = snd (mem_claim_batch 0 30 10 sample_s1)"

lemma sample_claim: "mem_claim_batch 0 30 10 sample_s1 = (Inr [sample_record ''a'' 0], sample_s2)"
  by code_simp

lemma sample_steps:
  "store_step mem_store (Enqueue [sample_record ''a'' 0]) mem_empty sample_s1"
  "store_step mem_store (Claim 0 30 10 [sample_record ''a'' 0]) sample_s1 sample_s2"
  using sample_claim
  by (auto intro!: store_step.intros
      simp: mem_store_def sample_s1_def mem_enqueue_many_def sample_record_def)

lemma sample_reachable: "mem_reachable sample_s1" "mem_reachable sample_s2"
  using sample_steps by (auto simp: mem_reachable_def intro: store_run.intros)

theorem mem_claims_exclusive_witness:
  "\<exists>batch s3. store_step mem_store (Claim 5 30 10 batch) sample_s2 s3 \<and> ''a'' \<notin> delivery_id ` set batch"
proof -
  obtain batch s3 where "claim_batch mem_store 5 30 10 sample_s2 = (Inr batch, s3)"
    using mem.claim [OF mem_reachable_inv [OF sample_reachable(2)], of 10 5 30] by auto
  then have c: "store_step mem_store (Claim 5 30 10 batch) sample_s2 s3"
    by (intro step_claim) simp_all
  have "''a'' \<in> delivery_id ` set [sample_record ''a'' 0]" by (simp add: sample_record_def)
  from mem_claims_exclusive [OF sample_reachable(1) sample_steps(2) run_Nil c this] c
  show ?thesis by auto
qed

text \<open>
  What one claim of the in-memory store does. It hands out at most the number asked for,
  each row once, only rows that are pending or waiting for a retry and due, the earliest due
  first served, and every due row when there is room; exactly those rows become in flight with
  the lease asked for, and no other row changes.
\<close>

theorem mem_claim_correct:
  assumes "mem_reachable s" and "0 \<le> n"
  shows "\<exists>batch s'. mem_claim_batch now ttl n s = (Inr batch, s') \<and>
    int (length batch) \<le> n \<and> distinct (map delivery_id batch) \<and>
    (\<forall>r \<in> set batch. dict_get (mem_records s) (delivery_id r) = Some r \<and>
       (status r = PENDING \<or> status r = FAILED_RETRY) \<and> fire_at r \<le> now \<and>
       dict_get (mem_records s') (delivery_id r) = Some (r\<lparr>status := IN_FLIGHT\<rparr>) \<and>
       dict_get (mem_leases s') (delivery_id r) = Some (now + seconds ttl)) \<and>
    (\<forall>r' did. dict_get (mem_records s) did = Some r' \<longrightarrow> did \<notin> delivery_id ` set batch \<longrightarrow>
       dict_get (mem_records s') did = Some r' \<and>
       dict_get (mem_leases s') did = dict_get (mem_leases s) did \<and>
       ((status r' = PENDING \<or> status r' = FAILED_RETRY) \<and> fire_at r' \<le> now \<longrightarrow>
          int (length batch) = n \<and> (\<forall>r \<in> set batch. fire_at r \<le> fire_at r')))"
proof -
  note inv = mem_reachable_inv [OF assms(1)]
  obtain batch s' where c: "mem_claim_batch now ttl n s = (Inr batch, s')"
    and ok: "claim_ok (mem_view s) now (now + seconds ttl) n batch (mem_view s')"
    using mem_claim [OF inv assms(2)] by blast
  have batch: "batch = py_take n (mem_ready now s)" using c by (simp add: mem_claim_batch_def Let_def)
  have taken: "dict_get (mem_records s) (delivery_id r) = Some r \<and> claimable (status r) \<and> fire_at r \<le> now"
    if "r \<in> set batch" for r
    using that set_py_take [of n "mem_ready now s"] mem_ready_set [OF inv, of r now] by (auto simp: batch)
  have leased: "dict_get (mem_records s') (delivery_id r) = Some (r\<lparr>status := IN_FLIGHT\<rparr>) \<and>
      dict_get (mem_leases s') (delivery_id r) = Some (now + seconds ttl)" if "r \<in> set batch" for r
    using claim_ok_leased [OF ok imageI [OF that]] taken [OF that]
    by (auto simp: mem_view_Some leased_def)
  have other: "dict_get (mem_records s') did = Some r' \<and>
      dict_get (mem_leases s') did = dict_get (mem_leases s) did"
    if "dict_get (mem_records s) did = Some r'" "did \<notin> delivery_id ` set batch" for r' did
  proof -
    have "mem_view s' did = mem_view s did" using ok that(2) by (simp add: claim_ok_def)
    then show ?thesis using that(1) by (auto simp: mem_view_def)
  qed
  have due: "int (length batch) = n \<and> (\<forall>r \<in> set batch. fire_at r \<le> fire_at r')"
    if "dict_get (mem_records s) did = Some r'" "did \<notin> delivery_id ` set batch"
      "claimable (status r')" "fire_at r' \<le> now" for r' did
  proof -
    have v: "mem_view s did = Some (Row r' (dict_get (mem_leases s) did))"
      "ready now (Row r' (dict_get (mem_leases s) did))"
      using that by (simp_all add: mem_view_def ready_def)
    show ?thesis using ok v that(2) unfolding claim_ok_def by force
  qed
  have "int (length batch) \<le> n" "distinct (map delivery_id batch)"
    using ok by (simp_all add: claim_ok_def)
  then show ?thesis
    using taken leased other due unfolding claimable_def
    by (intro exI [of _ batch] exI [of _ s'] conjI ballI allI impI) (use c in blast)+
qed

theorem mem_claim_correct_witness:
  "\<exists>batch s'. mem_claim_batch 0 30 10 sample_s1 = (Inr batch, s') \<and> distinct (map delivery_id batch)"
  using mem_claim_correct [OF sample_reachable(1), of 10 0 30] by auto

text \<open>
  C6: a sent or dead-lettered row stays sent or dead-lettered, through every claim, reclaim,
  duplicate enqueue and mark, for as long as nobody schedules a retry of it.
\<close>

theorem mem_terminal_forever:
  assumes "mem_reachable s" and "dict_get (mem_records s) did = Some r"
    and "status r = SENT \<or> status r = DEAD_LETTERED"
    and "store_run mem_store s es s'" and "\<forall>e \<in> set es. \<forall>t a. e \<noteq> Retry did t a"
  shows "\<exists>r'. dict_get (mem_records s') did = Some r' \<and> (status r' = SENT \<or> status r' = DEAD_LETTERED)"
proof -
  have v: "mem_view s did = Some (Row r (dict_get (mem_leases s) did))"
    using assms(2) by (simp add: mem_view_def)
  have "\<exists>r'. mem_view s' did = Some r' \<and> terminal (status (row_rec r'))"
    by (rule mem.terminal_forever [OF mem_reachable_inv [OF assms(1)] v _ assms(4)])
      (use assms(3,5) in \<open>auto simp: terminal_def list_ex_iff\<close>)
  then show ?thesis by (auto simp: mem_view_Some terminal_def)
qed

definition sample_s3 :: MemState where
  "sample_s3 = snd (mem_mark_dead ''a'' sample_attempt sample_s2)"

lemma sample_dead:
  "mem_get ''a'' sample_s2 = (Inr (Some ((sample_record ''a'' 0)\<lparr>status := IN_FLIGHT\<rparr>)), sample_s2)"
  "mem_mark_dead ''a'' sample_attempt sample_s2 = (Inr (), sample_s3)"
  "dict_get (mem_records sample_s3) ''a'' = Some ((sample_record ''a'' 0)\<lparr>status := DEAD_LETTERED\<rparr>)"
  by code_simp+

lemma sample_reachable_dead: "mem_reachable sample_s3"
proof -
  have "store_step mem_store (MarkDead ''a'' sample_attempt) sample_s2 sample_s3"
    by (rule step_dead) (simp_all add: mem_store_def sample_dead)
  then have "store_run mem_store mem_empty
      [Enqueue [sample_record ''a'' 0], Claim 0 30 10 [sample_record ''a'' 0], MarkDead ''a'' sample_attempt] sample_s3"
    using sample_steps by (auto intro: store_run.intros)
  then show ?thesis by (auto simp: mem_reachable_def)
qed

theorem mem_terminal_forever_witness:
  "\<exists>s' r'. store_step mem_store (Reclaim (seconds 99)) sample_s3 s' \<and>
     dict_get (mem_records s') ''a'' = Some r' \<and> status r' \<noteq> PENDING"
proof -
  obtain s' where "reclaim_stale mem_store (seconds 99) sample_s3
      = (Inr (int (card (stale_ids (seconds 99) (mem_view sample_s3)))), s')"
    using mem.reclaim [OF mem_reachable_inv [OF sample_reachable_dead]] by blast
  then have step: "store_step mem_store (Reclaim (seconds 99)) sample_s3 s'" by (rule step_reclaim)
  from mem_terminal_forever [OF sample_reachable_dead sample_dead(3) _ run_Cons [OF step run_Nil]]
  obtain r' where "dict_get (mem_records s') ''a'' = Some r'" "status r' = SENT \<or> status r' = DEAD_LETTERED"
    by auto
  then show ?thesis using step by auto
qed



end
