(* ===== verification/HostSemaphores.thy ===== *)
theory HostSemaphores
  imports Types PyStr
begin

text \<open>
  The per-host bulkhead (\<open>host_semaphores.py\<close>) under interleaving. A semaphore is an object:
  the pool maps a host to its identity and \<open>hp_sems\<close> holds its free permits. asyncio switches
  tasks only at an \<open>await\<close>, so a task moves from phase to phase: waiting for the guard lock
  (nothing awaits inside it), waiting for a permit, holding one, finished. A task that is
  cancelled while it waits, and one whose body raises, leaves the same way.
\<close>

datatype phase = AtGuard string | Waiting string nat | Holding string nat | Finished

record HostPool =
  hp_pool :: "(string, nat) dict"
  hp_sems :: "int list"
  hp_tasks :: "nat \<rightharpoonup> phase"

definition pool_init :: HostPool where
  "pool_init = \<lparr>hp_pool = [], hp_sems = [], hp_tasks = Map.empty\<rparr>"

text \<open>\<open>_get\<close> up to its first await: a known host needs no lock.\<close>

definition enter :: "string \<Rightarrow> HostPool \<Rightarrow> phase" where
  "enter host p =
     (case dict_get (hp_pool p) (lower host) of
        Some sid \<Rightarrow> Waiting (lower host) sid
      | None \<Rightarrow> AtGuard (lower host))"

text \<open>The body under the guard: look again, create on a miss.\<close>

definition get_guarded :: "int \<Rightarrow> string \<Rightarrow> HostPool \<Rightarrow> nat \<times> HostPool" where
  "get_guarded per_host host p =
     (case dict_get (hp_pool p) host of
        Some sid \<Rightarrow> (sid, p)
      | None \<Rightarrow>
          (length (hp_sems p),
           p\<lparr>hp_pool := dict_set host (length (hp_sems p)) (hp_pool p),
             hp_sems := hp_sems p @ [per_host]\<rparr>))"

definition active_hosts :: "HostPool \<Rightarrow> string list" where
  "active_hosts p = map fst (hp_pool p)"

definition pool_size :: "HostPool \<Rightarrow> int" where
  "pool_size p = int (length (hp_pool p))"

inductive pool_step :: "int \<Rightarrow> HostPool \<Rightarrow> HostPool \<Rightarrow> bool" for per_host where
  start: "hp_tasks p t = None \<Longrightarrow>
    pool_step per_host p (p\<lparr>hp_tasks := (hp_tasks p)(t \<mapsto> enter host p)\<rparr>)"
| guard: "hp_tasks p t = Some (AtGuard h) \<Longrightarrow> get_guarded per_host h p = (sid, p') \<Longrightarrow>
    pool_step per_host p (p'\<lparr>hp_tasks := (hp_tasks p')(t \<mapsto> Waiting h sid)\<rparr>)"
| acquire: "hp_tasks p t = Some (Waiting h sid) \<Longrightarrow> 0 < hp_sems p ! sid \<Longrightarrow>
    pool_step per_host p (p\<lparr>hp_sems := (hp_sems p)[sid := hp_sems p ! sid - 1],
      hp_tasks := (hp_tasks p)(t \<mapsto> Holding h sid)\<rparr>)"
| release: "hp_tasks p t = Some (Holding h sid) \<Longrightarrow>
    pool_step per_host p (p\<lparr>hp_sems := (hp_sems p)[sid := hp_sems p ! sid + 1],
      hp_tasks := (hp_tasks p)(t \<mapsto> Finished)\<rparr>)"
| cancel: "hp_tasks p t = Some (AtGuard h) \<or> hp_tasks p t = Some (Waiting h sid) \<Longrightarrow>
    pool_step per_host p (p\<lparr>hp_tasks := (hp_tasks p)(t \<mapsto> Finished)\<rparr>)"

inductive pool_reach :: "int \<Rightarrow> HostPool \<Rightarrow> bool" for per_host where
  init: "pool_reach per_host pool_init"
| step: "pool_reach per_host p \<Longrightarrow> pool_step per_host p p' \<Longrightarrow> pool_reach per_host p'"

section \<open>The invariant\<close>

definition holders :: "HostPool \<Rightarrow> nat \<Rightarrow> nat set" where
  "holders p sid = {t. \<exists>h. hp_tasks p t = Some (Holding h sid)}"

definition holders_of :: "HostPool \<Rightarrow> string \<Rightarrow> nat set" where
  "holders_of p h = {t. \<exists>sid. hp_tasks p t = Some (Holding h sid)}"

text \<open>Every task that waits for or holds a semaphore of a host refers to the one in the pool.\<close>

definition refs_ok :: "HostPool \<Rightarrow> bool" where
  "refs_ok p \<longleftrightarrow>
     (\<forall>t h sid. hp_tasks p t = Some (Waiting h sid) \<or> hp_tasks p t = Some (Holding h sid) \<longrightarrow>
        dict_get (hp_pool p) h = Some sid)"

definition pool_ok :: "HostPool \<Rightarrow> bool" where
  "pool_ok p \<longleftrightarrow>
     (\<forall>h sid. dict_get (hp_pool p) h = Some sid \<longrightarrow> sid < length (hp_sems p)) \<and>
     (\<forall>h h' sid. dict_get (hp_pool p) h = Some sid \<longrightarrow> dict_get (hp_pool p) h' = Some sid \<longrightarrow> h = h')"

definition pool_inv :: "int \<Rightarrow> HostPool \<Rightarrow> bool" where
  "pool_inv per_host p \<longleftrightarrow>
     finite (dom (hp_tasks p)) \<and> refs_ok p \<and> pool_ok p \<and>
     (\<forall>sid < length (hp_sems p). 0 \<le> hp_sems p ! sid \<and>
        hp_sems p ! sid + int (card (holders p sid)) = per_host)"

lemma holders_finite: "finite (dom (hp_tasks p)) \<Longrightarrow> finite (holders p sid)"
  by (rule finite_subset [of _ "dom (hp_tasks p)"]) (auto simp: holders_def)

lemma holders_other_phase:
  assumes "\<forall>h. hp_tasks p t \<noteq> Some (Holding h sid)" and "\<forall>h. ph \<noteq> Holding h sid"
  shows "{u. \<exists>h. ((hp_tasks p)(t \<mapsto> ph)) u = Some (Holding h sid)} = holders p sid"
  using assms by (auto simp: holders_def)

lemma holders_add:
  "{u. \<exists>h. ((hp_tasks p)(t \<mapsto> Holding h0 sid0)) u = Some (Holding h sid)}
     = (if sid = sid0 then insert t (holders p sid) else holders p sid - {t})"
  by (auto simp: holders_def)

lemma holders_remove:
  assumes "\<forall>h s. ph \<noteq> Holding h s"
  shows "{u. \<exists>h. ((hp_tasks p)(t \<mapsto> ph)) u = Some (Holding h sid)} = holders p sid - {t}"
  using assms by (auto simp: holders_def)

lemma pool_inv_init: "0 \<le> per_host \<Longrightarrow> pool_inv per_host pool_init"
  by (simp add: pool_inv_def pool_init_def refs_ok_def pool_ok_def)

text \<open>A change of phase that neither takes nor returns a permit.\<close>

lemma pool_inv_phase:
  assumes "pool_inv n p" and "\<forall>h sid. hp_tasks p t \<noteq> Some (Holding h sid)"
    and "\<forall>h sid. ph \<noteq> Holding h sid"
    and "\<forall>h sid. ph = Waiting h sid \<longrightarrow> dict_get (hp_pool p) h = Some sid"
  shows "pool_inv n (p\<lparr>hp_tasks := (hp_tasks p)(t \<mapsto> ph)\<rparr>)"
proof -
  have "holders (p\<lparr>hp_tasks := (hp_tasks p)(t \<mapsto> ph)\<rparr>) sid = holders p sid" for sid
    using holders_other_phase [of p t sid ph] assms(2,3) by (simp add: holders_def)
  then show ?thesis
    using assms(1,3,4) by (auto simp: pool_inv_def refs_ok_def pool_ok_def)
qed

lemma pool_inv_guarded:
  assumes inv: "pool_inv n p" and n: "0 \<le> n" and g: "get_guarded n h p = (sid, p')"
  shows "pool_inv n p'" "dict_get (hp_pool p') h = Some sid" "hp_tasks p' = hp_tasks p"
proof -
  show "dict_get (hp_pool p') h = Some sid" "hp_tasks p' = hp_tasks p"
    using g by (auto simp: get_guarded_def split: option.splits)
  show "pool_inv n p'"
  proof (cases "dict_get (hp_pool p) h")
    case (Some s)
    then show ?thesis using inv g by (simp add: get_guarded_def)
  next
    case None
    let ?new = "length (hp_sems p)"
    have p': "p' = p\<lparr>hp_pool := dict_set h ?new (hp_pool p), hp_sems := hp_sems p @ [n]\<rparr>"
      using None g by (auto simp: get_guarded_def)
    have pool: "pool_ok p" and refs: "refs_ok p" using inv by (simp_all add: pool_inv_def)
    have "holders p ?new = {}"
      using pool refs by (fastforce simp: holders_def refs_ok_def pool_ok_def)
    then have "pool_inv n p' \<longleftrightarrow> refs_ok p' \<and> pool_ok p'"
      using inv n by (auto simp: pool_inv_def p' holders_def nth_append less_Suc_eq)
    moreover have "refs_ok p'" using refs None by (fastforce simp: refs_ok_def p')
    moreover have "pool_ok p'" using pool by (fastforce simp: pool_ok_def p')
    ultimately show ?thesis by simp
  qed
qed

lemma pool_inv_acquire:
  assumes inv: "pool_inv n p" and t: "hp_tasks p t = Some (Waiting h sid)" and free: "0 < hp_sems p ! sid"
  shows "pool_inv n (p\<lparr>hp_sems := (hp_sems p)[sid := hp_sems p ! sid - 1],
      hp_tasks := (hp_tasks p)(t \<mapsto> Holding h sid)\<rparr>)" (is "pool_inv n ?q")
proof -
  have fin: "finite (holders p s)" for s using inv holders_finite by (simp add: pool_inv_def)
  have t': "t \<notin> holders p s" for s using t by (simp add: holders_def)
  have "holders ?q s = (if s = sid then insert t (holders p s) else holders p s)" for s
    using holders_add [of p t h sid s] t' by (auto simp: holders_def)
  moreover have "refs_ok ?q" "pool_ok ?q"
    using inv t by (auto simp: pool_inv_def refs_ok_def pool_ok_def)
  ultimately show ?thesis
    using inv free fin t' by (auto simp: pool_inv_def nth_list_update)
qed

lemma pool_inv_release:
  assumes inv: "pool_inv n p" and t: "hp_tasks p t = Some (Holding h sid)"
  shows "pool_inv n (p\<lparr>hp_sems := (hp_sems p)[sid := hp_sems p ! sid + 1],
      hp_tasks := (hp_tasks p)(t \<mapsto> Finished)\<rparr>)" (is "pool_inv n ?q")
proof -
  have fin: "finite (holders p s)" for s using inv holders_finite by (simp add: pool_inv_def)
  have t': "t \<in> holders p s \<longleftrightarrow> s = sid" for s using t by (auto simp: holders_def)
  have h: "holders ?q s = holders p s - {t}" for s
    using holders_remove [of Finished p t s] by (simp add: holders_def)
  have "card (holders p sid) = Suc (card (holders p sid - {t}))"
    using fin t' by (intro card_Suc_Diff1 [symmetric]) simp_all
  moreover have "holders p s - {t} = holders p s" if "s \<noteq> sid" for s using t' that by auto
  moreover have "refs_ok ?q" "pool_ok ?q"
    using inv t by (auto simp: pool_inv_def refs_ok_def pool_ok_def)
  moreover have "sid < length (hp_sems p)"
    using inv t unfolding pool_inv_def refs_ok_def pool_ok_def by blast
  ultimately show ?thesis
    using inv by (auto simp: pool_inv_def nth_list_update h)
qed

lemma pool_step_inv: "pool_step n p p' \<Longrightarrow> 0 \<le> n \<Longrightarrow> pool_inv n p \<Longrightarrow> pool_inv n p'"
proof (induction rule: pool_step.induct)
  case (start p t host)
  then show ?case
    by (intro pool_inv_phase) (auto simp: enter_def split: option.splits)
next
  case (guard p t h sid p')
  from pool_inv_guarded [OF guard.prems(2,1) guard.hyps(2)] guard.hyps(1)
  show ?case by (intro pool_inv_phase) simp_all
next
  case (acquire p t h sid)
  then show ?case by (intro pool_inv_acquire)
next
  case (release p t h sid)
  then show ?case by (intro pool_inv_release)
next
  case (cancel p t h sid)
  then show ?case by (intro pool_inv_phase) auto
qed

lemma pool_reach_inv: "pool_reach n p \<Longrightarrow> 0 \<le> n \<Longrightarrow> pool_inv n p"
  by (induction rule: pool_reach.induct) (auto intro: pool_inv_init pool_step_inv)

section \<open>Properties\<close>

text \<open>
  C15: the bulkhead holds under every interleaving of tasks, cancellations included: no host
  ever has more than \<open>per_host_concurrency\<close> requests in progress, although two tasks that miss
  the pool at the same time both go for the guard.
\<close>

theorem bulkhead:
  assumes "pool_reach per_host p" and "0 \<le> per_host"
  shows "int (card (holders_of p h)) \<le> per_host"
proof (cases "dict_get (hp_pool p) h")
  case None
  then have "holders_of p h = {}"
    using pool_reach_inv [OF assms] by (auto simp: pool_inv_def refs_ok_def holders_of_def)
  then show ?thesis using assms(2) by simp
next
  case (Some sid)
  note inv = pool_reach_inv [OF assms]
  have "holders_of p h \<subseteq> holders p sid"
    using inv Some by (fastforce simp: pool_inv_def refs_ok_def holders_of_def holders_def)
  moreover have "finite (holders p sid)" using inv holders_finite by (simp add: pool_inv_def)
  ultimately have "card (holders_of p h) \<le> card (holders p sid)" by (rule card_mono [rotated])
  moreover have "sid < length (hp_sems p)" using inv Some by (auto simp: pool_inv_def pool_ok_def)
  ultimately show ?thesis using inv unfolding pool_inv_def by force
qed

lemma sample_reach: "pool_reach 3 (pool_init\<lparr>hp_tasks := [0 \<mapsto> AtGuard ''a'']\<rparr>)"
proof -
  have "lower ''A'' = ''a''" by code_simp
  then have "enter ''A'' pool_init = AtGuard ''a''" by (simp add: enter_def pool_init_def)
  then show ?thesis
    using pool_reach.step [OF pool_reach.init pool_step.start [of pool_init 0 3 "''A''"]]
    by (simp add: pool_init_def)
qed

theorem bulkhead_witness:
  "int (card (holders_of (pool_init\<lparr>hp_tasks := [0 \<mapsto> AtGuard ''a'']\<rparr>) ''a'')) \<le> 3"
  using bulkhead [OF sample_reach] by simp

text \<open>
  One slow host does not starve another. A task that waits for a host with fewer than
  \<open>per_host_concurrency\<close> requests in progress can take its permit in the next step, whatever
  the other hosts hold.
\<close>

theorem bulkhead_isolation:
  assumes "pool_reach per_host p" and "0 \<le> per_host"
    and "hp_tasks p t = Some (Waiting h sid)" and "int (card (holders_of p h)) < per_host"
  shows "\<exists>p'. pool_step per_host p p' \<and> hp_tasks p' t = Some (Holding h sid)"
proof -
  note inv = pool_reach_inv [OF assms(1,2)]
  have pool: "dict_get (hp_pool p) h = Some sid"
    using inv assms(3) by (auto simp: pool_inv_def refs_ok_def)
  have "holders p sid \<subseteq> holders_of p h"
  proof
    fix u assume "u \<in> holders p sid"
    then obtain h' where "hp_tasks p u = Some (Holding h' sid)" by (auto simp: holders_def)
    moreover from this have "h' = h"
      using inv pool unfolding pool_inv_def refs_ok_def pool_ok_def by blast
    ultimately show "u \<in> holders_of p h" by (auto simp: holders_of_def)
  qed
  moreover have "finite (holders_of p h)"
    using inv by (auto simp: pool_inv_def holders_of_def intro: finite_subset [of _ "dom (hp_tasks p)"])
  ultimately have "card (holders p sid) \<le> card (holders_of p h)" by (rule card_mono [rotated])
  moreover have "sid < length (hp_sems p)" using inv pool by (auto simp: pool_inv_def pool_ok_def)
  ultimately have "0 < hp_sems p ! sid" using inv assms(4) unfolding pool_inv_def by force
  from pool_step.acquire [OF assms(3) this, of per_host] show ?thesis by fastforce
qed

theorem bulkhead_isolation_witness:
  "\<exists>p p'. pool_reach 1 p \<and> pool_step 1 p p' \<and> hp_tasks p' 0 = Some (Holding ''a'' 0)"
proof -
  let ?p = "\<lparr>hp_pool = [(''a'', 0)], hp_sems = [1], hp_tasks = [0 \<mapsto> Waiting ''a'' 0]\<rparr>"
  have low: "lower ''a'' = ''a''" by code_simp
  have "pool_step 1 pool_init (pool_init\<lparr>hp_tasks := [0 \<mapsto> AtGuard ''a'']\<rparr>)"
    using pool_step.start [of pool_init 0 1 "''a''"] low by (simp add: enter_def pool_init_def)
  moreover have "pool_step 1 (pool_init\<lparr>hp_tasks := [0 \<mapsto> AtGuard ''a'']\<rparr>) ?p"
    using pool_step.guard [of "pool_init\<lparr>hp_tasks := [0 \<mapsto> AtGuard ''a'']\<rparr>" 0 "''a''" 1]
    by (simp add: get_guarded_def pool_init_def)
  ultimately have r: "pool_reach 1 ?p" by (meson pool_reach.intros)
  have "holders_of ?p ''a'' = {}" by (auto simp: holders_of_def)
  with bulkhead_isolation [OF r, of 0 "''a''" 0] r show ?thesis by auto
qed

end
