(* ===== verification/Dispatcher.thy ===== *)
theory Dispatcher
  imports Policy Profiles SsrfGuard MemoryStore HostSemaphores
begin

text \<open>
  One delivery attempt (\<open>dispatcher.py\<close>). The dispatcher's collaborators are the fields of its
  record, the answers of the network being functions: \<open>d_post\<close> answers a request or raises,
  \<open>d_resolver\<close> a name, \<open>d_bus\<close> an emitted event (\<open>Some\<close> is what \<open>emit_post\<close> raises). What
  the dispatcher reads and changes is the world: the store, the secret reader, the requests it
  has posted, the events it has emitted, the hosts of the semaphore pool. The clock is read
  once, so its value is an argument; \<open>u\<close> is the draw of the jitter.
\<close>

record ExhaustedEvent =
  ex_meta_event_id :: string
  ex_meta_emitted_at :: time
  ex_delivery_id :: string
  ex_subscription_id :: string
  ex_owner_id :: string
  ex_source_event :: string
  ex_attempts :: int
  ex_last_error :: string

record ('s, 'r) Dispatcher =
  d_signer :: Signer
  d_post :: http_sender
  d_config :: WebhookPolicyConfig
  d_store :: "'s delivery_store"
  d_secret_reader :: "'r secret_reader"
  d_ssrf :: UrlSafetyValidator
  d_idna :: idna
  d_bus :: "(ExhaustedEvent \<Rightarrow> exc option) option"
  d_resolver :: "target_resolver option"
  d_profiles :: ProfileRegistry
  d_parsedate :: "string \<Rightarrow> parsed_date"
  d_uuid :: string
  d_now_utc :: time

record ('s, 'r) world =
  w_store :: 's
  w_reader :: "'r reader_state"
  w_posts :: "PostCall list"
  w_emitted :: "ExhaustedEvent list"
  w_hosts :: "string list"

section \<open>Lifting the collaborators\<close>

definition on_store :: "(exc, 's, 'a) comp \<Rightarrow> (exc, ('s, 'r) world, 'a) comp" where
  "on_store m = (\<lambda>w. case m (w_store w) of (res, s) \<Rightarrow> (res, w\<lparr>w_store := s\<rparr>))"

definition on_reader :: "(exc, 'r reader_state, 'a) comp \<Rightarrow> (exc, ('s, 'r) world, 'a) comp" where
  "on_reader m = (\<lambda>w. case m (w_reader w) of (res, r) \<Rightarrow> (res, w\<lparr>w_reader := r\<rparr>))"

text \<open>\<open>async with host_sem.acquire(host)\<close> around the request: the pool learns the host.\<close>

definition post_under_host ::
  "('s, 'r) Dispatcher \<Rightarrow> string \<Rightarrow> PostCall \<Rightarrow> ('s, 'r) world \<Rightarrow> (exc + HttpSendResult) \<times> ('s, 'r) world" where
  "post_under_host d host call w =
     (d_post d call,
      w\<lparr>w_posts := w_posts w @ [call],
        w_hosts := (if lower host \<in> set (w_hosts w) then w_hosts w else w_hosts w @ [lower host])\<rparr>)"

section \<open>The steps of an attempt\<close>

definition header_lookup :: "(string, string) dict \<Rightarrow> string \<Rightarrow> string option" where
  "header_lookup headers name = map_option snd (find (\<lambda>(k, _). lower k = name) headers)"

definition current_ip :: "('s, 'r) Dispatcher \<Rightarrow> DeliveryRecord \<Rightarrow> string \<Rightarrow> string" where
  "current_ip d record host =
     (case d_resolver d of
        None \<Rightarrow> resolved_ip record
      | Some resolve \<Rightarrow>
          if host = [] then resolved_ip record
          else (case resolve host of
                  Inl e \<Rightarrow> resolved_ip record
                | Inr None \<Rightarrow> resolved_ip record
                | Inr (Some fresh) \<Rightarrow> if fresh = [] then resolved_ip record else fresh))"

definition build_signed ::
  "('s, 'r) Dispatcher \<Rightarrow> DeliveryRecord \<Rightarrow> DeliveryProfile \<Rightarrow> string \<Rightarrow> int \<Rightarrow> time \<Rightarrow> string option
   \<Rightarrow> exc + bytes \<times> (string, string) dict" where
  "build_signed d record prof secret attempt_no now previous =
     (case prof_body prof record attempt_no of
        Inl e \<Rightarrow> Inl e
      | Inr body \<Rightarrow>
          (let signer = (case prof_signer prof of Some s \<Rightarrow> s | None \<Rightarrow> d_signer d);
               sign = (\<lambda>key. sgn_sign signer (delivery_id record) (event_name record)
                                (event_id record) body key now)
           in (case sign secret of
                 Inl e \<Rightarrow> Inl e
               | Inr cur \<Rightarrow>
                   (case previous of
                      None \<Rightarrow> Inr (body, headers_of cur)
                    | Some prev \<Rightarrow>
                        (case sign prev of
                           Inl e \<Rightarrow> Inl e
                         | Inr old \<Rightarrow>
                             (case (cur, old) of
                                (Shipped h, Shipped g) \<Rightarrow>
                                  Inr (body, as_dict (h\<lparr>webhook_signature :=
                                    webhook_signature h @ '' '' @ webhook_signature g\<rparr>))
                              | _ \<Rightarrow> Inr (body, headers_of cur)))))))"

text \<open>\<open>now + timedelta(seconds=delay)\<close>: years 1 to 9999.\<close>

definition add_delay :: "time \<Rightarrow> pyfloat \<Rightarrow> exc + time" where
  "add_delay now delay =
     (if delay = NaN then Inl (ValueError ''cannot convert float NaN to integer'')
      else (case timedelta_us delay of
              None \<Rightarrow> Inl OverflowError
            | Some us \<Rightarrow> if valid_instant (now + us) then Inr (now + us) else Inl OverflowError))"

definition exhausted_event :: "('s, 'r) Dispatcher \<Rightarrow> DeliveryRecord \<Rightarrow> AttemptRecord \<Rightarrow> ExhaustedEvent" where
  "exhausted_event d record attempt =
     \<lparr>ex_meta_event_id = d_uuid d, ex_meta_emitted_at = d_now_utc d,
      ex_delivery_id = delivery_id record, ex_subscription_id = subscription_id record,
      ex_owner_id = owner_id record, ex_source_event = event_name record,
      ex_attempts = att_attempt attempt,
      ex_last_error = (case att_error attempt of None \<Rightarrow> [] | Some e \<Rightarrow> e)\<rparr>"

definition dead_letter_from_attempt ::
  "('s, 'r) Dispatcher \<Rightarrow> DeliveryRecord \<Rightarrow> AttemptRecord \<Rightarrow> (exc, ('s, 'r) world, DispatchOutcome) comp" where
  "dead_letter_from_attempt d record attempt =
     bindE (on_store (mark_dead (d_store d) (delivery_id record) attempt)) (\<lambda>_ w.
       (Inr \<lparr>out_status = DEAD_LETTERED, out_next_fire_at = None, out_attempt = attempt\<rparr>,
        (case d_bus d of
           None \<Rightarrow> w
         | Some emit_post \<Rightarrow>
             (case emit_post (exhausted_event d record attempt) of
                None \<Rightarrow> w\<lparr>w_emitted := w_emitted w @ [exhausted_event d record attempt]\<rparr>
              | Some e \<Rightarrow> w))))"

definition dead_letter ::
  "('s, 'r) Dispatcher \<Rightarrow> DeliveryRecord \<Rightarrow> int \<Rightarrow> time \<Rightarrow> string \<Rightarrow> (exc, ('s, 'r) world, DispatchOutcome) comp" where
  "dead_letter d record attempt_no now error =
     dead_letter_from_attempt d record
       \<lparr>att_attempt = attempt_no, att_attempted_at = now, att_http_code = None, att_duration_ms = 0,
        att_error = Some error, att_response_snippet = [], att_response_body = [],
        att_response_truncated = False\<rparr>"

text \<open>What the answer to the request, or its failure, says about the attempt.\<close>

definition attempt_of ::
  "int \<Rightarrow> time \<Rightarrow> exc + HttpSendResult \<Rightarrow> RetryReason option \<Rightarrow> AttemptRecord" where
  "attempt_of attempt_no now answer reason =
     (case answer of
        Inr r \<Rightarrow>
          \<lparr>att_attempt = attempt_no, att_attempted_at = now, att_http_code = Some (res_status r),
           att_duration_ms = res_duration_ms r, att_error = None,
           att_response_snippet = res_body_snippet r,
           att_response_body = (if reason = None then res_body r else []),
           att_response_truncated = res_body_truncated r\<rparr>
      | Inl e \<Rightarrow>
          \<lparr>att_attempt = attempt_no, att_attempted_at = now, att_http_code = None,
           att_duration_ms = 0, att_error = Some (exc_class_name e @ '': '' @ exc_text e),
           att_response_snippet = [], att_response_body = [], att_response_truncated = False\<rparr>)"

text \<open>\<open>httpx.RequestError\<close>, of which \<open>httpx.TimeoutException\<close> is a subclass.\<close>

fun is_request_error :: "exc \<Rightarrow> bool" where
  "is_request_error (HttpTimeout _ _) = True"
| "is_request_error (HttpRequestError _ _) = True"
| "is_request_error _ = False"

definition retry_delay ::
  "('s, 'r) Dispatcher \<Rightarrow> DeliveryProfile \<Rightarrow> WebhookRetryConfig \<Rightarrow> rat \<Rightarrow> int \<Rightarrow> time \<Rightarrow>
   exc + HttpSendResult \<Rightarrow> exc + pyfloat" where
  "retry_delay d prof cfg u attempt_no now answer =
     (case (case answer of
              Inr r \<Rightarrow> if honour_retry_after prof
                       then parse_retry_after (d_parsedate d) (header_lookup (res_headers r) ''retry-after'') now
                       else Inr None
            | Inl e \<Rightarrow> Inr None) of
        Inl e \<Rightarrow> Inl e
      | Inr waited \<Rightarrow> next_delay_s u attempt_no cfg waited)"

definition answer_reason :: "exc + HttpSendResult \<Rightarrow> RetryReason option" where
  "answer_reason answer =
     (case answer of Inr r \<Rightarrow> classify_status (res_status r) | Inl e \<Rightarrow> Some (classify_exception e))"

text \<open>Steps 5 and 6: classify, mark, report.\<close>

definition conclude ::
  "('s, 'r) Dispatcher \<Rightarrow> DeliveryRecord \<Rightarrow> DeliveryProfile \<Rightarrow> WebhookRetryConfig \<Rightarrow> rat \<Rightarrow> int \<Rightarrow> time \<Rightarrow>
   exc + HttpSendResult \<Rightarrow> (exc, ('s, 'r) world, DispatchOutcome) comp" where
  "conclude d record prof cfg u attempt_no now answer =
     (let reason = answer_reason answer;
          will_retry = (case reason of None \<Rightarrow> False | Some r \<Rightarrow> retry_on r attempt_no cfg);
          st = outcome_status reason will_retry;
          attempt = attempt_of attempt_no now answer reason
      in if st = SENT then
           bindE (on_store (mark_sent (d_store d) (delivery_id record) attempt))
             (\<lambda>_. ret \<lparr>out_status = st, out_next_fire_at = None, out_attempt = attempt\<rparr>)
         else if st = FAILED_RETRY then
           (case retry_delay d prof cfg u attempt_no now answer of
              Inl e \<Rightarrow> raise e
            | Inr delay \<Rightarrow>
                (case add_delay now delay of
                   Inl e \<Rightarrow> raise e
                 | Inr t \<Rightarrow>
                     bindE (on_store (schedule_retry (d_store d) (delivery_id record) t attempt))
                       (\<lambda>_. ret \<lparr>out_status = st, out_next_fire_at = Some t, out_attempt = attempt\<rparr>)))
         else dead_letter_from_attempt d record attempt)"

text \<open>\<open>profile.retry or config.retry\<close> and \<open>profile.max_response_bytes or config...\<close>: zero is false.\<close>

definition retry_cfg_of :: "('s, 'r) Dispatcher \<Rightarrow> DeliveryProfile \<Rightarrow> WebhookRetryConfig" where
  "retry_cfg_of d prof = (case prof_retry prof of Some c \<Rightarrow> c | None \<Rightarrow> cfg_retry (d_config d))"

definition response_cap :: "('s, 'r) Dispatcher \<Rightarrow> DeliveryProfile \<Rightarrow> int" where
  "response_cap d prof =
     (case prof_max_response_bytes prof of
        Some n \<Rightarrow> if n = 0 then max_response_bytes (cfg_security (d_config d)) else n
      | None \<Rightarrow> max_response_bytes (cfg_security (d_config d)))"

text \<open>Steps 2 to 4 for an allowed address: secret, body, signature, request.\<close>

definition deliver ::
  "('s, 'r) Dispatcher \<Rightarrow> DeliveryRecord \<Rightarrow> DeliveryProfile \<Rightarrow> rat \<Rightarrow> time \<Rightarrow> string \<Rightarrow> string \<Rightarrow>
   (exc, ('s, 'r) world, DispatchOutcome) comp" where
  "deliver d record prof u now host target_ip = (\<lambda>w.
     let attempt_no = attempts record + 1;
         limits = cfg_limits (d_config d);
         cfg = retry_cfg_of d prof
     in (case on_reader (get_versioned (d_secret_reader d) (subscription_id record) (secret_version record)) w of
           (Inl e, w1) \<Rightarrow> dead_letter d record attempt_no now ''secret_unresolved'' w1
         | (Inr secret, w1) \<Rightarrow>
             (case build_signed d record prof (sec_current secret) attempt_no now (previous_at secret now) of
                Inl e \<Rightarrow> (Inl e, w1)
              | Inr (body, headers) \<Rightarrow>
                  (case post_under_host d host
                     \<lparr>pc_url = target_url record, pc_body = body, pc_headers = headers,
                      pc_resolved_ip = Some target_ip,
                      pc_connect_timeout_s = http_connect_timeout_s limits,
                      pc_read_timeout_s = http_read_timeout_s limits,
                      pc_total_timeout_s = http_total_timeout_s limits,
                      pc_max_response_bytes = response_cap d prof\<rparr> w1 of
                     (answer, w2) \<Rightarrow>
                       (case answer of
                          Inl e \<Rightarrow> if is_request_error e
                                   then conclude d record prof cfg u attempt_no now answer w2
                                   else (Inl e, w2)
                        | Inr r \<Rightarrow> conclude d record prof cfg u attempt_no now answer w2)))))"

definition send ::
  "('s, 'r) Dispatcher \<Rightarrow> rat \<Rightarrow> time \<Rightarrow> DeliveryRecord \<Rightarrow> (exc, ('s, 'r) world, DispatchOutcome) comp" where
  "send d u now record =
     (case profile_of (d_profiles d) record of
        Inl e \<Rightarrow> raise e
      | Inr prof \<Rightarrow>
          (case urlsplit (target_url record) of
             None \<Rightarrow> raise (ValueError ''Invalid IPv6 URL'')
           | Some parsed \<Rightarrow>
               (let host = (case hostname parsed of None \<Rightarrow> [] | Some h \<Rightarrow> h)
                in (case target_port parsed of
                      Inl e \<Rightarrow> raise e
                    | Inr port \<Rightarrow>
                        if max_body_bytes (cfg_limits (d_config d)) < int (length (data_json record))
                        then dead_letter d record (attempts record + 1) now ''payload_too_large''
                        else
                          (let target_ip = current_ip d record host
                           in (case check_ip (d_idna d) (d_ssrf d) target_ip (Some host) (Some port) of
                                 Inl (InvalidWebhookTarget reason _) \<Rightarrow>
                                   dead_letter d record (attempts record + 1) now
                                     (''blocked_ip_at_send:'' @ reason_value reason)
                               | Inl e \<Rightarrow> raise e
                               | Inr _ \<Rightarrow> deliver d record prof u now host target_ip))))))"

section \<open>Case analysis\<close>

definition host_of :: "split_result \<Rightarrow> string" where
  "host_of parsed = (case hostname parsed of None \<Rightarrow> [] | Some h \<Rightarrow> h)"

lemma send_cases:
  assumes "send d u now record w = (res, w')"
  obtains (early) e where "res = Inl e" "w' = w"
  | (refused) err where "dead_letter d record (attempts record + 1) now err w = (res, w')"
  | (delivered) prof parsed port where
      "profile_of (d_profiles d) record = Inr prof" "urlsplit (target_url record) = Some parsed"
      "target_port parsed = Inr port"
      "int (length (data_json record)) \<le> max_body_bytes (cfg_limits (d_config d))"
      "check_ip (d_idna d) (d_ssrf d) (current_ip d record (host_of parsed))
         (Some (host_of parsed)) (Some port) = Inr ()"
      "deliver d record prof u now (host_of parsed) (current_ip d record (host_of parsed)) w = (res, w')"
proof (cases "profile_of (d_profiles d) record")
  case (Inl e)
  then show ?thesis using assms early [of e] by (auto simp: send_def)
next
  case prof: (Inr prof)
  show ?thesis
  proof (cases "urlsplit (target_url record)")
    case None
    then show ?thesis using assms early prof by (auto simp: send_def)
  next
    case parsed: (Some parsed)
    show ?thesis
    proof (cases "target_port parsed")
      case (Inl e)
      then show ?thesis using assms early [of e] prof parsed by (auto simp: send_def)
    next
      case port: (Inr port)
      let ?ip = "current_ip d record (host_of parsed)"
      let ?check = "check_ip (d_idna d) (d_ssrf d) ?ip (Some (host_of parsed)) (Some port)"
      have host: "(case hostname parsed of None \<Rightarrow> [] | Some h \<Rightarrow> h) = host_of parsed"
        by (simp add: host_of_def)
      show ?thesis
      proof (cases "max_body_bytes (cfg_limits (d_config d)) < int (length (data_json record))")
        case True
        then show ?thesis using assms refused prof parsed port by (simp add: send_def)
      next
        case False
        then show ?thesis
          using assms early refused delivered [OF prof parsed port] prof parsed port
          by (auto simp: send_def Let_def host split: sum.splits exc.splits)
      qed
    qed
  qed
qed

lemma on_reader_other:
  "on_reader m w = (res, w1) \<Longrightarrow>
   w_store w1 = w_store w \<and> w_posts w1 = w_posts w \<and> w_emitted w1 = w_emitted w"
  by (auto simp: on_reader_def split: prod.splits)

lemma deliver_cases:
  assumes "deliver d record prof u now host ip w = (res, w')"
  obtains (secret) w1 where "w_store w1 = w_store w" "w_posts w1 = w_posts w"
      "dead_letter d record (attempts record + 1) now ''secret_unresolved'' w1 = (res, w')"
  | (unsigned) e where "res = Inl e" "w_store w' = w_store w" "w_posts w' = w_posts w"
  | (failed) call e where "res = Inl e" "w_store w' = w_store w" "w_posts w' = w_posts w @ [call]"
      "pc_resolved_ip call = Some ip" "pc_url call = target_url record"
      "d_post d call = Inl e" "\<not> is_request_error e"
  | (answered) call w2 where "w_store w2 = w_store w" "w_posts w2 = w_posts w @ [call]"
      "pc_resolved_ip call = Some ip" "pc_url call = target_url record"
      "\<And>e. d_post d call = Inl e \<Longrightarrow> is_request_error e"
      "conclude d record prof (retry_cfg_of d prof) u (attempts record + 1) now (d_post d call) w2 = (res, w')"
proof -
  obtain sec w1 where read: "on_reader (get_versioned (d_secret_reader d) (subscription_id record)
      (secret_version record)) w = (sec, w1)" by fastforce
  note w1 = on_reader_other [OF read]
  show ?thesis
  proof (cases sec)
    case (Inl e)
    then show ?thesis using assms secret [of w1] w1 read by (auto simp: deliver_def)
  next
    case (Inr m)
    show ?thesis
    proof (cases "build_signed d record prof (sec_current m) (attempts record + 1) now (previous_at m now)")
      case (Inl e)
      then show ?thesis using assms unsigned [of e] w1 read Inr by (auto simp: deliver_def)
    next
      case signed: (Inr bh)
      obtain body headers where bh: "bh = (body, headers)" by (cases bh)
      define call where "call =
        \<lparr>pc_url = target_url record, pc_body = body, pc_headers = headers,
         pc_resolved_ip = Some ip,
         pc_connect_timeout_s = http_connect_timeout_s (cfg_limits (d_config d)),
         pc_read_timeout_s = http_read_timeout_s (cfg_limits (d_config d)),
         pc_total_timeout_s = http_total_timeout_s (cfg_limits (d_config d)),
         pc_max_response_bytes = response_cap d prof\<rparr>"
      define w2 where "w2 = snd (post_under_host d host call w1)"
      have p: "post_under_host d host call w1 = (d_post d call, w2)"
        by (simp add: w2_def post_under_host_def)
      have w2: "w_store w2 = w_store w" "w_posts w2 = w_posts w @ [call]"
        using w1 by (simp_all add: w2_def post_under_host_def)
      have c: "pc_resolved_ip call = Some ip" "pc_url call = target_url record"
        by (simp_all add: call_def)
      have run: "deliver d record prof u now host ip w = (case d_post d call of
          Inl e \<Rightarrow> if is_request_error e
            then conclude d record prof (retry_cfg_of d prof) u (attempts record + 1) now (d_post d call) w2
            else (Inl e, w2)
        | Inr r \<Rightarrow> conclude d record prof (retry_cfg_of d prof) u (attempts record + 1) now (d_post d call) w2)"
        by (simp add: deliver_def read Inr signed bh call_def [symmetric] p Let_def)
      show ?thesis
        using run assms answered [OF w2 c] failed [OF _ _ _ c] w2
        by (cases "d_post d call") (auto split: if_splits)
    qed
  qed
qed

lemma conclude_cases:
  assumes "conclude d record prof cfg u n now answer w = (res, w')"
  obtains (success) r where "answer = Inr r" "200 \<le> res_status r" "res_status r < 300"
      "bindE (on_store (mark_sent (d_store d) (delivery_id record) (attempt_of n now answer None)))
         (\<lambda>_. ret \<lparr>out_status = SENT, out_next_fire_at = None, out_attempt = attempt_of n now answer None\<rparr>) w
         = (res, w')"
  | (undelayed) e where "res = Inl e" "w' = w"
  | (again) reason delay t where "answer_reason answer = Some reason" "retry_on reason n cfg"
      "retry_delay d prof cfg u n now answer = Inr delay" "add_delay now delay = Inr t"
      "bindE (on_store (schedule_retry (d_store d) (delivery_id record) t (attempt_of n now answer (Some reason))))
         (\<lambda>_. ret \<lparr>out_status = FAILED_RETRY, out_next_fire_at = Some t,
            out_attempt = attempt_of n now answer (Some reason)\<rparr>) w = (res, w')"
  | (exhausted) reason where "answer_reason answer = Some reason" "\<not> retry_on reason n cfg"
      "dead_letter_from_attempt d record (attempt_of n now answer (Some reason)) w = (res, w')"
proof (cases "answer_reason answer")
  case None
  then obtain r where "answer = Inr r" "200 \<le> res_status r" "res_status r < 300"
    by (auto simp: answer_reason_def split: sum.splits)
  then show ?thesis using assms success None by (simp add: conclude_def outcome_status_def Let_def)
next
  case (Some reason)
  show ?thesis
  proof (cases "retry_on reason n cfg")
    case False
    then show ?thesis using assms exhausted Some by (simp add: conclude_def outcome_status_def Let_def)
  next
    case True
    then show ?thesis
      using assms undelayed again [OF Some] Some
      by (auto simp: conclude_def outcome_status_def Let_def split: sum.splits)
  qed
qed

lemma attempt_of_no [simp]: "att_attempt (attempt_of n now answer reason) = n"
  by (simp add: attempt_of_def split: sum.split)

lemma on_store_posts: "on_store m w = (res, w') \<Longrightarrow> w_posts w' = w_posts w"
  by (auto simp: on_store_def split: prod.splits)

lemma bind_store_posts:
  "bindE (on_store m) (\<lambda>_. ret out) w = (res, w') \<Longrightarrow> w_posts w' = w_posts w"
  by (auto simp: bindE_def on_store_def split: prod.splits sum.splits)

lemma dead_letter_posts:
  "dead_letter_from_attempt d record a w = (res, w') \<Longrightarrow> w_posts w' = w_posts w"
  by (auto simp: dead_letter_from_attempt_def bindE_def on_store_def split: prod.splits sum.splits option.splits)

lemma bind_store_out:
  "bindE (on_store m) (\<lambda>_. ret o1) w = (Inr out, w') \<Longrightarrow> out = o1"
  by (auto simp: bindE_def on_store_def split: prod.splits sum.splits)

lemma dead_letter_status:
  "dead_letter_from_attempt d record a w = (Inr out, w') \<Longrightarrow>
   out_status out = DEAD_LETTERED \<and> out_next_fire_at out = None"
  by (auto simp: dead_letter_from_attempt_def bindE_def on_store_def split: prod.splits sum.splits)

lemma conclude_posts: "conclude d record prof cfg u n now answer w = (res, w') \<Longrightarrow> w_posts w' = w_posts w"
  by (erule conclude_cases) (simp_all add: bind_store_posts dead_letter_posts)

lemma deliver_posts:
  assumes "deliver d record prof u now host ip w = (res, w')"
  shows "w_posts w' = w_posts w \<or> (\<exists>call. w_posts w' = w_posts w @ [call] \<and>
    pc_resolved_ip call = Some ip \<and> pc_url call = target_url record)"
  using assms
  by (rule deliver_cases) (auto simp: dead_letter_def dest!: dead_letter_posts conclude_posts)

section \<open>What an attempt does to the store\<close>

text \<open>The row of the record makes the transition the outcome names; no other row changes.\<close>

definition marked :: "(time \<Rightarrow> time) \<Rightarrow> string \<Rightarrow> row \<Rightarrow> view \<Rightarrow> DispatchOutcome \<Rightarrow> view \<Rightarrow> bool" where
  "marked g did row v out v' \<longleftrightarrow>
     (\<exists>k. out_status out = SENT \<and> v' = v(did \<mapsto> settled SENT k row)) \<or>
     (\<exists>k. out_status out = DEAD_LETTERED \<and> v' = v(did \<mapsto> settled DEAD_LETTERED k row)) \<or>
     (\<exists>t. out_status out = FAILED_RETRY \<and> out_next_fire_at out = Some t \<and>
        v' = v(did \<mapsto> retried (g t) (att_attempt (out_attempt out)) row))"

lemma marked_intros [simp]:
  "out_status out = SENT \<Longrightarrow> marked g did row v out (v(did \<mapsto> settled SENT k row))"
  "out_status out = DEAD_LETTERED \<Longrightarrow> marked g did row v out (v(did \<mapsto> settled DEAD_LETTERED k row))"
  "out_status out = FAILED_RETRY \<Longrightarrow> out_next_fire_at out = Some t \<Longrightarrow>
   att_attempt (out_attempt out) = k \<Longrightarrow> marked g did row v out (v(did \<mapsto> retried (g t) k row))"
  by (auto simp: marked_def)

lemma markedD:
  assumes "marked g did row v out v'"
  shows "(\<exists>row'. v' did = Some row' \<and> row_lease row' = None \<and>
      status (row_rec row') = out_status out \<and>
      (out_status out = SENT \<or> out_status out = DEAD_LETTERED \<or>
       out_status out = FAILED_RETRY \<and> map_option g (out_next_fire_at out) = Some (fire_at (row_rec row')) \<and>
         attempts (row_rec row') = att_attempt (out_attempt out)))
    \<and> (\<forall>did'. did' \<noteq> did \<longrightarrow> v' did' = v did')"
  using assms by (auto simp: marked_def settled_def retried_def)

context delivery_store_contract
begin

lemma dead_letter_marks:
  assumes "d_store d = st" and "inv (w_store w)" and "view (w_store w) (delivery_id record) = Some row"
    and "dead_letter_from_attempt d record a w = (res, w')"
  shows "\<exists>out. res = Inr out \<and> out_attempt out = a \<and> inv (w_store w') \<and>
    marked grain (delivery_id record) row (view (w_store w)) out (view (w_store w'))"
proof -
  obtain k s' where "mark_dead st (delivery_id record) a (w_store w) = (Inr (), s')" "inv s'"
    "view s' = (view (w_store w))(delivery_id record \<mapsto> settled DEAD_LETTERED k row)"
    using dead [OF assms(2,3), of a] by blast
  then show ?thesis
    using assms(1,4)
    by (auto simp: dead_letter_from_attempt_def bindE_def on_store_def
        split: option.splits)
qed

lemma conclude_marks:
  assumes "d_store d = st" and "inv (w_store w)" and "view (w_store w) (delivery_id record) = Some row"
    and "attempts (row_rec row) + 1 = n"
    and "conclude d record prof cfg u n now answer w = (res, w')"
  shows "(\<exists>e. res = Inl e \<and> w_store w' = w_store w) \<or>
    (\<exists>out. res = Inr out \<and> att_attempt (out_attempt out) = n \<and> inv (w_store w') \<and>
       marked grain (delivery_id record) row (view (w_store w)) out (view (w_store w')))"
  using assms(5)
proof (cases rule: conclude_cases)
  case (success r)
  obtain k s' where "mark_sent st (delivery_id record) (attempt_of n now answer None) (w_store w) = (Inr (), s')"
    "inv s'" "view s' = (view (w_store w))(delivery_id record \<mapsto> settled SENT k row)"
    using sent [OF assms(2,3), of "attempt_of n now answer None"] by blast
  then show ?thesis
    using assms(1) success(4) by (auto simp: bindE_def on_store_def)
next
  case (undelayed e)
  then show ?thesis by simp
next
  case (again reason delay t)
  obtain k s' where "schedule_retry st (delivery_id record) t (attempt_of n now answer (Some reason)) (w_store w)
      = (Inr (), s')" "inv s'" "view s' = (view (w_store w))(delivery_id record \<mapsto> retried (grain t) k row)" "k = n"
    using retry [OF assms(2,3), of t "attempt_of n now answer (Some reason)"] assms(4) by auto
  then show ?thesis
    using assms(1) again(5) by (auto simp: bindE_def on_store_def)
next
  case (exhausted reason)
  then show ?thesis
    using dead_letter_marks [OF assms(1-3) exhausted(3)] by auto
qed

lemma send_marks:
  assumes "d_store d = st" and "inv (w_store w)" and "view (w_store w) (delivery_id record) = Some row"
    and "attempts (row_rec row) = attempts record"
    and "send d u now record w = (res, w')"
  shows "(\<exists>e. res = Inl e \<and> w_store w' = w_store w) \<or>
    (\<exists>out. res = Inr out \<and> att_attempt (out_attempt out) = attempts record + 1 \<and> inv (w_store w') \<and>
       marked grain (delivery_id record) row (view (w_store w)) out (view (w_store w')))"
  using assms(5)
proof (cases rule: send_cases)
  case (early e)
  then show ?thesis by simp
next
  case (refused err)
  then show ?thesis using dead_letter_marks [OF assms(1-3)] by (fastforce simp: dead_letter_def)
next
  case (delivered prof parsed port)
  from delivered(6) show ?thesis
  proof (cases rule: deliver_cases)
    case (secret w1)
    then show ?thesis
      using dead_letter_marks [of d w1 "record" row] assms(1-3) by (fastforce simp: dead_letter_def)
  next
    case (unsigned e)
    then show ?thesis by simp
  next
    case (failed call e)
    then show ?thesis by simp
  next
    case (answered call w2)
    then show ?thesis
      using conclude_marks [of d w2 "record" row] assms(1-4) by simp
  qed
qed

end

lemma conclude_status:
  "conclude d record prof cfg u n now answer w = (Inr out, w') \<Longrightarrow>
   out_status out \<in> {SENT, FAILED_RETRY, DEAD_LETTERED}"
  by (erule conclude_cases) (auto dest!: bind_store_out dead_letter_status)

lemma outcome_status_range:
  assumes "send d u now record w = (Inr out, w')"
  shows "out_status out \<in> {SENT, FAILED_RETRY, DEAD_LETTERED}"
  using assms
proof (cases rule: send_cases)
  case (delivered prof parsed port)
  from delivered(6) show ?thesis
    by (rule deliver_cases) (auto simp: dead_letter_def dest: dead_letter_status conclude_status)
qed (auto simp: dead_letter_def dest: dead_letter_status)

section \<open>Retries\<close>

lemma add_delay_range:
  assumes "add_delay now (Fin x) = Inr t" and "0 \<le> x" and "x \<le> of_int n"
  shows "now \<le> t \<and> t \<le> now + seconds n"
  using assms micros_nonneg [OF assms(2)] micros_le_ceiling [OF assms(2,3)]
  by (auto simp: add_delay_def timedelta_us_def Let_def seconds_def split: if_splits)

lemma retry_delay_range:
  assumes "retry_delay d prof cfg u n now answer = Inr delay" and "retry_cfg_ok cfg" and "0 \<le> u" and "u \<le> 1"
  shows "\<exists>x. delay = Fin x \<and> 0 \<le> x \<and> x \<le> 2 * max_delay_s cfg"
proof -
  obtain waited where w: "next_delay_s u n cfg waited = Inr delay"
    and parsed: "\<And>r. waited = Some r \<Longrightarrow> \<exists>pd raw. parse_retry_after pd raw now = Inr (Some r)"
    using assms(1) by (auto simp: retry_delay_def split: sum.splits if_splits)
  show ?thesis
  proof (cases waited)
    case (Some r)
    then obtain pd raw where "parse_retry_after pd raw now = Inr (Some r)" using parsed by blast
    from parse_retry_after_range [OF this] show ?thesis
      using w Some assms(2) by (auto simp: next_delay_s_def f_min_def retry_cfg_ok_def)
  next
    case None
    let ?c = "capped_backoff cfg n" and ?m = "max_delay_s cfg"
    note c = capped_backoff_range [OF assms(2), of n]
    have ok: "0 \<le> jitter_pct cfg" "jitter_pct cfg \<le> 1" "fl ?m = ?m"
      using assms(2) by (simp_all add: retry_cfg_ok_def)
    note j = jitter_range [OF c(1,3) ok(1,2)]
    obtain x where x: "delay = Fin x" "fl (?c - fl (?c * jitter_pct cfg)) \<le> x"
        "x \<le> fl (?c + fl (?c * jitter_pct cfg))"
      using next_delay_jittered [OF assms(2-4), of n delay] w None by auto
    have "fl (?c + fl (?c * jitter_pct cfg)) \<le> 2 * ?m"
      using c(2) j(2) by (intro fl_le [OF _ fl_double [OF ok(3)]]) linarith
    moreover have "0 \<le> fl (?c - fl (?c * jitter_pct cfg))" using j(2) by (intro fl_nonneg) simp
    ultimately show ?thesis using x by force
  qed
qed

section \<open>Sample dispatcher\<close>

definition sample_result :: "int \<Rightarrow> HttpSendResult" where
  "sample_result st = \<lparr>res_status = st, res_headers = [(''Retry-After'', ''2'')], res_body_snippet = [], res_duration_ms = 1,
     res_body = [], res_body_truncated = False\<rparr>"

definition sample_dispatcher :: "int \<Rightarrow> (MemState, unit) Dispatcher" where
  "sample_dispatcher st = \<lparr>d_signer = HmacSigner sample_sha sample_hmac V1,
     d_post = (\<lambda>_. Inr (sample_result st)), d_config = DEFAULT_WEBHOOK_POLICY, d_store = mem_store,
     d_secret_reader = \<lparr>sr_get = (\<lambda>_. ret \<lparr>sec_current = ''s'', sec_previous = None,
        sec_previous_expires_at = None\<rparr>), sr_invalidate = (\<lambda>_. ret ())\<rparr>,
     d_ssrf = default_validator, d_idna = Some, d_bus = None, d_resolver = None,
     d_profiles = single RawEncoder None, d_parsedate = (\<lambda>_. Unparsable),
     d_uuid = ''u'', d_now_utc = 0\<rparr>"

definition sample_world :: "(MemState, unit) world" where
  "sample_world = \<lparr>w_store = sample_s2, w_reader = \<lparr>rd_cache = (), rd_seen = []\<rparr>, w_posts = [],
     w_emitted = [], w_hosts = []\<rparr>"

definition sent_world :: "(MemState, unit) world" where
  "sent_world = snd (send (sample_dispatcher 200) 0 0 (sample_record ''a'' 0) sample_world)"

definition retried_world :: "(MemState, unit) world" where
  "retried_world = snd (send (sample_dispatcher 503) 0 0 (sample_record ''a'' 0) sample_world)"

lemma sample_send_ok:
  "case send (sample_dispatcher 200) 0 0 (sample_record ''a'' 0) sample_world of
     (Inr out, w') \<Rightarrow> out_status out = SENT \<and> length (w_posts w') = 1
   | _ \<Rightarrow> False"
  by code_simp

lemma sample_send_retry:
  "case send (sample_dispatcher 503) 0 0 (sample_record ''a'' 0) sample_world of
     (Inr out, w') \<Rightarrow> out_next_fire_at out = Some 2000000
   | _ \<Rightarrow> False"
  by code_simp

lemma sample_send_sent:
  obtains out where "send (sample_dispatcher 200) 0 0 (sample_record ''a'' 0) sample_world = (Inr out, sent_world)"
    "out_status out = SENT" "length (w_posts sent_world) = 1"
proof -
  obtain res w' where run: "send (sample_dispatcher 200) 0 0 (sample_record ''a'' 0) sample_world = (res, w')"
    by fastforce
  then show ?thesis using sample_send_ok that by (cases res) (simp_all add: sent_world_def)
qed

lemma sample_send_retried:
  obtains out where "send (sample_dispatcher 503) 0 0 (sample_record ''a'' 0) sample_world = (Inr out, retried_world)"
    "out_next_fire_at out = Some 2000000"
proof -
  obtain res w' where run: "send (sample_dispatcher 503) 0 0 (sample_record ''a'' 0) sample_world = (res, w')"
    by fastforce
  then show ?thesis using sample_send_retry that by (cases res) (simp_all add: retried_world_def)
qed

lemma sample_world_posts: "w_posts sample_world = []"
  by (simp add: sample_world_def)

section \<open>Properties\<close>



text \<open>
  C2: an attempt on the in-memory store makes exactly one transition, the one it reports. If it
  returns, the row becomes sent, waiting for a retry at the reported instant with its attempt
  counted, or dead-lettered, as the outcome says; its lease is released and no other row or
  lease changes. If it raises, the store is as it was.
\<close>

theorem send_marks_exactly_one_row:
  assumes "d_store d = mem_store" and "mem_reachable (w_store w)"
    and "dict_get (mem_records (w_store w)) (delivery_id record) = Some r"
    and "attempts r = attempts record" and "send d u now record w = (res, w')"
  shows "case res of
      Inl e \<Rightarrow> w_store w' = w_store w
    | Inr out \<Rightarrow>
        (\<exists>r'. dict_get (mem_records (w_store w')) (delivery_id record) = Some r' \<and>
           status r' = out_status out \<and>
           (out_status out = SENT \<or> out_status out = DEAD_LETTERED \<or>
            out_status out = FAILED_RETRY \<and> out_next_fire_at out = Some (fire_at r') \<and>
              attempts r' = attempts record + 1)) \<and>
        dict_get (mem_leases (w_store w')) (delivery_id record) = None \<and>
        (\<forall>did. did \<noteq> delivery_id record \<longrightarrow> mem_view (w_store w') did = mem_view (w_store w) did)"
proof -
  let ?did = "delivery_id record"
  define row where "row = Row r (dict_get (mem_leases (w_store w)) ?did)"
  have v: "mem_view (w_store w) ?did = Some row" "attempts (row_rec row) = attempts record"
    using assms(3,4) by (simp_all add: mem_view_def row_def)
  show ?thesis
  proof (cases res)
    case (Inl e)
    then show ?thesis
      using mem.send_marks [OF assms(1) mem_reachable_inv [OF assms(2)] v assms(5)] by simp
  next
    case (Inr out)
    then have m: "marked (\<lambda>t. t) ?did row (mem_view (w_store w)) out (mem_view (w_store w'))"
      "att_attempt (out_attempt out) = attempts record + 1"
      using mem.send_marks [OF assms(1) mem_reachable_inv [OF assms(2)] v assms(5)] by simp_all
    from markedD [OF m(1)] show ?thesis unfolding Inr mem_view_Some m(2) by (auto simp: option.map_ident)
  qed
qed

theorem send_marks_exactly_one_row_witness:
  "\<exists>r'. dict_get (mem_records (w_store sent_world)) ''a'' = Some r' \<and> status r' = SENT"
proof -
  obtain out where run: "send (sample_dispatcher 200) 0 0 (sample_record ''a'' 0) sample_world = (Inr out, sent_world)"
    "out_status out = SENT" "length (w_posts sent_world) = 1"
    by (rule sample_send_sent)
  have a: "delivery_id (sample_record ''a'' 0) = ''a''" by (simp add: sample_record_def)
  have r: "dict_get (mem_records (w_store sample_world)) (delivery_id (sample_record ''a'' 0))
      = Some ((sample_record ''a'' 0)\<lparr>status := IN_FLIGHT\<rparr>)"
    using sample_dead(1) by (simp add: sample_world_def mem_get_def a)
  have "mem_reachable (w_store sample_world)" "d_store (sample_dispatcher 200) = mem_store"
    using sample_reachable(2) by (simp_all add: sample_world_def sample_dispatcher_def)
  from send_marks_exactly_one_row [OF this(2,1) r _ run(1)] run(2) show ?thesis by (auto simp: a)
qed

text \<open>An answer that is neither a success nor retried.\<close>

lemma unretried_status:
  assumes "answer_reason (d_post d call) = Some reason"
    and "\<not> retry_on reason n (retry_cfg_of d prof)" and "d_post d call = Inr r"
  shows "\<not> (200 \<le> res_status r \<and> res_status r < 300) \<and>
    (500 \<le> res_status r \<or> res_status r = 408 \<or> res_status r = 429 \<longrightarrow> max_attempts (retry_cfg_of d prof) \<le> n)"
proof -
  have "classify_status (res_status r) = Some reason" using assms(1,3) by (simp add: answer_reason_def)
  then show ?thesis
    using assms(2) classify_status_retryable [of "res_status r"] classify_status_None [of "res_status r"]
    by (auto simp: retry_on_def simp del: classify_status_None)
qed





text \<open>
  C11: during the grace window of a rotation the shipped signer's delivery verifies under both
  secrets: the headers an attempt sends carry the two signatures, and a receiver that still has
  the old secret accepts them as one with the new secret does.
\<close>

theorem rotation_verifies_with_both:
  assumes "hex_hmac hmac" and "valid_instant now"
    and "d_signer d = HmacSigner sha256 hmac V1" and "prof_signer prof = None"
    and "build_signed d record prof cur n now (Some prev) = Inr (body, headers)"
    and "key = cur \<or> key = prev"
    and "- 62135596800 \<le> t" and "t < 253402300800" and "\<bar>t - posix_seconds now\<bar> \<le> win"
  shows "verify_webhook sha256 hmac key body headers (Some t) win None clock = Inr ()"
proof -
  let ?mac = "\<lambda>k. hmac (encode k) (signed_message sha256 (posix_seconds now) (event_id record) body)"
  let ?h = "hmac_sign sha256 hmac V1 (delivery_id record) (event_name record) (event_id record) body cur now"
  have headers: "headers = as_dict (?h\<lparr>webhook_signature := (V1 @ ''='' @ ?mac cur) @ '' '' @ (V1 @ ''='' @ ?mac prev)\<rparr>)"
    using assms(3-5) by (auto simp: build_signed_def HmacSigner_def hmac_sign_def Let_def split: sum.splits)
  have hex: "hex_text (?mac k)" for k using assms(1) by (simp add: hex_hmac_def)
  have g: "header_value headers ''Webhook-Timestamp'' = str_int (posix_seconds now)"
    "header_value headers ''Webhook-Event-Id'' = event_id record"
    "header_value headers ''Webhook-Signature'' = (V1 @ ''='' @ ?mac cur) @ '' '' @ (V1 @ ''='' @ ?mac prev)"
    by (simp_all add: headers header_value_def as_dict_def hmac_sign_def Let_def)
  have "provided_macs ''v1'' (header_value headers ''Webhook-Signature'') = [?mac cur, ?mac prev]"
    using provided_macs_two [OF hex hex, of cur prev] by (simp add: g(3) V1_def)
  moreover have "any_match (?mac key) [?mac cur, ?mac prev] = Inr True"
    using any_match_ascii [of "?mac key" "[?mac cur, ?mac prev]"] hex_text_plain(2) [OF hex] assms(6) by auto
  ultimately show ?thesis
    unfolding verify_webhook_ok_iff g(1,2) using py_int_posix [OF assms(2)] assms(9)
    by (simp add: g(3) V1_def)
qed

theorem rotation_verifies_with_both_witness:
  "\<exists>headers. build_signed (sample_dispatcher 200) (sample_record ''a'' 0) (default_profile RawEncoder)
       ''new'' 1 (seconds 12) (Some ''old'') = Inr (''{}'', headers) \<and>
     verify_webhook sample_sha sample_hmac ''old'' ''{}'' headers (Some 20) 300 None 0 = Inr ()"
proof -
  obtain headers where h: "build_signed (sample_dispatcher 200) (sample_record ''a'' 0)
      (default_profile RawEncoder) ''new'' 1 (seconds 12) (Some ''old'') = Inr (''{}'', headers)"
    by (simp add: build_signed_def default_profile_def RawEncoder_def sample_dispatcher_def
        HmacSigner_def sample_record_def)
  have d: "d_signer (sample_dispatcher 200) = HmacSigner sample_sha sample_hmac V1"
    "prof_signer (default_profile RawEncoder) = None"
    by (simp_all add: sample_dispatcher_def default_profile_def)
  from rotation_verifies_with_both [OF sample_hex valid_12 d h, of "''old''" 20 300 0] h
  show ?thesis by simp
qed

text \<open>The run as seen by everything but the bus.\<close>

definition without_events :: "'a \<times> ('s, 'r) world \<Rightarrow> 'a \<times> ('s, 'r) world" where
  "without_events run = (fst run, (snd run)\<lparr>w_emitted := []\<rparr>)"

lemma bus_other_fields:
  "d_signer (d\<lparr>d_bus := b\<rparr>) = d_signer d" "d_post (d\<lparr>d_bus := b\<rparr>) = d_post d"
  "d_config (d\<lparr>d_bus := b\<rparr>) = d_config d" "d_parsedate (d\<lparr>d_bus := b\<rparr>) = d_parsedate d"
  "d_resolver (d\<lparr>d_bus := b\<rparr>) = d_resolver d"
  by simp_all

lemma bus_other_steps:
  "retry_delay (d\<lparr>d_bus := b\<rparr>) = retry_delay d" "build_signed (d\<lparr>d_bus := b\<rparr>) = build_signed d"
  "post_under_host (d\<lparr>d_bus := b\<rparr>) = post_under_host d"
  "retry_cfg_of (d\<lparr>d_bus := b\<rparr>) = retry_cfg_of d" "response_cap (d\<lparr>d_bus := b\<rparr>) = response_cap d"
  "current_ip (d\<lparr>d_bus := b\<rparr>) = current_ip d"
  unfolding fun_eq_iff retry_delay_def build_signed_def post_under_host_def retry_cfg_of_def
    response_cap_def current_ip_def bus_other_fields
  by (intro allI refl)+

lemma dead_letter_any_bus:
  "without_events (dead_letter_from_attempt (d\<lparr>d_bus := b\<rparr>) record a w)
     = without_events (dead_letter_from_attempt d record a w)"
  by (cases "mark_dead (d_store d) (delivery_id record) a (w_store w)")
    (auto simp: dead_letter_from_attempt_def bindE_def on_store_def without_events_def
      split: sum.split option.split)

lemma conclude_any_bus:
  "without_events (conclude (d\<lparr>d_bus := b\<rparr>) record prof cfg u n now answer w)
     = without_events (conclude d record prof cfg u n now answer w)"
  by (simp add: conclude_def Let_def dead_letter_any_bus bus_other_steps split: sum.split)

lemma deliver_any_bus:
  "without_events (deliver (d\<lparr>d_bus := b\<rparr>) record prof u now host ip w)
     = without_events (deliver d record prof u now host ip w)"
  by (simp add: deliver_def Let_def dead_letter_def dead_letter_any_bus conclude_any_bus bus_other_steps
      split: prod.split sum.split)

text \<open>
  The event bus cannot influence a delivery. With any bus, a missing or a failing one
  included, an attempt returns or raises the same, leaves the same store and posts the same
  request; only the emitted events differ.
\<close>

theorem bus_cannot_influence:
  "without_events (send (d\<lparr>d_bus := b\<rparr>) u now record w) = without_events (send d u now record w)"
  by (simp add: send_def Let_def dead_letter_def dead_letter_any_bus deliver_any_bus bus_other_steps
      split: sum.split option.split exc.split)

end
