(* ===== verification/Engine.thy ===== *)
theory Engine
  imports Dispatcher
begin

text \<open>
  The tick loop (\<open>engine.py\<close>): reclaim, claim a batch, dispatch every record, count. The
  records of a batch are dispatched one after the other; a store operation is atomic and a
  record's operations touch its own row, so this is one of the schedules of \<open>gather\<close>. The
  outcome callback is a function whose answer (done, timed out, raised) is logged and dropped;
  the calls made are kept in the state. Clock and jitter draws are given per record.
\<close>

record EngineTickStats =
  st_claimed :: int
  st_sent :: int
  st_retried :: int
  st_dead :: int
  st_errors :: int

datatype callback_answer = Completed | TimedOut | Raised exc

record ('s, 'r) Engine =
  e_store :: "'s delivery_store"
  e_dispatcher :: "('s, 'r) Dispatcher"
  e_cfg :: WebhookDispatchConfig
  e_on_outcome :: "(DeliveryRecord \<Rightarrow> DispatchOutcome \<Rightarrow> callback_answer) option"
  e_send_clock :: "DeliveryRecord \<Rightarrow> time"
  e_draw :: "DeliveryRecord \<Rightarrow> rat"
  e_now_utc :: time

record ('s, 'r) engine_world =
  ew_world :: "('s, 'r) world"
  ew_notified :: "(DeliveryRecord \<times> DispatchOutcome) list"

definition on_engine_store :: "(exc, 's, 'a) comp \<Rightarrow> (exc, ('s, 'r) engine_world, 'a) comp" where
  "on_engine_store m = (\<lambda>ew. case on_store m (ew_world ew) of (res, w) \<Rightarrow> (res, ew\<lparr>ew_world := w\<rparr>))"

text \<open>\<open>_notify\<close>: whatever the callback does, nothing else changes.\<close>

definition notify ::
  "('s, 'r) Engine \<Rightarrow> DeliveryRecord \<Rightarrow> DispatchOutcome \<Rightarrow> ('s, 'r) engine_world \<Rightarrow> ('s, 'r) engine_world" where
  "notify e record outcome ew =
     (case e_on_outcome e of
        None \<Rightarrow> ew
      | Some callback \<Rightarrow>
          (case callback record outcome of
             Completed \<Rightarrow> ew\<lparr>ew_notified := ew_notified ew @ [(record, outcome)]\<rparr>
           | TimedOut \<Rightarrow> ew\<lparr>ew_notified := ew_notified ew @ [(record, outcome)]\<rparr>
           | Raised ex \<Rightarrow> ew\<lparr>ew_notified := ew_notified ew @ [(record, outcome)]\<rparr>))"

definition quarantine_attempt :: "('s, 'r) Engine \<Rightarrow> DeliveryRecord \<Rightarrow> exc \<Rightarrow> AttemptRecord" where
  "quarantine_attempt e record ex =
     \<lparr>att_attempt = attempts record + 1, att_attempted_at = e_now_utc e, att_http_code = None,
      att_duration_ms = 0, att_error = Some (''engine_unhandled:'' @ exc_class_name ex),
      att_response_snippet = [], att_response_body = [], att_response_truncated = False\<rparr>"

definition quarantine ::
  "('s, 'r) Engine \<Rightarrow> DeliveryRecord \<Rightarrow> exc \<Rightarrow> ('s, 'r) engine_world \<Rightarrow> ('s, 'r) engine_world" where
  "quarantine e record ex ew =
     (let attempt = quarantine_attempt e record ex in
      case on_engine_store (append_attempt (e_store e) (delivery_id record) attempt) ew of
        (Inl _, ew1) \<Rightarrow> ew1
      | (Inr _, ew1) \<Rightarrow>
          if max_unhandled_attempts (e_cfg e) \<le> attempts record + 1 then
            snd (on_engine_store (mark_dead (e_store e) (delivery_id record) attempt) ew1)
          else ew1)"

definition dispatch_one ::
  "('s, 'r) Engine \<Rightarrow> DeliveryRecord \<Rightarrow> (exc, ('s, 'r) engine_world, DispatchOutcome) comp" where
  "dispatch_one e record = (\<lambda>ew.
     case send (e_dispatcher e) (e_draw e record) (e_send_clock e record) record (ew_world ew) of
       (Inl ex, w) \<Rightarrow> (Inl ex, quarantine e record ex (ew\<lparr>ew_world := w\<rparr>))
     | (Inr outcome, w) \<Rightarrow> (Inr outcome, notify e record outcome (ew\<lparr>ew_world := w\<rparr>)))"

text \<open>\<open>gather(*tasks, return_exceptions=True)\<close>\<close>

fun dispatch_all ::
  "('s, 'r) Engine \<Rightarrow> DeliveryRecord list \<Rightarrow> ('s, 'r) engine_world \<Rightarrow>
   (exc + DispatchOutcome) list \<times> ('s, 'r) engine_world" where
  "dispatch_all e [] ew = ([], ew)"
| "dispatch_all e (r # rs) ew =
     (case dispatch_one e r ew of (res, ew1) \<Rightarrow>
        (case dispatch_all e rs ew1 of (ress, ew2) \<Rightarrow> (res # ress, ew2)))"

fun count_outcomes :: "(exc + DispatchOutcome) list \<Rightarrow> EngineTickStats \<Rightarrow> EngineTickStats" where
  "count_outcomes [] s = s"
| "count_outcomes (Inl _ # rest) s = count_outcomes rest (s\<lparr>st_errors := st_errors s + 1\<rparr>)"
| "count_outcomes (Inr out # rest) s = count_outcomes rest
     (if out_status out = SENT then s\<lparr>st_sent := st_sent s + 1\<rparr>
      else if out_status out = FAILED_RETRY then s\<lparr>st_retried := st_retried s + 1\<rparr>
      else if out_status out = DEAD_LETTERED then s\<lparr>st_dead := st_dead s + 1\<rparr>
      else s)"

definition stats0 :: "int \<Rightarrow> int \<Rightarrow> EngineTickStats" where
  "stats0 claimed errors = \<lparr>st_claimed = claimed, st_sent = 0, st_retried = 0, st_dead = 0, st_errors = errors\<rparr>"

text \<open>\<open>now1\<close> and \<open>now2\<close> are the clock's values for the reclaim and for the claim.\<close>

definition tick ::
  "('s, 'r) Engine \<Rightarrow> time \<Rightarrow> time \<Rightarrow> ('s, 'r) engine_world \<Rightarrow> EngineTickStats \<times> ('s, 'r) engine_world" where
  "tick e now1 now2 ew =
     (case on_engine_store (reclaim_stale (e_store e) now1) ew of (reclaim_res, ew1) \<Rightarrow>
      (let reclaim_errors = (case reclaim_res of Inl _ \<Rightarrow> 1 | Inr _ \<Rightarrow> 0) in
       case on_engine_store (claim_batch (e_store e) now2 (lease_ttl_s (e_cfg e)) (batch_size (e_cfg e))) ew1 of
         (Inl _, ew2) \<Rightarrow> (stats0 0 1, ew2)
       | (Inr records, ew2) \<Rightarrow>
           if records = [] then (stats0 0 reclaim_errors, ew2)
           else (case dispatch_all e records ew2 of (outcomes, ew3) \<Rightarrow>
             (count_outcomes outcomes (stats0 (int (length records)) reclaim_errors), ew3))))"

section \<open>Counting\<close>

lemma dispatch_all_length: "length (fst (dispatch_all e rs ew)) = length rs"
  by (induction e rs ew rule: dispatch_all.induct) (auto split: prod.split)

definition ended :: "DeliveryStatus \<Rightarrow> exc + DispatchOutcome \<Rightarrow> bool" where
  "ended k res = (case res of Inr out \<Rightarrow> out_status out = k | Inl _ \<Rightarrow> False)"

lemma count_outcomes_parts:
  "st_claimed (count_outcomes outs s) = st_claimed s"
  "st_sent (count_outcomes outs s) = st_sent s + int (length (filter (ended SENT) outs))"
  "st_retried (count_outcomes outs s) = st_retried s + int (length (filter (ended FAILED_RETRY) outs))"
  "st_dead (count_outcomes outs s) = st_dead s + int (length (filter (ended DEAD_LETTERED) outs))"
  "st_errors (count_outcomes outs s) = st_errors s + int (length (filter isl outs))"
  by (induction outs s rule: count_outcomes.induct) (auto simp: ended_def)

lemma count_outcomes_total:
  "\<forall>out. Inr out \<in> set outs \<longrightarrow> out_status out \<in> {SENT, FAILED_RETRY, DEAD_LETTERED} \<Longrightarrow>
   length (filter (ended SENT) outs) + length (filter (ended FAILED_RETRY) outs) +
   length (filter (ended DEAD_LETTERED) outs) + length (filter isl outs) = length outs"
  by (induction outs) (auto simp: ended_def split: sum.splits)

lemma length_filter_zip:
  "length xs = length ys \<Longrightarrow> (\<And>x y. (x, y) \<in> set (zip xs ys) \<Longrightarrow> P x = Q y) \<Longrightarrow>
   length (filter P xs) = length (filter Q ys)"
  by (induction xs ys rule: list_induct2) auto

lemma dispatch_one_status:
  "dispatch_one e r ew = (Inr out, ew') \<Longrightarrow> out_status out \<in> {SENT, FAILED_RETRY, DEAD_LETTERED}"
proof -
  assume "dispatch_one e r ew = (Inr out, ew')"
  then obtain w where run: "send (e_dispatcher e) (e_draw e r) (e_send_clock e r) r (ew_world ew) = (Inr out, w)"
    by (auto simp: dispatch_one_def split: prod.splits sum.splits)
  then show ?thesis by (rule outcome_status_range)
qed

lemma dispatch_all_status:
  "Inr out \<in> set (fst (dispatch_all e rs ew)) \<Longrightarrow> out_status out \<in> {SENT, FAILED_RETRY, DEAD_LETTERED}"
  by (induction e rs ew rule: dispatch_all.induct)
    (auto split: prod.splits dest: dispatch_one_status)

section \<open>What a batch does to the store\<close>

abbreviation store_of :: "('s, 'r) engine_world \<Rightarrow> 's" where
  "store_of ew \<equiv> w_store (ew_world ew)"

text \<open>
  The row of a dispatched record: as the outcome says, or, when the dispatcher raised, dead once
  the unhandled attempts are used up and otherwise still in flight.
\<close>

definition row_outcome :: "int \<Rightarrow> exc + DispatchOutcome \<Rightarrow> row \<Rightarrow> row \<Rightarrow> bool" where
  "row_outcome maxu res row row' =
     (case res of
        Inr out \<Rightarrow> status (row_rec row') = out_status out \<and> row_lease row' = None
      | Inl ex \<Rightarrow>
          if maxu \<le> attempts (row_rec row) + 1
          then status (row_rec row') = DEAD_LETTERED \<and> row_lease row' = None
          else (\<exists>k. row' = with_attempts k row))"

lemma row_outcome_leased:
  assumes "row_outcome maxu res (leased x row) row'"
  obtains (reported) out where "res = Inr out" "status (row_rec row') = out_status out" "row_lease row' = None"
  | (quarantined) "isl res" "status (row_rec row') = DEAD_LETTERED" "row_lease row' = None"
  | (left) "isl res" "status (row_rec row') = IN_FLIGHT" "row_lease row' = Some x"
  using assms
  by (cases res) (auto simp: row_outcome_def leased_def with_attempts_def split: if_splits)

lemma notify_store [simp]: "ew_world (notify e r out ew) = ew_world ew"
  by (auto simp: notify_def split: option.split callback_answer.split)

lemma on_engine_store_eq:
  "m (store_of ew) = (res, s') \<Longrightarrow>
   on_engine_store m ew = (res, ew\<lparr>ew_world := (ew_world ew)\<lparr>w_store := s'\<rparr>\<rparr>)"
  by (simp add: on_engine_store_def on_store_def)

context delivery_store_contract
begin

lemma quarantine_row:
  assumes "e_store e = st" and "inv (store_of ew)" and "view (store_of ew) (delivery_id r) = Some row"
    and "attempts (row_rec row) = attempts r"
  shows "inv (store_of (quarantine e r ex ew)) \<and>
    (\<exists>row'. view (store_of (quarantine e r ex ew)) = (view (store_of ew))(delivery_id r \<mapsto> row') \<and>
       row_outcome (max_unhandled_attempts (e_cfg e)) (Inl ex) row row')"
proof -
  let ?a = "quarantine_attempt e r ex" and ?did = "delivery_id r"
  obtain k s1 where a: "append_attempt st ?did ?a (store_of ew) = (Inr (), s1)" "inv s1"
    "view s1 = (view (store_of ew))(?did \<mapsto> with_attempts k row)"
    using append [OF assms(2,3)] by blast
  note run = on_engine_store_eq [of "append_attempt st ?did ?a" ew, OF a(1)]
  show ?thesis
  proof (cases "max_unhandled_attempts (e_cfg e) \<le> attempts r + 1")
    case True
    obtain k' s2 where d: "mark_dead st ?did ?a s1 = (Inr (), s2)" "inv s2"
      "view s2 = (view s1)(?did \<mapsto> settled DEAD_LETTERED k' (with_attempts k row))"
      using dead [OF a(2), of ?did "with_attempts k row" ?a] a(3) by auto
    then show ?thesis
      using True assms(1,4) a(3) run
      by (auto simp: quarantine_def Let_def on_engine_store_def on_store_def row_outcome_def settled_def)
  next
    case False
    then show ?thesis
      using assms(1,4) a run by (auto simp: quarantine_def Let_def row_outcome_def)
  qed
qed

lemma dispatch_one_row:
  assumes "e_store e = st" and "d_store (e_dispatcher e) = st" and "inv (store_of ew)"
    and "view (store_of ew) (delivery_id r) = Some row" and "attempts (row_rec row) = attempts r"
    and "dispatch_one e r ew = (res, ew')"
  shows "inv (store_of ew') \<and>
    (\<exists>row'. view (store_of ew') (delivery_id r) = Some row' \<and>
       row_outcome (max_unhandled_attempts (e_cfg e)) res row row') \<and>
    (\<forall>did. did \<noteq> delivery_id r \<longrightarrow> view (store_of ew') did = view (store_of ew) did)"
proof -
  obtain sres w where run: "send (e_dispatcher e) (e_draw e r) (e_send_clock e r) r (ew_world ew) = (sres, w)"
    by fastforce
  note marks = send_marks [OF assms(2-5) run]
  show ?thesis
  proof (cases sres)
    case (Inl ex)
    then have "w_store w = store_of ew" using marks by simp
    then show ?thesis
      using quarantine_row [OF assms(1), of "ew\<lparr>ew_world := w\<rparr>" r row ex] assms(3-6) run Inl
      by (auto simp: dispatch_one_def)
  next
    case (Inr out)
    then have "inv (w_store w)" "marked grain (delivery_id r) row (view (store_of ew)) out (view (w_store w))"
      using marks by auto
    then show ?thesis
      using markedD assms(6) run Inr by (fastforce simp: dispatch_one_def row_outcome_def)
  qed
qed

lemma dispatch_all_rows:
  assumes "e_store e = st" and "d_store (e_dispatcher e) = st" and "inv (store_of ew)"
    and "distinct (map delivery_id rs)"
    and "\<And>r. r \<in> set rs \<Longrightarrow> \<exists>row. view (store_of ew) (delivery_id r) = Some row \<and> attempts (row_rec row) = attempts r"
    and "dispatch_all e rs ew = (ress, ew')"
  shows "inv (store_of ew') \<and>
    (\<forall>(r, res) \<in> set (zip rs ress). \<exists>row row'. view (store_of ew) (delivery_id r) = Some row \<and>
       view (store_of ew') (delivery_id r) = Some row' \<and>
       row_outcome (max_unhandled_attempts (e_cfg e)) res row row') \<and>
    (\<forall>did. did \<notin> delivery_id ` set rs \<longrightarrow> view (store_of ew') did = view (store_of ew) did)"
  using assms(3-6)
proof (induction rs arbitrary: ew ress)
  case (Cons r rs)
  obtain res ew1 where one: "dispatch_one e r ew = (res, ew1)" by fastforce
  obtain ress' where rest: "dispatch_all e rs ew1 = (ress', ew')" "ress = res # ress'"
    using Cons.prems(4) one by (auto split: prod.splits)
  obtain row where row: "view (store_of ew) (delivery_id r) = Some row" "attempts (row_rec row) = attempts r"
    using Cons.prems(3) [of r] by auto
  note o = dispatch_one_row [OF assms(1,2) Cons.prems(1) row one]
  have same: "view (store_of ew1) (delivery_id x) = view (store_of ew) (delivery_id x)" if "x \<in> set rs" for x
    using o that Cons.prems(2) by (force simp: image_iff)
  have "\<exists>row. view (store_of ew1) (delivery_id x) = Some row \<and> attempts (row_rec row) = attempts x"
    if "x \<in> set rs" for x
    using Cons.prems(3) [of x] same [OF that] that by simp
  from Cons.IH [OF _ _ this rest(1)] o Cons.prems(2)
  have ih: "inv (store_of ew') \<and>
    (\<forall>(r, res) \<in> set (zip rs ress'). \<exists>row row'. view (store_of ew1) (delivery_id r) = Some row \<and>
       view (store_of ew') (delivery_id r) = Some row' \<and>
       row_outcome (max_unhandled_attempts (e_cfg e)) res row row') \<and>
    (\<forall>did. did \<notin> delivery_id ` set rs \<longrightarrow> view (store_of ew') did = view (store_of ew1) did)"
    by simp
  have "\<exists>row row'. view (store_of ew) (delivery_id x) = Some row \<and>
       view (store_of ew') (delivery_id x) = Some row' \<and>
       row_outcome (max_unhandled_attempts (e_cfg e)) y row row'"
    if "(x, y) \<in> set (zip rs ress')" for x y
  proof -
    have "view (store_of ew1) (delivery_id x) = view (store_of ew) (delivery_id x)"
      by (rule same [OF set_zip_leftD [OF that]])
    moreover have "\<exists>row row'. view (store_of ew1) (delivery_id x) = Some row \<and>
       view (store_of ew') (delivery_id x) = Some row' \<and>
       row_outcome (max_unhandled_attempts (e_cfg e)) y row row'"
      using ih that by (auto dest!: bspec [OF _ that])
    ultimately show ?thesis by simp
  qed
  moreover have "delivery_id r \<notin> delivery_id ` set rs" using Cons.prems(2) by auto
  ultimately show ?case using ih o row(1) by (auto simp: rest(2))
qed simp

text \<open>A tick, row by row.\<close>

lemma tick_rows:
  assumes "e_store e = st" and "d_store (e_dispatcher e) = st" and "inv (store_of ew)"
    and "0 \<le> batch_size (e_cfg e)" and "tick e now1 now2 ew = (stats, ew')"
  shows "\<exists>(batch :: DeliveryRecord list) ress v1.
    v1 = reclaimed (grain now1) (view (store_of ew)) \<and> length ress = length batch \<and>
    stats = count_outcomes ress (stats0 (int (length batch)) 0) \<and>
    (\<forall>out. Inr out \<in> set ress \<longrightarrow> out_status out \<in> {SENT, FAILED_RETRY, DEAD_LETTERED}) \<and>
    inv (store_of ew') \<and> distinct (map delivery_id batch) \<and>
    int (length batch) \<le> batch_size (e_cfg e) \<and>
    (\<forall>(r, res) \<in> set (zip batch ress). \<exists>row row'. v1 (delivery_id r) = Some row \<and> ready (grain now2) row \<and>
       view (store_of ew') (delivery_id r) = Some row' \<and>
       row_outcome (max_unhandled_attempts (e_cfg e)) res
         (leased (grain now2 + seconds (lease_ttl_s (e_cfg e))) row) row') \<and>
    (\<forall>did. did \<notin> delivery_id ` set batch \<longrightarrow> view (store_of ew') did = v1 did)"
proof -
  define v1 where "v1 = reclaimed (grain now1) (view (store_of ew))"
  let ?x = "grain now2 + seconds (lease_ttl_s (e_cfg e))" and ?n = "batch_size (e_cfg e)"
  obtain k s1 where r: "reclaim_stale st now1 (store_of ew) = (Inr k, s1)" "inv s1" "view s1 = v1"
    using reclaim [OF assms(3), of now1] by (auto simp: v1_def)
  define ew1 where "ew1 = ew\<lparr>ew_world := (ew_world ew)\<lparr>w_store := s1\<rparr>\<rparr>"
  have r1: "on_engine_store (reclaim_stale st now1) ew = (Inr k, ew1)"
    using on_engine_store_eq [of "reclaim_stale st now1" ew, OF r(1)] by (simp add: ew1_def)
  obtain batch s2 where c: "claim_batch st now2 (lease_ttl_s (e_cfg e)) ?n s1 = (Inr batch, s2)"
    "inv s2" "claim_ok v1 (grain now2) ?x ?n batch (view s2)"
    using claim [OF r(2) assms(4), of now2 "lease_ttl_s (e_cfg e)"] r(3) by auto
  define ew2 where "ew2 = ew1\<lparr>ew_world := (ew_world ew1)\<lparr>w_store := s2\<rparr>\<rparr>"
  have s1: "store_of ew1 = s1" and s2: "store_of ew2 = s2" by (simp_all add: ew1_def ew2_def)
  have c1: "on_engine_store (claim_batch st now2 (lease_ttl_s (e_cfg e)) ?n) ew1 = (Inr batch, ew2)"
    using on_engine_store_eq [of "claim_batch st now2 (lease_ttl_s (e_cfg e)) ?n" ew1] c(1) by (simp add: s1 ew2_def)
  obtain ress ew3 where all: "dispatch_all e batch ew2 = (ress, ew3)" by fastforce
  have t: "stats = count_outcomes ress (stats0 (int (length batch)) 0) \<and> ew' = ew3"
    using assms(1,5) r1 c1 all by (auto simp: tick_def Let_def split: if_splits)
  have row: "\<exists>row. v1 (delivery_id x) = Some row \<and> ready (grain now2) row \<and>
      view (store_of ew2) (delivery_id x) = Some (leased ?x row) \<and>
      attempts (row_rec (leased ?x row)) = attempts x" if x: "x \<in> set batch" for x
  proof -
    obtain row where "v1 (delivery_id x) = Some row" "ready (grain now2) row"
      "x\<lparr>status := IN_FLIGHT\<rparr> = (row_rec row)\<lparr>status := IN_FLIGHT\<rparr>"
      using c(3) x unfolding claim_ok_def by blast
    moreover from this(3) have "attempts x = attempts (row_rec row)"
      by (cases x; cases "row_rec row") simp
    ultimately show ?thesis
      using claim_ok_leased [OF c(3) imageI [OF x]] by (simp add: s2 leased_def)
  qed
  have dist: "distinct (map delivery_id batch)" using c(3) by (simp add: claim_ok_def)
  have rows: "inv (store_of ew3) \<and>
    (\<forall>(r, res) \<in> set (zip batch ress). \<exists>row row'. view (store_of ew2) (delivery_id r) = Some row \<and>
       view (store_of ew3) (delivery_id r) = Some row' \<and>
       row_outcome (max_unhandled_attempts (e_cfg e)) res row row') \<and>
    (\<forall>did. did \<notin> delivery_id ` set batch \<longrightarrow> view (store_of ew3) did = view (store_of ew2) did)"
    by (rule dispatch_all_rows [OF assms(1,2) _ dist _ all]) (use c(2) s2 row in fastforce)+
  have others: "view (store_of ew2) did = v1 did" if "did \<notin> delivery_id ` set batch" for did
    using c(3) that by (simp add: claim_ok_def s2)
  have each: "\<exists>row row'. v1 (delivery_id r) = Some row \<and> ready (grain now2) row \<and>
       view (store_of ew3) (delivery_id r) = Some row' \<and>
       row_outcome (max_unhandled_attempts (e_cfg e)) res (leased ?x row) row'"
    if "(r, res) \<in> set (zip batch ress)" for r res
    using rows row [OF set_zip_leftD [OF that]] that by fastforce
  have range: "out_status out \<in> {SENT, FAILED_RETRY, DEAD_LETTERED}" if "Inr out \<in> set ress" for out
    using dispatch_all_status [of out e batch ew2] all that by simp
  show ?thesis
  proof (intro exI [of _ batch] exI [of _ ress] exI [of _ v1] conjI)
    show "length ress = length batch" using dispatch_all_length [of e batch ew2] all by simp
    show "int (length batch) \<le> ?n" using c(3) by (simp add: claim_ok_def)
    show "\<forall>out. Inr out \<in> set ress \<longrightarrow> out_status out \<in> {SENT, FAILED_RETRY, DEAD_LETTERED}"
      using range by blast
    show "\<forall>did. did \<notin> delivery_id ` set batch \<longrightarrow> view (store_of ew') did = v1 did"
      using rows others t by simp
    show "\<forall>(r, res) \<in> set (zip batch ress). \<exists>row row'. v1 (delivery_id r) = Some row \<and>
       ready (grain now2) row \<and> view (store_of ew') (delivery_id r) = Some row' \<and>
       row_outcome (max_unhandled_attempts (e_cfg e)) res (leased ?x row) row'"
      using each t by blast
  qed (use t rows dist in \<open>simp_all add: v1_def\<close>)
qed

end

section \<open>Records that always raise\<close>

fun ticks :: "('s, 'r) Engine \<Rightarrow> (time \<times> time) list \<Rightarrow> ('s, 'r) engine_world \<Rightarrow> ('s, 'r) engine_world" where
  "ticks e [] ew = ew"
| "ticks e ((now1, now2) # clock) ew = ticks e clock (snd (tick e now1 now2 ew))"

text \<open>A row nobody can send, because its profile is not registered.\<close>

definition unsendable :: "('s, 'r) Engine \<Rightarrow> int \<Rightarrow> row \<Rightarrow> bool" where
  "unsendable e k row \<longleftrightarrow> dict_get (d_profiles (e_dispatcher e)) (profile (row_rec row)) = None \<and>
     attempts (row_rec row) = k \<and> \<not> terminal (status (row_rec row))"

lemma unsendable_moves [simp]:
  "unsendable e k row \<Longrightarrow> unsendable e k (leased x row)"
  "unsendable e k row \<Longrightarrow> unsendable e k (released row)"
  by (simp_all add: unsendable_def leased_def released_def terminal_def)

lemma dispatch_one_unsendable:
  "dict_get (d_profiles (e_dispatcher e)) (profile r) = None \<Longrightarrow>
   dispatch_one e r ew = (Inl (UnknownProfile (profile r)), quarantine e r (UnknownProfile (profile r)) ew)"
  by (simp add: dispatch_one_def send_def profile_of_def raise_def)

context attempt_log_contract
begin

lemma quarantine_keeps:
  assumes "e_store e = st" and "inv (store_of ew)" and "view (store_of ew) (delivery_id r) = Some row"
    and "attempts r + 1 < max_unhandled_attempts (e_cfg e)"
  shows "view (store_of (quarantine e r ex ew)) = view (store_of ew)"
proof -
  obtain s1 where a: "append_attempt st (delivery_id r) (quarantine_attempt e r ex) (store_of ew) = (Inr (), s1)"
    "view s1 = view (store_of ew)"
    using append_log [OF assms(2,3)] by blast
  note run = on_engine_store_eq [of "append_attempt st (delivery_id r) (quarantine_attempt e r ex)" ew, OF a(1)]
  show ?thesis using assms(1,4) run a(2) by (simp add: quarantine_def Let_def)
qed

lemma dispatch_all_unsendable:
  assumes "e_store e = st" and "d_store (e_dispatcher e) = st" and "k + 1 < max_unhandled_attempts (e_cfg e)"
    and "view (store_of ew) did = Some row" and "unsendable e k row"
    and "inv (store_of ew)" and "distinct (map delivery_id rs)"
    and "\<And>r. r \<in> set rs \<Longrightarrow> \<exists>row. view (store_of ew) (delivery_id r) = Some row \<and>
      attempts (row_rec row) = attempts r \<and> profile (row_rec row) = profile r"
  shows "view (store_of (snd (dispatch_all e rs ew))) did = Some row"
  using assms(4,6-)
proof (induction rs arbitrary: ew)
  case (Cons r rs)
  obtain res ew1 where one: "dispatch_one e r ew = (res, ew1)" by fastforce
  obtain row' where row': "view (store_of ew) (delivery_id r) = Some row'"
    "attempts (row_rec row') = attempts r" "profile (row_rec row') = profile r"
    using Cons.prems(4) [of r] by auto
  note o = dispatch_one_row [OF assms(1,2) Cons.prems(2) row'(1,2) one]
  have same: "view (store_of ew1) (delivery_id x) = view (store_of ew) (delivery_id x)" if "x \<in> set rs" for x
    using o that Cons.prems(3) by (force simp: image_iff)
  have "view (store_of ew1) did = Some row"
  proof (cases "did = delivery_id r")
    case True
    then have "row' = row" using row'(1) Cons.prems(1) by simp
    then have u: "dict_get (d_profiles (e_dispatcher e)) (profile r) = None" "attempts r = k"
      using assms(5) row'(2,3) by (simp_all add: unsendable_def)
    show ?thesis
      using quarantine_keeps [OF assms(1) Cons.prems(2) row'(1)] one Cons.prems(1) u(2) assms(3)
      by (auto simp: dispatch_one_unsendable [OF u(1)])
  next
    case False
    then show ?thesis using o Cons.prems(1) by simp
  qed
  then have "view (store_of (snd (dispatch_all e rs ew1))) did = Some row"
    using o Cons.prems(3,4) same by (intro Cons.IH) auto
  then show ?case by (auto simp: one split: prod.splits)
qed simp

lemma tick_unsendable:
  assumes "e_store e = st" and "d_store (e_dispatcher e) = st" and "k + 1 < max_unhandled_attempts (e_cfg e)"
    and "0 \<le> batch_size (e_cfg e)"
    and "inv (store_of ew)" and "view (store_of ew) did = Some row" and "unsendable e k row"
  shows "inv (store_of (snd (tick e now1 now2 ew))) \<and>
    (\<exists>row'. view (store_of (snd (tick e now1 now2 ew))) did = Some row' \<and> unsendable e k row')"
proof -
  let ?n = "batch_size (e_cfg e)" and ?x = "grain now2 + seconds (lease_ttl_s (e_cfg e))"
  obtain j s1 where r: "reclaim_stale st now1 (store_of ew) = (Inr j, s1)" "inv s1"
    "view s1 = reclaimed (grain now1) (view (store_of ew))"
    using reclaim [OF assms(5), of now1] by auto
  obtain row1 where row1: "view s1 did = Some row1" "unsendable e k row1"
    using assms(6,7) by (auto simp: r(3) reclaimed_def)
  obtain batch s2 where c: "claim_batch st now2 (lease_ttl_s (e_cfg e)) ?n s1 = (Inr batch, s2)"
    "inv s2" "claim_ok (view s1) (grain now2) ?x ?n batch (view s2)"
    using claim [OF r(2) assms(4), of now2 "lease_ttl_s (e_cfg e)"] by auto
  obtain row2 where row2: "view s2 did = Some row2" "unsendable e k row2"
    using row1 c(3) by (cases "did \<in> delivery_id ` set batch") (auto simp: claim_ok_def)
  have rows: "\<exists>row. view s2 (delivery_id x) = Some row \<and> attempts (row_rec row) = attempts x \<and>
      profile (row_rec row) = profile x" if x: "x \<in> set batch" for x
  proof -
    obtain row where "view s1 (delivery_id x) = Some row"
      "x\<lparr>status := IN_FLIGHT\<rparr> = (row_rec row)\<lparr>status := IN_FLIGHT\<rparr>"
      using c(3) x unfolding claim_ok_def by blast
    moreover from this(2) have "attempts x = attempts (row_rec row)" "profile x = profile (row_rec row)"
      by (cases x; cases "row_rec row"; simp)+
    ultimately show ?thesis
      using claim_ok_leased [OF c(3) imageI [OF x]] by (simp add: leased_def)
  qed
  define ew2 where "ew2 = ew\<lparr>ew_world := (ew_world ew)\<lparr>w_store := s2\<rparr>\<rparr>"
  have t: "snd (tick e now1 now2 ew) = snd (dispatch_all e batch ew2)"
    using assms(1) r(1) c(1)
    by (simp add: tick_def on_engine_store_def on_store_def Let_def ew2_def split: prod.split)
  have "distinct (map delivery_id batch)" using c(3) by (simp add: claim_ok_def)
  then have "view (store_of (snd (dispatch_all e batch ew2))) did = Some row2"
    using c(2) row2 rows by (intro dispatch_all_unsendable [OF assms(1-3)]) (simp_all add: ew2_def)
  then show ?thesis
    using tick_rows [OF assms(1,2,5,4), of now1 now2] row2(2) unfolding t
    by (metis prod.collapse t)
qed

lemma ticks_unsendable:
  assumes "e_store e = st" and "d_store (e_dispatcher e) = st" and "k + 1 < max_unhandled_attempts (e_cfg e)"
    and "0 \<le> batch_size (e_cfg e)"
    and "inv (store_of ew)" and "view (store_of ew) did = Some row" and "unsendable e k row"
  shows "\<exists>row'. view (store_of (ticks e clock ew)) did = Some row' \<and> unsendable e k row'"
  using assms(5-)
proof (induction clock arbitrary: ew row)
  case (Cons t clock)
  obtain now1 now2 where t: "t = (now1, now2)" by fastforce
  show ?case
    using tick_unsendable [OF assms(1-4) Cons.prems, of now1 now2] Cons.IH by (auto simp: t)
qed auto

end

section \<open>Properties\<close>

abbreviation mem_row :: "(MemState, 'r) engine_world \<Rightarrow> string \<Rightarrow> DeliveryRecord option" where
  "mem_row ew did \<equiv> dict_get (mem_records (store_of ew)) did"

abbreviation mem_lease_of :: "(MemState, 'r) engine_world \<Rightarrow> string \<Rightarrow> time option" where
  "mem_lease_of ew did \<equiv> dict_get (mem_leases (store_of ew)) did"

abbreviation ended_row :: "(MemState, 'r) engine_world \<Rightarrow> DeliveryStatus \<Rightarrow> DeliveryRecord \<Rightarrow> bool" where
  "ended_row ew k \<equiv> \<lambda>r. map_option status (mem_row ew (delivery_id r)) = Some k"

text \<open>What the row of a claimed record shows after its dispatch.\<close>

lemma row_outcome_ended:
  assumes "row_outcome maxu res (leased x row) row'" and "k \<in> {SENT, FAILED_RETRY}"
  shows "status (row_rec row') = k \<longleftrightarrow> ended k res"
  using assms(1) by (cases rule: row_outcome_leased) (use assms(2) in \<open>auto simp: ended_def split: sum.splits\<close>)

lemma row_outcome_rest:
  assumes "row_outcome maxu res (leased x row) row'"
    and "\<And>out. res = Inr out \<Longrightarrow> out_status out \<in> {SENT, FAILED_RETRY, DEAD_LETTERED}"
  shows "status (row_rec row') \<in> {SENT, FAILED_RETRY, DEAD_LETTERED} \<and> row_lease row' = None \<or>
    isl res \<and> status (row_rec row') = IN_FLIGHT \<and> row_lease row' = Some x"
  using assms(1)
proof (cases rule: row_outcome_leased)
  case (reported out)
  then show ?thesis using assms(2) by metis
qed auto


section \<open>Sample engine\<close>

definition sample_engine :: "ProfileRegistry \<Rightarrow> (MemState, unit) Engine" where
  "sample_engine profiles = \<lparr>e_store = mem_store,
     e_dispatcher = (sample_dispatcher 200)\<lparr>d_profiles := profiles\<rparr>,
     e_cfg = default_dispatch, e_on_outcome = Some (\<lambda>_ _. TimedOut),
     e_send_clock = (\<lambda>_. 0), e_draw = (\<lambda>_. 0), e_now_utc = 0\<rparr>"

definition sample_engine_world :: "(MemState, unit) engine_world" where
  "sample_engine_world = \<lparr>ew_world = sample_world\<lparr>w_store := sample_s1\<rparr>, ew_notified = []\<rparr>"

lemma sample_engine_fields:
  "e_store (sample_engine p) = mem_store" "d_store (e_dispatcher (sample_engine p)) = mem_store"
  "mem_reachable (store_of sample_engine_world)" "0 \<le> batch_size (e_cfg (sample_engine p))"
  "d_profiles (e_dispatcher (sample_engine p)) = p" "max_unhandled_attempts (e_cfg (sample_engine p)) = 5"
  using sample_reachable(1)
  by (simp_all add: sample_engine_def sample_dispatcher_def sample_engine_world_def default_dispatch_def)

lemma sample_tick:
  "case tick (sample_engine (single RawEncoder None)) 0 0 sample_engine_world of
     (stats, _) \<Rightarrow> st_claimed stats = 1 \<and> st_sent stats = 1"
  by code_simp




end
