(* ===== verification/HttpSender.thy ===== *)
theory HttpSender
  imports SsrfGuard Protocols PyFloat
begin

text \<open>
  The HTTP sender (\<open>http_sender.py\<close>): the request is rewritten so that it goes to the validated
  address under the original name, and the answer is read up to a bound. The client library is a
  parameter: it answers a request with a response whose body arrives in chunks and may break off
  with an exception, or it raises. The state counts the responses that are still open.
\<close>

record HttpTimeoutSpec =
  to_connect :: rat
  to_read :: rat
  to_write :: rat
  to_pool :: rat

record HttpRequest =
  rq_url :: string
  rq_content :: bytes
  rq_headers :: "(string, string) dict"
  rq_timeout :: HttpTimeoutSpec
  rq_sni_hostname :: "string option"

record HttpResponse =
  rp_status_code :: int
  rp_headers :: "(string, string) dict"
  rp_chunks :: "bytes list"
  rp_broken :: "exc option"
  rp_elapsed_s :: rat

record http_client =
  hc_requests :: "HttpRequest list"
  hc_open :: int

section \<open>Pinning\<close>

definition bracketed :: "string \<Rightarrow> string" where
  "bracketed ip = (if CHR '':'' \<notin> set ip then ip else ''['' @ ip @ '']'')"

definition pin_host ::
  "string \<Rightarrow> (string, string) dict \<Rightarrow> string option \<Rightarrow>
   exc + string \<times> (string, string) dict \<times> string option" where
  "pin_host url headers resolved =
     (case resolved of
        None \<Rightarrow> Inr (url, headers, None)
      | Some [] \<Rightarrow> Inr (url, headers, None)
      | Some ip \<Rightarrow>
          (case urlsplit url of
             None \<Rightarrow> Inl (ValueError ''Invalid IPv6 URL'')
           | Some parsed \<Rightarrow>
               (let host = (case hostname parsed of None \<Rightarrow> [] | Some h \<Rightarrow> h)
                in (case port_of parsed of
                      None \<Rightarrow> Inl (ValueError ''port'')
                    | Some port \<Rightarrow>
                        if host = [] then Inr (url, headers, None)
                        else
                          (let nl = (case port of None \<Rightarrow> bracketed ip
                                     | Some n \<Rightarrow> bracketed ip @ '':'' @ str_int n)
                           in Inr (urlunsplit (parsed\<lparr>netloc := nl\<rparr>),
                                   dict_set ''Host'' (netloc parsed) headers, Some host))))))"

section \<open>Reading the answer\<close>

text \<open>
  The loop over \<open>aiter_raw\<close>: the third argument is the rest of the stream. A chunk that does not
  fit is cut and ends the loop, so what breaks off behind it is never seen.
\<close>

fun read_capped :: "int \<Rightarrow> bytes \<Rightarrow> bytes list \<Rightarrow> exc option \<Rightarrow> exc + bytes \<times> bool" where
  "read_capped cap captured [] broken =
     (case broken of Some e \<Rightarrow> Inl e | None \<Rightarrow> Inr (captured, False))"
| "read_capped cap captured (chunk # chunks) broken =
     (let remaining = cap - int (length captured) in
      if remaining < int (length chunk) then Inr (captured @ take (nat (max remaining 0)) chunk, True)
      else read_capped cap (captured @ chunk) chunks broken)"

text \<open>\<open>HttpxSender.post\<close>; \<open>decode_utf8\<close> is the decoding that replaces what is not UTF-8.\<close>

definition post ::
  "(HttpRequest \<Rightarrow> exc + HttpResponse) \<Rightarrow> (bytes \<Rightarrow> string) \<Rightarrow> PostCall \<Rightarrow>
   (exc, http_client, HttpSendResult) comp" where
  "post answer decode_utf8 call = (\<lambda>c.
     case pin_host (pc_url call) (pc_headers call) (pc_resolved_ip call) of
       Inl e \<Rightarrow> (Inl e, c)
     | Inr (request_url, request_headers, sni_hostname) \<Rightarrow>
         (let request = \<lparr>rq_url = request_url, rq_content = pc_body call,
                rq_headers = request_headers,
                rq_timeout = \<lparr>to_connect = pc_connect_timeout_s call, to_read = pc_read_timeout_s call,
                  to_write = pc_read_timeout_s call, to_pool = pc_total_timeout_s call\<rparr>,
                rq_sni_hostname = sni_hostname\<rparr>;
              c1 = c\<lparr>hc_requests := hc_requests c @ [request]\<rparr>
          in (case answer request of
                Inl e \<Rightarrow> (Inl e, c1)
              | Inr response \<Rightarrow>
                  (let c2 = c1\<lparr>hc_open := hc_open c1 + 1\<rparr>;
                       result =
                         (case read_capped (pc_max_response_bytes call) [] (rp_chunks response)
                                 (rp_broken response) of
                            Inl e \<Rightarrow> Inl e
                          | Inr (captured, truncated) \<Rightarrow>
                              Inr \<lparr>res_status = rp_status_code response,
                                res_headers = rp_headers response,
                                res_body_snippet = decode_utf8 captured,
                                res_duration_ms = trunc (rp_elapsed_s response * 1000),
                                res_body = captured, res_body_truncated = truncated\<rparr>)
                   in (result, c2\<lparr>hc_open := hc_open c2 - 1\<rparr>)))))"

section \<open>The bound on the answer\<close>

lemma read_capped_exact:
  assumes "int (length captured) \<le> cap"
  shows "read_capped cap captured chunks broken =
     (if cap < int (length (captured @ concat chunks))
      then Inr (take (nat cap) (captured @ concat chunks), True)
      else case broken of Some e \<Rightarrow> Inl e | None \<Rightarrow> Inr (captured @ concat chunks, False))"
  using assms
proof (induction chunks arbitrary: captured)
  case (Cons chunk chunks)
  show ?case
  proof (cases "cap - int (length captured) < int (length chunk)")
    case True
    then have "nat cap - length captured = nat (cap - int (length captured))" "nat cap < length captured + length chunk"
      using Cons.prems by linarith+
    then show ?thesis using True Cons.prems by simp
  next
    case False
    then show ?thesis using Cons.IH [of "captured @ chunk"] Cons.prems by (simp split: option.split)
  qed
qed (simp split: option.split)

lemma post_closes: "hc_open (snd (post answer dec call c)) = hc_open c"
  by (auto simp: post_def Let_def split: sum.split)

section \<open>The pinned request\<close>

definition address_text :: "string \<Rightarrow> bool" where
  "address_text ip \<longleftrightarrow> ip \<noteq> [] \<and> list_all (\<lambda>c. is_hex_digit c \<or> c \<in> {CHR ''.'', CHR '':''}) ip \<and>
     (CHR '':'' \<in> set ip \<longrightarrow> (\<exists>a. ip_address ip = Some (V6 a)))"

definition pinned_netloc :: "string \<Rightarrow> int option \<Rightarrow> string" where
  "pinned_netloc ip port = (case port of None \<Rightarrow> bracketed ip | Some n \<Rightarrow> bracketed ip @ '':'' @ str_int n)"

lemma hex_digit_chars: "is_hex_digit c \<Longrightarrow> c \<notin> {CHR ''@'', CHR ''['', CHR '']'', CHR ''%'', CHR ''/'', CHR ''?'', CHR ''#'', CHR ''v'', CHR 9, CHR 10, CHR 13, CHR '':'', CHR ''-''}"
  by (auto simp: is_hex_digit_def hex_val_def)

lemma str_int_port:
  assumes "0 \<le> n" "n \<le> 65535"
  shows "list_all is_decimal (str_int n)" "length (str_int n) \<le> max_str_digits" "decimal_value (str_int n) = n"
proof -
  have s: "str_int n = str_nat (nat n)" using assms by (simp add: str_int_def)
  show "list_all is_decimal (str_int n)" by (simp add: s str_nat_decimal)
  have "nat n < 10 ^ 5" using assms by simp
  from str_nat_length [OF this] show "length (str_int n) \<le> max_str_digits" by (simp add: s max_str_digits_def)
  have "foldl (\<lambda>a c. a * 10 + int (digit_val c)) (int a) t = int (foldl (\<lambda>a c. a * 10 + digit_val c) a t)" for a t
  proof (induction t arbitrary: a)
    case (Cons c t)
    from Cons.IH [of "a * 10 + digit_val c"] show ?case by (simp add: algebra_simps)
  qed simp
  from this [of 0 "str_nat (nat n)"] show "decimal_value (str_int n) = n"
    using assms by (simp add: s decimal_value_def foldl_str_nat)
qed

lemma str_nat_char: "c \<in> set (str_nat n) \<Longrightarrow> is_decimal c"
  using str_nat_decimal [of n] by (simp add: list.pred_set)

lemma decimal_hex: "is_decimal c \<Longrightarrow> is_hex_digit c"
  using of_nat_of_char [of c, where 'a = int]
  by (auto simp: is_decimal_def is_hex_digit_def hex_val_def Let_def)

lemma address_chars:
  assumes "address_text ip" and "c \<in> set (pinned_netloc ip port)" and "\<And>n. port = Some n \<Longrightarrow> 0 \<le> n"
  shows "c \<in> {CHR ''['', CHR '']'', CHR '':'', CHR ''.''} \<or> is_hex_digit c"
  using assms by (auto simp: pinned_netloc_def bracketed_def address_text_def list.pred_set str_int_def decimal_hex
      split: option.splits if_splits dest!: str_nat_char)

lemma hex_not_unsafe: "is_hex_digit c \<Longrightarrow> \<not> is_unsafe_url_byte c"
  using of_nat_of_char [of c, where 'a = int]
  by (auto simp: is_unsafe_url_byte_def is_hex_digit_def hex_val_def Let_def)

lemma pinned_chars:
  assumes "address_text ip" and "\<And>n. port = Some n \<Longrightarrow> 0 \<le> n"
  shows "list_all (\<lambda>c. \<not> is_delim c) (pinned_netloc ip port)" "plain (pinned_netloc ip port)"
    "CHR ''@'' \<notin> set (pinned_netloc ip port)"
proof -
  have c: "\<not> is_delim c \<and> \<not> is_unsafe_url_byte c \<and> c \<noteq> CHR ''@''" if "c \<in> set (pinned_netloc ip port)" for c
    using address_chars [OF assms(1) that assms(2)] hex_digit_chars [of c] hex_not_unsafe [of c]
    by (auto simp: is_delim_def) (auto simp: is_unsafe_url_byte_def)
  then show "list_all (\<lambda>c. \<not> is_delim c) (pinned_netloc ip port)" "plain (pinned_netloc ip port)"
    "CHR ''@'' \<notin> set (pinned_netloc ip port)"
    by (auto simp: list.pred_set plain_def)
qed

lemma pinned_parts:
  assumes "address_text ip" and "\<And>n. port = Some n \<Longrightarrow> 0 \<le> n \<and> n \<le> 65535"
  shows "netloc_ok (pinned_netloc ip port)"
    and "hostname (p\<lparr>netloc := pinned_netloc ip port\<rparr>) = Some (lower ip)"
    and "port_of (p\<lparr>netloc := pinned_netloc ip port\<rparr>) = Some port"
proof -
  let ?nl = "pinned_netloc ip port" and ?rest = "case port of None \<Rightarrow> [] | Some n \<Rightarrow> CHR '':'' # str_int n"
  have chars: "CHR ''['' \<notin> set ip" "CHR '']'' \<notin> set ip" "CHR ''%'' \<notin> set ip" "ip \<noteq> []" "hd ip \<noteq> CHR ''v''"
    using assms(1) hex_digit_chars hd_in_set [of ip] by (fastforce simp: address_text_def list.pred_set)+
  have rest: "CHR ''['' \<notin> set ?rest" "CHR '']'' \<notin> set ?rest"
    using assms(2) hex_digit_chars decimal_hex str_int_port(1) by (fastforce simp: list.pred_set split: option.split)+
  have nl: "?nl = bracketed ip @ ?rest" by (simp add: pinned_netloc_def split: option.split)
  have hp: "host_and_port ?nl = ?nl"
    using pinned_chars(3) [OF assms(1)] assms(2) by (simp add: host_and_port_def rpartition_at_absent)
  have port: "(case port of None \<Rightarrow> Some None | Some n \<Rightarrow> if list_all is_decimal (str_int n) \<and> length (str_int n) \<le> max_str_digits \<and> decimal_value (str_int n) \<le> 65535
      then Some (Some (decimal_value (str_int n))) else None) = Some port"
    using assms(2) str_int_port by (auto split: option.split)
  have info: "hostinfo (p\<lparr>netloc := ?nl\<rparr>) = (ip, map_option str_int port)"
  proof (cases "CHR '':'' \<in> set ip")
    case True
    have "partition_at CHR '']'' (ip @ CHR '']'' # ?rest) = (ip, True, ?rest)" using chars by (intro partition_at_append)
    with True show ?thesis
      by (simp add: hostinfo_def hp) (simp add: nl bracketed_def split: option.split)
  next
    case False
    have "partition_at CHR ''['' ?nl = (?nl, False, [])"
      using rest chars False by (intro partition_at_absent) (simp add: nl bracketed_def)
    moreover have "partition_at CHR '':'' ?nl = (ip, port \<noteq> None, case port of None \<Rightarrow> [] | Some n \<Rightarrow> str_int n)"
      using False by (simp add: nl bracketed_def partition_at_append partition_at_absent split: option.split)
    ultimately show ?thesis by (simp add: hostinfo_def hp split: option.split)
  qed
  then show "port_of (p\<lparr>netloc := ?nl\<rparr>) = Some port" using port by (cases port) (simp_all add: port_of_def)
  have "partition_at CHR ''%'' ip = (ip, False, [])" using chars by (intro partition_at_absent)
  then show "hostname (p\<lparr>netloc := ?nl\<rparr>) = Some (lower ip)"
    using info chars by (cases ip) (simp_all add: hostname_def)
  show "netloc_ok ?nl"
  proof (cases "CHR '':'' \<in> set ip")
    case True
    have "partition_at CHR '']'' (ip @ CHR '']'' # ?rest) = (ip, True, ?rest)" using chars by (intro partition_at_append)
    moreover have "bracketed_host_ok ip"
      using True assms(1) chars by (auto simp: bracketed_host_ok_def address_text_def)
    ultimately show ?thesis using True
      by (simp add: netloc_ok_def bracketed_netloc_ok_def hp) (simp add: nl bracketed_def split: option.split)
  next
    case False
    then have "CHR ''['' \<notin> set ?nl" "CHR '']'' \<notin> set ?nl" using chars rest by (simp_all add: nl bracketed_def)
    then show ?thesis by (simp add: netloc_ok_def)
  qed
qed

lemma hostname_Some:
  assumes "hostname p = Some h"
  shows "h \<noteq> []" "netloc p \<noteq> []"
proof -
  obtain c cs where i: "fst (hostinfo p) = c # cs" using assms by (auto simp: hostname_def split: list.splits)
  then show "netloc p \<noteq> []" by (auto simp: hostinfo_def host_and_port_def rpartition_at_def)
  obtain a found zone where "partition_at CHR ''%'' (c # cs) = (a, found, zone)" by (cases "partition_at CHR ''%'' (c # cs)")
  with partition_at_parts [OF this] show "h \<noteq> []" using assms i by (cases a) (auto simp: hostname_def lower_def split: if_splits)
qed




text \<open>
  An answer is read up to its bound, and its connection is always given back. A call that
  returns made one request with the body it was given; what it read is the first
  \<open>max_response_bytes\<close> bytes of the answer, marked as cut exactly when there was more, and an
  answer that was not cut had not broken off. However the call ends, no response stays open.
\<close>

theorem answer_bounded:
  assumes "0 \<le> pc_max_response_bytes call" and "post answer dec call c = (r, c')"
  shows "hc_open c' = hc_open c \<and> (\<forall>res. r = Inr res \<longrightarrow>
      (\<exists>request response. hc_requests c' = hc_requests c @ [request] \<and> rq_content request = pc_body call \<and>
        answer request = Inr response \<and> res_status res = rp_status_code response \<and>
        res_body res = take (nat (pc_max_response_bytes call)) (concat (rp_chunks response)) \<and>
        res_body_truncated res = (pc_max_response_bytes call < int (length (concat (rp_chunks response)))) \<and>
        (\<not> res_body_truncated res \<longrightarrow> rp_broken response = None)))"
proof (intro conjI allI impI)
  show "hc_open c' = hc_open c" using post_closes [of answer dec call c] assms(2) by simp
next
  fix res
  assume "r = Inr res"
  then show "\<exists>request response. hc_requests c' = hc_requests c @ [request] \<and> rq_content request = pc_body call \<and>
        answer request = Inr response \<and> res_status res = rp_status_code response \<and>
        res_body res = take (nat (pc_max_response_bytes call)) (concat (rp_chunks response)) \<and>
        res_body_truncated res = (pc_max_response_bytes call < int (length (concat (rp_chunks response)))) \<and>
        (\<not> res_body_truncated res \<longrightarrow> rp_broken response = None)"
    using assms
    by (auto simp: post_def Let_def read_capped_exact split: sum.splits prod.splits if_splits option.splits)
qed

theorem answer_bounded_witness:
  "\<exists>res c'. post (\<lambda>_. Inr \<lparr>rp_status_code = 200, rp_headers = [], rp_chunks = [''ab'', ''cd''],
        rp_broken = Some (Other ''ReadError'' []), rp_elapsed_s = 0\<rparr>) (\<lambda>b. b)
      \<lparr>pc_url = ''https://a.example/'', pc_body = ''{}'', pc_headers = [], pc_resolved_ip = None,
       pc_connect_timeout_s = 5, pc_read_timeout_s = 10, pc_total_timeout_s = 15,
       pc_max_response_bytes = 3\<rparr> \<lparr>hc_requests = [], hc_open = 0\<rparr> = (Inr res, c') \<and>
     res_body res = ''abc'' \<and> res_body_truncated res \<and> hc_open c' = 0"
  (is "\<exists>res c'. post ?answer _ ?call ?c = _ \<and> _")
proof -
  have "map_sum (\<lambda>_. ()) (\<lambda>_. ()) (fst (post ?answer (\<lambda>b. b) ?call ?c)) = Inr ()" by code_simp
  then obtain res c' where p: "post ?answer (\<lambda>b. b) ?call ?c = (Inr res, c')" by (cases "post ?answer (\<lambda>b. b) ?call ?c"; cases "fst (post ?answer (\<lambda>b. b) ?call ?c)") auto
  show ?thesis
    using answer_bounded [OF _ p] by (intro exI [of _ res] exI [of _ c']) (auto simp: p)
qed

end
