(* ===== verification/Tables.thy ===== *)
theory Tables
  imports StoreSpec
begin

text \<open>
  Tables and collections, the common ground of the relational and the document store: rows in a
  list, found by a key, updated in place where a condition holds, inserted when the key is new.
  A store over a table shows the row of each key through a projection; the lemmas here turn the
  statements' effects on the list into their effects on that view.
\<close>

fun map_exc :: "('a \<Rightarrow> 'e + 'b) \<Rightarrow> 'a list \<Rightarrow> 'e + 'b list" where
  "map_exc f [] = Inr []"
| "map_exc f (x # xs) =
     (case f x of
        Inl e \<Rightarrow> Inl e
      | Inr y \<Rightarrow> (case map_exc f xs of Inl e \<Rightarrow> Inl e | Inr ys \<Rightarrow> Inr (y # ys)))"

lemma map_exc_Inr: "(\<And>x. x \<in> set xs \<Longrightarrow> f x = Inr (g x)) \<Longrightarrow> map_exc f xs = Inr (map g xs)"
  by (induction xs) auto

definition lookup :: "('a \<Rightarrow> 'k) \<Rightarrow> 'a list \<Rightarrow> 'k \<Rightarrow> 'a option" where
  "lookup key t k = find (\<lambda>r. key r = k) t"

definition update_where :: "('a \<Rightarrow> bool) \<Rightarrow> ('a \<Rightarrow> 'a) \<Rightarrow> 'a list \<Rightarrow> 'a list" where
  "update_where P f t = map (\<lambda>r. if P r then f r else r) t"

definition insert_new :: "('a \<Rightarrow> 'k) \<Rightarrow> 'a \<Rightarrow> 'a list \<Rightarrow> 'a list" where
  "insert_new key r t = (if key r \<in> key ` set t then t else t @ [r])"

text \<open>
  \<open>insert_many(docs, ordered=False)\<close> of the document store: every document whose id is new is
  inserted, each of the others is an error of code 11000; the errors arrive together.
\<close>

definition insert_unordered :: "('a \<Rightarrow> 'k) \<Rightarrow> 'a list \<Rightarrow> 'a list \<Rightarrow> int list \<times> 'a list" where
  "insert_unordered key docs col = fold (\<lambda>d (errors, c).
     if key d \<in> key ` set c then (errors @ [11000], c) else (errors, c @ [d])) docs ([], col)"

text \<open>\<open>LIMIT\<close> of the relational store.\<close>

definition limit_rows :: "int \<Rightarrow> 'a list \<Rightarrow> exc + 'a list" where
  "limit_rows n xs =
     (if n < 0 then Inl (Other ''DBAPIError'' ''LIMIT must not be negative'') else Inr (take (nat n) xs))"

section \<open>Lookups\<close>

lemma lookup_SomeD: "lookup key t k = Some r \<Longrightarrow> r \<in> set t \<and> key r = k"
  by (auto simp: lookup_def find_Some_iff)

lemma lookup_None: "lookup key t k = None \<longleftrightarrow> k \<notin> key ` set t"
  by (auto simp: lookup_def find_None_iff)

lemma lookup_iff:
  assumes "distinct (map key t)"
  shows "lookup key t k = Some r \<longleftrightarrow> r \<in> set t \<and> key r = k"
  using assms find_Some_distinct [OF assms] lookup_SomeD [of key t k r] by (auto simp: lookup_def)

lemma lookup_Nil [simp]: "lookup key [] k = None"
  by (simp add: lookup_def)

lemma lookup_append:
  "lookup key (t @ u) k = (case lookup key t k of Some r \<Rightarrow> Some r | None \<Rightarrow> lookup key u k)"
  by (induction t) (auto simp: lookup_def)

lemma lookup_update:
  "(\<And>r. key (f r) = key r) \<Longrightarrow>
   lookup key (update_where P f t) k = map_option (\<lambda>r. if P r then f r else r) (lookup key t k)"
  by (induction t) (auto simp: lookup_def update_where_def)

lemma keys_update: "(\<And>r. key (f r) = key r) \<Longrightarrow> map key (update_where P f t) = map key t"
  by (induction t) (auto simp: update_where_def)

lemma set_update_where: "set (update_where P f t) = f ` {r \<in> set t. P r} \<union> {r \<in> set t. \<not> P r}"
  by (auto simp: update_where_def image_iff)

lemma lookup_filter:
  assumes "distinct (map key t)"
  shows "lookup key (filter P t) k =
    (case lookup key t k of Some r \<Rightarrow> if P r then Some r else None | None \<Rightarrow> None)"
proof (cases "lookup key t k")
  case None
  then have "lookup key (filter P t) k = None" by (auto simp: lookup_None)
  then show ?thesis using None by simp
next
  case (Some r)
  have d: "distinct (map key (filter P t))" using assms by (rule distinct_map_filter)
  have r: "r \<in> set t" "key r = k" using lookup_SomeD [OF Some] by auto
  show ?thesis
  proof (cases "P r")
    case True
    then have "lookup key (filter P t) k = Some r" using r by (simp add: lookup_iff [OF d])
    then show ?thesis using Some True by simp
  next
    case False
    then have "k \<notin> key ` set (filter P t)" using assms r by (auto dest: inj_onD simp: distinct_map)
    then show ?thesis using Some False lookup_None [of key "filter P t" k] by simp
  qed
qed

lemma keys_insert: "distinct (map key t) \<Longrightarrow> distinct (map key (insert_new key r t))"
  by (auto simp: insert_new_def)

lemma keys_fold_insert: "distinct (map key t) \<Longrightarrow> distinct (map key (fold (insert_new key) rs t))"
  by (induction rs arbitrary: t) (simp_all add: keys_insert)

lemma lookup_insert:
  "lookup key (insert_new key r t) k =
    (case lookup key t k of Some r' \<Rightarrow> Some r' | None \<Rightarrow> if key r = k then Some r else None)"
  by (auto simp: insert_new_def lookup_append split: option.splits)
    (auto simp: lookup_def find_None_iff)

lemma lookup_fold_insert:
  "lookup key (fold (insert_new key) rs t) k =
    (case lookup key t k of Some r \<Rightarrow> Some r | None \<Rightarrow> lookup key rs k)"
proof (induction rs arbitrary: t)
  case (Cons r rs)
  have "lookup key (r # rs) k = (if key r = k then Some r else lookup key rs k)"
    by (simp add: lookup_def)
  then show ?case by (auto simp: Cons.IH lookup_insert split: option.splits)
qed (simp split: option.split)

lemma set_fold_insert: "set (fold (insert_new key) rs t) \<subseteq> set t \<union> set rs"
proof (induction rs arbitrary: t)
  case (Cons r rs)
  have "set (insert_new key r t) \<subseteq> insert r (set t)" by (auto simp: insert_new_def)
  then show ?case using Cons.IH [of "insert_new key r t"] by auto
qed simp

lemma insert_unordered_ok:
  "\<exists>errors. insert_unordered key docs col = (errors, fold (insert_new key) docs col) \<and> (\<forall>c \<in> set errors. c = 11000)"
proof -
  let ?f = "\<lambda>d (errors, c). if key d \<in> key ` set c then (errors @ [11000], c) else (errors, c @ [d])"
  have "\<exists>errors. fold ?f docs (es, col) = (errors, fold (insert_new key) docs col) \<and> (\<forall>c \<in> set errors. c = 11000)"
    if "\<forall>c \<in> set es. c = 11000" for es :: "int list"
    using that
  proof (induction docs arbitrary: es col)
    case (Cons d docs)
    then show ?case by (cases "key d \<in> key ` set col") (simp_all add: insert_new_def)
  qed simp
  then show ?thesis by (simp add: insert_unordered_def)
qed

section \<open>The view of a table\<close>

definition table_view :: "('a \<Rightarrow> 'k) \<Rightarrow> ('a \<Rightarrow> 'b) \<Rightarrow> 'a list \<Rightarrow> 'k \<Rightarrow> 'b option" where
  "table_view key proj t = (\<lambda>k. map_option proj (lookup key t k))"

text \<open>Rows are filed under the id they show, and leased exactly while in flight.\<close>

definition table_ok :: "('a \<Rightarrow> string) \<Rightarrow> ('a \<Rightarrow> row) \<Rightarrow> 'a list \<Rightarrow> bool" where
  "table_ok key proj t \<longleftrightarrow> distinct (map key t) \<and>
     (\<forall>r \<in> set t. delivery_id (row_rec (proj r)) = key r \<and>
        (row_lease (proj r) \<noteq> None \<longleftrightarrow> status (row_rec (proj r)) = IN_FLIGHT))"

lemma table_view_SomeD:
  "table_view key proj t k = Some row \<Longrightarrow> \<exists>r \<in> set t. key r = k \<and> proj r = row"
  using lookup_SomeD [of key t k] by (auto simp: table_view_def)

lemma table_view_ok: "table_ok key proj t \<Longrightarrow> view_ok (table_view key proj t)"
proof -
  assume ok: "table_ok key proj t"
  have "dom (table_view key proj t) \<subseteq> key ` set t"
    by (auto simp: dest!: table_view_SomeD)
  then have "finite (dom (table_view key proj t))" by (rule finite_subset) simp
  then show ?thesis using ok unfolding view_ok_def table_ok_def by (fast dest!: table_view_SomeD)
qed

lemma table_view_in:
  assumes "table_ok key proj t" and "r \<in> set t"
  shows "table_view key proj t (key r) = Some (proj r)"
  using assms by (auto simp: table_view_def table_ok_def lookup_iff)

lemma table_view_update:
  assumes "\<And>r. key (f r) = key r" and "\<And>r. r \<in> set t \<Longrightarrow> P r \<longleftrightarrow> Q (key r) (proj r)"
    and "\<And>r. r \<in> set t \<Longrightarrow> P r \<Longrightarrow> proj (f r) = g (proj r)"
  shows "table_view key proj (update_where P f t) =
    (\<lambda>k. map_option (\<lambda>row. if Q k row then g row else row) (table_view key proj t k))"
proof
  fix k
  show "table_view key proj (update_where P f t) k =
      map_option (\<lambda>row. if Q k row then g row else row) (table_view key proj t k)"
  proof (cases "lookup key t k")
    case (Some r)
    then have "r \<in> set t" "key r = k" using lookup_SomeD [OF Some] by auto
    then show ?thesis using Some assms(2,3) by (auto simp: table_view_def lookup_update [of key f, OF assms(1)])
  qed (simp add: table_view_def lookup_update [of key f, OF assms(1)])
qed

lemma table_view_update_key:
  assumes "\<And>r. key (f r) = key r" and "\<And>r. r \<in> set t \<Longrightarrow> key r = k \<Longrightarrow> proj (f r) = g (proj r)"
    and "table_view key proj t k = Some row"
  shows "table_view key proj (update_where (\<lambda>r. key r = k) f t) = (table_view key proj t)(k \<mapsto> g row)"
proof -
  have "table_view key proj (update_where (\<lambda>r. key r = k) f t) =
      (\<lambda>k'. map_option (\<lambda>row. if k' = k then g row else row) (table_view key proj t k'))"
    using assms(1,2) by (intro table_view_update) auto
  then show ?thesis
    using assms(3) by (auto simp: fun_eq_iff option.map_ident)
qed

lemma table_ok_update:
  assumes "table_ok key proj t" and "\<And>r. key (f r) = key r"
    and "\<And>r. r \<in> set t \<Longrightarrow> P r \<Longrightarrow> delivery_id (row_rec (proj (f r))) = delivery_id (row_rec (proj r)) \<and>
      (row_lease (proj (f r)) \<noteq> None \<longleftrightarrow> status (row_rec (proj (f r))) = IN_FLIGHT)"
  shows "table_ok key proj (update_where P f t)"
  using assms(1,3) unfolding table_ok_def keys_update [of key f, OF assms(2)]
  by (auto simp: set_update_where assms(2))

text \<open>A claim that takes the head of the ready rows sorted by the time they are due.\<close>

lemma table_claim_ok:
  assumes ok: "table_ok key proj t" and n: "0 \<le> n"
    and chosen: "chosen = take (nat n) (sort_key (\<lambda>r. fire_at (row_rec (proj r)))
       (filter (\<lambda>r. ready now (proj r)) t))"
    and ids: "distinct (map delivery_id batch)" "delivery_id ` set batch = key ` set chosen"
    and recs: "\<And>b. b \<in> set batch \<Longrightarrow> \<exists>r \<in> set t. key r = delivery_id b \<and>
       b\<lparr>status := IN_FLIGHT\<rparr> = (row_rec (proj r))\<lparr>status := IN_FLIGHT\<rparr>"
    and v': "\<And>k. v' k = (if k \<in> key ` set chosen then map_option (leased x) (table_view key proj t k)
       else table_view key proj t k)"
  shows "claim_ok (table_view key proj t) now x n batch v'"
proof -
  let ?f = "\<lambda>r. fire_at (row_rec (proj r))" and ?v = "table_view key proj t"
  define due where "due = sort_key ?f (filter (\<lambda>r. ready now (proj r)) t)"
  have due: "set due = {r \<in> set t. ready now (proj r)}" "sorted (map ?f due)"
    by (simp_all add: due_def)
  have dist: "distinct (map key due)"
    unfolding due_def using ok by (intro distinct_map_sort_key distinct_map_filter) (simp add: table_ok_def)
  have chosen': "chosen = take (nat n) due" by (simp add: chosen due_def)
  have len: "length batch = length chosen"
  proof -
    have "distinct (map key chosen)" using dist by (simp add: chosen' take_map [symmetric])
    then have "card (key ` set chosen) = length chosen" by (metis distinct_card length_map set_map)
    moreover have "card (delivery_id ` set batch) = length batch" using ids(1) by (metis distinct_card length_map set_map)
    ultimately show ?thesis using ids(2) by simp
  qed
  have rec: "\<exists>r \<in> set chosen. key r = delivery_id b \<and> ?v (delivery_id b) = Some (proj r) \<and>
      ready now (proj r) \<and> b\<lparr>status := IN_FLIGHT\<rparr> = (row_rec (proj r))\<lparr>status := IN_FLIGHT\<rparr>"
    if b: "b \<in> set batch" for b
  proof -
    obtain r where r: "r \<in> set t" "key r = delivery_id b"
      "b\<lparr>status := IN_FLIGHT\<rparr> = (row_rec (proj r))\<lparr>status := IN_FLIGHT\<rparr>" using recs [OF b] by auto
    have "delivery_id b \<in> key ` set chosen" using ids(2) b by blast
    then obtain c where c: "c \<in> set chosen" "key c = delivery_id b" by auto
    then have "c \<in> set t" "ready now (proj c)" using due(1) set_take_subset [of "nat n" due] by (auto simp: chosen')
    moreover have "c = r" using ok r(1,2) c(2) \<open>c \<in> set t\<close> unfolding table_ok_def by (metis lookup_iff option.inject)
    ultimately show ?thesis using c r(3) table_view_in [OF ok r(1)] r(2) by auto
  qed
  have fire: "fire_at b = ?f r" if "b\<lparr>status := IN_FLIGHT\<rparr> = (row_rec (proj r))\<lparr>status := IN_FLIGHT\<rparr>" for b :: DeliveryRecord and r
    using that by (cases b; cases "row_rec (proj r)") simp
  have rest: "\<exists>r \<in> set (drop (nat n) due). key r = did \<and> proj r = row"
    if a: "?v did = Some row" "ready now row" "did \<notin> delivery_id ` set batch" for did row
  proof -
    obtain r where r: "r \<in> set t" "key r = did" "proj r = row" using table_view_SomeD [OF a(1)] by auto
    then have "r \<in> set due" using a(2) by (simp add: due(1))
    then have "r \<in> set (take (nat n) due) \<union> set (drop (nat n) due)"
      by (metis append_take_drop_id set_append)
    moreover have "r \<notin> set (take (nat n) due)" using a(3) r(2) ids(2) by (auto simp: chosen')
    ultimately show ?thesis using r by auto
  qed
  show ?thesis
    unfolding claim_ok_def
  proof (intro conjI allI ballI impI)
    show "\<exists>row. ?v (delivery_id b) = Some row \<and> ready now row \<and>
        b\<lparr>status := IN_FLIGHT\<rparr> = (row_rec row)\<lparr>status := IN_FLIGHT\<rparr>" if "b \<in> set batch" for b
      using rec [OF that] by blast
    show "v' did = (if did \<in> delivery_id ` set batch then map_option (leased x) (?v did) else ?v did)" for did
      by (simp add: v' ids(2))
    show "fire_at b \<le> fire_at (row_rec row)"
      if a: "b \<in> set batch" "did \<notin> delivery_id ` set batch" "?v did = Some row" "ready now row" for b did row
    proof -
      obtain c where c: "c \<in> set (take (nat n) due)" "fire_at b = ?f c"
        using rec [OF a(1)] fire chosen' by blast
      obtain r where "r \<in> set (drop (nat n) due)" "proj r = row" using rest [OF a(3,4,2)] by auto
      with sorted_take_le_drop [OF due(2) c(1)] c(2) show ?thesis by auto
    qed
    show "int (length batch) \<le> n" using n by (simp add: len chosen')
    show "did \<in> delivery_id ` set batch"
      if "int (length batch) < n" "?v did = Some row" "ready now row" for did row
      using rest [OF that(2,3)] that(1) n by (cases "did \<in> delivery_id ` set batch") (auto simp: len chosen')
  qed (rule ids(1))
qed

end
