(* ===== verification/PgSchema.thy ===== *)
theory PgSchema
  imports Types PyStr
begin

text \<open>
  Table names and the schema of the relational store (\<open>service/pg_repos.py\<close>). Names are put
  into the text of the statements, so the check of a name is what keeps the statements as they
  are written; running a statement is an argument.
\<close>

abbreviation nl :: string where
  "nl \<equiv> [CHR 0x0A]"

abbreviation sq :: string where
  "sq \<equiv> [CHR 0x27]"

text \<open>\<open>^[a-zA-Z_][a-zA-Z0-9_]{0,62}$\<close>; the \<open>$\<close> also matches before a newline at the end.\<close>

definition name_start :: "char \<Rightarrow> bool" where
  "name_start c \<longleftrightarrow> is_alpha_ascii c \<or> c = CHR ''_''"

definition name_char :: "char \<Rightarrow> bool" where
  "name_char c \<longleftrightarrow> is_alpha_ascii c \<or> is_decimal c \<or> c = CHR ''_''"

definition plain_identifier :: "string \<Rightarrow> bool" where
  "plain_identifier s \<longleftrightarrow>
     (case s of [] \<Rightarrow> False | c # cs \<Rightarrow> name_start c \<and> list_all name_char cs \<and> length cs \<le> 62)"

definition SAFE_IDENTIFIER_RE :: "string \<Rightarrow> bool" where
  "SAFE_IDENTIFIER_RE s \<longleftrightarrow>
     plain_identifier s \<or> s \<noteq> [] \<and> last s = CHR 0x0A \<and> plain_identifier (butlast s)"

definition validate_table_name :: "string \<Rightarrow> exc + string" where
  "validate_table_name name =
     (if SAFE_IDENTIFIER_RE name then Inr name
      else Inl (ValueError (''Table name '' @ quoted name @
        '' is not a safe SQL identifier. Use only letters, digits, and underscores; must start with a letter or underscore; max 63 chars.'')))"

section \<open>The statements\<close>

definition ddl_deliveries :: "string \<Rightarrow> string" where
  "ddl_deliveries deliveries =
      nl @ ''        CREATE TABLE IF NOT EXISTS '' @ deliveries @ '' ('' @ nl @
      ''            delivery_id    TEXT        NOT NULL PRIMARY KEY,'' @ nl @
      ''            subscription_id TEXT       NOT NULL,'' @ nl @
      ''            owner_id       TEXT        NOT NULL,'' @ nl @
      ''            event_name     TEXT        NOT NULL,'' @ nl @
      ''            event_id       TEXT        NOT NULL,'' @ nl @
      ''            schema_version TEXT        NOT NULL,'' @ nl @ ''            tenant_id      TEXT,'' @
      nl @ ''            data_json      BYTEA       NOT NULL,'' @ nl @
      ''            emitted_at     TIMESTAMPTZ NOT NULL,'' @ nl @
      ''            target_url     TEXT        NOT NULL,'' @ nl @
      ''            resolved_ip    TEXT        NOT NULL,'' @ nl @ ''            redelivery_of  TEXT,'' @
      nl @ ''            attempts       INT         NOT NULL DEFAULT 0,'' @ nl @
      ''            fire_at        TIMESTAMPTZ NOT NULL,'' @ nl @
      ''            created_at     TIMESTAMPTZ NOT NULL,'' @ nl @
      ''            status         TEXT        NOT NULL DEFAULT '' @ sq @ ''pending'' @ sq @ '','' @ nl @
      ''            lease_expiry   TIMESTAMPTZ,'' @ nl @
      ''            profile        TEXT        NOT NULL DEFAULT '' @ sq @ ''default'' @ sq @ '','' @ nl @
      ''            secret_version TEXT'' @ nl @ ''        )'' @ nl @ ''    ''"

definition ddl_deliveries_profile :: "string \<Rightarrow> string" where
  "ddl_deliveries_profile deliveries =
      nl @ ''        ALTER TABLE '' @ deliveries @ nl @
      ''            ADD COLUMN IF NOT EXISTS profile TEXT NOT NULL DEFAULT '' @ sq @ ''default'' @ sq @
      '','' @ nl @ ''            ADD COLUMN IF NOT EXISTS secret_version TEXT'' @ nl @ ''    ''"

definition ddl_deliveries_idx_status :: "string \<Rightarrow> string" where
  "ddl_deliveries_idx_status deliveries =
      nl @ ''        CREATE INDEX IF NOT EXISTS '' @ deliveries @ ''_status_fire_at_idx'' @ nl @
      ''            ON '' @ deliveries @ '' (status, fire_at)'' @ nl @ ''    ''"

definition ddl_deliveries_idx_sub :: "string \<Rightarrow> string" where
  "ddl_deliveries_idx_sub deliveries =
      nl @ ''        CREATE INDEX IF NOT EXISTS '' @ deliveries @ ''_subscription_created_at_idx'' @ nl @
      ''            ON '' @ deliveries @ '' (subscription_id, created_at)'' @ nl @ ''    ''"

definition ddl_attempts :: "string \<Rightarrow> string" where
  "ddl_attempts atts =
      nl @ ''        CREATE TABLE IF NOT EXISTS '' @ atts @ '' ('' @ nl @
      ''            id               BIGSERIAL   PRIMARY KEY,'' @ nl @
      ''            delivery_id      TEXT        NOT NULL,'' @ nl @
      ''            attempt          INT         NOT NULL,'' @ nl @
      ''            attempted_at     TIMESTAMPTZ NOT NULL,'' @ nl @
      ''            http_code        INT,'' @ nl @
      ''            duration_ms      INT         NOT NULL,'' @ nl @
      ''            error            TEXT,'' @ nl @ ''            response_snippet TEXT'' @ nl @
      ''        )'' @ nl @ ''    ''"

definition ddl_attempts_idx :: "string \<Rightarrow> string" where
  "ddl_attempts_idx atts =
      nl @ ''        CREATE INDEX IF NOT EXISTS '' @ atts @ ''_delivery_id_idx'' @ nl @
      ''            ON '' @ atts @ '' (delivery_id)'' @ nl @ ''    ''"

definition ddl_sent_idx :: "string \<Rightarrow> string" where
  "ddl_sent_idx deliveries =
      ''CREATE INDEX IF NOT EXISTS '' @ deliveries @ ''_sent_created_idx ON '' @ deliveries @
      '' (created_at, delivery_id) WHERE status = '' @ sq @ ''sent'' @ sq"

definition ddl_failure_notification :: "string \<Rightarrow> string" where
  "ddl_failure_notification deliveries =
      ''ALTER TABLE '' @ deliveries @ '' ADD COLUMN IF NOT EXISTS failure_notified_at TIMESTAMPTZ''"

definition ddl_unnotified_idx :: "string \<Rightarrow> string" where
  "ddl_unnotified_idx deliveries =
      ''CREATE INDEX IF NOT EXISTS '' @ deliveries @ ''_unnotified_dead_idx ON '' @ deliveries @
      '' (created_at, delivery_id) WHERE status = '' @ sq @ ''dead_lettered'' @ sq @
      '' AND failure_notified_at IS NULL''"

definition delivery_schema_sql :: "string \<Rightarrow> string \<Rightarrow> exc + string list" where
  "delivery_schema_sql deliveries atts =
     (case validate_table_name deliveries of
        Inl e \<Rightarrow> Inl e
      | Inr _ \<Rightarrow>
          (case validate_table_name atts of
             Inl e \<Rightarrow> Inl e
           | Inr _ \<Rightarrow>
               Inr [ddl_deliveries deliveries, ddl_deliveries_profile deliveries,
                    ddl_deliveries_idx_status deliveries, ddl_deliveries_idx_sub deliveries,
                    ddl_attempts atts, ddl_attempts_idx atts, ddl_sent_idx deliveries,
                    ddl_failure_notification deliveries, ddl_unnotified_idx deliveries]))"

text \<open>
  A transaction: what was written stays only when the block ends without a raise. \<open>engine.begin()\<close>
  and the sessions of the store work this way.
\<close>

definition transaction :: "(exc, 's, 'a) comp \<Rightarrow> (exc, 's, 'a) comp" where
  "transaction m = (\<lambda>s. case m s of (Inl e, _) \<Rightarrow> (Inl e, s) | (Inr a, s') \<Rightarrow> (Inr a, s'))"

fun run_all :: "(string \<Rightarrow> (exc, 's, unit) comp) \<Rightarrow> string list \<Rightarrow> (exc, 's, unit) comp" where
  "run_all run [] = ret ()"
| "run_all run (q # qs) = bindE (run q) (\<lambda>_. run_all run qs)"

definition ensure_delivery_schema ::
  "(string \<Rightarrow> (exc, 's, unit) comp) \<Rightarrow> string \<Rightarrow> string \<Rightarrow> (exc, 's, unit) comp" where
  "ensure_delivery_schema run deliveries_table attempts_table =
     transaction (case delivery_schema_sql deliveries_table attempts_table of
        Inl e \<Rightarrow> raise e
      | Inr statements \<Rightarrow> run_all run statements)"

lemmas ddl_simps = ddl_deliveries_def ddl_deliveries_profile_def ddl_deliveries_idx_status_def
  ddl_deliveries_idx_sub_def ddl_attempts_def ddl_attempts_idx_def ddl_sent_idx_def
  ddl_failure_notification_def ddl_unnotified_idx_def

section \<open>Properties\<close>

lemma transaction_Inl: "transaction m s = (Inl e, s') \<Longrightarrow> s' = s"
  by (auto simp: transaction_def split: prod.splits sum.splits)

lemma transaction_Inr: "m s = (Inr a, s') \<Longrightarrow> transaction m s = (Inr a, s')"
  by (simp add: transaction_def)

lemma name_char_cases: "name_start c \<Longrightarrow> name_char c"
  by (auto simp: name_start_def name_char_def)

lemma name_char_plain:
  "name_char c \<Longrightarrow> c \<notin> {CHR '';'', CHR 0x22, CHR 0x27, CHR ''-'', CHR ''/'', CHR 0x5C, CHR '' '', CHR ''('', CHR 0x0A}"
  by (auto simp: name_char_def is_alpha_ascii_def is_decimal_def)

lemma identifier_chars: "plain_identifier s \<Longrightarrow> list_all name_char s \<and> s \<noteq> [] \<and> length s \<le> 63"
  by (auto simp: plain_identifier_def name_char_cases split: list.splits)

lemma safe_chars:
  assumes "SAFE_IDENTIFIER_RE s" and "c \<in> set s"
  shows "name_char c \<or> c = CHR 0x0A"
proof (cases "plain_identifier s")
  case True
  then show ?thesis using identifier_chars assms(2) by (auto simp: list_all_iff)
next
  case False
  then have s: "s \<noteq> []" "last s = CHR 0x0A" "plain_identifier (butlast s)"
    using assms(1) by (auto simp: SAFE_IDENTIFIER_RE_def)
  then have "c \<in> set (butlast s) \<or> c = CHR 0x0A"
    using assms(2) append_butlast_last_id [OF s(1)] by (metis rotate1.simps(2) set_ConsD set_rotate1)
  then show ?thesis using identifier_chars [OF s(3)] by (auto simp: list_all_iff)
qed

text \<open>
  A table name cannot change a statement. Either both names are refused before any statement
  is built, or each is a letter or underscore followed by at most 62 letters, digits and
  underscores, with at most a newline after it, and then no statement contains a semicolon, a
  double quote, a hyphen, a slash or a backslash: nothing ends a statement, quotes a name or
  starts a comment.
\<close>

theorem schema_statements_safe:
  assumes "delivery_schema_sql deliveries atts = Inr statements"
  shows "length statements = 9 \<and>
    (\<forall>name \<in> {deliveries, atts}. \<exists>body. plain_identifier body \<and> (name = body \<or> name = body @ nl)) \<and>
    (\<forall>q \<in> set statements. \<forall>c \<in> {CHR '';'', CHR 0x22, CHR ''-'', CHR ''/'', CHR 0x5C}. c \<notin> set q)"
proof -
  have ok: "SAFE_IDENTIFIER_RE deliveries" "SAFE_IDENTIFIER_RE atts"
    using assms by (auto simp: delivery_schema_sql_def validate_table_name_def split: if_splits)
  have body: "\<exists>body. plain_identifier body \<and> (name = body \<or> name = body @ nl)" if "SAFE_IDENTIFIER_RE name" for name
  proof (cases "plain_identifier name")
    case False
    then have "name = butlast name @ nl" "plain_identifier (butlast name)"
      using that append_butlast_last_id [of name] by (auto simp: SAFE_IDENTIFIER_RE_def)
    then show ?thesis by metis
  qed auto
  have plain: "c \<notin> set name" if "SAFE_IDENTIFIER_RE name" "c \<in> {CHR '';'', CHR 0x22, CHR ''-'', CHR ''/'', CHR 0x5C}"
    for name c
    using safe_chars [OF that(1), of c] name_char_plain [of c] that(2) by auto
  have names: "CHR '';'' \<notin> set n" "CHR 0x22 \<notin> set n" "CHR ''-'' \<notin> set n" "CHR ''/'' \<notin> set n" "CHR 0x5C \<notin> set n"
    if "n \<in> {deliveries, atts}" for n
    using plain that ok by auto
  note d = names [of deliveries, simplified] and a = names [of atts, simplified]
  have st: "statements = [ddl_deliveries deliveries, ddl_deliveries_profile deliveries,
      ddl_deliveries_idx_status deliveries, ddl_deliveries_idx_sub deliveries,
      ddl_attempts atts, ddl_attempts_idx atts, ddl_sent_idx deliveries,
      ddl_failure_notification deliveries, ddl_unnotified_idx deliveries]"
    using assms ok by (simp add: delivery_schema_sql_def validate_table_name_def)
  have "list_all (\<lambda>q. CHR '';'' \<notin> set q \<and> CHR 0x22 \<notin> set q \<and> CHR ''-'' \<notin> set q \<and>
      CHR ''/'' \<notin> set q \<and> CHR 0x5C \<notin> set q) statements"
    unfolding st list.pred_inject by (intro conjI TrueI) (use d a in \<open>simp_all add: ddl_simps\<close>)
  then show ?thesis using body ok by (auto simp: st list_all_iff)
qed

theorem schema_statements_safe_witness:
  "case delivery_schema_sql ''wh_deliveries'' ''wh_attempts'' of Inl _ \<Rightarrow> False | Inr statements \<Rightarrow>
     (\<forall>q \<in> set statements. CHR '';'' \<notin> set q)"
proof -
  obtain statements where st: "delivery_schema_sql ''wh_deliveries'' ''wh_attempts'' = Inr statements"
    by (simp add: delivery_schema_sql_def validate_table_name_def SAFE_IDENTIFIER_RE_def plain_identifier_def
        name_start_def name_char_def is_alpha_ascii_def is_decimal_def)
  from schema_statements_safe [OF this] show ?thesis by (simp add: st)
qed

end
