(* ===== verification/PgStore.thy ===== *)
theory PgStore
  imports Tables PgSchema Envelope
begin

text \<open>
  The relational store (\<open>stores/pg.py\<close> over \<open>service/pg_repos.py\<close>). The two tables are lists
  of rows and a statement is what its SQL text says of them: the columns, the \<open>WHERE\<close>, the
  \<open>SET\<close> and the \<open>ORDER BY\<close> are those of the text, a comparison with \<open>NULL\<close> is not true, rows
  equal in the order of a query come in table order. Each operation of the store is one
  transaction. \<open>FOR UPDATE SKIP LOCKED\<close> has the rows locked by open transactions as an argument.
\<close>

record PgRow =
  c_delivery_id :: string
  c_subscription_id :: string
  c_owner_id :: string
  c_event_name :: string
  c_event_id :: string
  c_schema_version :: string
  c_tenant_id :: "string option"
  c_data_json :: "bytes option"
  c_emitted_at :: time
  c_target_url :: string
  c_resolved_ip :: string
  c_redelivery_of :: "string option"
  c_attempts :: int
  c_fire_at :: time
  c_created_at :: time
  c_status :: string
  c_lease_expiry :: "time option"
  c_profile :: string
  c_secret_version :: "string option"
  c_failure_notified_at :: "time option"

record PgAttempt =
  a_delivery_id :: string
  a_attempt :: int
  a_attempted_at :: time
  a_http_code :: "int option"
  a_duration_ms :: int
  a_error :: "string option"
  a_response_snippet :: string

record PgDb =
  pg_deliveries :: "PgRow list"
  pg_attempts :: "PgAttempt list"

definition pg_empty :: PgDb where
  "pg_empty = \<lparr>pg_deliveries = [], pg_attempts = []\<rparr>"

text \<open>\<open>_row_to_delivery\<close>; the instants of the model are in UTC already.\<close>

definition delivery_of :: "DeliveryStatus \<Rightarrow> PgRow \<Rightarrow> DeliveryRecord" where
  "delivery_of st r =
     \<lparr>delivery_id = c_delivery_id r, subscription_id = c_subscription_id r, owner_id = c_owner_id r,
      event_name = c_event_name r, event_id = c_event_id r, schema_version = c_schema_version r,
      tenant_id = c_tenant_id r,
      data_json = (case c_data_json r of Some b \<Rightarrow> b | None \<Rightarrow> []),
      emitted_at = c_emitted_at r, target_url = c_target_url r, resolved_ip = c_resolved_ip r,
      redelivery_of = c_redelivery_of r, attempts = c_attempts r, fire_at = c_fire_at r,
      created_at = c_created_at r, status = st, profile = c_profile r,
      secret_version = c_secret_version r\<rparr>"

definition row_to_delivery :: "PgRow \<Rightarrow> exc + DeliveryRecord" where
  "row_to_delivery r =
     (case status_of_value (c_status r) of
        None \<Rightarrow> Inl (ValueError (quoted (c_status r) @ '' is not a valid DeliveryStatus''))
      | Some st \<Rightarrow> Inr (delivery_of st r))"

text \<open>The parameters of the \<open>INSERT\<close>, with no lease and nobody notified.\<close>

definition row_of :: "DeliveryRecord \<Rightarrow> PgRow" where
  "row_of r =
     \<lparr>c_delivery_id = delivery_id r, c_subscription_id = subscription_id r, c_owner_id = owner_id r,
      c_event_name = event_name r, c_event_id = event_id r, c_schema_version = schema_version r,
      c_tenant_id = tenant_id r, c_data_json = Some (data_json r), c_emitted_at = emitted_at r,
      c_target_url = target_url r, c_resolved_ip = resolved_ip r, c_redelivery_of = redelivery_of r,
      c_attempts = attempts r, c_fire_at = fire_at r, c_created_at = created_at r,
      c_status = status_value PENDING, c_lease_expiry = None, c_profile = profile r,
      c_secret_version = secret_version r, c_failure_notified_at = None\<rparr>"

section \<open>The delivery repository\<close>

definition on_deliveries :: "(PgRow list \<Rightarrow> PgRow list) \<Rightarrow> (exc, PgDb, unit) comp" where
  "on_deliveries f = (\<lambda>db. (Inr (), db\<lparr>pg_deliveries := f (pg_deliveries db)\<rparr>))"

definition update_delivery :: "string \<Rightarrow> (PgRow \<Rightarrow> PgRow) \<Rightarrow> (exc, PgDb, unit) comp" where
  "update_delivery did f = on_deliveries (update_where (\<lambda>r. c_delivery_id r = did) f)"

text \<open>\<open>ORDER BY created_at, delivery_id\<close>\<close>

fun insert_by_id :: "PgRow \<Rightarrow> PgRow list \<Rightarrow> PgRow list" where
  "insert_by_id r [] = [r]"
| "insert_by_id r (x # xs) =
     (if str_le (c_delivery_id r) (c_delivery_id x) then r # x # xs else x # insert_by_id r xs)"

definition by_created_and_id :: "PgRow list \<Rightarrow> PgRow list" where
  "by_created_and_id t = sort_key c_created_at (foldr insert_by_id t [])"

definition dead_unnotified :: "string set \<Rightarrow> int \<Rightarrow> (exc, PgDb, DeliveryRecord list) comp" where
  "dead_unnotified locked limit = (\<lambda>db.
     (case limit_rows limit (by_created_and_id (filter (\<lambda>r. c_delivery_id r \<notin> locked \<and>
             c_status r = ''dead_lettered'' \<and> c_failure_notified_at r = None) (pg_deliveries db))) of
        Inl e \<Rightarrow> Inl e
      | Inr rows \<Rightarrow> map_exc row_to_delivery rows, db))"

definition ack_failure_notification :: "string \<Rightarrow> time \<Rightarrow> (exc, PgDb, unit) comp" where
  "ack_failure_notification did now =
     on_deliveries (update_where (\<lambda>r. c_delivery_id r = did \<and> c_status r = ''dead_lettered'')
       (\<lambda>r. r\<lparr>c_failure_notified_at := Some now\<rparr>))"

definition repo_enqueue_many :: "DeliveryRecord list \<Rightarrow> (exc, PgDb, int) comp" where
  "repo_enqueue_many records = (\<lambda>db.
     if records = [] then (Inr 0, db)
     else (let t = fold (insert_new c_delivery_id) (map row_of records) (pg_deliveries db)
           in (Inr (int (length t) - int (length (pg_deliveries db))), db\<lparr>pg_deliveries := t\<rparr>)))"

definition pg_claimable :: "string set \<Rightarrow> time \<Rightarrow> PgRow \<Rightarrow> bool" where
  "pg_claimable locked now r \<longleftrightarrow> c_delivery_id r \<notin> locked \<and>
     (c_status r = ''pending'' \<or> c_status r = ''failed_retry'') \<and> c_fire_at r \<le> now"

definition claim_select :: "string set \<Rightarrow> time \<Rightarrow> int \<Rightarrow> PgRow list \<Rightarrow> exc + string list" where
  "claim_select locked now n t =
     (case limit_rows n (sort_key c_fire_at (filter (pg_claimable locked now) t)) of
        Inl e \<Rightarrow> Inl e | Inr rows \<Rightarrow> Inr (map c_delivery_id rows))"

definition claim_update :: "time \<Rightarrow> string list \<Rightarrow> PgRow list \<Rightarrow> PgRow list" where
  "claim_update expiry ids t =
     update_where (\<lambda>r. c_delivery_id r \<in> set ids)
       (\<lambda>r. r\<lparr>c_status := ''in_flight'', c_lease_expiry := Some expiry\<rparr>) t"

definition repo_claim_batch :: "string set \<Rightarrow> time \<Rightarrow> int \<Rightarrow> int \<Rightarrow> (exc, PgDb, DeliveryRecord list) comp" where
  "repo_claim_batch locked now ttl_s n = (\<lambda>db.
     (case claim_select locked now n (pg_deliveries db) of
        Inl e \<Rightarrow> (Inl e, db)
      | Inr ids \<Rightarrow>
          if ids = [] then (Inr [], db)
          else (let t = claim_update (now + seconds ttl_s) ids (pg_deliveries db) in
                (map_exc row_to_delivery (filter (\<lambda>r. c_delivery_id r \<in> set ids) t),
                 db\<lparr>pg_deliveries := t\<rparr>))))"

definition pg_stale :: "time \<Rightarrow> PgRow \<Rightarrow> bool" where
  "pg_stale now r \<longleftrightarrow> c_status r = ''in_flight'' \<and>
     (case c_lease_expiry r of None \<Rightarrow> False | Some e \<Rightarrow> e < now)"

definition repo_reclaim_stale :: "time \<Rightarrow> (exc, PgDb, int) comp" where
  "repo_reclaim_stale now = (\<lambda>db.
     (Inr (int (length (filter (pg_stale now) (pg_deliveries db)))),
      db\<lparr>pg_deliveries := update_where (pg_stale now)
        (\<lambda>r. r\<lparr>c_status := ''pending'', c_lease_expiry := None\<rparr>) (pg_deliveries db)\<rparr>))"

definition purgeable :: "time \<Rightarrow> PgAttempt list \<Rightarrow> PgRow \<Rightarrow> bool" where
  "purgeable older_than ats d \<longleftrightarrow> c_status d = ''sent'' \<and> c_created_at d < older_than \<and>
     list_ex (\<lambda>a. a_delivery_id a = c_delivery_id d \<and> a_attempted_at a < older_than) ats \<and>
     \<not> list_ex (\<lambda>a. a_delivery_id a = c_delivery_id d \<and> older_than \<le> a_attempted_at a) ats"

definition purge_sent :: "string set \<Rightarrow> time \<Rightarrow> int \<Rightarrow> string \<Rightarrow> (exc, PgDb, int) comp" where
  "purge_sent locked older_than limit attempts_table = (\<lambda>db.
     if limit \<le> 0 then (Inl (ValueError ''Purge limit must be positive''), db)
     else
       (case validate_table_name attempts_table of
          Inl e \<Rightarrow> (Inl e, db)
        | Inr _ \<Rightarrow>
            (let ids = map c_delivery_id (take (nat limit) (by_created_and_id
                   (filter (\<lambda>d. c_delivery_id d \<notin> locked \<and> purgeable older_than (pg_attempts db) d)
                      (pg_deliveries db))))
             in if ids = [] then (Inr 0, db)
                else (Inr (int (length ids)),
                      db\<lparr>pg_attempts := filter (\<lambda>a. a_delivery_id a \<notin> set ids) (pg_attempts db),
                         pg_deliveries := filter (\<lambda>d. c_delivery_id d \<notin> set ids) (pg_deliveries db)\<rparr>))))"

definition repo_mark_sent :: "string \<Rightarrow> AttemptRecord \<Rightarrow> (exc, PgDb, unit) comp" where
  "repo_mark_sent did attempt = update_delivery did
     (\<lambda>r. r\<lparr>c_status := ''sent'', c_attempts := att_attempt attempt, c_lease_expiry := None\<rparr>)"

definition repo_schedule_retry :: "string \<Rightarrow> time \<Rightarrow> AttemptRecord \<Rightarrow> (exc, PgDb, unit) comp" where
  "repo_schedule_retry did fire attempt = update_delivery did
     (\<lambda>r. r\<lparr>c_status := ''failed_retry'', c_fire_at := fire, c_attempts := att_attempt attempt,
            c_lease_expiry := None\<rparr>)"

definition repo_mark_dead :: "string \<Rightarrow> AttemptRecord \<Rightarrow> (exc, PgDb, unit) comp" where
  "repo_mark_dead did attempt = update_delivery did
     (\<lambda>r. r\<lparr>c_status := ''dead_lettered'', c_attempts := att_attempt attempt, c_lease_expiry := None\<rparr>)"

definition bump_attempt :: "string \<Rightarrow> AttemptRecord \<Rightarrow> (exc, PgDb, unit) comp" where
  "bump_attempt did attempt = update_delivery did (\<lambda>r. r\<lparr>c_attempts := att_attempt attempt\<rparr>)"

definition get_record :: "string \<Rightarrow> (exc, PgDb, DeliveryRecord option) comp" where
  "get_record did = (\<lambda>db.
     (case lookup c_delivery_id (pg_deliveries db) did of
        None \<Rightarrow> Inr None
      | Some row \<Rightarrow> (case row_to_delivery row of Inl e \<Rightarrow> Inl e | Inr r \<Rightarrow> Inr (Some r)), db))"

definition repo_recent_for_subscription :: "string \<Rightarrow> int \<Rightarrow> (exc, PgDb, DeliveryRecord list) comp" where
  "repo_recent_for_subscription sid limit = (\<lambda>db.
     (case limit_rows limit (sort_key (\<lambda>r. - c_created_at r)
             (filter (\<lambda>r. c_subscription_id r = sid) (pg_deliveries db))) of
        Inl e \<Rightarrow> Inl e
      | Inr rows \<Rightarrow> map_exc row_to_delivery rows, db))"

text \<open>The attempts table has a key of its own, so no insert ever conflicts.\<close>

definition attempt_append :: "string \<Rightarrow> AttemptRecord \<Rightarrow> (exc, PgDb, unit) comp" where
  "attempt_append did attempt = (\<lambda>db. (Inr (), db\<lparr>pg_attempts := pg_attempts db @
     [\<lparr>a_delivery_id = did, a_attempt = att_attempt attempt, a_attempted_at = att_attempted_at attempt,
       a_http_code = att_http_code attempt, a_duration_ms = att_duration_ms attempt,
       a_error = att_error attempt, a_response_snippet = att_response_snippet attempt\<rparr>]\<rparr>))"

section \<open>The store\<close>

definition pg_enqueue_many :: "DeliveryRecord list \<Rightarrow> (exc, PgDb, unit) comp" where
  "pg_enqueue_many records =
     (if records = [] then ret () else transaction (bindE (repo_enqueue_many records) (\<lambda>_. ret ())))"

definition pg_claim_batch :: "time \<Rightarrow> int \<Rightarrow> int \<Rightarrow> (exc, PgDb, DeliveryRecord list) comp" where
  "pg_claim_batch now ttl_s n = transaction (repo_claim_batch {} now ttl_s n)"

definition pg_reclaim_stale :: "time \<Rightarrow> (exc, PgDb, int) comp" where
  "pg_reclaim_stale now = transaction (repo_reclaim_stale now)"

definition pg_mark_sent :: "string \<Rightarrow> AttemptRecord \<Rightarrow> (exc, PgDb, unit) comp" where
  "pg_mark_sent did attempt =
     transaction (bindE (attempt_append did attempt) (\<lambda>_. repo_mark_sent did attempt))"

definition pg_schedule_retry :: "string \<Rightarrow> time \<Rightarrow> AttemptRecord \<Rightarrow> (exc, PgDb, unit) comp" where
  "pg_schedule_retry did fire attempt =
     transaction (bindE (attempt_append did attempt) (\<lambda>_. repo_schedule_retry did fire attempt))"

definition pg_mark_dead :: "string \<Rightarrow> AttemptRecord \<Rightarrow> (exc, PgDb, unit) comp" where
  "pg_mark_dead did attempt =
     transaction (bindE (attempt_append did attempt) (\<lambda>_. repo_mark_dead did attempt))"

definition pg_append_attempt :: "string \<Rightarrow> AttemptRecord \<Rightarrow> (exc, PgDb, unit) comp" where
  "pg_append_attempt did attempt =
     transaction (bindE (attempt_append did attempt) (\<lambda>_. bump_attempt did attempt))"

definition pg_get :: "string \<Rightarrow> (exc, PgDb, DeliveryRecord option) comp" where
  "pg_get did = get_record did"

definition pg_recent_for_subscription :: "string \<Rightarrow> int \<Rightarrow> (exc, PgDb, DeliveryRecord list) comp" where
  "pg_recent_for_subscription sid limit = repo_recent_for_subscription sid limit"

definition pg_store :: "PgDb delivery_store" where
  "pg_store = \<lparr>enqueue_many = pg_enqueue_many, claim_batch = pg_claim_batch,
     reclaim_stale = pg_reclaim_stale, mark_sent = pg_mark_sent, schedule_retry = pg_schedule_retry,
     mark_dead = pg_mark_dead, append_attempt = pg_append_attempt, store_get = pg_get,
     recent_for_subscription = pg_recent_for_subscription\<rparr>"

definition make_pg_delivery_store :: "string \<Rightarrow> string \<Rightarrow> exc + PgDb delivery_store" where
  "make_pg_delivery_store deliveries_table attempts_table =
     (case validate_table_name deliveries_table of
        Inl e \<Rightarrow> Inl e
      | Inr _ \<Rightarrow> (case validate_table_name attempts_table of Inl e \<Rightarrow> Inl e | Inr _ \<Rightarrow> Inr pg_store))"

section \<open>The view of the tables\<close>

text \<open>The row a delivery shows; on a table whose statuses are all known this is total.\<close>

definition pg_row :: "PgRow \<Rightarrow> row" where
  "pg_row r = Row (delivery_of (the (status_of_value (c_status r))) r) (c_lease_expiry r)"

definition pg_view :: "PgDb \<Rightarrow> view" where
  "pg_view db = table_view c_delivery_id pg_row (pg_deliveries db)"

definition pg_inv :: "PgDb \<Rightarrow> bool" where
  "pg_inv db \<longleftrightarrow> table_ok c_delivery_id pg_row (pg_deliveries db) \<and>
     (\<forall>r \<in> set (pg_deliveries db). status_of_value (c_status r) \<noteq> None)"

lemma status_texts [simp]:
  "status_of_value ''pending'' = Some PENDING" "status_of_value ''in_flight'' = Some IN_FLIGHT"
  "status_of_value ''sent'' = Some SENT" "status_of_value ''failed_retry'' = Some FAILED_RETRY"
  "status_of_value ''dead_lettered'' = Some DEAD_LETTERED"
  by (simp_all add: status_of_value_def)

lemma status_text_iff:
  "status_of_value v \<noteq> None \<Longrightarrow> v = status_value st \<longleftrightarrow> the (status_of_value v) = st"
  using status_of_value_Some by fastforce

lemma pg_row_simps [simp]:
  "delivery_id (row_rec (pg_row r)) = c_delivery_id r" "fire_at (row_rec (pg_row r)) = c_fire_at r"
  "row_lease (pg_row r) = c_lease_expiry r"
  "status (row_rec (pg_row r)) = the (status_of_value (c_status r))"
  "attempts (row_rec (pg_row r)) = c_attempts r"
  by (simp_all add: pg_row_def delivery_of_def)

lemma pg_row_moves:
  "pg_row (r\<lparr>c_status := ''in_flight'', c_lease_expiry := Some e\<rparr>) = leased e (pg_row r)"
  "pg_row (r\<lparr>c_status := ''pending'', c_lease_expiry := None\<rparr>) = released (pg_row r)"
  "pg_row (r\<lparr>c_status := ''sent'', c_attempts := k, c_lease_expiry := None\<rparr>) = settled SENT k (pg_row r)"
  "pg_row (r\<lparr>c_status := ''dead_lettered'', c_attempts := k, c_lease_expiry := None\<rparr>) = settled DEAD_LETTERED k (pg_row r)"
  "pg_row (r\<lparr>c_status := ''failed_retry'', c_fire_at := t, c_attempts := k, c_lease_expiry := None\<rparr>) = retried t k (pg_row r)"
  "pg_row (r\<lparr>c_attempts := k\<rparr>) = with_attempts k (pg_row r)"
  by (simp_all add: pg_row_def delivery_of_def leased_def released_def settled_def retried_def with_attempts_def)

lemma pg_row_of [simp]: "pg_row (row_of r) = Row (r\<lparr>status := PENDING\<rparr>) None"
  by (simp add: pg_row_def delivery_of_def row_of_def)

lemma pg_ready:
  "status_of_value (c_status r) \<noteq> None \<Longrightarrow>
   pg_claimable locked now r \<longleftrightarrow> c_delivery_id r \<notin> locked \<and> ready now (pg_row r)"
  using status_text_iff [of "c_status r" PENDING] status_text_iff [of "c_status r" FAILED_RETRY]
  by (auto simp: pg_claimable_def ready_def claimable_def)

lemma pg_stale_iff:
  "status_of_value (c_status r) \<noteq> None \<Longrightarrow> pg_stale now r \<longleftrightarrow> stale now (pg_row r)"
  using status_text_iff [of "c_status r" IN_FLIGHT] by (auto simp: pg_stale_def stale_def)

lemma row_to_delivery_ok:
  "status_of_value (c_status r) \<noteq> None \<Longrightarrow> row_to_delivery r = Inr (row_rec (pg_row r))"
  by (auto simp: row_to_delivery_def pg_row_def)

lemma pg_decode:
  assumes "pg_inv db" and "set rows \<subseteq> set (pg_deliveries db)"
  shows "map_exc row_to_delivery rows = Inr (map (row_rec \<circ> pg_row) rows)"
proof (rule map_exc_Inr)
  fix r assume "r \<in> set rows"
  then have "status_of_value (c_status r) \<noteq> None" using assms by (auto simp: pg_inv_def)
  then show "row_to_delivery r = Inr ((row_rec \<circ> pg_row) r)" by (simp add: row_to_delivery_ok)
qed

lemma pg_inv_update:
  assumes "pg_inv db" and "\<And>r. c_delivery_id (f r) = c_delivery_id r"
    and "\<And>r. r \<in> set (pg_deliveries db) \<Longrightarrow> P r \<Longrightarrow> status_of_value (c_status (f r)) \<noteq> None \<and>
      (c_lease_expiry (f r) \<noteq> None \<longleftrightarrow> the (status_of_value (c_status (f r))) = IN_FLIGHT)"
  shows "pg_inv (db\<lparr>pg_deliveries := update_where P f (pg_deliveries db)\<rparr>)"
  using assms table_ok_update [of c_delivery_id pg_row "pg_deliveries db" f P]
  by (auto simp: pg_inv_def set_update_where)

lemma pg_inv_attempts [simp]: "pg_inv (db\<lparr>pg_attempts := as\<rparr>) = pg_inv db"
  by (simp add: pg_inv_def)

lemma pg_view_attempts [simp]: "pg_view (db\<lparr>pg_attempts := as\<rparr>) = pg_view db"
  by (simp add: pg_view_def)

text \<open>An update of one delivery within its transaction, after the attempt was logged.\<close>

lemma pg_mark:
  assumes "pg_inv db" and "pg_view db did = Some row" and "\<And>r. c_delivery_id (f r) = c_delivery_id r"
    and "\<And>r. pg_row (f r) = g (pg_row r)"
    and "\<And>r. status_of_value (c_status r) \<noteq> None \<Longrightarrow> status_of_value (c_status (f r)) \<noteq> None"
    and "\<And>r. (row_lease r \<noteq> None \<longleftrightarrow> status (row_rec r) = IN_FLIGHT) \<Longrightarrow>
      (row_lease (g r) \<noteq> None \<longleftrightarrow> status (row_rec (g r)) = IN_FLIGHT)"
  shows "\<exists>db'. transaction (bindE (attempt_append did a) (\<lambda>_. update_delivery did f)) db = (Inr (), db') \<and>
    pg_inv db' \<and> pg_view db' = (pg_view db)(did \<mapsto> g row)"
proof -
  let ?P = "\<lambda>r. c_delivery_id r = did" and ?t = "pg_deliveries db"
  have lease: "c_lease_expiry (f r) \<noteq> None \<longleftrightarrow> the (status_of_value (c_status (f r))) = IN_FLIGHT"
    if "r \<in> set ?t" for r
    using assms(1,4) assms(6) [of "pg_row r"] that
    by (metis pg_inv_def table_ok_def pg_row_simps(3,4))
  have "pg_inv (db\<lparr>pg_deliveries := update_where ?P f ?t\<rparr>)"
    using assms(1,3,5) lease by (intro pg_inv_update) (auto simp: pg_inv_def)
  moreover have "table_view c_delivery_id pg_row (update_where ?P f ?t) = (pg_view db)(did \<mapsto> g row)"
    unfolding pg_view_def
    by (rule table_view_update_key [where key = c_delivery_id and f = f and proj = pg_row and g = g])
      (use assms(2) in \<open>simp_all add: assms(3,4) pg_view_def\<close>)
  ultimately show ?thesis
    by (simp add: transaction_def bindE_def attempt_append_def update_delivery_def on_deliveries_def
        pg_view_def pg_inv_def)
qed

lemma pg_enqueue:
  assumes inv: "pg_inv db" and pending: "list_all (\<lambda>r. status r = PENDING) rs"
  shows "\<exists>db'. pg_enqueue_many rs db = (Inr (), db') \<and> pg_inv db' \<and> pg_view db' = enqueued rs (pg_view db)"
proof (cases "rs = []")
  case True
  then show ?thesis using inv by (auto simp: pg_enqueue_many_def enqueued_def fun_eq_iff split: option.split)
next
  case False
  let ?t = "fold (insert_new c_delivery_id) (map row_of rs) (pg_deliveries db)"
  have find: "map_option pg_row (lookup c_delivery_id (map row_of rs) did)
      = map_option (\<lambda>r. Row r None) (find (\<lambda>r. delivery_id r = did) rs)" for did
    using pending by (induction rs) (auto simp: lookup_def, simp_all add: row_of_def)
  have "table_view c_delivery_id pg_row ?t = enqueued rs (pg_view db)"
    using find by (auto simp: table_view_def pg_view_def enqueued_def lookup_fold_insert fun_eq_iff split: option.splits)
  moreover have "pg_inv (db\<lparr>pg_deliveries := ?t\<rparr>)"
  proof -
    have "distinct (map c_delivery_id ?t)"
      using inv by (intro keys_fold_insert) (simp add: pg_inv_def table_ok_def)
    moreover have "delivery_id (row_rec (pg_row r)) = c_delivery_id r \<and> status_of_value (c_status r) \<noteq> None \<and>
        (row_lease (pg_row r) \<noteq> None \<longleftrightarrow> status (row_rec (pg_row r)) = IN_FLIGHT)" if "r \<in> set ?t" for r
    proof (cases "r \<in> set (pg_deliveries db)")
      case True
      then show ?thesis using inv by (auto simp: pg_inv_def table_ok_def)
    next
      case False
      then have "r \<in> row_of ` set rs" using that set_fold_insert [of c_delivery_id "map row_of rs" "pg_deliveries db"] by auto
      then show ?thesis by (auto simp: row_of_def)
    qed
    ultimately show ?thesis by (simp add: pg_inv_def table_ok_def)
  qed
  ultimately show ?thesis
    using False by (simp add: pg_enqueue_many_def repo_enqueue_many_def transaction_def bindE_def Let_def pg_view_def)
qed

lemma pg_reclaim:
  assumes inv: "pg_inv db"
  shows "\<exists>db'. pg_reclaim_stale now db = (Inr (int (card (stale_ids now (pg_view db)))), db') \<and> pg_inv db' \<and>
    pg_view db' = reclaimed now (pg_view db)"
proof -
  let ?t = "pg_deliveries db" and ?f = "\<lambda>r. r\<lparr>c_status := ''pending'', c_lease_expiry := None\<rparr>"
  have stale: "pg_stale now r \<longleftrightarrow> stale now (pg_row r)" if "r \<in> set ?t" for r
    using inv that by (intro pg_stale_iff) (auto simp: pg_inv_def)
  have "stale_ids now (pg_view db) = c_delivery_id ` set (filter (pg_stale now) ?t)"
    using inv stale table_view_in [of c_delivery_id pg_row ?t]
    by (fastforce simp: stale_ids_def pg_view_def pg_inv_def dest: table_view_SomeD)
  moreover have "distinct (map c_delivery_id (filter (pg_stale now) ?t))"
    using inv by (intro distinct_map_filter) (simp add: pg_inv_def table_ok_def)
  then have "card (c_delivery_id ` set (filter (pg_stale now) ?t)) = length (filter (pg_stale now) ?t)"
    by (metis distinct_card length_map set_map)
  moreover have "table_view c_delivery_id pg_row (update_where (pg_stale now) ?f ?t)
      = (\<lambda>k. map_option (\<lambda>row. if stale now row then released row else row) (pg_view db k))"
    unfolding pg_view_def
    by (rule table_view_update [where key = c_delivery_id and f = ?f and proj = pg_row and g = released
          and Q = "\<lambda>_. stale now" and P = "pg_stale now"]) (simp_all add: stale pg_row_moves)
  moreover have "pg_inv (db\<lparr>pg_deliveries := update_where (pg_stale now) ?f ?t\<rparr>)"
    by (rule pg_inv_update [OF inv]) simp_all
  ultimately show ?thesis
    by (simp add: pg_reclaim_stale_def repo_reclaim_stale_def transaction_def pg_view_def reclaimed_def)
qed

section \<open>Claims\<close>

lemma claim_select_eq:
  assumes "pg_inv db" and "0 \<le> n"
  shows "claim_select {} now n (pg_deliveries db) = Inr (map c_delivery_id (take (nat n)
    (sort_key (\<lambda>r. fire_at (row_rec (pg_row r))) (filter (\<lambda>r. ready now (pg_row r)) (pg_deliveries db)))))"
proof -
  have "filter (pg_claimable {} now) (pg_deliveries db) = filter (\<lambda>r. ready now (pg_row r)) (pg_deliveries db)"
    using assms(1) by (intro filter_cong refl) (simp add: pg_ready pg_inv_def)
  moreover have "(\<lambda>r. fire_at (row_rec (pg_row r))) = c_fire_at" by (simp add: fun_eq_iff)
  ultimately show ?thesis using assms(2) by (simp add: claim_select_def limit_rows_def)
qed

lemma pg_claim:
  assumes inv: "pg_inv db" and n: "0 \<le> n"
  shows "\<exists>batch db'. pg_claim_batch now ttl n db = (Inr batch, db') \<and> pg_inv db' \<and>
    claim_ok (pg_view db) now (now + seconds ttl) n batch (pg_view db')"
proof -
  let ?t = "pg_deliveries db" and ?e = "now + seconds ttl"
  define chosen where "chosen = take (nat n)
    (sort_key (\<lambda>r. fire_at (row_rec (pg_row r))) (filter (\<lambda>r. ready now (pg_row r)) ?t))"
  let ?ids = "map c_delivery_id chosen"
  let ?P = "\<lambda>r. c_delivery_id r \<in> set ?ids" and ?f = "\<lambda>r. r\<lparr>c_status := ''in_flight'', c_lease_expiry := Some ?e\<rparr>"
  let ?t' = "update_where ?P ?f ?t"
  define rows where "rows = filter ?P ?t'"
  let ?db' = "db\<lparr>pg_deliveries := ?t'\<rparr>"
  have table: "table_ok c_delivery_id pg_row ?t" using inv by (simp add: pg_inv_def)
  have inv': "pg_inv ?db'" by (rule pg_inv_update [OF inv]) simp_all
  have view': "pg_view ?db' k = (if k \<in> set ?ids then map_option (leased ?e) (pg_view db k) else pg_view db k)" for k
  proof -
    have "table_view c_delivery_id pg_row ?t'
        = (\<lambda>k. map_option (\<lambda>row. if k \<in> set ?ids then leased ?e row else row) (pg_view db k))"
      unfolding pg_view_def
      by (rule table_view_update [where key = c_delivery_id and f = ?f and proj = pg_row and g = "leased ?e"
            and Q = "\<lambda>k _. k \<in> set ?ids" and P = ?P]) (simp_all add: pg_row_moves)
    then show ?thesis by (simp add: pg_view_def option.map_ident)
  qed
  have chosen_in: "set chosen \<subseteq> set ?t"
    using set_take_subset [of "nat n" "sort_key (\<lambda>r. fire_at (row_rec (pg_row r))) (filter (\<lambda>r. ready now (pg_row r)) ?t)"]
    by (auto simp: chosen_def)
  have rows: "set rows = ?f ` {r \<in> set ?t. ?P r}" by (auto simp: rows_def set_update_where)
  let ?batch = "map (row_rec \<circ> pg_row) rows"
  have ids: "delivery_id ` set ?batch = c_delivery_id ` set chosen"
  proof -
    have "delivery_id ` set ?batch = c_delivery_id ` set rows" by (simp add: image_image comp_def)
    also have "\<dots> = c_delivery_id ` {r \<in> set ?t. ?P r}" by (simp add: rows image_image)
    also have "\<dots> = c_delivery_id ` set chosen" using chosen_in by auto
    finally show ?thesis .
  qed
  have keys': "map c_delivery_id ?t' = map c_delivery_id ?t" by (rule keys_update) simp
  have "distinct (map c_delivery_id rows)"
    unfolding rows_def using table keys' by (intro distinct_map_filter) (simp add: table_ok_def)
  then have dist: "distinct (map delivery_id ?batch)" by (simp add: comp_def)
  have recs: "\<exists>r \<in> set ?t. c_delivery_id r = delivery_id b \<and>
      b\<lparr>status := IN_FLIGHT\<rparr> = (row_rec (pg_row r))\<lparr>status := IN_FLIGHT\<rparr>" if "b \<in> set ?batch" for b
  proof -
    obtain r where "r \<in> set ?t" "b = row_rec (pg_row (?f r))" using \<open>b \<in> set ?batch\<close> by (auto simp: rows)
    then show ?thesis by (intro bexI [of _ r]) (simp_all add: pg_row_moves leased_def)
  qed
  have ok: "claim_ok (pg_view db) now ?e n ?batch (pg_view ?db')"
    unfolding pg_view_def [of db]
    by (rule table_claim_ok [OF table n chosen_def dist ids recs])
      (use view' in \<open>simp_all add: pg_view_def\<close>)
  have "map_exc row_to_delivery rows = Inr ?batch"
    by (rule pg_decode [OF inv']) (auto simp: rows_def)
  moreover have "claim_select {} now n ?t = Inr ?ids"
    using claim_select_eq [OF inv n] by (simp add: chosen_def)
  ultimately have run: "repo_claim_batch {} now ttl n db = (if ?ids = [] then (Inr [], db) else (Inr ?batch, ?db'))"
    by (simp add: repo_claim_batch_def claim_update_def Let_def rows_def)
  show ?thesis
  proof (cases "?ids = []")
    case True
    then have "?batch = []" "pg_view ?db' = pg_view db" using ids view' by (auto simp: fun_eq_iff)
    then have "claim_ok (pg_view db) now ?e n [] (pg_view db)" using ok by metis
    then show ?thesis using run True inv by (auto simp: pg_claim_batch_def transaction_def)
  next
    case False
    then show ?thesis using run inv' ok by (auto simp: pg_claim_batch_def transaction_def)
  qed
qed

section \<open>The contract\<close>

lemma pg_store_simps [simp]:
  "enqueue_many pg_store = pg_enqueue_many" "claim_batch pg_store = pg_claim_batch"
  "reclaim_stale pg_store = pg_reclaim_stale" "mark_sent pg_store = pg_mark_sent"
  "schedule_retry pg_store = pg_schedule_retry" "mark_dead pg_store = pg_mark_dead"
  "append_attempt pg_store = pg_append_attempt" "store_get pg_store = pg_get"
  "recent_for_subscription pg_store = pg_recent_for_subscription"
  by (simp_all add: pg_store_def)

lemmas pg_marks = pg_mark_sent_def pg_mark_dead_def pg_schedule_retry_def pg_append_attempt_def
  repo_mark_sent_def repo_mark_dead_def repo_schedule_retry_def bump_attempt_def

lemma pg_marks_ok:
  assumes "pg_inv db" and "pg_view db did = Some r"
  shows "\<exists>db'. pg_mark_sent did a db = (Inr (), db') \<and> pg_inv db' \<and>
      pg_view db' = (pg_view db)(did \<mapsto> settled SENT (att_attempt a) r)"
    and "\<exists>db'. pg_mark_dead did a db = (Inr (), db') \<and> pg_inv db' \<and>
      pg_view db' = (pg_view db)(did \<mapsto> settled DEAD_LETTERED (att_attempt a) r)"
    and "\<exists>db'. pg_schedule_retry did t a db = (Inr (), db') \<and> pg_inv db' \<and>
      pg_view db' = (pg_view db)(did \<mapsto> retried t (att_attempt a) r)"
    and "\<exists>db'. pg_append_attempt did a db = (Inr (), db') \<and> pg_inv db' \<and>
      pg_view db' = (pg_view db)(did \<mapsto> with_attempts (att_attempt a) r)"
  unfolding pg_marks
  by (rule pg_mark [OF assms]; simp add: pg_row_moves settled_def retried_def with_attempts_def)+

lemma pg_get_eq: "pg_inv db \<Longrightarrow> pg_get did db = (Inr (map_option row_rec (pg_view db did)), db)"
  using lookup_SomeD [of c_delivery_id "pg_deliveries db" did]
  by (auto simp: pg_get_def get_record_def pg_view_def table_view_def pg_inv_def row_to_delivery_ok split: option.split)

lemma pg_recent:
  assumes inv: "pg_inv db" and n: "0 < n"
  shows "\<exists>rs. pg_recent_for_subscription sid n db = (Inr rs, db) \<and> int (length rs) \<le> n \<and>
    (\<forall>r \<in> set rs. subscription_id r = sid \<and> (\<exists>row. pg_view db (delivery_id r) = Some row \<and> row_rec row = r))"
proof -
  define rows where "rows = take (nat n) (sort_key (\<lambda>r. - c_created_at r)
    (filter (\<lambda>r. c_subscription_id r = sid) (pg_deliveries db)))"
  have rows: "set rows \<subseteq> {r \<in> set (pg_deliveries db). c_subscription_id r = sid}"
    using set_take_subset unfolding rows_def by fastforce
  then have "map_exc row_to_delivery rows = Inr (map (row_rec \<circ> pg_row) rows)"
    by (intro pg_decode [OF inv]) auto
  moreover have "subscription_id r = sid \<and> (\<exists>row. pg_view db (delivery_id r) = Some row \<and> row_rec row = r)"
    if "r \<in> set (map (row_rec \<circ> pg_row) rows)" for r
  proof -
    obtain x where x: "x \<in> set rows" "r = row_rec (pg_row x)"
      using \<open>r \<in> set (map (row_rec \<circ> pg_row) rows)\<close> by auto
    then have "pg_view db (c_delivery_id x) = Some (pg_row x)" "c_subscription_id x = sid"
      using rows inv by (auto simp: pg_view_def pg_inv_def table_view_in)
    then show ?thesis by (auto simp: x(2)) (simp add: pg_row_def delivery_of_def)
  qed
  moreover have "int (length rows) \<le> n" using n by (simp add: rows_def)
  moreover have "limit_rows n (sort_key (\<lambda>r. - c_created_at r)
      (filter (\<lambda>r. c_subscription_id r = sid) (pg_deliveries db))) = Inr rows"
    using n by (simp add: limit_rows_def rows_def)
  ultimately show ?thesis
    by (simp add: pg_recent_for_subscription_def repo_recent_for_subscription_def)
qed

interpretation pg: delivery_store_contract pg_store pg_view pg_inv "\<lambda>t. t" "\<lambda>r. r"
proof unfold_locales
  fix s did r a t rs now ttl n sid
  show "pg_inv s \<Longrightarrow> view_ok (pg_view s)" by (simp add: pg_inv_def pg_view_def table_view_ok)
  show "pg_inv s \<Longrightarrow> list_all (\<lambda>r. status r = PENDING) rs \<Longrightarrow>
      \<exists>s'. enqueue_many pg_store rs s = (Inr (), s') \<and> pg_inv s' \<and> pg_view s' = enqueued (map (\<lambda>r. r) rs) (pg_view s)"
    using pg_enqueue by simp
  show "pg_inv s \<Longrightarrow> 0 \<le> n \<Longrightarrow>
      \<exists>batch s'. claim_batch pg_store now ttl n s = (Inr batch, s') \<and> pg_inv s' \<and>
        claim_ok (pg_view s) now (now + seconds ttl) n batch (pg_view s')"
    using pg_claim by simp
  show "pg_inv s \<Longrightarrow> \<exists>s'. reclaim_stale pg_store now s
        = (Inr (int (card (stale_ids now (pg_view s)))), s') \<and> pg_inv s' \<and>
        pg_view s' = reclaimed now (pg_view s)"
    using pg_reclaim by simp
  show "pg_inv s \<Longrightarrow> pg_view s did = Some r \<Longrightarrow>
      \<exists>k s'. mark_sent pg_store did a s = (Inr (), s') \<and> pg_inv s' \<and>
        pg_view s' = (pg_view s)(did \<mapsto> settled SENT k r) \<and> k \<in> {attempts (row_rec r), att_attempt a}"
    using pg_marks_ok [where db = s and did = did and r = r and a = a] by fastforce
  show "pg_inv s \<Longrightarrow> pg_view s did = Some r \<Longrightarrow>
      \<exists>k s'. mark_dead pg_store did a s = (Inr (), s') \<and> pg_inv s' \<and>
        pg_view s' = (pg_view s)(did \<mapsto> settled DEAD_LETTERED k r) \<and> k \<in> {attempts (row_rec r), att_attempt a}"
    using pg_marks_ok [where db = s and did = did and r = r and a = a] by fastforce
  show "pg_inv s \<Longrightarrow> pg_view s did = Some r \<Longrightarrow>
      \<exists>k s'. schedule_retry pg_store did t a s = (Inr (), s') \<and> pg_inv s' \<and>
        pg_view s' = (pg_view s)(did \<mapsto> retried t k r) \<and>
        (att_attempt a = attempts (row_rec r) + 1 \<longrightarrow> k = attempts (row_rec r) + 1)"
    using pg_marks_ok [where db = s and did = did and r = r and a = a] by fastforce
  show "pg_inv s \<Longrightarrow> pg_view s did = Some r \<Longrightarrow>
      \<exists>k s'. append_attempt pg_store did a s = (Inr (), s') \<and> pg_inv s' \<and>
        pg_view s' = (pg_view s)(did \<mapsto> with_attempts k r) \<and> k \<in> {attempts (row_rec r), att_attempt a}"
    using pg_marks_ok [where db = s and did = did and r = r and a = a] by fastforce
  show "pg_inv s \<Longrightarrow> store_get pg_store did s = (Inr (map_option row_rec (pg_view s did)), s)"
    by (simp add: pg_get_eq)
  show "pg_inv s \<Longrightarrow> 0 < n \<Longrightarrow>
      \<exists>rs. recent_for_subscription pg_store sid n s = (Inr rs, s) \<and> int (length rs) \<le> n \<and>
        (\<forall>r \<in> set rs. subscription_id r = sid \<and>
          (\<exists>row. pg_view s (delivery_id r) = Some row \<and> row_rec row = r))"
    using pg_recent by simp
qed simp_all

section \<open>Properties\<close>

definition pg_reachable :: "PgDb \<Rightarrow> bool" where
  "pg_reachable db \<longleftrightarrow> (\<exists>es. store_run pg_store pg_empty es db)"

lemma pg_inv_empty: "pg_inv pg_empty"
  by (simp add: pg_inv_def pg_empty_def table_ok_def)

lemma pg_reachable_inv: "pg_reachable db \<Longrightarrow> pg_inv db"
  using pg.run_inv pg_inv_empty by (auto simp: pg_reachable_def)

text \<open>
  C21: the relational store hands a row out once. In any run from the empty tables, a row one claim
  took is not taken by another while its lease runs: a retry of it, or a reclaim at an instant
  after the lease, comes first.
\<close>

theorem pg_claims_exclusive:
  assumes "pg_reachable db" and "store_step pg_store (Claim now ttl n batch) db db1"
    and "store_run pg_store db1 es db2"
    and "store_step pg_store (Claim now' ttl' n' batch') db2 db3"
    and "did \<in> delivery_id ` set batch"
    and "\<forall>e \<in> set es. \<not> releases did (now + seconds ttl) e"
  shows "did \<notin> delivery_id ` set batch'"
  by (rule pg.exclusive_claims [OF pg_reachable_inv [OF assms(1)] assms(2-5)])
    (use assms(6) in \<open>simp add: list_ex_iff\<close>)

definition sample_db1 :: PgDb where
  "sample_db1 = snd (pg_enqueue_many [sample_record ''a'' 0, sample_record ''b'' 1] pg_empty)"

definition sample_db2 :: PgDb where
  "sample_db2 = snd (pg_claim_batch 0 30 10 sample_db1)"

lemma sample_db_claim:
  "case pg_claim_batch 0 30 10 sample_db1 of (Inr [r], _) \<Rightarrow> delivery_id r = ''a'' | _ \<Rightarrow> False"
  by code_simp

lemma sample_db_steps:
  obtains r where "delivery_id r = ''a''" "pg_reachable sample_db1"
    "store_step pg_store (Claim 0 30 10 [r]) sample_db1 sample_db2"
proof -
  obtain res db where run: "pg_claim_batch 0 30 10 sample_db1 = (res, db)" by fastforce
  then obtain r where r: "res = Inr [r]" "delivery_id r = ''a''"
    using sample_db_claim by (auto split: sum.splits list.splits)
  have "store_step pg_store (Enqueue [sample_record ''a'' 0, sample_record ''b'' 1]) pg_empty sample_db1"
    by (rule step_enqueue)
      (simp_all add: sample_record_def sample_db1_def pg_enqueue_many_def repo_enqueue_many_def transaction_def bindE_def Let_def)
  then have "pg_reachable sample_db1" by (auto simp: pg_reachable_def intro: store_run.intros)
  moreover have "store_step pg_store (Claim 0 30 10 [r]) sample_db1 sample_db2"
    using run r(1) by (intro step_claim) (simp_all add: sample_db2_def)
  ultimately show ?thesis using that r(2) by blast
qed

theorem pg_claims_exclusive_witness:
  "\<exists>batch db3. store_step pg_store (Claim 5 30 10 batch) sample_db2 db3 \<and> ''a'' \<notin> delivery_id ` set batch"
proof -
  obtain r where r: "delivery_id r = ''a''" "pg_reachable sample_db1"
    "store_step pg_store (Claim 0 30 10 [r]) sample_db1 sample_db2" by (rule sample_db_steps)
  have "pg_inv sample_db2" using pg.step_inv [OF r(3) pg_reachable_inv [OF r(2)]] .
  then obtain batch db3 where "claim_batch pg_store 5 30 10 sample_db2 = (Inr batch, db3)"
    using pg.claim [of sample_db2 10 5 30] by auto
  then have c: "store_step pg_store (Claim 5 30 10 batch) sample_db2 db3" by (intro step_claim) simp_all
  have "''a'' \<in> delivery_id ` set [r]" using r(1) by simp
  from pg_claims_exclusive [OF r(2,3) run_Nil c this] c show ?thesis by auto
qed

text \<open>
  C22: two claims of the relational store that overlap in time are disjoint. Whether the second
  one selects while the first still holds the locks on its rows (it skips them) or after the
  first has committed its update (they are in flight), it selects none of them.
\<close>

theorem overlapping_claims_disjoint:
  assumes "claim_select locked now n t = Inr ids"
    and "claim_select (locked' \<union> set ids) now' n' t = Inr ids' \<or>
      claim_select locked' now' n' (claim_update expiry ids t) = Inr ids'"
  shows "set ids \<inter> set ids' = {}"
proof -
  have selected: "\<exists>r \<in> set t. pg_claimable l now r \<and> c_delivery_id r = did"
    if "claim_select l now n t = Inr ids" "did \<in> set ids" for l now n t ids did
    using that set_take_subset [of "nat n" "sort_key c_fire_at (filter (pg_claimable l now) t)"]
    by (fastforce simp: claim_select_def limit_rows_def split: if_splits)
  have "\<not> pg_claimable l now' r" if "r \<in> set (claim_update expiry ids t)" "c_delivery_id r \<in> set ids" for r l
    using that by (auto simp: claim_update_def set_update_where pg_claimable_def)
  then show ?thesis using assms(2) selected by (fastforce simp: pg_claimable_def)
qed

theorem overlapping_claims_disjoint_witness:
  "\<exists>ids. claim_select {''a''} 5 10 (pg_deliveries sample_db1) = Inr ids \<and> ''a'' \<notin> set ids"
proof -
  have "claim_select {} 0 1 (pg_deliveries sample_db1) = Inr [''a'']"
    "claim_select {''a''} 5 10 (pg_deliveries sample_db1) = Inr [''b'']"
    by code_simp+
  then show ?thesis
    using overlapping_claims_disjoint [of "{}" 0 1 "pg_deliveries sample_db1" "[''a'']" "{}" 5 10 "[''b'']" 0] by simp
qed

lemma set_by_created_and_id [simp]: "set (by_created_and_id t) = set t"
proof -
  have "set (insert_by_id r xs) = insert r (set xs)" for r xs by (induction xs) auto
  then have "set (foldr insert_by_id t []) = set t" by (induction t) auto
  then show ?thesis by (simp add: by_created_and_id_def)
qed

lemma length_by_created_and_id [simp]: "length (by_created_and_id t) = length t"
proof -
  have "length (insert_by_id r xs) = Suc (length xs)" for r xs by (induction xs) auto
  then have "length (foldr insert_by_id t []) = length t" by (induction t) auto
  then show ?thesis by (simp add: by_created_and_id_def)
qed

lemma distinct_by_created_and_id:
  "distinct (map c_delivery_id t) \<Longrightarrow> distinct (map c_delivery_id (by_created_and_id t))"
  by (metis card_distinct distinct_card length_by_created_and_id length_map list.set_map set_by_created_and_id)

text \<open>
  The purge deletes exactly what is old and settled. It removes whole deliveries with their
  attempts, at most the limit; each was sent, created before the cut and has attempts, all of
  them before the cut; every other delivery and attempt stays; and when it removes fewer than
  the limit, nothing of the kind that no other transaction has locked is left.
\<close>

theorem purge_sent_exact:
  assumes "distinct (map c_delivery_id (pg_deliveries db))"
    and "purge_sent locked older limit attempts_table db = (Inr n, db')"
  shows "\<exists>gone. finite gone \<and> n = int (card gone) \<and> n \<le> limit \<and>
    pg_deliveries db' = filter (\<lambda>d. c_delivery_id d \<notin> gone) (pg_deliveries db) \<and>
    pg_attempts db' = filter (\<lambda>a. a_delivery_id a \<notin> gone) (pg_attempts db) \<and>
    (\<forall>did \<in> gone. \<exists>d \<in> set (pg_deliveries db). c_delivery_id d = did \<and> did \<notin> locked \<and>
       c_status d = ''sent'' \<and> c_created_at d < older \<and>
       (\<exists>a \<in> set (pg_attempts db). a_delivery_id a = did) \<and>
       (\<forall>a \<in> set (pg_attempts db). a_delivery_id a = did \<longrightarrow> a_attempted_at a < older)) \<and>
    (n < limit \<longrightarrow> (\<forall>d \<in> set (pg_deliveries db').
       c_delivery_id d \<in> locked \<or> \<not> purgeable older (pg_attempts db) d))"
proof -
  define old where "old = by_created_and_id
    (filter (\<lambda>d. c_delivery_id d \<notin> locked \<and> purgeable older (pg_attempts db) d) (pg_deliveries db))"
  define rows where "rows = take (nat limit) old"
  let ?gone = "c_delivery_id ` set rows"
  have old: "set old = {d \<in> set (pg_deliveries db). c_delivery_id d \<notin> locked \<and> purgeable older (pg_attempts db) d}"
    by (auto simp: old_def)
  have "distinct (map c_delivery_id old)"
    unfolding old_def using assms(1) by (intro distinct_by_created_and_id distinct_map_filter)
  then have "distinct (map c_delivery_id rows)" by (simp add: rows_def take_map [symmetric])
  then have card: "card ?gone = length rows" by (metis distinct_card length_map set_map)
  have pos: "0 < limit" using assms(2) by (auto simp: purge_sent_def split: if_splits)
  have db': "n = int (length rows) \<and> pg_deliveries db' = filter (\<lambda>d. c_delivery_id d \<notin> ?gone) (pg_deliveries db) \<and>
      pg_attempts db' = filter (\<lambda>a. a_delivery_id a \<notin> ?gone) (pg_attempts db)"
    using assms(2) unfolding purge_sent_def Let_def old_def [symmetric] rows_def [symmetric]
    by (auto split: if_splits sum.splits)
  have sub: "set rows \<subseteq> set old" by (simp add: rows_def set_take_subset)
  have each: "\<exists>d \<in> set (pg_deliveries db). c_delivery_id d = did \<and> did \<notin> locked \<and>
       c_status d = ''sent'' \<and> c_created_at d < older \<and>
       (\<exists>a \<in> set (pg_attempts db). a_delivery_id a = did) \<and>
       (\<forall>a \<in> set (pg_attempts db). a_delivery_id a = did \<longrightarrow> a_attempted_at a < older)" if "did \<in> ?gone" for did
    using that sub unfolding old by (fastforce simp: purgeable_def list_ex_iff not_le)
  have "\<forall>d \<in> set (pg_deliveries db'). c_delivery_id d \<in> locked \<or> \<not> purgeable older (pg_attempts db) d" if "n < limit"
  proof -
    have "rows = old" using that db' pos by (auto simp: rows_def)
    then show ?thesis using db' old by auto
  qed
  moreover have "n \<le> limit" using db' pos by (auto simp: rows_def)
  ultimately show ?thesis using db' card each by (intro exI [of _ ?gone]) auto
qed

definition sample_sent_db :: PgDb where
  "sample_sent_db = snd (pg_mark_sent ''a'' sample_attempt sample_db2)"

theorem purge_sent_exact_witness:
  "\<exists>db'. purge_sent {} 1000 10 ''att'' sample_sent_db = (Inr 1, db') \<and>
     (\<forall>d \<in> set (pg_deliveries db'). \<not> purgeable 1000 (pg_attempts sample_sent_db) d)"
proof -
  have "distinct (map c_delivery_id (pg_deliveries sample_sent_db))" by code_simp
  moreover have "fst (purge_sent {} 1000 10 ''att'' sample_sent_db) = Inr 1" by code_simp
  then obtain db' where "purge_sent {} 1000 10 ''att'' sample_sent_db = (Inr 1, db')" by (metis prod.collapse)
  ultimately show ?thesis using purge_sent_exact by fastforce
qed

section \<open>Failure notifications\<close>

definition notified :: "string \<Rightarrow> PgRow list \<Rightarrow> bool" where
  "notified did t \<longleftrightarrow> (\<exists>r \<in> set t. c_delivery_id r = did \<and> c_failure_notified_at r \<noteq> None)"

lemma notified_update:
  "notified did t \<Longrightarrow> (\<And>r. c_delivery_id (f r) = c_delivery_id r \<and> c_failure_notified_at (f r) = c_failure_notified_at r) \<Longrightarrow>
   notified did (update_where P f t)"
  unfolding notified_def set_update_where by (metis (mono_tags, lifting) UnCI image_eqI mem_Collect_eq)

lemma notified_insert: "notified did t \<Longrightarrow> notified did (fold (insert_new c_delivery_id) rs t)"
proof (induction rs arbitrary: t)
  case (Cons r rs)
  have "notified did (insert_new c_delivery_id r t)" using Cons.prems by (auto simp: notified_def insert_new_def)
  then show ?case by (simp add: Cons.IH)
qed simp

lemma notified_step:
  "store_step pg_store e db db' \<Longrightarrow> notified did (pg_deliveries db) \<Longrightarrow> notified did (pg_deliveries db')"
  by (induction rule: store_step.induct)
    (auto simp: pg_enqueue_many_def repo_enqueue_many_def pg_claim_batch_def repo_claim_batch_def claim_update_def
      pg_reclaim_stale_def repo_reclaim_stale_def pg_marks update_delivery_def on_deliveries_def attempt_append_def
      transaction_def bindE_def Let_def intro!: notified_update notified_insert split: if_splits sum.splits prod.splits)

lemma notified_run:
  "store_run pg_store db es db' \<Longrightarrow> notified did (pg_deliveries db) \<Longrightarrow> notified did (pg_deliveries db')"
  by (induction rule: store_run.induct) (auto intro: notified_step)

lemma dead_unnotified_rows:
  assumes "pg_inv db" and "0 \<le> n"
  shows "dead_unnotified locked n db = (Inr (map (row_rec \<circ> pg_row) (take (nat n) (by_created_and_id
    (filter (\<lambda>r. c_delivery_id r \<notin> locked \<and> c_status r = ''dead_lettered'' \<and> c_failure_notified_at r = None)
      (pg_deliveries db))))), db)"
proof -
  define rows where "rows = take (nat n) (by_created_and_id (filter (\<lambda>r. c_delivery_id r \<notin> locked \<and>
    c_status r = ''dead_lettered'' \<and> c_failure_notified_at r = None) (pg_deliveries db)))"
  have "set rows \<subseteq> set (pg_deliveries db)" unfolding rows_def by (rule order.trans [OF set_take_subset]) auto
  from pg_decode [OF assms(1) this] show ?thesis
    using assms(2) by (simp add: dead_unnotified_def limit_rows_def rows_def)
qed

text \<open>
  The owner of a dead delivery is told until told. A dead-lettered row that nobody was
  notified of is among the rows a large enough query returns, and from the moment it is
  acknowledged no query returns it again, whatever the store does to the row afterwards.
\<close>

theorem failure_reported_until_acknowledged:
  assumes "pg_reachable db" and "r \<in> set (pg_deliveries db)" and "c_status r = ''dead_lettered''"
    and "c_failure_notified_at r = None" and "int (length (pg_deliveries db)) \<le> n"
    and "ack_failure_notification (c_delivery_id r) now db = (Inr (), db1)"
    and "store_run pg_store db1 es db2" and "dead_unnotified locked m db2 = (Inr rs', db3)"
  shows "(\<exists>rs. dead_unnotified {} n db = (Inr rs, db) \<and> c_delivery_id r \<in> delivery_id ` set rs)
    \<and> c_delivery_id r \<notin> delivery_id ` set rs'"
proof
  let ?q = "filter (\<lambda>r. c_delivery_id r \<notin> {} \<and> c_status r = ''dead_lettered'' \<and> c_failure_notified_at r = None)
    (pg_deliveries db)"
  note inv = pg_reachable_inv [OF assms(1)]
  have "length ?q \<le> length (pg_deliveries db)" by (rule length_filter_le)
  then have "length ?q \<le> nat n" using assms(5) by linarith
  then have "take (nat n) (by_created_and_id ?q) = by_created_and_id ?q"
    by (simp only: take_all length_by_created_and_id)
  then have "dead_unnotified {} n db = (Inr (map (row_rec \<circ> pg_row) (by_created_and_id ?q)), db)"
    using dead_unnotified_rows [OF inv, of n "{}"] assms(5) by simp
  moreover have "c_delivery_id r \<in> delivery_id ` set (map (row_rec \<circ> pg_row) (by_created_and_id ?q))"
    using assms(2-4) by force
  ultimately show "\<exists>rs. dead_unnotified {} n db = (Inr rs, db) \<and> c_delivery_id r \<in> delivery_id ` set rs" by blast
next
  note inv = pg_reachable_inv [OF assms(1)]
  let ?f = "\<lambda>r. r\<lparr>c_failure_notified_at := Some now\<rparr>"
  let ?P = "\<lambda>x. c_delivery_id x = c_delivery_id r \<and> c_status x = ''dead_lettered''"
  have db1: "db1 = db\<lparr>pg_deliveries := update_where ?P ?f (pg_deliveries db)\<rparr>"
    using assms(6) by (simp add: ack_failure_notification_def on_deliveries_def)
  have "notified (c_delivery_id r) (pg_deliveries db1)"
    using assms(2,3) by (auto simp: db1 notified_def set_update_where intro!: bexI [of _ "?f r"])
  then have n2: "notified (c_delivery_id r) (pg_deliveries db2)" by (rule notified_run [OF assms(7)])
  have same: "pg_row (?f x) = pg_row x" for x by (simp add: pg_row_def delivery_of_def)
  have "pg_inv db1"
    unfolding db1 using inv by (intro pg_inv_update) (auto simp: pg_inv_def table_ok_def)
  then have inv2: "pg_inv db2" by (rule pg.run_inv [OF assms(7)])
  have "0 \<le> m" using assms(8) by (auto simp: dead_unnotified_def limit_rows_def split: if_splits)
  have rs': "set rs' \<subseteq> (row_rec \<circ> pg_row) ` {x \<in> set (pg_deliveries db2). c_failure_notified_at x = None}"
    using dead_unnotified_rows [OF inv2 \<open>0 \<le> m\<close>, of locked] assms(8)
    by (auto dest!: in_set_takeD)
  show "c_delivery_id r \<notin> delivery_id ` set rs'"
  proof
    assume "c_delivery_id r \<in> delivery_id ` set rs'"
    then obtain x where x: "x \<in> set (pg_deliveries db2)" "c_failure_notified_at x = None"
      "c_delivery_id x = c_delivery_id r" using rs' by fastforce
    obtain y where y: "y \<in> set (pg_deliveries db2)" "c_failure_notified_at y \<noteq> None" "c_delivery_id y = c_delivery_id r"
      using n2 by (auto simp: notified_def)
    have "inj_on c_delivery_id (set (pg_deliveries db2))"
      using inv2 by (simp add: pg_inv_def table_ok_def distinct_map)
    then have "x = y" using x(1,3) y(1,3) by (simp add: inj_on_def)
    then show False using x(2) y(2) by simp
  qed
qed

definition sample_dead_db :: PgDb where
  "sample_dead_db = snd (pg_mark_dead ''a'' sample_attempt sample_db2)"

theorem failure_reported_until_acknowledged_witness:
  "\<exists>rs rs'. dead_unnotified {} 5 sample_dead_db = (Inr rs, sample_dead_db) \<and> ''a'' \<in> delivery_id ` set rs \<and>
     fst (dead_unnotified {} 5 (snd (ack_failure_notification ''a'' 9 sample_dead_db))) = Inr rs' \<and>
     ''a'' \<notin> delivery_id ` set rs'"
proof -
  obtain r where r: "delivery_id r = ''a''" "pg_reachable sample_db1"
    "store_step pg_store (Claim 0 30 10 [r]) sample_db1 sample_db2" by (rule sample_db_steps)
  have got: "case fst (pg_get ''a'' sample_db2) of Inr (Some _) \<Rightarrow> True | _ \<Rightarrow> False"
    and dead: "fst (pg_mark_dead ''a'' sample_attempt sample_db2) = Inr ()" by code_simp+
  from got obtain r2 where "fst (pg_get ''a'' sample_db2) = Inr (Some r2)"
    by (auto split: sum.splits option.splits)
  then have "store_step pg_store (MarkDead ''a'' sample_attempt) sample_db2 sample_dead_db"
    using dead by (intro step_dead [of _ _ _ r2 "snd (pg_get ''a'' sample_db2)"])
      (auto simp: sample_dead_db_def prod_eq_iff)
  moreover obtain es where "store_run pg_store pg_empty es sample_db1" using r(2) by (auto simp: pg_reachable_def)
  moreover have "store_run st s es s' \<Longrightarrow> store_run st s' es' s'' \<Longrightarrow> store_run st s (es @ es') s''"
    for st :: "PgDb delivery_store" and s es s' es' s''
    by (induction rule: store_run.induct) (auto intro: store_run.intros)
  ultimately have reach: "pg_reachable sample_dead_db"
    using r(3) unfolding pg_reachable_def by (meson run_Cons run_Nil)
  have "case pg_deliveries sample_dead_db of x # _ \<Rightarrow> c_delivery_id x = ''a'' \<and> c_status x = ''dead_lettered'' \<and>
      c_failure_notified_at x = None | [] \<Rightarrow> False" "length (pg_deliveries sample_dead_db) = 2"
    by code_simp+
  then obtain x where x: "x \<in> set (pg_deliveries sample_dead_db)" "c_delivery_id x = ''a''"
    "c_status x = ''dead_lettered''" "c_failure_notified_at x = None" "int (length (pg_deliveries sample_dead_db)) \<le> 5"
    by (auto split: list.splits)
  let ?db1 = "snd (ack_failure_notification ''a'' 9 sample_dead_db)"
  have ack: "ack_failure_notification (c_delivery_id x) 9 sample_dead_db = (Inr (), ?db1)"
    by (simp add: x(2) ack_failure_notification_def on_deliveries_def)
  have "is_ok (fst (dead_unnotified {} 5 ?db1))" by code_simp
  then obtain rs' db3 where "dead_unnotified {} 5 ?db1 = (Inr rs', db3)" by (metis is_ok_iff prod.collapse)
  from failure_reported_until_acknowledged [OF reach x(1,3,4,5) ack run_Nil this] this show ?thesis
    by (auto simp: x(2))
qed

end
