(* ===== verification/MongoStore.thy ===== *)
theory MongoStore
  imports Tables Envelope
begin

text \<open>
  The document store (\<open>stores/mongo.py\<close>): one collection, one document per delivery with its
  attempts embedded. A command on one document is atomic; a claim is a loop of them. An instant
  is kept in milliseconds: whatever is written or compared is cut to that first. The keys read
  with \<open>doc.get\<close> may be missing (\<open>None\<close>), the others are in every document this store wrote.
\<close>

definition bson_ms :: "time \<Rightarrow> time" where
  "bson_ms t = t div 1000 * 1000"

record MongoAttempt =
  ma_attempt :: int
  ma_attempted_at :: time
  ma_http_code :: "int option"
  ma_duration_ms :: int
  ma_error :: "string option"
  ma_response_snippet :: string

record MongoDoc =
  m_id :: string
  m_subscription_id :: string
  m_owner_id :: string
  m_event_name :: string
  m_event_id :: string
  m_schema_version :: string
  m_tenant_id :: "string option"
  m_data_json :: bytes
  m_emitted_at :: time
  m_target_url :: string
  m_resolved_ip :: string
  m_redelivery_of :: "string option"
  m_attempts :: "int option"
  m_fire_at :: time
  m_created_at :: time
  m_status :: "string option"
  m_profile :: "string option"
  m_secret_version :: "string option"
  m_lease_expiry :: "time option"
  m_attempt_log :: "MongoAttempt list"

type_synonym mongo_col = "MongoDoc list"

definition record_to_doc :: "DeliveryRecord \<Rightarrow> MongoDoc" where
  "record_to_doc r =
     \<lparr>m_id = delivery_id r, m_subscription_id = subscription_id r, m_owner_id = owner_id r,
      m_event_name = event_name r, m_event_id = event_id r, m_schema_version = schema_version r,
      m_tenant_id = tenant_id r, m_data_json = data_json r, m_emitted_at = bson_ms (emitted_at r),
      m_target_url = target_url r, m_resolved_ip = resolved_ip r, m_redelivery_of = redelivery_of r,
      m_attempts = Some (attempts r), m_fire_at = bson_ms (fire_at r),
      m_created_at = bson_ms (created_at r), m_status = Some (status_value (status r)),
      m_profile = Some (profile r), m_secret_version = secret_version r, m_lease_expiry = None,
      m_attempt_log = []\<rparr>"

definition record_of :: "DeliveryStatus \<Rightarrow> MongoDoc \<Rightarrow> DeliveryRecord" where
  "record_of st d =
     \<lparr>delivery_id = m_id d, subscription_id = m_subscription_id d, owner_id = m_owner_id d,
      event_name = m_event_name d, event_id = m_event_id d, schema_version = m_schema_version d,
      tenant_id = m_tenant_id d, data_json = m_data_json d, emitted_at = m_emitted_at d,
      target_url = m_target_url d, resolved_ip = m_resolved_ip d, redelivery_of = m_redelivery_of d,
      attempts = (case m_attempts d of Some n \<Rightarrow> n | None \<Rightarrow> 0), fire_at = m_fire_at d,
      created_at = m_created_at d, status = st,
      profile = (case m_profile d of Some p \<Rightarrow> if p = [] then DEFAULT_PROFILE else p | None \<Rightarrow> DEFAULT_PROFILE),
      secret_version = m_secret_version d\<rparr>"

definition status_text :: "MongoDoc \<Rightarrow> string" where
  "status_text d = (case m_status d of Some v \<Rightarrow> v | None \<Rightarrow> status_value PENDING)"

definition doc_to_record :: "MongoDoc \<Rightarrow> exc + DeliveryRecord" where
  "doc_to_record d =
     (case status_of_value (status_text d) of
        None \<Rightarrow> Inl (ValueError (quoted (status_text d) @ '' is not a valid DeliveryStatus''))
      | Some st \<Rightarrow> Inr (record_of st d))"

definition attempt_to_subdoc :: "AttemptRecord \<Rightarrow> MongoAttempt" where
  "attempt_to_subdoc a =
     \<lparr>ma_attempt = att_attempt a, ma_attempted_at = bson_ms (att_attempted_at a),
      ma_http_code = att_http_code a, ma_duration_ms = att_duration_ms a, ma_error = att_error a,
      ma_response_snippet = att_response_snippet a\<rparr>"

section \<open>The operations\<close>

definition mongo_enqueue_many :: "DeliveryRecord list \<Rightarrow> (exc, mongo_col, unit) comp" where
  "mongo_enqueue_many records = (\<lambda>col.
     if records = [] then (Inr (), col)
     else (case insert_unordered m_id (map record_to_doc records) col of (errors, col') \<Rightarrow>
       if list_ex (\<lambda>code. code \<noteq> 11000) errors
       then (Inl (Other ''BulkWriteError'' ''batch op errors occurred''), col')
       else (Inr (), col')))"

definition CLAIMABLE :: "string list" where
  "CLAIMABLE = [status_value PENDING, status_value FAILED_RETRY]"

definition mongo_claimable :: "time \<Rightarrow> MongoDoc \<Rightarrow> bool" where
  "mongo_claimable now d \<longleftrightarrow>
     (case m_status d of Some v \<Rightarrow> v \<in> set CLAIMABLE | None \<Rightarrow> False) \<and> m_fire_at d \<le> bson_ms now"

definition set_leased :: "time \<Rightarrow> MongoDoc \<Rightarrow> MongoDoc" where
  "set_leased lease_expiry d =
     d\<lparr>m_status := Some (status_value IN_FLIGHT), m_lease_expiry := Some (bson_ms lease_expiry)\<rparr>"

text \<open>One \<open>find_one_and_update\<close>: the claimable document that is due first, updated and returned.\<close>

definition find_one_and_lease :: "time \<Rightarrow> time \<Rightarrow> mongo_col \<Rightarrow> MongoDoc option \<times> mongo_col" where
  "find_one_and_lease now lease_expiry col =
     (case sort_key m_fire_at (filter (mongo_claimable now) col) of
        [] \<Rightarrow> (None, col)
      | d # _ \<Rightarrow> (Some (set_leased lease_expiry d),
                  update_where (\<lambda>x. m_id x = m_id d) (set_leased lease_expiry) col))"

fun claim_loop :: "time \<Rightarrow> time \<Rightarrow> nat \<Rightarrow> (exc, mongo_col, DeliveryRecord list) comp" where
  "claim_loop now lease_expiry 0 col = (Inr [], col)"
| "claim_loop now lease_expiry (Suc n) col =
     (case find_one_and_lease now lease_expiry col of
        (None, col1) \<Rightarrow> (Inr [], col1)
      | (Some doc, col1) \<Rightarrow>
          (case doc_to_record doc of
             Inl e \<Rightarrow> (Inl e, col1)
           | Inr r \<Rightarrow>
               (case claim_loop now lease_expiry n col1 of
                  (Inl e, col2) \<Rightarrow> (Inl e, col2)
                | (Inr rs, col2) \<Rightarrow> (Inr (r # rs), col2))))"

definition mongo_claim_batch :: "time \<Rightarrow> int \<Rightarrow> int \<Rightarrow> (exc, mongo_col, DeliveryRecord list) comp" where
  "mongo_claim_batch now ttl_s n = claim_loop now (now + seconds ttl_s) (nat n)"

definition mongo_stale :: "time \<Rightarrow> MongoDoc \<Rightarrow> bool" where
  "mongo_stale now d \<longleftrightarrow> m_status d = Some (status_value IN_FLIGHT) \<and>
     (case m_lease_expiry d of None \<Rightarrow> False | Some e \<Rightarrow> e < bson_ms now)"

definition mongo_reclaim_stale :: "time \<Rightarrow> (exc, mongo_col, int) comp" where
  "mongo_reclaim_stale now = (\<lambda>col.
     (Inr (int (length (filter (mongo_stale now) col))),
      update_where (mongo_stale now)
        (\<lambda>d. d\<lparr>m_status := Some (status_value PENDING), m_lease_expiry := None\<rparr>) col))"

text \<open>\<open>$push\<close> with \<open>$position: 0\<close> and \<open>$slice\<close>: a negative limit keeps the last ones.\<close>

definition push_attempt :: "int \<Rightarrow> AttemptRecord \<Rightarrow> MongoDoc \<Rightarrow> MongoDoc" where
  "push_attempt limit a d =
     (let hist = attempt_to_subdoc a # m_attempt_log d in
      d\<lparr>m_attempt_log := (if 0 \<le> limit then take (nat limit) hist
                          else drop (length hist - nat (- limit)) hist)\<rparr>)"

definition update_one :: "string \<Rightarrow> (MongoDoc \<Rightarrow> MongoDoc) \<Rightarrow> (exc, mongo_col, unit) comp" where
  "update_one did f = (\<lambda>col. (Inr (), update_where (\<lambda>d. m_id d = did) f col))"

definition mongo_mark_sent :: "int \<Rightarrow> string \<Rightarrow> AttemptRecord \<Rightarrow> (exc, mongo_col, unit) comp" where
  "mongo_mark_sent limit did a = update_one did (\<lambda>d. push_attempt limit a
     (d\<lparr>m_status := Some (status_value SENT), m_attempts := Some (att_attempt a), m_lease_expiry := None\<rparr>))"

definition mongo_schedule_retry :: "int \<Rightarrow> string \<Rightarrow> time \<Rightarrow> AttemptRecord \<Rightarrow> (exc, mongo_col, unit) comp" where
  "mongo_schedule_retry limit did fire a = update_one did (\<lambda>d. push_attempt limit a
     (d\<lparr>m_status := Some (status_value FAILED_RETRY), m_fire_at := bson_ms fire,
        m_attempts := Some (att_attempt a), m_lease_expiry := None\<rparr>))"

definition mongo_mark_dead :: "int \<Rightarrow> string \<Rightarrow> AttemptRecord \<Rightarrow> (exc, mongo_col, unit) comp" where
  "mongo_mark_dead limit did a = update_one did (\<lambda>d. push_attempt limit a
     (d\<lparr>m_status := Some (status_value DEAD_LETTERED), m_attempts := Some (att_attempt a),
        m_lease_expiry := None\<rparr>))"

definition mongo_append_attempt :: "int \<Rightarrow> string \<Rightarrow> AttemptRecord \<Rightarrow> (exc, mongo_col, unit) comp" where
  "mongo_append_attempt limit did a = update_one did (push_attempt limit a)"

definition mongo_get :: "string \<Rightarrow> (exc, mongo_col, DeliveryRecord option) comp" where
  "mongo_get did = (\<lambda>col.
     (case lookup m_id col did of
        None \<Rightarrow> Inr None
      | Some doc \<Rightarrow> (case doc_to_record doc of Inl e \<Rightarrow> Inl e | Inr r \<Rightarrow> Inr (Some r)), col))"

definition mongo_recent_for_subscription :: "string \<Rightarrow> int \<Rightarrow> (exc, mongo_col, DeliveryRecord list) comp" where
  "mongo_recent_for_subscription sid limit = (\<lambda>col.
     (if limit < 0 then Inl (ValueError ''length must be non-negative'')
      else map_exc doc_to_record (take (nat limit) (sort_key (\<lambda>d. - m_created_at d)
             (filter (\<lambda>d. m_subscription_id d = sid) col))), col))"

definition mongo_store :: "int \<Rightarrow> mongo_col delivery_store" where
  "mongo_store attempts_limit = \<lparr>enqueue_many = mongo_enqueue_many, claim_batch = mongo_claim_batch,
     reclaim_stale = mongo_reclaim_stale, mark_sent = mongo_mark_sent attempts_limit,
     schedule_retry = mongo_schedule_retry attempts_limit, mark_dead = mongo_mark_dead attempts_limit,
     append_attempt = mongo_append_attempt attempts_limit, store_get = mongo_get,
     recent_for_subscription = mongo_recent_for_subscription\<rparr>"

text \<open>\<open>ensure_schema\<close> asks for three indexes, by name, with the fields and their directions.\<close>

datatype direction = ASCENDING | DESCENDING

definition mongo_indexes :: "(string \<times> (string \<times> direction) list) list" where
  "mongo_indexes =
     [(''status_fire_at_idx'', [(''status'', ASCENDING), (''fire_at'', ASCENDING)]),
      (''status_lease_expiry_idx'', [(''status'', ASCENDING), (''lease_expiry'', ASCENDING)]),
      (''subscription_created_at_idx'', [(''subscription_id'', ASCENDING), (''created_at'', DESCENDING)])]"

section \<open>The view of the collection\<close>

definition mongo_row :: "MongoDoc \<Rightarrow> row" where
  "mongo_row d = Row (record_of (the (status_of_value (status_text d))) d) (m_lease_expiry d)"

definition mongo_view :: "mongo_col \<Rightarrow> view" where
  "mongo_view col = table_view m_id mongo_row col"

definition doc_ok :: "MongoDoc \<Rightarrow> bool" where
  "doc_ok d \<longleftrightarrow> (\<exists>st. m_status d = Some (status_value st))"

definition mongo_inv :: "mongo_col \<Rightarrow> bool" where
  "mongo_inv col \<longleftrightarrow> table_ok m_id mongo_row col \<and> (\<forall>d \<in> set col. doc_ok d)"

text \<open>A record as the store gives it back: milliseconds, and an empty profile is the default one.\<close>

definition mongo_keep :: "DeliveryRecord \<Rightarrow> DeliveryRecord" where
  "mongo_keep r = r\<lparr>emitted_at := bson_ms (emitted_at r), fire_at := bson_ms (fire_at r),
     created_at := bson_ms (created_at r),
     profile := (if profile r = [] then DEFAULT_PROFILE else profile r)\<rparr>"

lemma bson_ms_mono: "t \<le> t' \<Longrightarrow> bson_ms t \<le> bson_ms t'"
  by (simp add: bson_ms_def zdiv_mono1)

lemma bson_ms_seconds: "bson_ms (t + seconds n) = bson_ms t + seconds n"
proof -
  have "(t + n * 1000 * 1000) div 1000 = t div 1000 + n * 1000" by simp
  then show ?thesis by (simp add: bson_ms_def seconds_def algebra_simps)
qed

lemma bson_ms_idem [simp]: "bson_ms (bson_ms t) = bson_ms t"
  by (simp add: bson_ms_def)

lemma doc_ok_status: "doc_ok d \<Longrightarrow> \<exists>st. status_of_value (status_text d) = Some st"
  by (auto simp: doc_ok_def status_text_def)

lemma doc_ok_text_iff:
  "doc_ok d \<Longrightarrow> m_status d = Some (status_value st) \<longleftrightarrow> the (status_of_value (status_text d)) = st"
  by (auto simp: doc_ok_def status_text_def) (metis option.inject status_of_value_value)

lemma mongo_row_simps [simp]:
  "delivery_id (row_rec (mongo_row d)) = m_id d" "fire_at (row_rec (mongo_row d)) = m_fire_at d"
  "row_lease (mongo_row d) = m_lease_expiry d" "subscription_id (row_rec (mongo_row d)) = m_subscription_id d"
  "status (row_rec (mongo_row d)) = the (status_of_value (status_text d))"
  by (simp_all add: mongo_row_def record_of_def)

lemma push_simps [simp]:
  "m_id (push_attempt n a d) = m_id d" "mongo_row (push_attempt n a d) = mongo_row d"
  "doc_ok (push_attempt n a d) = doc_ok d" "m_lease_expiry (push_attempt n a d) = m_lease_expiry d"
  "status_text (push_attempt n a d) = status_text d"
  by (simp_all add: push_attempt_def Let_def mongo_row_def record_of_def doc_ok_def status_text_def)

lemma mongo_moves:
  "mongo_row (set_leased e d) = leased (bson_ms e) (mongo_row d)"
  "mongo_row (d\<lparr>m_status := Some ''pending'', m_lease_expiry := None\<rparr>) = released (mongo_row d)"
  "mongo_row (d\<lparr>m_status := Some ''sent'', m_attempts := Some k, m_lease_expiry := None\<rparr>) = settled SENT k (mongo_row d)"
  "mongo_row (d\<lparr>m_status := Some ''dead_lettered'', m_attempts := Some k, m_lease_expiry := None\<rparr>)
     = settled DEAD_LETTERED k (mongo_row d)"
  "mongo_row (d\<lparr>m_status := Some ''failed_retry'', m_fire_at := t, m_attempts := Some k, m_lease_expiry := None\<rparr>)
     = retried t k (mongo_row d)"
  by (simp_all add: mongo_row_def record_of_def status_text_def status_of_value_def set_leased_def leased_def
      released_def settled_def retried_def)

lemma doc_ok_moves [simp]:
  "doc_ok (d\<lparr>m_status := Some ''pending'', m_lease_expiry := l\<rparr>)"
  "doc_ok (d\<lparr>m_status := Some ''sent'', m_attempts := k, m_lease_expiry := l\<rparr>)"
  "doc_ok (d\<lparr>m_status := Some ''dead_lettered'', m_attempts := k, m_lease_expiry := l\<rparr>)"
  "doc_ok (d\<lparr>m_status := Some ''failed_retry'', m_fire_at := t, m_attempts := k, m_lease_expiry := l\<rparr>)"
  "doc_ok (set_leased e d)" "doc_ok (record_to_doc r)" "m_id (set_leased e d) = m_id d"
  by (simp_all add: doc_ok_def set_leased_def record_to_doc_def)
    (metis status_value.simps)+

lemma set_leased_simps [simp]:
  "m_lease_expiry (set_leased e d) = Some (bson_ms e)" "status_of_value (status_text (set_leased e d)) = Some IN_FLIGHT"
  by (simp_all add: set_leased_def status_text_def status_of_value_def)

section \<open>Marks\<close>

lemma mongo_inv_update:
  assumes "mongo_inv col" and "\<And>d. m_id (f d) = m_id d"
    and "\<And>d. d \<in> set col \<Longrightarrow> P d \<Longrightarrow> doc_ok (f d) \<and>
      (m_lease_expiry (f d) \<noteq> None \<longleftrightarrow> status (row_rec (mongo_row (f d))) = IN_FLIGHT)"
  shows "mongo_inv (update_where P f col)"
  using assms table_ok_update [of m_id mongo_row col f P]
  by (auto simp: mongo_inv_def set_update_where)

lemma mongo_mark:
  assumes "mongo_inv col" and "mongo_view col did = Some row" and "\<And>d. m_id (f d) = m_id d"
    and "\<And>d. mongo_row (f d) = g (mongo_row d)" and "\<And>d. doc_ok d \<Longrightarrow> doc_ok (f d)"
    and "\<And>r. (row_lease r \<noteq> None \<longleftrightarrow> status (row_rec r) = IN_FLIGHT) \<Longrightarrow>
      (row_lease (g r) \<noteq> None \<longleftrightarrow> status (row_rec (g r)) = IN_FLIGHT)"
  shows "\<exists>col'. update_one did f col = (Inr (), col') \<and> mongo_inv col' \<and>
    mongo_view col' = (mongo_view col)(did \<mapsto> g row)"
proof -
  let ?P = "\<lambda>d. m_id d = did"
  have lease: "row_lease (mongo_row (f d)) \<noteq> None \<longleftrightarrow> status (row_rec (mongo_row (f d))) = IN_FLIGHT"
    if "d \<in> set col" for d
    using assms(1) assms(6) [of "mongo_row d"] that unfolding assms(4) mongo_inv_def table_ok_def by blast
  then have "mongo_inv (update_where ?P f col)"
    using assms(1,3,5) by (intro mongo_inv_update) (auto simp: mongo_inv_def)
  moreover have "mongo_view (update_where ?P f col) = (mongo_view col)(did \<mapsto> g row)"
    unfolding mongo_view_def
    by (rule table_view_update_key [where key = m_id and f = f and proj = mongo_row and g = g])
      (use assms(2) in \<open>simp_all add: assms(3,4) mongo_view_def\<close>)
  ultimately show ?thesis by (simp add: update_one_def)
qed

lemma mongo_marks_ok:
  assumes "mongo_inv col" and "mongo_view col did = Some row"
  shows "\<exists>col'. mongo_mark_sent n did a col = (Inr (), col') \<and> mongo_inv col' \<and>
      mongo_view col' = (mongo_view col)(did \<mapsto> settled SENT (att_attempt a) row)"
    and "\<exists>col'. mongo_mark_dead n did a col = (Inr (), col') \<and> mongo_inv col' \<and>
      mongo_view col' = (mongo_view col)(did \<mapsto> settled DEAD_LETTERED (att_attempt a) row)"
    and "\<exists>col'. mongo_schedule_retry n did t a col = (Inr (), col') \<and> mongo_inv col' \<and>
      mongo_view col' = (mongo_view col)(did \<mapsto> retried (bson_ms t) (att_attempt a) row)"
    and "\<exists>col'. mongo_append_attempt n did a col = (Inr (), col') \<and> mongo_inv col' \<and>
      mongo_view col' = (mongo_view col)(did \<mapsto> row)"
  unfolding mongo_mark_sent_def mongo_mark_dead_def mongo_schedule_retry_def mongo_append_attempt_def
     apply (rule mongo_mark [OF assms]; simp add: mongo_moves settled_def)
    apply (rule mongo_mark [OF assms]; simp add: mongo_moves settled_def)
   apply (rule mongo_mark [OF assms]; simp add: mongo_moves retried_def)
  by (rule mongo_mark [OF assms, where g = "\<lambda>r. r"]; simp)

section \<open>Enqueue and reclaim\<close>

lemma mongo_row_of [simp]:
  "mongo_row (record_to_doc r) = Row (mongo_keep r) None"
  by (simp add: mongo_row_def record_of_def record_to_doc_def status_text_def mongo_keep_def)

lemma mongo_enqueue:
  assumes inv: "mongo_inv col" and pending: "list_all (\<lambda>r. status r = PENDING) rs"
  shows "\<exists>col'. mongo_enqueue_many rs col = (Inr (), col') \<and> mongo_inv col' \<and>
    mongo_view col' = enqueued (map mongo_keep rs) (mongo_view col)"
proof (cases "rs = []")
  case True
  then show ?thesis using inv by (auto simp: mongo_enqueue_many_def enqueued_def fun_eq_iff split: option.split)
next
  case False
  let ?c = "fold (insert_new m_id) (map record_to_doc rs) col"
  obtain errors where e: "insert_unordered m_id (map record_to_doc rs) col = (errors, ?c)" "\<forall>c \<in> set errors. c = 11000"
    using insert_unordered_ok by blast
  have find: "map_option mongo_row (lookup m_id (map record_to_doc rs) did)
      = map_option (\<lambda>r. Row r None) (find (\<lambda>r. delivery_id r = did) (map mongo_keep rs))" for did
    by (induction rs) (auto simp: lookup_def, simp_all add: record_to_doc_def mongo_keep_def)
  have "mongo_view ?c = enqueued (map mongo_keep rs) (mongo_view col)"
    using find by (auto simp: table_view_def mongo_view_def enqueued_def lookup_fold_insert fun_eq_iff split: option.splits)
  moreover have "mongo_inv ?c"
  proof -
    have "distinct (map m_id ?c)"
      using inv by (intro keys_fold_insert) (simp add: mongo_inv_def table_ok_def)
    moreover have "delivery_id (row_rec (mongo_row d)) = m_id d \<and> doc_ok d \<and>
        (row_lease (mongo_row d) \<noteq> None \<longleftrightarrow> status (row_rec (mongo_row d)) = IN_FLIGHT)" if d: "d \<in> set ?c" for d
    proof (cases "d \<in> set col")
      case True
      then show ?thesis using inv by (auto simp: mongo_inv_def table_ok_def)
    next
      case False
      then obtain r where r: "d = record_to_doc r" "r \<in> set rs"
        using d set_fold_insert [of m_id "map record_to_doc rs" col] by auto
      then have "status r = PENDING" using pending by (simp add: list_all_iff)
      moreover have "status_text d = status_value (status r)" "m_lease_expiry d = None"
        by (simp_all add: r(1) status_text_def record_to_doc_def)
      moreover have "m_id d = delivery_id r" by (simp add: r(1) record_to_doc_def)
      ultimately show ?thesis by (simp add: r(1) mongo_keep_def)
    qed
    ultimately show ?thesis by (auto simp: mongo_inv_def table_ok_def)
  qed
  moreover have "\<not> list_ex (\<lambda>code. code \<noteq> 11000) errors" using e(2) by (simp add: list_ex_iff)
  ultimately show ?thesis using False e(1) by (simp add: mongo_enqueue_many_def)
qed

lemma mongo_reclaim:
  assumes inv: "mongo_inv col"
  shows "\<exists>col'. mongo_reclaim_stale now col = (Inr (int (card (stale_ids (bson_ms now) (mongo_view col)))), col') \<and>
    mongo_inv col' \<and> mongo_view col' = reclaimed (bson_ms now) (mongo_view col)"
proof -
  let ?f = "\<lambda>d. d\<lparr>m_status := Some ''pending'', m_lease_expiry := None\<rparr>"
  have stale: "mongo_stale now d \<longleftrightarrow> stale (bson_ms now) (mongo_row d)" if "d \<in> set col" for d
    using inv that doc_ok_text_iff [of d IN_FLIGHT] by (auto simp: mongo_inv_def mongo_stale_def stale_def)
  have "stale_ids (bson_ms now) (mongo_view col) = m_id ` set (filter (mongo_stale now) col)"
    using inv stale table_view_in [of m_id mongo_row col]
    by (fastforce simp: stale_ids_def mongo_view_def mongo_inv_def dest: table_view_SomeD)
  moreover have "distinct (map m_id (filter (mongo_stale now) col))"
    using inv by (intro distinct_map_filter) (simp add: mongo_inv_def table_ok_def)
  then have "card (m_id ` set (filter (mongo_stale now) col)) = length (filter (mongo_stale now) col)"
    by (metis distinct_card length_map set_map)
  moreover have "table_view m_id mongo_row (update_where (mongo_stale now) ?f col)
      = (\<lambda>k. map_option (\<lambda>row. if stale (bson_ms now) row then released row else row) (mongo_view col k))"
    unfolding mongo_view_def
    by (rule table_view_update [where key = m_id and f = ?f and proj = mongo_row and g = released
          and Q = "\<lambda>_. stale (bson_ms now)" and P = "mongo_stale now"]) (simp_all add: stale mongo_moves)
  moreover have "mongo_inv (update_where (mongo_stale now) ?f col)"
    by (rule mongo_inv_update [OF inv]) (simp_all add: mongo_moves released_def)
  ultimately show ?thesis
    by (simp add: mongo_reclaim_stale_def mongo_view_def reclaimed_def)
qed

section \<open>Claims\<close>

lemma claim_ok_none: "claim_ok v now x 0 [] v" "(\<And>did row. v did = Some row \<Longrightarrow> \<not> ready now row) \<Longrightarrow> 0 \<le> n \<Longrightarrow> claim_ok v now x n [] v"
  by (auto simp: claim_ok_def)

text \<open>Claims of one row each add up to a claim of a batch: a leased row is not ready again.\<close>

lemma claim_ok_Cons:
  assumes one: "claim_ok v now x 1 [r] v1" and rest: "claim_ok v1 now x n batch v2"
  shows "claim_ok v now x (n + 1) (r # batch) v2"
proof -
  obtain row where row: "v (delivery_id r) = Some row" "ready now row"
    "v1 (delivery_id r) = Some (leased x row)"
    using claim_ok_leased [OF one, of "delivery_id r"] by auto
  have other: "v1 did = v did" if "did \<noteq> delivery_id r" for did
    using one that by (simp add: claim_ok_def)
  have fresh: "delivery_id r \<notin> delivery_id ` set batch"
    using claim_ok_not_ready [OF rest row(3)] by (simp add: ready_def leased_def claimable_def)
  show ?thesis
    unfolding claim_ok_def
  proof (intro conjI allI ballI impI)
    show "distinct (map delivery_id (r # batch))" using rest fresh by (auto simp: claim_ok_def)
    show "\<exists>row. v (delivery_id b) = Some row \<and> ready now row \<and>
        b\<lparr>status := IN_FLIGHT\<rparr> = (row_rec row)\<lparr>status := IN_FLIGHT\<rparr>" if "b \<in> set (r # batch)" for b
    proof (cases "b = r")
      case True
      then show ?thesis using one by (simp add: claim_ok_def)
    next
      case False
      then have "b \<in> set batch" using that by simp
      moreover from this have "v1 (delivery_id b) = v (delivery_id b)" using fresh by (intro other) (metis image_eqI)
      ultimately show ?thesis using rest unfolding claim_ok_def by metis
    qed
    show "v2 did = (if did \<in> delivery_id ` set (r # batch) then map_option (leased x) (v did) else v did)" for did
      using rest row(1,3) other [of did] fresh by (cases "did = delivery_id r") (auto simp: claim_ok_def)
    show "fire_at b \<le> fire_at (row_rec row')"
      if "b \<in> set (r # batch)" "did \<notin> delivery_id ` set (r # batch)" "v did = Some row'" "ready now row'" for b did row'
    proof -
      have "did \<noteq> delivery_id r" "did \<notin> delivery_id ` set batch" using that(2) by auto
      then show ?thesis
        using one rest that(1,3,4) other [of did] unfolding claim_ok_def by (cases "b = r") auto
    qed
    show "int (length (r # batch)) \<le> n + 1" using rest by (simp add: claim_ok_def)
    show "did \<in> delivery_id ` set (r # batch)"
      if "int (length (r # batch)) < n + 1" "v did = Some row'" "ready now row'" for did row'
      using rest that other [of did] unfolding claim_ok_def by (cases "did = delivery_id r") auto
  qed
qed

lemma mongo_ready:
  "doc_ok d \<Longrightarrow> mongo_claimable now d \<longleftrightarrow> ready (bson_ms now) (mongo_row d)"
  using doc_ok_text_iff [of d PENDING] doc_ok_text_iff [of d FAILED_RETRY]
  by (auto simp: mongo_claimable_def CLAIMABLE_def ready_def claimable_def split: option.split)

lemma find_one_and_lease_ok:
  assumes inv: "mongo_inv col" and run: "find_one_and_lease now x col = (found, col')"
  shows "case found of
      None \<Rightarrow> col' = col \<and> (\<forall>did row. mongo_view col did = Some row \<longrightarrow> \<not> ready (bson_ms now) row)
    | Some d \<Rightarrow> mongo_inv col' \<and> (\<exists>r. doc_to_record d = Inr r \<and>
        claim_ok (mongo_view col) (bson_ms now) (bson_ms x) 1 [r] (mongo_view col'))"
proof -
  define due where "due = sort_key (\<lambda>d. fire_at (row_rec (mongo_row d)))
    (filter (\<lambda>d. ready (bson_ms now) (mongo_row d)) col)"
  have ok: "table_ok m_id mongo_row col" "\<And>d. d \<in> set col \<Longrightarrow> doc_ok d" using inv by (auto simp: mongo_inv_def)
  have "filter (mongo_claimable now) col = filter (\<lambda>d. ready (bson_ms now) (mongo_row d)) col"
    using ok(2) by (intro filter_cong refl mongo_ready)
  moreover have "(\<lambda>d. fire_at (row_rec (mongo_row d))) = m_fire_at" by (simp add: fun_eq_iff)
  ultimately have due: "sort_key m_fire_at (filter (mongo_claimable now) col) = due" by (simp add: due_def)
  have in_due: "set due = {d \<in> set col. ready (bson_ms now) (mongo_row d)}" by (simp add: due_def)
  show ?thesis
  proof (cases due)
    case Nil
    then have "\<not> ready (bson_ms now) row" if "mongo_view col did = Some row" for did row
      using in_due that by (auto simp: mongo_view_def dest!: table_view_SomeD)
    then show ?thesis using run due Nil by (auto simp: find_one_and_lease_def)
  next
    case (Cons d rest)
    let ?P = "\<lambda>y. m_id y = m_id d" and ?f = "set_leased x"
    let ?r = "row_rec (mongo_row (?f d))"
    have d: "d \<in> set col" using in_due Cons by auto
    have run': "found = Some (?f d)" "col' = update_where ?P ?f col"
      using run due Cons by (simp_all add: find_one_and_lease_def)
    have inv': "mongo_inv col'"
      unfolding run' by (rule mongo_inv_update [OF inv]) simp_all
    have view': "table_view m_id mongo_row col' k
        = (if k \<in> m_id ` set [d] then map_option (leased (bson_ms x)) (table_view m_id mongo_row col k)
           else table_view m_id mongo_row col k)" for k
    proof -
      have "table_view m_id mongo_row col' = (\<lambda>k. map_option (\<lambda>row. if k = m_id d then leased (bson_ms x) row else row)
          (table_view m_id mongo_row col k))"
        unfolding run'
        by (rule table_view_update [where key = m_id and f = ?f and proj = mongo_row and g = "leased (bson_ms x)"
              and Q = "\<lambda>k _. k = m_id d" and P = ?P]) (simp_all add: mongo_moves)
      then show ?thesis by (simp add: option.map_ident)
    qed
    have first: "[d] = take (nat 1) (sort_key (\<lambda>d. fire_at (row_rec (mongo_row d)))
        (filter (\<lambda>d. ready (bson_ms now) (mongo_row d)) col))"
      unfolding due_def [symmetric] using Cons by simp
    have r: "delivery_id ?r = m_id d" "?r\<lparr>status := IN_FLIGHT\<rparr> = (row_rec (mongo_row d))\<lparr>status := IN_FLIGHT\<rparr>"
      by (simp_all add: mongo_moves leased_def)
    have "claim_ok (mongo_view col) (bson_ms now) (bson_ms x) 1 [?r] (mongo_view col')"
      unfolding mongo_view_def by (rule table_claim_ok [OF ok(1) _ first _ _ _ view']) (use d r in auto)
    moreover have "doc_to_record (?f d) = Inr ?r"
      by (simp add: doc_to_record_def mongo_row_def set_leased_def status_text_def status_of_value_def)
    ultimately show ?thesis using run'(1) inv' by auto
  qed
qed

lemma claim_loop_ok:
  "mongo_inv col \<Longrightarrow> \<exists>batch col'. claim_loop now x n col = (Inr batch, col') \<and> mongo_inv col' \<and>
     claim_ok (mongo_view col) (bson_ms now) (bson_ms x) (int n) batch (mongo_view col')"
proof (induction n arbitrary: col)
  case 0
  then show ?case by (simp add: claim_ok_none)
next
  case (Suc n)
  obtain found col1 where run: "find_one_and_lease now x col = (found, col1)" by fastforce
  note found = find_one_and_lease_ok [OF Suc.prems run]
  show ?case
  proof (cases found)
    case None
    then have "claim_ok (mongo_view col) (bson_ms now) (bson_ms x) (int (Suc n)) [] (mongo_view col)"
      using found by (intro claim_ok_none(2)) auto
    then show ?thesis using run None found Suc.prems by simp
  next
    case (Some d)
    then obtain r where r: "mongo_inv col1" "doc_to_record d = Inr r"
      "claim_ok (mongo_view col) (bson_ms now) (bson_ms x) 1 [r] (mongo_view col1)" using found by auto
    obtain batch col' where rest: "claim_loop now x n col1 = (Inr batch, col')" "mongo_inv col'"
      "claim_ok (mongo_view col1) (bson_ms now) (bson_ms x) (int n) batch (mongo_view col')"
      using Suc.IH [OF r(1)] by blast
    have "claim_ok (mongo_view col) (bson_ms now) (bson_ms x) (int (Suc n)) (r # batch) (mongo_view col')"
      using claim_ok_Cons [OF r(3) rest(3)] by (simp add: add.commute)
    then show ?thesis using run Some r(2) rest by simp
  qed
qed

section \<open>The contract\<close>

lemma mongo_store_simps [simp]:
  "enqueue_many (mongo_store cap) = mongo_enqueue_many" "claim_batch (mongo_store cap) = mongo_claim_batch"
  "reclaim_stale (mongo_store cap) = mongo_reclaim_stale" "mark_sent (mongo_store cap) = mongo_mark_sent cap"
  "schedule_retry (mongo_store cap) = mongo_schedule_retry cap" "mark_dead (mongo_store cap) = mongo_mark_dead cap"
  "append_attempt (mongo_store cap) = mongo_append_attempt cap" "store_get (mongo_store cap) = mongo_get"
  "recent_for_subscription (mongo_store cap) = mongo_recent_for_subscription"
  by (simp_all add: mongo_store_def)

lemma doc_to_record_ok: "doc_ok d \<Longrightarrow> doc_to_record d = Inr (row_rec (mongo_row d))"
  using doc_ok_status [of d] by (auto simp: doc_to_record_def mongo_row_def)

lemma mongo_get_eq: "mongo_inv col \<Longrightarrow> mongo_get did col = (Inr (map_option row_rec (mongo_view col did)), col)"
  using lookup_SomeD [of m_id col did]
  by (auto simp: mongo_get_def mongo_view_def table_view_def mongo_inv_def doc_to_record_ok split: option.split)

lemma mongo_recent:
  assumes inv: "mongo_inv col" and n: "0 < n"
  shows "\<exists>rs. mongo_recent_for_subscription sid n col = (Inr rs, col) \<and> int (length rs) \<le> n \<and>
    (\<forall>r \<in> set rs. subscription_id r = sid \<and> (\<exists>row. mongo_view col (delivery_id r) = Some row \<and> row_rec row = r))"
proof -
  define docs where "docs = take (nat n) (sort_key (\<lambda>d. - m_created_at d) (filter (\<lambda>d. m_subscription_id d = sid) col))"
  have docs: "set docs \<subseteq> {d \<in> set col. m_subscription_id d = sid}"
    using set_take_subset unfolding docs_def by fastforce
  have "map_exc doc_to_record docs = Inr (map (row_rec \<circ> mongo_row) docs)"
    using docs inv by (intro map_exc_Inr) (auto simp: mongo_inv_def doc_to_record_ok)
  moreover have "subscription_id r = sid \<and> (\<exists>row. mongo_view col (delivery_id r) = Some row \<and> row_rec row = r)"
    if r: "r \<in> set (map (row_rec \<circ> mongo_row) docs)" for r
  proof -
    obtain d where d: "d \<in> set docs" "r = row_rec (mongo_row d)" using r by auto
    then have "mongo_view col (m_id d) = Some (mongo_row d)" "m_subscription_id d = sid"
      using docs inv by (auto simp: mongo_view_def mongo_inv_def table_view_in)
    then show ?thesis by (simp add: d(2))
  qed
  moreover have "int (length docs) \<le> n" using n by (simp add: docs_def)
  ultimately show ?thesis using n by (simp add: mongo_recent_for_subscription_def docs_def [symmetric])
qed

lemma mongo_claim:
  assumes "mongo_inv col" and "0 \<le> n"
  shows "\<exists>batch col'. mongo_claim_batch now ttl n col = (Inr batch, col') \<and> mongo_inv col' \<and>
    claim_ok (mongo_view col) (bson_ms now) (bson_ms now + seconds ttl) n batch (mongo_view col')"
  using claim_loop_ok [OF assms(1), of now "now + seconds ttl" "nat n"] assms(2)
  by (simp add: mongo_claim_batch_def bson_ms_seconds)

interpretation mongo: delivery_store_contract "mongo_store cap" mongo_view mongo_inv bson_ms mongo_keep
  for cap
proof unfold_locales
  fix t t' :: time and n :: int and d :: DeliveryRecord
  show "t \<le> t' \<Longrightarrow> bson_ms t \<le> bson_ms t'" by (rule bson_ms_mono)
  show "bson_ms (t + seconds n) = bson_ms t + seconds n" by (rule bson_ms_seconds)
  show "delivery_id (mongo_keep d) = delivery_id d" "status (mongo_keep d) = status d"
    "fire_at (mongo_keep d) = bson_ms (fire_at d)" "profile d \<noteq> [] \<Longrightarrow> profile (mongo_keep d) = profile d"
    "secret_version (mongo_keep d) = secret_version d"
    by (simp_all add: mongo_keep_def)
next
  fix s did r a t rs now ttl n sid
  show "mongo_inv s \<Longrightarrow> view_ok (mongo_view s)" by (simp add: mongo_inv_def mongo_view_def table_view_ok)
  show "mongo_inv s \<Longrightarrow> list_all (\<lambda>r. status r = PENDING) rs \<Longrightarrow>
      \<exists>s'. enqueue_many (mongo_store cap) rs s = (Inr (), s') \<and> mongo_inv s' \<and>
        mongo_view s' = enqueued (map mongo_keep rs) (mongo_view s)"
    using mongo_enqueue by simp
  show "mongo_inv s \<Longrightarrow> 0 \<le> n \<Longrightarrow>
      \<exists>batch s'. claim_batch (mongo_store cap) now ttl n s = (Inr batch, s') \<and> mongo_inv s' \<and>
        claim_ok (mongo_view s) (bson_ms now) (bson_ms now + seconds ttl) n batch (mongo_view s')"
    using mongo_claim by simp
  show "mongo_inv s \<Longrightarrow> \<exists>s'. reclaim_stale (mongo_store cap) now s
        = (Inr (int (card (stale_ids (bson_ms now) (mongo_view s)))), s') \<and> mongo_inv s' \<and>
        mongo_view s' = reclaimed (bson_ms now) (mongo_view s)"
    using mongo_reclaim by simp
  show "mongo_inv s \<Longrightarrow> mongo_view s did = Some r \<Longrightarrow>
      \<exists>k s'. mark_sent (mongo_store cap) did a s = (Inr (), s') \<and> mongo_inv s' \<and>
        mongo_view s' = (mongo_view s)(did \<mapsto> settled SENT k r) \<and> k \<in> {attempts (row_rec r), att_attempt a}"
    using mongo_marks_ok(1) [where col = s and did = did and row = r and a = a and n = cap] by fastforce
  show "mongo_inv s \<Longrightarrow> mongo_view s did = Some r \<Longrightarrow>
      \<exists>k s'. mark_dead (mongo_store cap) did a s = (Inr (), s') \<and> mongo_inv s' \<and>
        mongo_view s' = (mongo_view s)(did \<mapsto> settled DEAD_LETTERED k r) \<and> k \<in> {attempts (row_rec r), att_attempt a}"
    using mongo_marks_ok(2) [where col = s and did = did and row = r and a = a and n = cap] by fastforce
  show "mongo_inv s \<Longrightarrow> mongo_view s did = Some r \<Longrightarrow>
      \<exists>k s'. schedule_retry (mongo_store cap) did t a s = (Inr (), s') \<and> mongo_inv s' \<and>
        mongo_view s' = (mongo_view s)(did \<mapsto> retried (bson_ms t) k r) \<and>
        (att_attempt a = attempts (row_rec r) + 1 \<longrightarrow> k = attempts (row_rec r) + 1)"
    using mongo_marks_ok(3) [where col = s and did = did and row = r and a = a and n = cap and t = t] by fastforce
  show "mongo_inv s \<Longrightarrow> mongo_view s did = Some r \<Longrightarrow>
      \<exists>k s'. append_attempt (mongo_store cap) did a s = (Inr (), s') \<and> mongo_inv s' \<and>
        mongo_view s' = (mongo_view s)(did \<mapsto> with_attempts k r) \<and> k \<in> {attempts (row_rec r), att_attempt a}"
  proof -
    assume *: "mongo_inv s" "mongo_view s did = Some r"
    have "with_attempts (attempts (row_rec r)) r = r" by (cases r) (simp add: with_attempts_def)
    then show "\<exists>k s'. append_attempt (mongo_store cap) did a s = (Inr (), s') \<and> mongo_inv s' \<and>
        mongo_view s' = (mongo_view s)(did \<mapsto> with_attempts k r) \<and> k \<in> {attempts (row_rec r), att_attempt a}"
      using mongo_marks_ok(4) [OF *, of cap a] by (metis insertI1 mongo_store_simps(7))
  qed
  show "mongo_inv s \<Longrightarrow> store_get (mongo_store cap) did s = (Inr (map_option row_rec (mongo_view s did)), s)"
    by (simp add: mongo_get_eq)
  show "mongo_inv s \<Longrightarrow> 0 < n \<Longrightarrow>
      \<exists>rs. recent_for_subscription (mongo_store cap) sid n s = (Inr rs, s) \<and> int (length rs) \<le> n \<and>
        (\<forall>r \<in> set rs. subscription_id r = sid \<and>
          (\<exists>row. mongo_view s (delivery_id r) = Some row \<and> row_rec row = r))"
    using mongo_recent by simp
qed

interpretation mongo_log: attempt_log_contract "mongo_store cap" mongo_view mongo_inv bson_ms mongo_keep
  for cap
proof unfold_locales
  fix s did r a
  assume *: "mongo_inv s" "mongo_view s did = Some r"
  then have "(mongo_view s)(did \<mapsto> r) = mongo_view s" by (simp add: fun_upd_idem)
  then show "\<exists>s'. append_attempt (mongo_store cap) did a s = (Inr (), s') \<and> mongo_inv s' \<and> mongo_view s' = mongo_view s"
    using mongo_marks_ok(4) [OF *, of cap a] by simp
qed

section \<open>Properties\<close>

definition mongo_reachable :: "int \<Rightarrow> mongo_col \<Rightarrow> bool" where
  "mongo_reachable cap col \<longleftrightarrow> (\<exists>es. store_run (mongo_store cap) [] es col)"

lemma mongo_inv_empty: "mongo_inv []"
  by (simp add: mongo_inv_def table_ok_def)

lemma mongo_reachable_inv: "mongo_reachable cap col \<Longrightarrow> mongo_inv col"
  using mongo.run_inv mongo_inv_empty by (auto simp: mongo_reachable_def)

text \<open>
  C24: the document store, which claims one document at a time, still claims like the others. One
  call hands out at most the number asked for, each delivery once, only deliveries pending or
  waiting for a retry and due at the millisecond of the call, the earliest due first, every
  due one when there is room; those become in flight with a lease, and nothing else changes.
\<close>

theorem mongo_claim_correct:
  assumes "mongo_reachable cap col" and "0 \<le> n"
  shows "\<exists>batch col'. mongo_claim_batch now ttl n col = (Inr batch, col') \<and>
    int (length batch) \<le> n \<and> distinct (map delivery_id batch) \<and>
    (\<forall>r \<in> set batch. \<exists>row. mongo_view col (delivery_id r) = Some row \<and>
       status (row_rec row) \<in> {PENDING, FAILED_RETRY} \<and> fire_at (row_rec row) \<le> bson_ms now) \<and>
    (\<forall>did. mongo_view col' did = (if did \<in> delivery_id ` set batch
       then map_option (leased (bson_ms now + seconds ttl)) (mongo_view col did) else mongo_view col did)) \<and>
    (\<forall>did row. mongo_view col did = Some row \<longrightarrow> did \<notin> delivery_id ` set batch \<longrightarrow>
       status (row_rec row) \<in> {PENDING, FAILED_RETRY} \<longrightarrow> fire_at (row_rec row) \<le> bson_ms now \<longrightarrow>
       int (length batch) = n \<and> (\<forall>r \<in> set batch. fire_at r \<le> fire_at (row_rec row)))"
proof -
  obtain batch col' where run: "mongo_claim_batch now ttl n col = (Inr batch, col')"
    and ok: "claim_ok (mongo_view col) (bson_ms now) (bson_ms now + seconds ttl) n batch (mongo_view col')"
    using mongo_claim [OF mongo_reachable_inv [OF assms(1)] assms(2)] by blast
  note c = ok [unfolded claim_ok_def ready_def claimable_def]
  have "int (length batch) = n \<and> (\<forall>r \<in> set batch. fire_at r \<le> fire_at (row_rec row))"
    if "mongo_view col did = Some row" "did \<notin> delivery_id ` set batch"
      "status (row_rec row) \<in> {PENDING, FAILED_RETRY}" "fire_at (row_rec row) \<le> bson_ms now" for did row
    using c that by (metis insert_iff empty_iff order_le_less)
  moreover have "\<exists>row. mongo_view col (delivery_id r) = Some row \<and>
       status (row_rec row) \<in> {PENDING, FAILED_RETRY} \<and> fire_at (row_rec row) \<le> bson_ms now"
    if "r \<in> set batch" for r
    using c that by fastforce
  ultimately show ?thesis using c run by (intro exI [of _ batch] exI [of _ col']) blast
qed

definition sample_col :: mongo_col where
  "sample_col = snd (mongo_enqueue_many [sample_record ''b'' 1999, sample_record ''a'' 0] [])"

lemma sample_col_reachable: "mongo_reachable 20 sample_col"
proof -
  have "store_step (mongo_store 20) (Enqueue [sample_record ''b'' 1999, sample_record ''a'' 0]) [] sample_col"
    by (rule step_enqueue) (simp add: sample_record_def, simp add: sample_col_def mongo_enqueue_many_def
        insert_unordered_def record_to_doc_def sample_record_def)
  then show ?thesis by (auto simp: mongo_reachable_def intro: store_run.intros)
qed

theorem mongo_claim_correct_witness:
  "\<exists>batch col'. mongo_claim_batch 1500 30 1 sample_col = (Inr batch, col') \<and> length batch \<le> 1"
  using mongo_claim_correct [OF sample_col_reachable, of 1 1500 30] by force

text \<open>
  A crashed worker's claim comes back in the document store too, one millisecond later at the
  latest: a claimed delivery nobody reported on is pending, due and without a lease after the
  first reclaim a millisecond past its lease.
\<close>

theorem mongo_crash_recovery:
  assumes "mongo_reachable cap col" and "store_step (mongo_store cap) (Claim now ttl n batch) col col1"
    and "did \<in> delivery_id ` set batch"
    and "now + seconds ttl + 1000 \<le> t" and "store_step (mongo_store cap) (Reclaim t) col1 col2"
  shows "\<exists>r. mongo_view col2 did = Some (Row r None) \<and> status r = PENDING \<and> fire_at r \<le> now"
proof -
  have "(now + seconds ttl) div 1000 + 1 \<le> t div 1000"
    using zdiv_mono1 [OF assms(4), of 1000] by simp
  then have "bson_ms (now + seconds ttl) < bson_ms t" by (simp add: bson_ms_def)
  from mongo.crash_recovery [OF mongo_reachable_inv [OF assms(1)] assms(2,3) this assms(5)]
  obtain r where r: "mongo_view col2 did = Some (Row r None)" "status r = PENDING" "fire_at r \<le> bson_ms now"
    by blast
  moreover have "bson_ms now \<le> now" unfolding bson_ms_def by (simp add: minus_mod_eq_div_mult [symmetric])
  ultimately show ?thesis by auto
qed

definition sample_col2 :: mongo_col where
  "sample_col2 = snd (mongo_claim_batch 1500 30 1 sample_col)"

theorem mongo_crash_recovery_witness:
  "\<exists>col2 r. store_step (mongo_store 20) (Reclaim (seconds 40)) sample_col2 col2 \<and>
     mongo_view col2 ''a'' = Some (Row r None) \<and> status r = PENDING"
proof -
  have got: "case mongo_claim_batch 1500 30 1 sample_col of (Inr [r], _) \<Rightarrow> delivery_id r = ''a'' | _ \<Rightarrow> False"
    by code_simp
  obtain res c where run: "mongo_claim_batch 1500 30 1 sample_col = (res, c)" by fastforce
  with got obtain r where r: "res = Inr [r]" "delivery_id r = ''a''" by (auto split: sum.splits list.splits)
  have step: "store_step (mongo_store 20) (Claim 1500 30 1 [r]) sample_col sample_col2"
    using run r(1) by (intro step_claim) (simp_all add: sample_col2_def)
  obtain col2 where "reclaim_stale (mongo_store 20) (seconds 40) sample_col2
      = (Inr (int (card (stale_ids (bson_ms (seconds 40)) (mongo_view sample_col2)))), col2)"
    using mongo.reclaim [OF mongo.step_inv [OF step mongo_reachable_inv [OF sample_col_reachable]]] by blast
  then have "store_step (mongo_store 20) (Reclaim (seconds 40)) sample_col2 col2" by (rule step_reclaim)
  moreover from mongo_crash_recovery [OF sample_col_reachable step _ _ this, of "''a''"] r(2)
  obtain x where "mongo_view col2 ''a'' = Some (Row x None)" "status x = PENDING" by (auto simp: seconds_def)
  ultimately show ?thesis by blast
qed

definition log_bounded :: "int \<Rightarrow> mongo_col \<Rightarrow> bool" where
  "log_bounded cap col \<longleftrightarrow> (\<forall>d \<in> set col. int (length (m_attempt_log d)) \<le> cap)"

lemma log_bounded_update:
  "log_bounded cap col \<Longrightarrow> (\<And>d. int (length (m_attempt_log d)) \<le> cap \<Longrightarrow> int (length (m_attempt_log (f d))) \<le> cap) \<Longrightarrow>
   log_bounded cap (update_where P f col)"
  by (auto simp: log_bounded_def set_update_where)

lemma log_push: "0 \<le> cap \<Longrightarrow> int (length (m_attempt_log (push_attempt cap a d))) \<le> cap"
  by (simp add: push_attempt_def Let_def)

lemma log_bounded_loop:
  "log_bounded cap col \<Longrightarrow> claim_loop now x n col = (res, col') \<Longrightarrow> log_bounded cap col'"
proof (induction n arbitrary: col res)
  case (Suc n)
  have "log_bounded cap (snd (find_one_and_lease now x col))"
    using Suc.prems(1)
    by (auto simp: find_one_and_lease_def set_leased_def intro!: log_bounded_update split: list.split)
  then show ?case
    using Suc by (auto split: prod.splits option.splits sum.splits)
qed simp

lemma log_bounded_insert:
  assumes "log_bounded cap col" and "0 \<le> cap"
  shows "log_bounded cap (snd (insert_unordered m_id (map record_to_doc rs) col))"
proof -
  obtain es where "insert_unordered m_id (map record_to_doc rs) col = (es, fold (insert_new m_id) (map record_to_doc rs) col)"
    using insert_unordered_ok by blast
  moreover have "m_attempt_log (record_to_doc r) = []" for r by (simp add: record_to_doc_def)
  ultimately show ?thesis
    using assms set_fold_insert [of m_id "map record_to_doc rs" col] unfolding log_bounded_def by fastforce
qed

lemma log_bounded_step:
  assumes "store_step (mongo_store cap) e col col'" and "log_bounded cap col" and "0 \<le> cap"
  shows "log_bounded cap col'"
  using assms
proof (cases rule: store_step.cases)
  case (step_enqueue rs)
  then show ?thesis
    using log_bounded_insert [OF assms(2,3), of rs] assms(2)
    by (auto simp: mongo_enqueue_many_def split: if_splits prod.splits)
next
  case (step_claim n now ttl batch)
  then show ?thesis using log_bounded_loop [OF assms(2)] by (auto simp: mongo_claim_batch_def)
next
  case (step_reclaim now k)
  then show ?thesis using assms(2) by (auto simp: mongo_reclaim_stale_def intro!: log_bounded_update)
qed (use assms(2,3) log_push in \<open>auto simp: mongo_mark_sent_def mongo_schedule_retry_def mongo_mark_dead_def
      mongo_append_attempt_def update_one_def intro!: log_bounded_update\<close>)

text \<open>
  The attempt log embedded in a document stays within the limit. In every state a run of the
  document store reaches from the empty collection, no document holds more than
  \<open>attempts_limit\<close> attempts, and an attempt just logged is the first of its log.
\<close>

theorem mongo_log_bounded:
  assumes "0 < cap" and "store_run (mongo_store cap) [] es col" and "d \<in> set col"
  shows "int (length (m_attempt_log d)) \<le> cap \<and>
    hd (m_attempt_log (push_attempt cap a d)) = attempt_to_subdoc a"
proof -
  have "log_bounded cap col'" if "store_run (mongo_store cap) col0 es col'" "log_bounded cap col0" for col0 es col'
    using that by (induction rule: store_run.induct) (use assms(1) log_bounded_step in \<open>fastforce+\<close>)
  then have "log_bounded cap col" using assms(2) by (simp add: log_bounded_def)
  moreover obtain k where "nat cap = Suc k" using assms(1) by (metis not0_implies_Suc zero_less_nat_eq less_numeral_extra(3))
  ultimately show ?thesis using assms(1,3) by (simp add: log_bounded_def push_attempt_def Let_def)
qed

theorem mongo_log_bounded_witness:
  "\<exists>es. store_run (mongo_store 20) [] es sample_col \<and>
     (\<forall>d \<in> set sample_col. int (length (m_attempt_log d)) \<le> 20)"
proof -
  obtain es where run: "store_run (mongo_store 20) [] es sample_col"
    using sample_col_reachable by (auto simp: mongo_reachable_def)
  then show ?thesis using mongo_log_bounded [OF _ run] by auto
qed

end
