(* ===== verification/RedisStore.thy ===== *)
theory RedisStore
  imports StoreSpec Envelope PyFloat
begin

text \<open>
  The Redis store (\<open>stores/redis.py\<close>): the sorted sets \<open>ready\<close> and \<open>inflight\<close> of delivery ids,
  with the instant they are due and the end of their lease in milliseconds, a hash per delivery,
  a capped list of attempts, a stream of attempt summaries per subscription and the first delivery
  of an event and subscription, with the time it is remembered. A script or a
  single command is atomic; an operation is the sequence of them its method issues, here without
  another client in between. \<open>utf8_ok\<close> says which bytes are UTF-8, \<open>xtrim\<close> is the approximate
  \<open>MAXLEN\<close> of a stream and \<open>loads\<close> is \<open>json.loads\<close> (\<open>None\<close> is the \<open>JSONDecodeError\<close>). An expiry
  is recorded, not executed: a key vanishes by itself when its time has passed.
\<close>

record RedisDb =
  rz_ready :: "(string, int) dict"
  rz_inflight :: "(string, int) dict"
  rz_hash :: "(string, (string, string) dict) dict"
  rz_hash_ttl :: "(string, int) dict"
  rz_atts :: "(string, string list) dict"
  rz_atts_ttl :: "(string, int) dict"
  rz_recent :: "(string, (string, string) dict list) dict"
  rz_idem :: "(string, string \<times> int) dict"

definition redis_empty :: RedisDb where
  "redis_empty = \<lparr>rz_ready = [], rz_inflight = [], rz_hash = [], rz_hash_ttl = [], rz_atts = [],
     rz_atts_ttl = [], rz_recent = [], rz_idem = []\<rparr>"

section \<open>Keys\<close>

text \<open>The tables above hold, under an id, what the store keeps under these keys.\<close>

definition redis_key :: "WebhookStorageConfig \<Rightarrow> string list \<Rightarrow> string" where
  "redis_key cfg parts = key_prefix cfg @ '':'' @ join '':'' parts"

definition ready_key :: "WebhookStorageConfig \<Rightarrow> string" where
  "ready_key cfg = redis_key cfg [''ready'']"

definition inflight_key :: "WebhookStorageConfig \<Rightarrow> string" where
  "inflight_key cfg = redis_key cfg [''inflight'']"

definition delivery_key :: "WebhookStorageConfig \<Rightarrow> string \<Rightarrow> string" where
  "delivery_key cfg did = redis_key cfg [''d'', did]"

definition attempts_key :: "WebhookStorageConfig \<Rightarrow> string \<Rightarrow> string" where
  "attempts_key cfg did = redis_key cfg [''d'', did, ''atts'']"

definition recent_key :: "WebhookStorageConfig \<Rightarrow> string \<Rightarrow> string" where
  "recent_key cfg sid = redis_key cfg [''sub'', sid, ''recent'']"

definition idem_key :: "WebhookStorageConfig \<Rightarrow> string \<Rightarrow> string \<Rightarrow> string" where
  "idem_key cfg eid sid = redis_key cfg [''idem'', eid, sid]"

section \<open>Instants\<close>

text \<open>\<open>int(dt.timestamp() * 1000)\<close> and \<open>datetime.fromtimestamp(ms / 1000)\<close>, in double precision.\<close>

definition to_ms :: "time \<Rightarrow> int" where
  "to_ms t = trunc (fl (fl (of_int t / 1000000) * 1000))"

definition from_ms :: "int \<Rightarrow> time" where
  "from_ms ms = micros (fl (of_int ms / 1000))"

section \<open>Records and hashes\<close>

definition or_empty :: "string option \<Rightarrow> string" where
  "or_empty s = (case s of None \<Rightarrow> [] | Some t \<Rightarrow> t)"

definition or_none :: "string \<Rightarrow> string option" where
  "or_none s = (if s = [] then None else Some s)"

text \<open>A client encodes text to UTF-8, so the hash keeps the bytes of \<open>data_json\<close> as they are.\<close>

definition record_to_hash :: "(bytes \<Rightarrow> bool) \<Rightarrow> DeliveryRecord \<Rightarrow> exc + (string, string) dict" where
  "record_to_hash utf8_ok r =
     (if \<not> utf8_ok (data_json r) then Inl (ValueError ''invalid utf-8'')
      else Inr [(''delivery_id'', delivery_id r), (''subscription_id'', subscription_id r),
        (''owner_id'', owner_id r), (''event_name'', event_name r), (''event_id'', event_id r),
        (''schema_version'', schema_version r), (''tenant_id'', or_empty (tenant_id r)),
        (''data_json'', data_json r), (''emitted_at_ms'', str_int (to_ms (emitted_at r))),
        (''target_url'', target_url r), (''resolved_ip'', resolved_ip r),
        (''redelivery_of'', or_empty (redelivery_of r)), (''attempts'', str_int (attempts r)),
        (''fire_at_ms'', str_int (to_ms (fire_at r))), (''created_at_ms'', str_int (to_ms (created_at r))),
        (''status'', status_value (status r)), (''profile'', profile r),
        (''secret_version'', or_empty (secret_version r))])"

definition field :: "(string, string) dict \<Rightarrow> string \<Rightarrow> string" where
  "field h k = (case dict_get h k of None \<Rightarrow> [] | Some v \<Rightarrow> v)"

definition int_field :: "(string, string) dict \<Rightarrow> string \<Rightarrow> exc + int" where
  "int_field h k =
     (let v = (if field h k = [] then ''0'' else field h k)
      in case py_int v of
           None \<Rightarrow> Inl (ValueError (''invalid literal for int() with base 10: '' @ quoted v))
         | Some n \<Rightarrow> Inr n)"

definition hash_to_record :: "(string, string) dict \<Rightarrow> exc + DeliveryRecord" where
  "hash_to_record h =
     (case int_field h ''emitted_at_ms'' of Inl e \<Rightarrow> Inl e | Inr emitted \<Rightarrow>
      (case int_field h ''attempts'' of Inl e \<Rightarrow> Inl e | Inr n \<Rightarrow>
      (case int_field h ''fire_at_ms'' of Inl e \<Rightarrow> Inl e | Inr fire \<Rightarrow>
      (case int_field h ''created_at_ms'' of Inl e \<Rightarrow> Inl e | Inr created \<Rightarrow>
      (let st = (if field h ''status'' = [] then status_value PENDING else field h ''status'')
       in case status_of_value st of
            None \<Rightarrow> Inl (ValueError (quoted st @ '' is not a valid DeliveryStatus''))
          | Some stat \<Rightarrow> Inr
              \<lparr>delivery_id = field h ''delivery_id'', subscription_id = field h ''subscription_id'',
               owner_id = field h ''owner_id'', event_name = field h ''event_name'',
               event_id = field h ''event_id'', schema_version = field h ''schema_version'',
               tenant_id = or_none (field h ''tenant_id''), data_json = field h ''data_json'',
               emitted_at = from_ms emitted, target_url = field h ''target_url'',
               resolved_ip = field h ''resolved_ip'', redelivery_of = or_none (field h ''redelivery_of''),
               attempts = n, fire_at = from_ms fire, created_at = from_ms created, status = stat,
               profile = (if field h ''profile'' = [] then DEFAULT_PROFILE else field h ''profile''),
               secret_version = or_none (field h ''secret_version'')\<rparr>)))))"

definition opt_int :: "int option \<Rightarrow> json" where
  "opt_int n = (case n of None \<Rightarrow> JNull | Some i \<Rightarrow> JInt i)"

definition attempt_to_json :: "AttemptRecord \<Rightarrow> string" where
  "attempt_to_json a = dumps_seps '','' '':'' (JObj
     [(''attempt'', JInt (att_attempt a)), (''attempted_at_ms'', JInt (to_ms (att_attempted_at a))),
      (''http_code'', opt_int (att_http_code a)), (''duration_ms'', JInt (att_duration_ms a)),
      (''error'', opt_str (att_error a)), (''response_snippet'', JStr (att_response_snippet a))])"

definition summary_json :: "string \<Rightarrow> AttemptRecord \<Rightarrow> json" where
  "summary_json did a = JObj
     [(''delivery_id'', JStr did), (''attempt'', JInt (att_attempt a)),
      (''http_code'', opt_int (att_http_code a)), (''duration_ms'', JInt (att_duration_ms a)),
      (''error'', JStr (or_empty (att_error a))), (''attempted_at_ms'', JInt (to_ms (att_attempted_at a)))]"

section \<open>Sorted sets\<close>

text \<open>\<open>ZRANGEBYSCORE key 0 max\<close>: by score, then by member.\<close>

definition z_before :: "string \<times> int \<Rightarrow> string \<times> int \<Rightarrow> bool" where
  "z_before a b \<longleftrightarrow> snd a < snd b \<or> snd a = snd b \<and> str_le (fst a) (fst b)"

fun z_insert :: "string \<times> int \<Rightarrow> (string \<times> int) list \<Rightarrow> (string \<times> int) list" where
  "z_insert x [] = [x]"
| "z_insert x (y # ys) = (if z_before x y then x # y # ys else y # z_insert x ys)"

definition z_range :: "(string, int) dict \<Rightarrow> int \<Rightarrow> string list" where
  "z_range z hi = map fst (foldr z_insert (filter (\<lambda>x. 0 \<le> snd x \<and> snd x \<le> hi) z) [])"

definition z_limit :: "int \<Rightarrow> 'a list \<Rightarrow> 'a list" where
  "z_limit n xs = (if n < 0 then xs else take (nat n) xs)"

text \<open>The two scripts.\<close>

definition claim_script :: "int \<Rightarrow> int \<Rightarrow> int \<Rightarrow> RedisDb \<Rightarrow> string list \<times> RedisDb" where
  "claim_script now_ms lease_ms n db =
     (let ids = z_limit n (z_range (rz_ready db) now_ms)
      in (ids, fold (\<lambda>i db. db\<lparr>rz_ready := dict_pop i (rz_ready db),
                               rz_inflight := dict_set i lease_ms (rz_inflight db)\<rparr>) ids db))"

definition reclaim_script :: "int \<Rightarrow> RedisDb \<Rightarrow> int \<times> RedisDb" where
  "reclaim_script now_ms db =
     (let stale = z_range (rz_inflight db) now_ms
      in (int (length stale),
          fold (\<lambda>i db. db\<lparr>rz_inflight := dict_pop i (rz_inflight db),
                          rz_ready := dict_set i now_ms (rz_ready db)\<rparr>) stale db))"

section \<open>The operations\<close>

definition hset :: "string \<Rightarrow> (string, string) dict \<Rightarrow> RedisDb \<Rightarrow> RedisDb" where
  "hset did flds db =
     db\<lparr>rz_hash := dict_set did
       (fold (\<lambda>(k, v). dict_set k v) flds (case dict_get (rz_hash db) did of None \<Rightarrow> [] | Some h \<Rightarrow> h))
       (rz_hash db)\<rparr>"

definition enqueue_one :: "WebhookStorageConfig \<Rightarrow> DeliveryRecord \<times> (string, string) dict \<Rightarrow> RedisDb \<Rightarrow> RedisDb" where
  "enqueue_one cfg = (\<lambda>(r, h) db.
     let key = idem_key cfg (event_id r) (subscription_id r);
         db1 = (if dict_get (rz_idem db) key = None
                then db\<lparr>rz_idem := dict_set key (delivery_id r, idempotency_ttl_s cfg) (rz_idem db)\<rparr> else db);
         db2 = hset (delivery_id r) h db1
     in db2\<lparr>rz_ready := dict_set (delivery_id r) (to_ms (fire_at r)) (rz_ready db2)\<rparr>)"

fun hashes_of :: "(bytes \<Rightarrow> bool) \<Rightarrow> DeliveryRecord list \<Rightarrow> exc + (DeliveryRecord \<times> (string, string) dict) list" where
  "hashes_of utf8_ok [] = Inr []"
| "hashes_of utf8_ok (r # rs) =
     (case record_to_hash utf8_ok r of
        Inl e \<Rightarrow> Inl e
      | Inr h \<Rightarrow> (case hashes_of utf8_ok rs of Inl e \<Rightarrow> Inl e | Inr hs \<Rightarrow> Inr ((r, h) # hs)))"

text \<open>The commands are buffered: when a record cannot be encoded none of them is sent.\<close>

definition redis_enqueue_many ::
  "WebhookStorageConfig \<Rightarrow> (bytes \<Rightarrow> bool) \<Rightarrow> DeliveryRecord list \<Rightarrow> (exc, RedisDb, unit) comp" where
  "redis_enqueue_many cfg utf8_ok records = (\<lambda>db.
     case hashes_of utf8_ok records of
       Inl e \<Rightarrow> (Inl e, db)
     | Inr rhs \<Rightarrow> (Inr (), fold (enqueue_one cfg) rhs db))"

text \<open>The hashes of the claimed ids; an id without one is skipped.\<close>

fun read_hashes :: "RedisDb \<Rightarrow> string list \<Rightarrow> exc + DeliveryRecord list" where
  "read_hashes db [] = Inr []"
| "read_hashes db (did # dids) =
     (case dict_get (rz_hash db) did of
        None \<Rightarrow> read_hashes db dids
      | Some [] \<Rightarrow> read_hashes db dids
      | Some h \<Rightarrow> (case hash_to_record h of
           Inl e \<Rightarrow> Inl e
         | Inr r \<Rightarrow> (case read_hashes db dids of Inl e \<Rightarrow> Inl e | Inr rs \<Rightarrow> Inr (r # rs))))"

definition redis_claim_batch :: "time \<Rightarrow> int \<Rightarrow> int \<Rightarrow> (exc, RedisDb, DeliveryRecord list) comp" where
  "redis_claim_batch now ttl_s n = (\<lambda>db.
     case claim_script (to_ms now) (to_ms now + ttl_s * 1000) n db of
       (ids, db1) \<Rightarrow>
         if ids = [] then (Inr [], db1)
         else (case read_hashes db1 ids of
                 Inl e \<Rightarrow> (Inl e, db1)
               | Inr rs \<Rightarrow>
                   (let records = map (\<lambda>r. r\<lparr>status := IN_FLIGHT\<rparr>) rs
                    in (Inr records,
                        fold (\<lambda>r. hset (delivery_id r) [(''status'', status_value IN_FLIGHT)]) records db1))))"

definition redis_reclaim_stale :: "time \<Rightarrow> (exc, RedisDb, int) comp" where
  "redis_reclaim_stale now = (\<lambda>db. case reclaim_script (to_ms now) db of (n, db1) \<Rightarrow> (Inr n, db1))"

text \<open>\<open>LTRIM key 0 stop\<close>: a negative \<open>stop\<close> counts from the end.\<close>

definition ltrim :: "int \<Rightarrow> 'a list \<Rightarrow> 'a list" where
  "ltrim stop xs = (if stop < 0 then take (nat (int (length xs) + stop + 1)) xs else take (nat (stop + 1)) xs)"

definition redis_append_attempt ::
  "WebhookStorageConfig \<Rightarrow> (int \<Rightarrow> (string, string) dict list \<Rightarrow> (string, string) dict list) \<Rightarrow>
   string \<Rightarrow> AttemptRecord \<Rightarrow> (exc, RedisDb, unit) comp" where
  "redis_append_attempt cfg xtrim did a = (\<lambda>db.
     let old = (case dict_get (rz_atts db) did of None \<Rightarrow> [] | Some l \<Rightarrow> l);
         db1 = db\<lparr>rz_atts := dict_set did (ltrim (attempts_history_limit cfg - 1) (attempt_to_json a # old)) (rz_atts db)\<rparr>;
         sid = (case dict_get (rz_hash db1) did of None \<Rightarrow> [] | Some h \<Rightarrow> field h ''subscription_id'')
     in (Inr (),
         if sid = [] then db1
         else (let stream = (case dict_get (rz_recent db1) sid of None \<Rightarrow> [] | Some l \<Rightarrow> l);
                   entry = [(''summary'', dumps_seps '','' '':'' (summary_json did a))]
               in db1\<lparr>rz_recent := dict_set sid (xtrim (recent_stream_maxlen cfg) (entry # stream)) (rz_recent db1)\<rparr>)))"

text \<open>\<open>EXPIRE\<close> of the hash and of the attempt list, where they exist.\<close>

definition expire_delivery :: "string \<Rightarrow> int \<Rightarrow> RedisDb \<Rightarrow> RedisDb" where
  "expire_delivery did ttl db = db\<lparr>
     rz_hash_ttl := (if dict_get (rz_hash db) did = None then rz_hash_ttl db else dict_set did ttl (rz_hash_ttl db)),
     rz_atts_ttl := (if dict_get (rz_atts db) did \<in> {None, Some []} then rz_atts_ttl db
                     else dict_set did ttl (rz_atts_ttl db))\<rparr>"

definition settle :: "DeliveryStatus \<Rightarrow> int \<Rightarrow> string \<Rightarrow> AttemptRecord \<Rightarrow> RedisDb \<Rightarrow> RedisDb" where
  "settle st ttl did a db =
     (let db1 = db\<lparr>rz_inflight := dict_pop did (rz_inflight db), rz_ready := dict_pop did (rz_ready db)\<rparr>;
          db2 = hset did [(''status'', status_value st), (''attempts'', str_int (att_attempt a))] db1
      in expire_delivery did ttl db2)"

definition redis_mark_sent where
  "redis_mark_sent cfg xtrim did a =
     bindE (redis_append_attempt cfg xtrim did a) (\<lambda>_ db. (Inr (), settle SENT (retention_sent_s cfg) did a db))"

definition redis_mark_dead where
  "redis_mark_dead cfg xtrim did a =
     bindE (redis_append_attempt cfg xtrim did a) (\<lambda>_ db. (Inr (), settle DEAD_LETTERED (retention_dead_s cfg) did a db))"

definition redis_schedule_retry where
  "redis_schedule_retry cfg xtrim did fire a =
     bindE (redis_append_attempt cfg xtrim did a) (\<lambda>_ db.
       let db1 = db\<lparr>rz_inflight := dict_pop did (rz_inflight db), rz_ready := dict_set did (to_ms fire) (rz_ready db)\<rparr>
       in (Inr (), hset did [(''status'', status_value FAILED_RETRY), (''attempts'', str_int (att_attempt a)),
                             (''fire_at_ms'', str_int (to_ms fire))] db1))"

definition redis_get :: "string \<Rightarrow> (exc, RedisDb, DeliveryRecord option) comp" where
  "redis_get did = (\<lambda>db.
     (case dict_get (rz_hash db) did of
        None \<Rightarrow> Inr None
      | Some [] \<Rightarrow> Inr None
      | Some h \<Rightarrow> (case hash_to_record h of Inl e \<Rightarrow> Inl e | Inr r \<Rightarrow> Inr (Some r)), db))"

text \<open>The delivery ids of the stream entries, newest first, one per entry.\<close>

definition json_false :: "json \<Rightarrow> bool" where
  "json_false v \<longleftrightarrow> v \<in> {JNull, JBool False, JInt 0, JFloat ''0.0'', JFloat ''-0.0'', JStr [], JList [], JObj []}"

fun summary_ids :: "(string \<Rightarrow> json option) \<Rightarrow> (string, string) dict list \<Rightarrow> exc + string list" where
  "summary_ids loads [] = Inr []"
| "summary_ids loads (flds # entries) =
     (case dict_get flds ''summary'' of
        None \<Rightarrow> summary_ids loads entries
      | Some raw \<Rightarrow>
          (case loads raw of
             None \<Rightarrow> summary_ids loads entries
           | Some (JObj kvs) \<Rightarrow>
               (case dict_get (rev kvs) ''delivery_id'' of
                  None \<Rightarrow> summary_ids loads entries
                | Some v \<Rightarrow>
                    (if json_false v then summary_ids loads entries
                     else (case summary_ids loads entries of
                             Inl e \<Rightarrow> Inl e
                           | Inr ids \<Rightarrow> (case v of JStr did \<Rightarrow> Inr (did # ids)
                                         | _ \<Rightarrow> Inl (TypeError ''sequence item: expected str instance'')))))
           | Some _ \<Rightarrow> Inl (Other ''AttributeError'' ''object has no attribute get'')))"

definition redis_recent_for_subscription ::
  "(string \<Rightarrow> json option) \<Rightarrow> string \<Rightarrow> int \<Rightarrow> (exc, RedisDb, DeliveryRecord list) comp" where
  "redis_recent_for_subscription loads sid n = (\<lambda>db.
     (case summary_ids loads (take (nat n) (case dict_get (rz_recent db) sid of None \<Rightarrow> [] | Some l \<Rightarrow> l)) of
        Inl e \<Rightarrow> Inl e
      | Inr ids \<Rightarrow> read_hashes db ids, db))"

definition redis_store ::
  "WebhookStorageConfig \<Rightarrow> (bytes \<Rightarrow> bool) \<Rightarrow>
   (int \<Rightarrow> (string, string) dict list \<Rightarrow> (string, string) dict list) \<Rightarrow> (string \<Rightarrow> json option) \<Rightarrow> RedisDb delivery_store" where
  "redis_store cfg utf8_ok xtrim loads =
     \<lparr>enqueue_many = redis_enqueue_many cfg utf8_ok, claim_batch = redis_claim_batch,
      reclaim_stale = redis_reclaim_stale, mark_sent = redis_mark_sent cfg xtrim,
      schedule_retry = redis_schedule_retry cfg xtrim, mark_dead = redis_mark_dead cfg xtrim,
      append_attempt = redis_append_attempt cfg xtrim, store_get = redis_get,
      recent_for_subscription = redis_recent_for_subscription loads\<rparr>"

section \<open>What is kept of a record\<close>

definition redis_keep :: "DeliveryRecord \<Rightarrow> DeliveryRecord" where
  "redis_keep r = r\<lparr>tenant_id := or_none (or_empty (tenant_id r)), emitted_at := from_ms (to_ms (emitted_at r)),
     redelivery_of := or_none (or_empty (redelivery_of r)), fire_at := from_ms (to_ms (fire_at r)),
     created_at := from_ms (to_ms (created_at r)),
     profile := (if profile r = [] then DEFAULT_PROFILE else profile r),
     secret_version := or_none (or_empty (secret_version r))\<rparr>"

lemma trunc_mono:
  assumes le: "x \<le> y"
  shows "trunc x \<le> trunc y"
proof -
  consider "0 \<le> x" "0 \<le> y" | "x < 0" "0 \<le> y" | "x < 0" "y < 0" using le by linarith
  then show ?thesis
  proof cases
    case 1
    then show ?thesis using le by (simp add: trunc_def floor_mono)
  next
    case 2
    then have "0 \<le> \<lfloor>- x\<rfloor>" "0 \<le> \<lfloor>y\<rfloor>" by (simp_all add: le_floor_iff)
    then have "- \<lfloor>- x\<rfloor> \<le> \<lfloor>y\<rfloor>" by linarith
    then show ?thesis using 2 by (simp add: trunc_def)
  next
    case 3
    have "\<lfloor>- y\<rfloor> \<le> \<lfloor>- x\<rfloor>" using le by (simp add: floor_mono)
    then show ?thesis using 3 by (simp add: trunc_def)
  qed
qed

lemma to_ms_mono: "t \<le> t' \<Longrightarrow> to_ms t \<le> to_ms t'"
  unfolding to_ms_def by (intro trunc_mono fl_mono mult_right_mono divide_right_mono) simp_all

lemma to_ms_bound:
  assumes "\<bar>t\<bar> \<le> 2 ^ 59"
  shows "\<bar>to_ms t\<bar> \<le> 2 ^ 50"
proof -
  have up: "to_ms s \<le> 2 ^ 50" if "s \<le> 2 ^ 59" for s
  proof -
    have "(of_int s :: rat) \<le> of_int (2 ^ 59)" using that of_int_le_iff by blast
    then have "(of_int s :: rat) / 1000000 \<le> of_int (2 ^ 40)" by simp
    then have "fl (of_int s / 1000000) \<le> of_int (2 ^ 40)" by (rule fl_le) (rule fl_of_int, simp)
    then have "fl (of_int s / 1000000) * 1000 \<le> of_int (2 ^ 50)" by simp
    then have "fl (fl (of_int s / 1000000) * 1000) \<le> of_int (2 ^ 50)" by (rule fl_le) (rule fl_of_int, simp)
    from trunc_mono [OF this] show ?thesis by (simp add: to_ms_def trunc_def)
  qed
  have "to_ms (- t) = - to_ms t"
    by (auto simp: to_ms_def trunc_def)
  with up [of t] up [of "- t"] assms show ?thesis by linarith
qed

lemma py_int_small: "\<bar>i\<bar> \<le> 2 ^ 62 \<Longrightarrow> py_int (str_int i) = Some i"
proof (rule py_int_str_int)
  have "(2::int) ^ 62 < 10 ^ 19" by simp
  also have "(10::int) ^ 19 \<le> 10 ^ max_str_digits" by (rule power_increasing) (simp_all add: max_str_digits_def)
  finally show "\<bar>i\<bar> \<le> 2 ^ 62 \<Longrightarrow> \<bar>i\<bar> < 10 ^ max_str_digits" by linarith
qed

lemma int_field_str: "field h k = str_int i \<Longrightarrow> \<bar>i\<bar> \<le> 2 ^ 62 \<Longrightarrow> int_field h k = Inr i"
  by (simp add: int_field_def py_int_small)

lemma hash_reads_back:
  assumes "record_to_hash utf8_ok r = Inr h" and "\<bar>attempts r\<bar> \<le> 2 ^ 62"
    and "\<bar>emitted_at r\<bar> \<le> 2 ^ 59" and "\<bar>fire_at r\<bar> \<le> 2 ^ 59" and "\<bar>created_at r\<bar> \<le> 2 ^ 59"
  shows "hash_to_record h = Inr (redis_keep r)"
proof -
  have small: "\<bar>i\<bar> \<le> 2 ^ 62" if "\<bar>i\<bar> \<le> 2 ^ 50" for i :: int using that by simp
  have st: "status_value (status r) \<noteq> []" by (cases "status r") simp_all
  have f: "field h ''emitted_at_ms'' = str_int (to_ms (emitted_at r))" "field h ''attempts'' = str_int (attempts r)"
    "field h ''fire_at_ms'' = str_int (to_ms (fire_at r))" "field h ''created_at_ms'' = str_int (to_ms (created_at r))"
    and g: "field h ''delivery_id'' = delivery_id r"
      "field h ''subscription_id'' = subscription_id r"
      "field h ''owner_id'' = owner_id r"
      "field h ''event_name'' = event_name r"
      "field h ''event_id'' = event_id r"
      "field h ''schema_version'' = schema_version r"
      "field h ''target_url'' = target_url r"
      "field h ''resolved_ip'' = resolved_ip r"
      "field h ''profile'' = profile r"
      "field h ''data_json'' = data_json r"
      "field h ''tenant_id'' = or_empty (tenant_id r)"
      "field h ''redelivery_of'' = or_empty (redelivery_of r)"
      "field h ''secret_version'' = or_empty (secret_version r)"
      "field h ''status'' = status_value (status r)"
    using assms(1) unfolding record_to_hash_def field_def by (simp_all split: if_split_asm) (drule sym, simp)+
  have i: "int_field h ''emitted_at_ms'' = Inr (to_ms (emitted_at r))" "int_field h ''attempts'' = Inr (attempts r)"
    "int_field h ''fire_at_ms'' = Inr (to_ms (fire_at r))" "int_field h ''created_at_ms'' = Inr (to_ms (created_at r))"
    by (rule int_field_str [OF f(1) small [OF to_ms_bound [OF assms(3)]]],
        rule int_field_str [OF f(2) assms(2)],
        rule int_field_str [OF f(3) small [OF to_ms_bound [OF assms(4)]]],
        rule int_field_str [OF f(4) small [OF to_ms_bound [OF assms(5)]]])
  show ?thesis
    unfolding hash_to_record_def i g using st by (simp add: redis_keep_def)
qed



section \<open>Who holds a delivery\<close>

lemma set_z_range: "set (z_range z hi) = {k. \<exists>sc. (k, sc) \<in> set z \<and> 0 \<le> sc \<and> sc \<le> hi}"
proof -
  have ins: "set (z_insert x ys) = insert x (set ys)" for x ys by (induction ys) auto
  have "set (foldr z_insert xs []) = set xs" for xs by (induction xs) (simp_all add: ins)
  then show ?thesis by (force simp: z_range_def)
qed

lemma set_z_limit: "set (z_limit n xs) \<subseteq> set xs"
  by (simp add: z_limit_def set_take_subset)

lemma claim_script_eq:
  "claim_script now_ms lease_ms n db =
    (let ids = z_limit n (z_range (rz_ready db) now_ms)
     in (ids, db\<lparr>rz_ready := fold dict_pop ids (rz_ready db),
                rz_inflight := fold (\<lambda>i. dict_set i lease_ms) ids (rz_inflight db)\<rparr>))"
proof -
  have "fold (\<lambda>i db. db\<lparr>rz_ready := dict_pop i (rz_ready db), rz_inflight := dict_set i lease_ms (rz_inflight db)\<rparr>) ids db
      = db\<lparr>rz_ready := fold dict_pop ids (rz_ready db), rz_inflight := fold (\<lambda>i. dict_set i lease_ms) ids (rz_inflight db)\<rparr>" for ids
    by (induction ids arbitrary: db) simp_all
  then show ?thesis by (simp add: claim_script_def Let_def)
qed

lemma reclaim_script_eq:
  "reclaim_script now_ms db =
    (let stale = z_range (rz_inflight db) now_ms
     in (int (length stale), db\<lparr>rz_inflight := fold dict_pop stale (rz_inflight db),
                rz_ready := fold (\<lambda>i. dict_set i now_ms) stale (rz_ready db)\<rparr>))"
proof -
  have "fold (\<lambda>i db. db\<lparr>rz_inflight := dict_pop i (rz_inflight db), rz_ready := dict_set i now_ms (rz_ready db)\<rparr>) ids db
      = db\<lparr>rz_inflight := fold dict_pop ids (rz_inflight db), rz_ready := fold (\<lambda>i. dict_set i now_ms) ids (rz_ready db)\<rparr>" for ids
    by (induction ids arbitrary: db) simp_all
  then show ?thesis by (simp add: reclaim_script_def Let_def)
qed

lemma get_fold_pop: "dict_get (fold dict_pop ids d) k = (if k \<in> set ids then None else dict_get d k)"
  by (induction ids arbitrary: d) auto

lemma get_fold_set: "dict_get (fold (\<lambda>i. dict_set i v) ids d) k = (if k \<in> set ids then Some v else dict_get d k)"
  by (induction ids arbitrary: d) auto

lemma ok_fold_pop: "dict_ok d \<Longrightarrow> dict_ok (fold dict_pop ids d)"
  by (induction ids arbitrary: d) simp_all

lemma ok_fold_set: "dict_ok d \<Longrightarrow> dict_ok (fold (\<lambda>i. dict_set i v) ids d)"
  by (induction ids arbitrary: d) simp_all

lemma hset_sets [simp]:
  "rz_ready (hset did h db) = rz_ready db" "rz_inflight (hset did h db) = rz_inflight db"
  by (simp_all add: hset_def)

lemma field_hset:
  "dict_get (rz_hash (hset did flds db)) k = (if k = did then Some (fold (\<lambda>(k, v). dict_set k v) flds
     (case dict_get (rz_hash db) did of None \<Rightarrow> [] | Some h \<Rightarrow> h)) else dict_get (rz_hash db) k)"
  by (simp add: hset_def)

lemma field_fold_set: "k \<notin> fst ` set flds \<Longrightarrow> field (fold (\<lambda>(k, v). dict_set k v) flds h) k = field h k"
  by (induction flds arbitrary: h) (auto simp: field_def)

text \<open>The invariant: each hash carries its own id.\<close>

definition redis_inv :: "RedisDb \<Rightarrow> bool" where
  "redis_inv db \<longleftrightarrow> dict_ok (rz_ready db) \<and> dict_ok (rz_inflight db) \<and>
     (\<forall>did h. dict_get (rz_hash db) did = Some h \<longrightarrow> field h ''delivery_id'' = did)"

lemma hset_inv:
  assumes "redis_inv db" and "''delivery_id'' \<notin> fst ` set flds" and "dict_get (rz_hash db) did \<noteq> None"
  shows "redis_inv (hset did flds db)"
  using assms field_fold_set [OF assms(2)] by (auto simp: redis_inv_def field_hset)

lemma append_inv:
  assumes "redis_append_attempt cfg xtrim did a db = (res, db')"
  shows "res = Inr ()" "rz_ready db' = rz_ready db" "rz_inflight db' = rz_inflight db" "rz_hash db' = rz_hash db"
  using assms by (auto simp: redis_append_attempt_def Let_def split: if_splits)

lemma settle_sets [simp]:
  "rz_ready (settle st ttl did a db) = dict_pop did (rz_ready db)"
  "rz_inflight (settle st ttl did a db) = dict_pop did (rz_inflight db)"
  by (simp_all add: settle_def expire_delivery_def Let_def)

lemma settle_inv:
  assumes "redis_inv db" and "dict_get (rz_hash db) did \<noteq> None"
  shows "redis_inv (settle st ttl did a db)"
proof -
  let ?db = "db\<lparr>rz_inflight := dict_pop did (rz_inflight db), rz_ready := dict_pop did (rz_ready db)\<rparr>"
  have "redis_inv ?db" using assms(1) by (simp add: redis_inv_def)
  from hset_inv [OF this, of "[(''status'', status_value st), (''attempts'', str_int (att_attempt a))]" did] assms(2)
  show ?thesis by (simp add: settle_def expire_delivery_def Let_def redis_inv_def)
qed

lemma read_hashes_ids:
  "redis_inv db \<Longrightarrow> read_hashes db dids = Inr rs \<Longrightarrow>
   delivery_id ` set rs \<subseteq> set dids \<and> (\<forall>r \<in> set rs. dict_get (rz_hash db) (delivery_id r) \<noteq> None)"
proof (induction db dids arbitrary: rs rule: read_hashes.induct)
  case (2 db did dids)
  have id: "delivery_id r = field h ''delivery_id''" if "hash_to_record h = Inr r" for h r
    using that by (auto simp: hash_to_record_def Let_def split: sum.splits option.splits)
  show ?case
  proof (cases "dict_get (rz_hash db) did")
    case None
    then show ?thesis using 2 by auto
  next
    case (Some h)
    show ?thesis
    proof (cases h)
      case Nil
      then show ?thesis using 2 Some by auto
    next
      case (Cons x xs)
      then obtain r rs' where r: "hash_to_record h = Inr r" "read_hashes db dids = Inr rs'" "rs = r # rs'"
        using "2.prems"(2) Some by (auto split: sum.splits)
      then have "delivery_id r = did" using id "2.prems"(1) Some by (simp add: redis_inv_def)
      then show ?thesis using "2.IH"(3) [OF Some Cons] r Cons "2.prems"(1) Some by auto
    qed
  qed
qed simp

definition redis_held :: "int \<Rightarrow> string \<Rightarrow> RedisDb \<Rightarrow> bool" where
  "redis_held x did db \<longleftrightarrow> dict_get (rz_ready db) did = None \<and> dict_get (rz_inflight db) did \<in> {None, Some x}"

text \<open>
  What gives a held delivery back: a retry, a reclaim at or past the end of the lease, and,
  here only, enqueuing the id again.
\<close>

fun redis_releases :: "string \<Rightarrow> int \<Rightarrow> event \<Rightarrow> bool" where
  "redis_releases did x (Enqueue rs) = (did \<in> delivery_id ` set rs)"
| "redis_releases did x (Retry d t a) = (d = did)"
| "redis_releases did x (Reclaim now) = (x \<le> to_ms now)"
| "redis_releases did x _ = False"

lemma enqueue_fold_sets:
  "did \<notin> delivery_id ` fst ` set rhs \<Longrightarrow>
   dict_get (rz_ready (fold (enqueue_one cfg) rhs db)) did = dict_get (rz_ready db) did \<and>
   dict_get (rz_inflight (fold (enqueue_one cfg) rhs db)) did = dict_get (rz_inflight db) did"
  by (induction rhs arbitrary: db) (auto simp: enqueue_one_def Let_def)

lemma hashes_of_fst: "hashes_of utf8_ok rs = Inr rhs \<Longrightarrow> map fst rhs = rs \<and> (\<forall>(r, h) \<in> set rhs. record_to_hash utf8_ok r = Inr h)"
  by (induction rs arbitrary: rhs) (auto split: sum.splits)

lemma record_to_hash_id: "record_to_hash utf8_ok r = Inr h \<Longrightarrow> field (fold (\<lambda>(k, v). dict_set k v) h old) ''delivery_id'' = delivery_id r"
proof -
  assume "record_to_hash utf8_ok r = Inr h"
  then obtain rest where "h = (''delivery_id'', delivery_id r) # rest" "''delivery_id'' \<notin> fst ` set rest"
    by (auto simp: record_to_hash_def split: if_splits)
  then show ?thesis by (simp add: field_fold_set) (simp add: field_def)
qed

lemma enqueue_fold_inv:
  "redis_inv db \<Longrightarrow> \<forall>(r, h) \<in> set rhs. record_to_hash utf8_ok r = Inr h \<Longrightarrow> redis_inv (fold (enqueue_one cfg) rhs db)"
proof (induction rhs arbitrary: db)
  case (Cons rh rhs)
  obtain r h where rh: "rh = (r, h)" by (cases rh)
  have "redis_inv (enqueue_one cfg (r, h) db)"
    using Cons.prems rh record_to_hash_id
    by (auto simp: redis_inv_def enqueue_one_def Let_def field_hset split: if_splits)
  then show ?case using Cons rh by simp
qed simp

lemma claim_cases:
  assumes "redis_inv db" and "redis_claim_batch now ttl n db = (Inr batch, db')"
  shows "redis_inv db' \<and> (\<exists>ids. set ids \<subseteq> set (z_range (rz_ready db) (to_ms now)) \<and>
      delivery_id ` set batch \<subseteq> set ids \<and> rz_ready db' = fold dict_pop ids (rz_ready db) \<and>
      rz_inflight db' = fold (\<lambda>i. dict_set i (to_ms now + ttl * 1000)) ids (rz_inflight db))"
proof -
  let ?ids = "z_limit n (z_range (rz_ready db) (to_ms now))" and ?lease = "to_ms now + ttl * 1000"
  let ?db = "db\<lparr>rz_ready := fold dict_pop ?ids (rz_ready db), rz_inflight := fold (\<lambda>i. dict_set i ?lease) ?ids (rz_inflight db)\<rparr>"
  have inv: "redis_inv ?db" using assms(1) by (simp add: redis_inv_def ok_fold_pop ok_fold_set)
  show ?thesis
  proof (cases "?ids = []")
    case True
    then show ?thesis using assms(2) inv
      by (intro conjI exI [of _ ?ids]) (simp_all add: redis_claim_batch_def claim_script_eq Let_def)
  next
    case False
    then obtain rs where rs: "read_hashes ?db ?ids = Inr rs" "batch = map (\<lambda>r. r\<lparr>status := IN_FLIGHT\<rparr>) rs"
      "db' = fold (\<lambda>r. hset (delivery_id r) [(''status'', status_value IN_FLIGHT)]) batch ?db"
      using assms(2) by (auto simp: redis_claim_batch_def claim_script_eq Let_def split: sum.splits)
    have sub: "delivery_id ` set batch \<subseteq> set ?ids" "\<forall>r \<in> set batch. dict_get (rz_hash ?db) (delivery_id r) \<noteq> None"
      using read_hashes_ids [OF inv rs(1)] rs(2) by auto
    have upd: "redis_inv (fold (\<lambda>r. hset (delivery_id r) [(''status'', status_value IN_FLIGHT)]) b d) \<and>
        rz_ready (fold (\<lambda>r. hset (delivery_id r) [(''status'', status_value IN_FLIGHT)]) b d) = rz_ready d \<and>
        rz_inflight (fold (\<lambda>r. hset (delivery_id r) [(''status'', status_value IN_FLIGHT)]) b d) = rz_inflight d"
      if "redis_inv d" "\<forall>r \<in> set b. dict_get (rz_hash d) (delivery_id r) \<noteq> None" for b d
      using that
    proof (induction b arbitrary: d)
      case (Cons r b)
      have "redis_inv (hset (delivery_id r) [(''status'', status_value IN_FLIGHT)] d)"
        using Cons.prems by (intro hset_inv) auto
      moreover have "\<forall>r' \<in> set b. dict_get (rz_hash (hset (delivery_id r) [(''status'', status_value IN_FLIGHT)] d)) (delivery_id r') \<noteq> None"
        using Cons.prems by (auto simp: field_hset)
      ultimately show ?case using Cons.IH by simp
    qed simp
    have "set ?ids \<subseteq> set (z_range (rz_ready db) (to_ms now))" by (rule set_z_limit)
    then show ?thesis using upd [OF inv sub(2)] sub(1)
      unfolding rs(3) by (intro conjI exI [of _ ?ids]) simp_all
  qed
qed

lemma redis_get_hash: "redis_get did db = (Inr (Some r), db0) \<Longrightarrow> dict_get (rz_hash db) did \<noteq> None"
  by (auto simp: redis_get_def split: option.splits)

lemma redis_step:
  assumes "store_step (redis_store cfg utf8_ok xtrim loads) e db db'" and "redis_inv db"
  shows "redis_inv db' \<and> (redis_held x did db \<longrightarrow> \<not> redis_releases did x e \<longrightarrow> redis_held x did db')"
  using assms
proof (induction rule: store_step.induct)
  case (step_enqueue rs s s')
  then obtain rhs where r: "hashes_of utf8_ok rs = Inr rhs" "s' = fold (enqueue_one cfg) rhs s"
    by (auto simp: redis_store_def redis_enqueue_many_def split: sum.splits)
  have "delivery_id ` set rs = delivery_id ` fst ` set rhs" using hashes_of_fst [OF r(1)] by (metis set_map)
  then show ?case
    using enqueue_fold_inv [OF step_enqueue.prems] enqueue_fold_sets [of did rhs cfg s] hashes_of_fst [OF r(1)] r(2)
    by (auto simp: redis_held_def)
next
  case (step_claim n now ttl s batch s')
  then have "redis_claim_batch now ttl n s = (Inr batch, s')" by (simp add: redis_store_def)
  from claim_cases [OF step_claim.prems this] obtain ids where c: "redis_inv s'"
    "set ids \<subseteq> set (z_range (rz_ready s) (to_ms now))" "rz_ready s' = fold dict_pop ids (rz_ready s)"
    "rz_inflight s' = fold (\<lambda>i. dict_set i (to_ms now + ttl * 1000)) ids (rz_inflight s)" by blast
  have "redis_held x did s \<longrightarrow> did \<notin> set ids"
    using c(2) by (force simp: redis_held_def set_z_range map_of_eq_None_iff image_iff)
  then show ?case using c by (auto simp: redis_held_def get_fold_pop get_fold_set)
next
  case (step_reclaim now s k s')
  let ?st = "z_range (rz_inflight s) (to_ms now)"
  have s': "s' = s\<lparr>rz_inflight := fold dict_pop ?st (rz_inflight s), rz_ready := fold (\<lambda>i. dict_set i (to_ms now)) ?st (rz_ready s)\<rparr>"
    using step_reclaim.hyps by (simp add: redis_store_def redis_reclaim_stale_def reclaim_script_eq Let_def)
  have "did \<notin> set ?st" if "redis_held x did s" "\<not> x \<le> to_ms now"
  proof
    assume "did \<in> set ?st"
    then obtain sc where sc: "(did, sc) \<in> set (rz_inflight s)" "sc \<le> to_ms now" by (auto simp: set_z_range)
    then have "dict_get (rz_inflight s) did = Some sc"
      using step_reclaim.prems by (simp add: redis_inv_def dict_get_iff_in)
    then show False using that sc by (auto simp: redis_held_def)
  qed
  then show ?case using step_reclaim.prems unfolding s'
    by (auto simp: redis_held_def get_fold_pop get_fold_set redis_inv_def ok_fold_pop ok_fold_set)
next
  case (step_sent d s r s0 a s')
  have h: "dict_get (rz_hash s) d \<noteq> None" using step_sent.hyps by (simp add: redis_store_def redis_get_hash)
  obtain res s1 where a: "redis_append_attempt cfg xtrim d a s = (res, s1)" by fastforce
  have inv: "redis_inv s1" "dict_get (rz_hash s1) d \<noteq> None"
    using append_inv [OF a] step_sent.prems h by (simp_all add: redis_inv_def)
  have "s' = settle SENT (retention_sent_s cfg) d a s1"
    using step_sent.hyps a append_inv(1) [OF a] by (simp add: redis_store_def redis_mark_sent_def bindE_def)
  then show ?case using settle_inv [OF inv] append_inv [OF a] by (auto simp: redis_held_def)
next
  case (step_retry d s r s0 t a s')
  have h: "dict_get (rz_hash s) d \<noteq> None" using step_retry.hyps by (simp add: redis_store_def redis_get_hash)
  obtain res s1 where a: "redis_append_attempt cfg xtrim d a s = (res, s1)" by fastforce
  let ?s = "s1\<lparr>rz_inflight := dict_pop d (rz_inflight s1), rz_ready := dict_set d (to_ms t) (rz_ready s1)\<rparr>"
  have inv: "redis_inv ?s" "dict_get (rz_hash ?s) d \<noteq> None"
    using append_inv [OF a] step_retry.prems h by (simp_all add: redis_inv_def)
  have "s' = hset d [(''status'', status_value FAILED_RETRY), (''attempts'', str_int (att_attempt a)),
      (''fire_at_ms'', str_int (to_ms t))] ?s"
    using step_retry.hyps a append_inv(1) [OF a] by (simp add: redis_store_def redis_schedule_retry_def bindE_def Let_def)
  then show ?case using hset_inv [OF inv(1) _ inv(2)] append_inv [OF a] by (auto simp: redis_held_def)
next
  case (step_dead d s r s0 a s')
  have h: "dict_get (rz_hash s) d \<noteq> None" using step_dead.hyps by (simp add: redis_store_def redis_get_hash)
  obtain res s1 where a: "redis_append_attempt cfg xtrim d a s = (res, s1)" by fastforce
  have inv: "redis_inv s1" "dict_get (rz_hash s1) d \<noteq> None"
    using append_inv [OF a] step_dead.prems h by (simp_all add: redis_inv_def)
  have "s' = settle DEAD_LETTERED (retention_dead_s cfg) d a s1"
    using step_dead.hyps a append_inv(1) [OF a] by (simp add: redis_store_def redis_mark_dead_def bindE_def)
  then show ?case using settle_inv [OF inv] append_inv [OF a] by (auto simp: redis_held_def)
next
  case (step_append d s r s0 a s')
  then have a: "redis_append_attempt cfg xtrim d a s = (Inr (), s')" by (simp add: redis_store_def)
  show ?case using append_inv [OF a] step_append.prems by (simp add: redis_inv_def redis_held_def)
qed

lemma redis_run:
  "store_run (redis_store cfg utf8_ok xtrim loads) db es db' \<Longrightarrow> redis_inv db \<Longrightarrow>
   redis_inv db' \<and> (redis_held x did db \<longrightarrow> (\<forall>e \<in> set es. \<not> redis_releases did x e) \<longrightarrow> redis_held x did db')"
proof (induction rule: store_run.induct)
  case (run_Cons e s s' es s'')
  then show ?case using redis_step [OF run_Cons.hyps(1) run_Cons.prems, of x did] by auto
qed simp

text \<open>
  C29: a delivery is worked on by one worker at a time, in Redis. Once a claim has handed it out
  no later claim hands it out again, whatever else is done to the store, until it is retried,
  enqueued once more, or a reclaim runs at or past the end of its lease.
\<close>

theorem redis_claims_exclusive:
  assumes "store_run (redis_store cfg utf8_ok xtrim loads) redis_empty es0 db0"
    and "redis_claim_batch now ttl n db0 = (Inr batch, db1)" and "did \<in> delivery_id ` set batch"
    and "store_run (redis_store cfg utf8_ok xtrim loads) db1 es db2"
    and "\<forall>e \<in> set es. \<not> redis_releases did (to_ms now + ttl * 1000) e"
    and "redis_claim_batch now' ttl' n' db2 = (Inr batch', db3)"
  shows "did \<notin> delivery_id ` set batch'"
proof -
  have "redis_inv redis_empty" by (simp add: redis_inv_def redis_empty_def)
  then have inv0: "redis_inv db0" using redis_run [OF assms(1)] by blast
  obtain ids where c: "redis_inv db1" "did \<in> set ids" "rz_ready db1 = fold dict_pop ids (rz_ready db0)"
    "rz_inflight db1 = fold (\<lambda>i. dict_set i (to_ms now + ttl * 1000)) ids (rz_inflight db0)"
    using claim_cases [OF inv0 assms(2)] assms(3) by blast
  then have "redis_held (to_ms now + ttl * 1000) did db1"
    by (simp add: redis_held_def get_fold_pop get_fold_set)
  then have "redis_inv db2" "dict_get (rz_ready db2) did = None"
    using redis_run [OF assms(4) c(1)] assms(5) by (auto simp: redis_held_def)
  moreover have "delivery_id ` set batch' \<subseteq> set (z_range (rz_ready db2) (to_ms now'))"
    using claim_cases [OF \<open>redis_inv db2\<close> assms(6)] by blast
  ultimately show ?thesis by (force simp: set_z_range map_of_eq_None_iff image_iff)
qed

section \<open>Enqueuing an id again\<close>

lemma hash_covers:
  assumes "record_to_hash utf8_ok r = Inr h"
  shows "hash_to_record (fold (\<lambda>(k, v). dict_set k v) h old) = hash_to_record h"
proof -
  have dist: "distinct (map fst h)" using assms by (auto simp: record_to_hash_def split: if_splits)
  have upd: "field (fold (\<lambda>(k, v). dict_set k v) flds old) k = field flds k"
    if "distinct (map fst flds)" "k \<in> fst ` set flds" for flds old k
    using that
  proof (induction flds arbitrary: old)
    case (Cons x flds)
    show ?case
    proof (cases "fst x = k")
      case True
      then have "k \<notin> fst ` set flds" using Cons.prems by auto
      then show ?thesis using True field_fold_set [of k flds] by (cases x) (simp add: field_def)
    next
      case False
      then show ?thesis using Cons by (cases x) (auto simp: field_def)
    qed
  qed simp
  have keys: "fst ` set h = {''delivery_id'', ''subscription_id'', ''owner_id'', ''event_name'', ''event_id'',
      ''schema_version'', ''tenant_id'', ''data_json'', ''emitted_at_ms'', ''target_url'', ''resolved_ip'',
      ''redelivery_of'', ''attempts'', ''fire_at_ms'', ''created_at_ms'', ''status'', ''profile'', ''secret_version''}"
    using assms by (auto simp: record_to_hash_def split: if_splits)
  note f = upd [OF dist, unfolded keys]
  have i: "int_field (fold (\<lambda>(k, v). dict_set k v) h old) k = int_field h k" if "k \<in> fst ` set h" for k
    using upd [OF dist that] by (simp add: int_field_def)
  note i = i [unfolded keys]
  show ?thesis unfolding hash_to_record_def by (simp only: f i insert_iff simp_thms)
qed

lemma enqueue_replaces:
  assumes "record_to_hash utf8_ok r = Inr h" and "\<bar>attempts r\<bar> \<le> 2 ^ 62"
    and "\<bar>emitted_at r\<bar> \<le> 2 ^ 59" and "\<bar>fire_at r\<bar> \<le> 2 ^ 59" and "\<bar>created_at r\<bar> \<le> 2 ^ 59"
    and "redis_enqueue_many cfg utf8_ok [r] db = (res, db')"
  shows "res = Inr () \<and> redis_get (delivery_id r) db' = (Inr (Some (redis_keep r)), db') \<and>
    dict_get (rz_ready db') (delivery_id r) = Some (to_ms (fire_at r)) \<and> rz_inflight db' = rz_inflight db"
proof -
  let ?old = "case dict_get (rz_hash db) (delivery_id r) of None \<Rightarrow> [] | Some h \<Rightarrow> h"
  let ?h = "fold (\<lambda>(k, v). dict_set k v) h ?old"
  have db': "res = Inr ()" "db' = enqueue_one cfg (r, h) db"
    using assms(1,6) by (auto simp: redis_enqueue_many_def)
  have g: "dict_get (rz_hash db') (delivery_id r) = Some ?h"
    unfolding db' by (simp add: enqueue_one_def Let_def field_hset)
  have rec: "hash_to_record ?h = Inr (redis_keep r)"
    using hash_covers [OF assms(1)] hash_reads_back [OF assms(1-5)] by simp
  have "?h \<noteq> []"
  proof -
    have "dict_set k v d \<noteq> []" for k v and d :: "(string, string) dict" by (induction d) auto
    moreover obtain x xs where "h = xs @ [x]" using assms(1) by (cases h rule: rev_cases) (auto simp: record_to_hash_def split: if_splits)
    ultimately show ?thesis by (cases x) simp
  qed
  then obtain x xs where "?h = x # xs" by (cases ?h) simp_all
  then have "redis_get (delivery_id r) db' = (Inr (Some (redis_keep r)), db')"
    using g rec by (simp add: redis_get_def)
  then show ?thesis using db' by (simp add: enqueue_one_def Let_def)
qed

text \<open>
  In Redis an enqueue replaces what is there. Whatever the store holds under its id, be it
  sent, dead or in the hands of a worker, an enqueued record is afterwards the one read back,
  and due for a claim at its own instant; a lease that was running is not taken away, so a
  worker may still be sending what the next claim hands out.
\<close>

theorem redis_enqueue_overwrites:
  assumes "record_to_hash utf8_ok r = Inr h" and "\<bar>attempts r\<bar> \<le> 2 ^ 62"
    and "\<bar>emitted_at r\<bar> \<le> 2 ^ 59" and "\<bar>fire_at r\<bar> \<le> 2 ^ 59" and "\<bar>created_at r\<bar> \<le> 2 ^ 59"
    and "redis_enqueue_many cfg utf8_ok [r] db = (res, db')"
  shows "res = Inr () \<and> redis_get (delivery_id r) db' = (Inr (Some (redis_keep r)), db') \<and>
    dict_get (rz_ready db') (delivery_id r) = Some (to_ms (fire_at r)) \<and> rz_inflight db' = rz_inflight db"
  by (rule enqueue_replaces [OF assms])

text \<open>The witnesses share a small history: one delivery, enqueued and claimed.\<close>

definition redis_db0 :: RedisDb where
  "redis_db0 = snd (redis_enqueue_many default_storage (\<lambda>_. True) [sample_record ''a'' 0] redis_empty)"

theorem redis_enqueue_overwrites_witness:
  "\<exists>db'. redis_enqueue_many default_storage (\<lambda>_. True) [sample_record ''a'' 0] redis_db0 = (Inr (), db') \<and>
     redis_get ''a'' db' = (Inr (Some (redis_keep (sample_record ''a'' 0))), db')"
proof -
  obtain h where h: "record_to_hash (\<lambda>_. True) (sample_record ''a'' 0) = Inr h" by (simp add: record_to_hash_def)
  obtain res db' where e: "redis_enqueue_many default_storage (\<lambda>_. True) [sample_record ''a'' 0] redis_db0 = (res, db')"
    by (cases "redis_enqueue_many default_storage (\<lambda>_. True) [sample_record ''a'' 0] redis_db0")
  from redis_enqueue_overwrites [OF h _ _ _ _ e] e show ?thesis by (simp add: sample_record_def)
qed

lemma to_ms_0 [simp]: "to_ms 0 = 0"
  using fl_of_int [of 0] by (simp add: to_ms_def trunc_def)

lemma redis_sample:
  obtains db1 where "store_run (redis_store default_storage (\<lambda>_. True) (\<lambda>_. id) (\<lambda>_. None)) redis_empty
      [Enqueue [sample_record ''a'' 0]] redis_db0"
    "redis_claim_batch 0 30 10 redis_db0 = (Inr [(redis_keep (sample_record ''a'' 0))\<lparr>status := IN_FLIGHT\<rparr>], db1)"
    "rz_ready db1 = []"
proof -
  obtain h where h: "record_to_hash (\<lambda>_. True) (sample_record ''a'' 0) = Inr h" by (simp add: record_to_hash_def)
  have e: "redis_enqueue_many default_storage (\<lambda>_. True) [sample_record ''a'' 0] redis_empty = (Inr (), redis_db0)"
    using h by (simp add: redis_db0_def redis_enqueue_many_def)
  have step: "store_step (redis_store default_storage (\<lambda>_. True) (\<lambda>_. id) (\<lambda>_. None)) (Enqueue [sample_record ''a'' 0]) redis_empty redis_db0"
    by (rule step_enqueue) (simp_all add: sample_record_def [of _ 0] redis_store_def e [unfolded sample_record_def])
  have "redis_get ''a'' redis_db0 = (Inr (Some (redis_keep (sample_record ''a'' 0))), redis_db0)"
    using enqueue_replaces [OF h _ _ _ _ e] by (simp add: sample_record_def)
  then obtain x xs where "dict_get (rz_hash redis_db0) ''a'' = Some (x # xs)"
    "hash_to_record (x # xs) = Inr (redis_keep (sample_record ''a'' 0))"
    by (auto simp: redis_get_def split: option.splits list.splits sum.splits)
  moreover have r: "rz_ready redis_db0 = [(''a'', 0)]"
    using h by (simp add: redis_db0_def redis_enqueue_many_def enqueue_one_def Let_def redis_empty_def sample_record_def)
  moreover have "z_limit 10 (z_range [(''a'', 0)] 0) = [''a'']" by code_simp
  ultimately have "\<exists>db1. redis_claim_batch 0 30 10 redis_db0 =
      (Inr [(redis_keep (sample_record ''a'' 0))\<lparr>status := IN_FLIGHT\<rparr>], db1) \<and> rz_ready db1 = []"
    by (simp add: redis_claim_batch_def claim_script_eq Let_def)
  with that run_Cons [OF step run_Nil] show thesis by blast
qed

theorem redis_claims_exclusive_witness:
  "\<exists>batch db1 db2. redis_claim_batch 0 30 10 redis_db0 = (Inr batch, db1) \<and> ''a'' \<in> delivery_id ` set batch \<and>
     redis_claim_batch 5 30 10 db1 = (Inr [], db2) \<and> ''a'' \<notin> delivery_id ` set []"
proof -
  obtain db1 where s: "store_run (redis_store default_storage (\<lambda>_. True) (\<lambda>_. id) (\<lambda>_. None)) redis_empty
      [Enqueue [sample_record ''a'' 0]] redis_db0"
    "redis_claim_batch 0 30 10 redis_db0 = (Inr [(redis_keep (sample_record ''a'' 0))\<lparr>status := IN_FLIGHT\<rparr>], db1)"
    "rz_ready db1 = []" by (rule redis_sample)
  have m: "''a'' \<in> delivery_id ` set [(redis_keep (sample_record ''a'' 0))\<lparr>status := IN_FLIGHT\<rparr>]"
    by (simp add: redis_keep_def sample_record_def)
  obtain db2 where c: "redis_claim_batch 5 30 10 db1 = (Inr [], db2)"
    using s(3) by (simp add: redis_claim_batch_def claim_script_eq z_range_def z_limit_def Let_def)
  from redis_claims_exclusive [OF s(1,2) m run_Nil _ c] s(2) m c show ?thesis by auto
qed

end
