(* ===== verification/EventQueue.thy ===== *)
theory EventQueue
  imports Tables Envelope
begin

text \<open>
  The event queue between producer and engine (\<open>ingest/events.py\<close>, \<open>ingest/base.py\<close>): the event
  a producer writes, the interface of the queue and its contract. A queue is the record of its
  operations over a state \<open>'s\<close>; the contract is stated on what it shows of each event id: the
  event, its status and, while it is claimed, the instant its lease runs out.
\<close>

datatype EventIngestStatus = EV_PENDING | EV_CLAIMED | EV_DONE | EV_FAILED

fun ingest_status_value :: "EventIngestStatus \<Rightarrow> string" where
  "ingest_status_value EV_PENDING = ''pending''"
| "ingest_status_value EV_CLAIMED = ''claimed''"
| "ingest_status_value EV_DONE = ''done''"
| "ingest_status_value EV_FAILED = ''failed''"

record IncomingEvent =
  ev_event_id :: string
  ev_event :: string
  ev_data :: "(string, json) dict"
  ev_tenant_id :: "string option"
  ev_schema_version :: string
  ev_created_at :: "time option"

record 's event_store =
  es_append :: "IncomingEvent \<Rightarrow> (exc, 's, unit) comp"
  es_append_many :: "IncomingEvent list \<Rightarrow> (exc, 's, unit) comp"
  es_claim_events :: "time \<Rightarrow> int \<Rightarrow> int \<Rightarrow> (exc, 's, IncomingEvent list) comp"
  es_ack :: "string list \<Rightarrow> (exc, 's, unit) comp"
  es_mark_failed :: "string \<Rightarrow> string \<Rightarrow> (exc, 's, unit) comp"
  es_reclaim_stale :: "time \<Rightarrow> (exc, 's, int) comp"

text \<open>The default \<open>append_many\<close> of the base class: one \<open>append\<close> after the other.\<close>

fun append_each :: "(IncomingEvent \<Rightarrow> (exc, 's, unit) comp) \<Rightarrow> IncomingEvent list \<Rightarrow> (exc, 's, unit) comp" where
  "append_each put [] = ret ()"
| "append_each put (e # es) = bindE (put e) (\<lambda>_. append_each put es)"

section \<open>The abstract state\<close>

datatype ev_row = EvRow (er_event: IncomingEvent) (er_status: EventIngestStatus) (er_lease: "time option")

type_synonym ev_view = "string \<Rightarrow> ev_row option"

definition ev_leased :: "time \<Rightarrow> ev_row \<Rightarrow> ev_row" where
  "ev_leased x r = EvRow (er_event r) EV_CLAIMED (Some x)"

definition ev_set :: "EventIngestStatus \<Rightarrow> ev_row \<Rightarrow> ev_row" where
  "ev_set st r = EvRow (er_event r) st None"

definition ev_stale :: "time \<Rightarrow> ev_row \<Rightarrow> bool" where
  "ev_stale now r \<longleftrightarrow> er_status r = EV_CLAIMED \<and> (case er_lease r of None \<Rightarrow> False | Some x \<Rightarrow> x < now)"

definition ev_view_ok :: "ev_view \<Rightarrow> bool" where
  "ev_view_ok v \<longleftrightarrow> finite (dom v) \<and> (\<forall>k r. v k = Some r \<longrightarrow>
     ev_event_id (er_event r) = k \<and> (er_lease r \<noteq> None \<longleftrightarrow> er_status r = EV_CLAIMED))"

definition appended :: "IncomingEvent list \<Rightarrow> ev_view \<Rightarrow> ev_view" where
  "appended es v = (\<lambda>k. case v k of
      Some r \<Rightarrow> Some r
    | None \<Rightarrow> map_option (\<lambda>e. EvRow e EV_PENDING None) (find (\<lambda>e. ev_event_id e = k) es))"

text \<open>A claim takes pending events, at most \<open>n\<close> of them and all when there are no more.\<close>

definition ev_claim_ok :: "ev_view \<Rightarrow> time \<Rightarrow> int \<Rightarrow> IncomingEvent list \<Rightarrow> ev_view \<Rightarrow> bool" where
  "ev_claim_ok v x n es v' \<longleftrightarrow>
     distinct (map ev_event_id es) \<and>
     (\<forall>e \<in> set es. v (ev_event_id e) = Some (EvRow e EV_PENDING None)) \<and>
     (\<forall>k. v' k = (if k \<in> ev_event_id ` set es then map_option (ev_leased x) (v k) else v k)) \<and>
     int (length es) \<le> n \<and>
     (int (length es) < n \<longrightarrow> (\<forall>k r. v k = Some r \<longrightarrow> er_status r = EV_PENDING \<longrightarrow> k \<in> ev_event_id ` set es))"

definition ev_changed :: "string set \<Rightarrow> EventIngestStatus \<Rightarrow> ev_view \<Rightarrow> ev_view" where
  "ev_changed ids st v = (\<lambda>k. if k \<in> ids then map_option (ev_set st) (v k) else v k)"

definition ev_reclaimed :: "time \<Rightarrow> ev_view \<Rightarrow> ev_view" where
  "ev_reclaimed now v = (\<lambda>k. map_option (\<lambda>r. if ev_stale now r then ev_set EV_PENDING r else r) (v k))"

lemma ev_set_simps [simp]: "er_event (ev_set st r) = er_event r" "er_status (ev_set st r) = st" "er_lease (ev_set st r) = None"
  "er_event (ev_leased x r) = er_event r" "er_status (ev_leased x r) = EV_CLAIMED" "er_lease (ev_leased x r) = Some x"
  by (simp_all add: ev_set_def ev_leased_def)

lemma ev_claim_ok_none:
  "ev_claim_ok v x 0 [] v"
  "0 \<le> n \<Longrightarrow> (\<And>k r. v k = Some r \<Longrightarrow> er_status r \<noteq> EV_PENDING) \<Longrightarrow> ev_claim_ok v x n [] v"
  by (auto simp: ev_claim_ok_def)

lemma ev_claim_ok_Cons:
  assumes first: "v (ev_event_id e) = Some (EvRow e EV_PENDING None)"
    and rest: "ev_claim_ok (v(ev_event_id e \<mapsto> ev_leased x (EvRow e EV_PENDING None))) x n es v'"
  shows "ev_claim_ok v x (n + 1) (e # es) v'"
proof -
  have new: "ev_event_id e \<notin> ev_event_id ` set es"
    using rest by (fastforce simp: ev_claim_ok_def ev_leased_def)
  have old: "v k = Some (EvRow d EV_PENDING None)" if "d \<in> set es" "k = ev_event_id d" for d k
  proof -
    have "(v(ev_event_id e \<mapsto> ev_leased x (EvRow e EV_PENDING None))) (ev_event_id d) = Some (EvRow d EV_PENDING None)"
      using rest that(1) by (simp add: ev_claim_ok_def)
    moreover have "ev_event_id d \<noteq> ev_event_id e" using new that(1) by (metis image_eqI)
    ultimately show ?thesis using that(2) by simp
  qed
  show ?thesis
    unfolding ev_claim_ok_def
  proof (intro conjI allI impI ballI)
    show "distinct (map ev_event_id (e # es))" using rest new by (simp add: ev_claim_ok_def)
    show "v (ev_event_id d) = Some (EvRow d EV_PENDING None)" if "d \<in> set (e # es)" for d
      using that first old by auto
    show "v' k = (if k \<in> ev_event_id ` set (e # es) then map_option (ev_leased x) (v k) else v k)" for k
      using rest new first by (auto simp: ev_claim_ok_def)
    show "int (length (e # es)) \<le> n + 1" using rest by (simp add: ev_claim_ok_def)
    show "k \<in> ev_event_id ` set (e # es)"
      if "int (length (e # es)) < n + 1" "v k = Some r" "er_status r = EV_PENDING" for k r
      using rest that by (cases "k = ev_event_id e") (auto simp: ev_claim_ok_def)
  qed
qed

section \<open>Runs\<close>

datatype ev_event =
  EvAppend "IncomingEvent list"
| EvClaim time int int "IncomingEvent list"
| EvAck "string list"
| EvFail string string
| EvReclaim time

inductive ev_step :: "'s event_store \<Rightarrow> ev_event \<Rightarrow> 's \<Rightarrow> 's \<Rightarrow> bool" for es where
  ev_append: "es_append_many es evs s = (Inr (), s') \<Longrightarrow> ev_step es (EvAppend evs) s s'"
| ev_claim: "0 \<le> n \<Longrightarrow> es_claim_events es now ttl n s = (Inr evs, s') \<Longrightarrow> ev_step es (EvClaim now ttl n evs) s s'"
| ev_ack: "es_ack es ids s = (Inr (), s') \<Longrightarrow> ev_step es (EvAck ids) s s'"
| ev_fail: "es_mark_failed es k err s = (Inr (), s') \<Longrightarrow> ev_step es (EvFail k err) s s'"
| ev_reclaim: "es_reclaim_stale es now s = (Inr m, s') \<Longrightarrow> ev_step es (EvReclaim now) s s'"

inductive_cases ev_ClaimE: "ev_step es (EvClaim now ttl n evs) s s'"

inductive ev_run :: "'s event_store \<Rightarrow> 's \<Rightarrow> ev_event list \<Rightarrow> 's \<Rightarrow> bool" for es where
  ev_run_Nil: "ev_run es s [] s"
| ev_run_Cons: "ev_step es e s s' \<Longrightarrow> ev_run es s' l s'' \<Longrightarrow> ev_run es s (e # l) s''"

text \<open>
  What a claim cannot take: an event that is done or failed, for good, or one that is claimed
  until \<open>x\<close>, as long as nothing is reclaimed after \<open>x\<close>.
\<close>

definition ev_final :: "EventIngestStatus \<Rightarrow> bool" where
  "ev_final st \<longleftrightarrow> st = EV_DONE \<or> st = EV_FAILED"

definition ev_held :: "time \<Rightarrow> ev_row \<Rightarrow> bool" where
  "ev_held x r \<longleftrightarrow> ev_final (er_status r) \<or> er_status r = EV_CLAIMED \<and> er_lease r = Some x"

section \<open>The contract\<close>

locale event_store_contract =
  fixes es :: "'s event_store" and eview :: "'s \<Rightarrow> ev_view" and einv :: "'s \<Rightarrow> bool"
    and grain :: "time \<Rightarrow> time" and lease_end :: "time \<Rightarrow> int \<Rightarrow> time"
    and keep :: "IncomingEvent \<Rightarrow> IncomingEvent"
  assumes keep_event: "ev_event_id (keep e) = ev_event_id e" "ev_event (keep e) = ev_event e"
      "ev_tenant_id (keep e) = ev_tenant_id e" "ev_schema_version (keep e) = ev_schema_version e"
    and view_ok: "einv s \<Longrightarrow> ev_view_ok (eview s)"
    and append: "einv s \<Longrightarrow> \<exists>s'. es_append es e s = (Inr (), s') \<and> einv s' \<and> eview s' = appended [keep e] (eview s)"
    and append_many: "einv s \<Longrightarrow>
      \<exists>s'. es_append_many es evs s = (Inr (), s') \<and> einv s' \<and> eview s' = appended (map keep evs) (eview s)"
    and claim: "einv s \<Longrightarrow> 0 \<le> n \<Longrightarrow>
      \<exists>evs s'. es_claim_events es now ttl n s = (Inr evs, s') \<and> einv s' \<and>
        ev_claim_ok (eview s) (lease_end now ttl) n evs (eview s')"
    and ack: "einv s \<Longrightarrow> \<exists>s'. es_ack es ids s = (Inr (), s') \<and> einv s' \<and> eview s' = ev_changed (set ids) EV_DONE (eview s)"
    and fail: "einv s \<Longrightarrow> \<exists>s'. es_mark_failed es k err s = (Inr (), s') \<and> einv s' \<and> eview s' = ev_changed {k} EV_FAILED (eview s)"
    and reclaim: "einv s \<Longrightarrow>
      \<exists>s'. es_reclaim_stale es now s = (Inr (int (card {k. \<exists>r. eview s k = Some r \<and> ev_stale (grain now) r})), s') \<and>
        einv s' \<and> eview s' = ev_reclaimed (grain now) (eview s)"
begin

lemma step_view:
  assumes "ev_step es e s s'" and "einv s"
  shows "einv s' \<and> (case e of
      EvAppend evs \<Rightarrow> eview s' = appended (map keep evs) (eview s)
    | EvClaim now ttl n evs \<Rightarrow> ev_claim_ok (eview s) (lease_end now ttl) n evs (eview s')
    | EvAck ids \<Rightarrow> eview s' = ev_changed (set ids) EV_DONE (eview s)
    | EvFail k err \<Rightarrow> eview s' = ev_changed {k} EV_FAILED (eview s)
    | EvReclaim now \<Rightarrow> eview s' = ev_reclaimed (grain now) (eview s))"
  using assms
proof (induction rule: ev_step.induct)
  case (ev_append evs s s')
  then show ?case using append_many [of s evs] by auto
next
  case (ev_claim n now ttl s evs s')
  then show ?case using claim [of s n now ttl] by auto
next
  case (ev_ack ids s s')
  then show ?case using ack [of s ids] by auto
next
  case (ev_fail k err s s')
  then show ?case using fail [of s k err] by auto
next
  case (ev_reclaim now s m s')
  then show ?case using reclaim [of s now] by auto
qed

lemma step_held:
  assumes "ev_step es e s s'" and "einv s" and "eview s k = Some r" and "ev_held x r"
    and "\<And>now. e = EvReclaim now \<Longrightarrow> grain now \<le> x \<or> ev_final (er_status r)"
  shows "\<exists>r'. eview s' k = Some r' \<and> er_event r' = er_event r \<and> ev_held x r' \<and>
    (ev_final (er_status r) \<longrightarrow> ev_final (er_status r'))"
proof (cases e)
  case (EvReclaim now)
  then have "\<not> ev_stale (grain now) r" using assms(4,5) by (auto simp: ev_held_def ev_stale_def ev_final_def)
  then show ?thesis using step_view [OF assms(1,2)] EvReclaim assms(3,4) by (simp add: ev_reclaimed_def)
next
  case (EvClaim now ttl n evs)
  then have c: "ev_claim_ok (eview s) (lease_end now ttl) n evs (eview s')" using step_view [OF assms(1,2)] by simp
  then have "k \<notin> ev_event_id ` set evs" using assms(3,4) by (auto simp: ev_claim_ok_def ev_held_def ev_final_def)
  then show ?thesis using c assms(3,4) by (simp add: ev_claim_ok_def)
qed (use step_view [OF assms(1,2)] assms(3,4) in \<open>auto simp: appended_def ev_changed_def ev_held_def ev_final_def\<close>)

lemma run_held:
  assumes "ev_run es s l s'" and "einv s" and "eview s k = Some r" and "ev_held x r"
    and "\<And>now. EvReclaim now \<in> set l \<Longrightarrow> grain now \<le> x \<or> ev_final (er_status r)"
  shows "einv s' \<and> (\<exists>r'. eview s' k = Some r' \<and> er_event r' = er_event r \<and> ev_held x r' \<and>
    (ev_final (er_status r) \<longrightarrow> ev_final (er_status r')))"
  using assms
proof (induction arbitrary: r rule: ev_run.induct)
  case (ev_run_Cons e s s' l s'')
  obtain r1 where r1: "eview s' k = Some r1" "er_event r1 = er_event r" "ev_held x r1" "ev_final (er_status r) \<longrightarrow> ev_final (er_status r1)"
    using step_held [OF ev_run_Cons.hyps(1) ev_run_Cons.prems(1,2,3)] ev_run_Cons.prems(4) by force
  have "einv s'" using step_view [OF ev_run_Cons.hyps(1) ev_run_Cons.prems(1)] by simp
  from ev_run_Cons.IH [OF this r1(1,3)] ev_run_Cons.prems(4) r1(2,4) show ?case by fastforce
qed auto

lemma run_inv: "ev_run es s l s' \<Longrightarrow> einv s \<Longrightarrow> einv s'"
  by (induction rule: ev_run.induct) (use step_view in auto)

text \<open>What is claimed once is claimed again only after a reclaim past its lease.\<close>

lemma exclusive:
  assumes "einv s" and "ev_step es (EvClaim now ttl n evs) s s1" and "ev_run es s1 l s2"
    and "ev_step es (EvClaim now' ttl' n' evs') s2 s3" and "e \<in> set evs"
    and again: "ev_event_id e \<in> ev_event_id ` set evs'"
  shows "\<exists>t. EvReclaim t \<in> set l \<and> lease_end now ttl < grain t"
proof (rule ccontr)
  assume no: "\<not> ?thesis"
  have c: "ev_claim_ok (eview s) (lease_end now ttl) n evs (eview s1)" "einv s1"
    using step_view [OF assms(2,1)] by simp_all
  then have "eview s1 (ev_event_id e) = Some (ev_leased (lease_end now ttl) (EvRow e EV_PENDING None))"
    using assms(5) by (auto simp: ev_claim_ok_def)
  from run_held [OF assms(3) c(2) this] no obtain r where
    r: "einv s2" "eview s2 (ev_event_id e) = Some r" "ev_held (lease_end now ttl) r"
    by (force simp: ev_held_def)
  have "ev_claim_ok (eview s2) (lease_end now' ttl') n' evs' (eview s3)" using step_view [OF assms(4) r(1)] by simp
  then show False using r(2,3) again by (auto simp: ev_claim_ok_def ev_held_def ev_final_def)
qed

text \<open>An event that is done or failed is never handed out again, whatever happens.\<close>

lemma final_not_claimed:
  assumes "einv s" and "eview s k = Some r" and "ev_final (er_status r)" and "ev_run es s l s1"
    and "ev_step es (EvClaim now ttl n evs) s1 s2"
  shows "k \<notin> ev_event_id ` set evs"
proof -
  have "ev_held 0 r" using assms(3) by (simp add: ev_held_def)
  from run_held [OF assms(4,1,2) this] assms(3) obtain r' where
    r: "einv s1" "eview s1 k = Some r'" "ev_final (er_status r')" by blast
  have "ev_claim_ok (eview s1) (lease_end now ttl) n evs (eview s2)" using step_view [OF assms(5) r(1)] by simp
  then show ?thesis using r(2,3) by (auto simp: ev_claim_ok_def ev_final_def)
qed

text \<open>A claimed event whose worker died comes back once its lease has run out.\<close>

lemma comes_back:
  assumes "einv s" and "ev_step es (EvClaim now ttl n evs) s s1" and "e \<in> set evs"
    and "ev_step es (EvReclaim t) s1 s2" and "lease_end now ttl < grain t"
  shows "eview s2 (ev_event_id e) = Some (EvRow e EV_PENDING None)"
proof -
  have c: "ev_claim_ok (eview s) (lease_end now ttl) n evs (eview s1)" "einv s1"
    using step_view [OF assms(2,1)] by simp_all
  then have "eview s1 (ev_event_id e) = Some (ev_leased (lease_end now ttl) (EvRow e EV_PENDING None))"
    using assms(3) by (auto simp: ev_claim_ok_def)
  then show ?thesis
    using step_view [OF assms(4) c(2)] assms(5) by (simp add: ev_reclaimed_def ev_stale_def ev_set_def ev_leased_def)
qed

end

section \<open>Queues over a table\<close>

text \<open>
  The three queues keep their events in a list of rows under a key. \<open>ev_rows_ok\<close> is the
  invariant of such a list; the lemmas turn the statements' effects into the contract's.
\<close>

definition ev_rows_ok :: "('a \<Rightarrow> string) \<Rightarrow> ('a \<Rightarrow> ev_row) \<Rightarrow> 'a list \<Rightarrow> bool" where
  "ev_rows_ok key proj t \<longleftrightarrow> distinct (map key t) \<and>
     (\<forall>r \<in> set t. ev_event_id (er_event (proj r)) = key r \<and>
        (er_lease (proj r) \<noteq> None \<longleftrightarrow> er_status (proj r) = EV_CLAIMED))"

lemma ev_rows_view_ok: "ev_rows_ok key proj t \<Longrightarrow> ev_view_ok (table_view key proj t)"
proof -
  assume ok: "ev_rows_ok key proj t"
  have "dom (table_view key proj t) \<subseteq> key ` set t" by (auto dest!: table_view_SomeD)
  then have "finite (dom (table_view key proj t))" by (rule finite_subset) simp
  then show ?thesis using ok unfolding ev_view_ok_def ev_rows_ok_def by (fast dest!: table_view_SomeD)
qed

lemma ev_rows_view_in:
  "ev_rows_ok key proj t \<Longrightarrow> r \<in> set t \<Longrightarrow> table_view key proj t (key r) = Some (proj r)"
  by (auto simp: table_view_def ev_rows_ok_def lookup_iff)

lemma ev_rows_append:
  assumes "ev_rows_ok key proj t" and "\<And>e. key (mk e) = ev_event_id e"
    and "\<And>e. proj (mk e) = EvRow (keep e) EV_PENDING None" and "\<And>e. ev_event_id (keep e) = ev_event_id e"
  shows "ev_rows_ok key proj (fold (insert_new key) (map mk evs) t)"
    and "table_view key proj (fold (insert_new key) (map mk evs) t) = appended (map keep evs) (table_view key proj t)"
proof -
  let ?good = "\<lambda>r. ev_event_id (er_event (proj r)) = key r \<and> (er_lease (proj r) \<noteq> None \<longleftrightarrow> er_status (proj r) = EV_CLAIMED)"
  have sub: "set (fold (insert_new key) (map mk evs) t) \<subseteq> set t \<union> mk ` set evs" using set_fold_insert [of key "map mk evs" t] by auto
  have new: "?good (mk e)" for e by (simp add: assms(2-4))
  have old: "?good r" if "r \<in> set t" for r using assms(1) that by (simp add: ev_rows_ok_def)
  have "?good r" if r: "r \<in> set (fold (insert_new key) (map mk evs) t)" for r
  proof (cases "r \<in> set t")
    case False
    then obtain e where "r = mk e" using sub r by blast
    then show ?thesis using new by simp
  qed (rule old)
  then show "ev_rows_ok key proj (fold (insert_new key) (map mk evs) t)"
    using assms(1) unfolding ev_rows_ok_def by (simp add: keys_fold_insert)
  have "map_option proj (lookup key (map mk evs) k) =
      map_option (\<lambda>e. EvRow e EV_PENDING None) (find (\<lambda>e. ev_event_id e = k) (map keep evs))" for k
    by (induction evs) (auto simp: lookup_def assms(2-4))
  then show "table_view key proj (fold (insert_new key) (map mk evs) t) = appended (map keep evs) (table_view key proj t)"
    by (auto simp: fun_eq_iff table_view_def appended_def lookup_fold_insert split: option.split)
qed

lemma ev_rows_update:
  assumes "ev_rows_ok key proj t" and "\<And>r. key (f r) = key r" and "\<And>r. er_event (proj (f r)) = er_event (proj r)"
    and "\<And>r. r \<in> set t \<Longrightarrow> P r \<Longrightarrow> er_lease (proj (f r)) \<noteq> None \<longleftrightarrow> er_status (proj (f r)) = EV_CLAIMED"
  shows "ev_rows_ok key proj (update_where P f t)"
  using assms(1,4) unfolding ev_rows_ok_def keys_update [of key f, OF assms(2)]
  by (auto simp: set_update_where assms(2,3))

lemma ev_rows_changed:
  assumes "\<And>r. key (f r) = key r" and "\<And>r. r \<in> set t \<Longrightarrow> proj (f r) = ev_set st (proj r)"
  shows "table_view key proj (update_where (\<lambda>r. key r \<in> ids) f t) = ev_changed ids st (table_view key proj t)"
proof -
  have "table_view key proj (update_where (\<lambda>r. key r \<in> ids) f t) =
      (\<lambda>k. map_option (\<lambda>row. if k \<in> ids then ev_set st row else row) (table_view key proj t k))"
    using assms by (intro table_view_update [where Q = "\<lambda>k _. k \<in> ids"]) auto
  then show ?thesis by (auto simp: ev_changed_def fun_eq_iff option.map_ident)
qed

lemma ev_rows_reclaimed:
  assumes "\<And>r. key (f r) = key r" and "\<And>r. r \<in> set t \<Longrightarrow> P r \<longleftrightarrow> ev_stale now (proj r)"
    and "\<And>r. r \<in> set t \<Longrightarrow> P r \<Longrightarrow> proj (f r) = ev_set EV_PENDING (proj r)"
  shows "table_view key proj (update_where P f t) = ev_reclaimed now (table_view key proj t)"
  unfolding ev_reclaimed_def
  by (rule table_view_update [where Q = "\<lambda>_. ev_stale now"]) (use assms in auto)

lemma ev_rows_stale_count:
  assumes "ev_rows_ok key proj t" and "\<And>r. r \<in> set t \<Longrightarrow> P r \<longleftrightarrow> ev_stale now (proj r)"
  shows "length (filter P t) = card {k. \<exists>r. table_view key proj t k = Some r \<and> ev_stale now r}"
proof -
  have "{k. \<exists>r. table_view key proj t k = Some r \<and> ev_stale now r} = key ` set (filter P t)"
    using assms(2) ev_rows_view_in [OF assms(1)] by (force dest!: table_view_SomeD)
  moreover have "distinct (map key (filter P t))" using assms(1) by (simp add: ev_rows_ok_def distinct_map_filter)
  ultimately show ?thesis by (metis distinct_card length_map set_map)
qed

text \<open>A claim of the first \<open>n\<close> pending rows in any order.\<close>

lemma ev_rows_claim:
  assumes ok: "ev_rows_ok key proj t" and n: "0 \<le> n"
    and order: "set ordered = {r \<in> set t. er_status (proj r) = EV_PENDING}" "distinct (map key ordered)"
    and f: "\<And>r. key (f r) = key r" "\<And>r. r \<in> set t \<Longrightarrow> proj (f r) = ev_leased x (proj r)"
  shows "ev_claim_ok (table_view key proj t) x n (map (\<lambda>r. er_event (proj r)) (take (nat n) ordered))
    (table_view key proj (update_where (\<lambda>r. key r \<in> key ` set (take (nat n) ordered)) f t))"
proof -
  let ?c = "take (nat n) ordered" and ?v = "table_view key proj t"
  have sub: "set ?c \<subseteq> set ordered" by (rule set_take_subset)
  have id: "ev_event_id (er_event (proj r)) = key r" if "r \<in> set t" for r using ok that by (simp add: ev_rows_ok_def)
  have ids: "map ev_event_id (map (\<lambda>r. er_event (proj r)) ?c) = map key ?c"
    using sub order(1) id by auto
  then have idset: "ev_event_id ` set (map (\<lambda>r. er_event (proj r)) ?c) = key ` set ?c" by (metis set_map)
  have pend: "proj r = EvRow (er_event (proj r)) EV_PENDING None" if "r \<in> set ordered" for r
    using that order(1) ok by (cases "proj r") (auto simp: ev_rows_ok_def)
  show ?thesis
    unfolding ev_claim_ok_def idset
  proof (intro conjI allI impI ballI)
    show "distinct (map ev_event_id (map (\<lambda>r. er_event (proj r)) ?c))"
      using order(2) unfolding ids by (simp add: take_map [symmetric])
    show "?v (ev_event_id e) = Some (EvRow e EV_PENDING None)" if "e \<in> set (map (\<lambda>r. er_event (proj r)) ?c)" for e
    proof -
      obtain r where r: "r \<in> set ordered" "e = er_event (proj r)" using \<open>e \<in> _\<close> sub by auto
      then have "r \<in> set t" using order(1) by simp
      then show ?thesis using r id ev_rows_view_in [OF ok] pend [OF r(1)] by metis
    qed
    show "table_view key proj (update_where (\<lambda>r. key r \<in> key ` set ?c) f t) k =
        (if k \<in> key ` set ?c then map_option (ev_leased x) (?v k) else ?v k)" for k
    proof -
      have "table_view key proj (update_where (\<lambda>r. key r \<in> key ` set ?c) f t) =
          (\<lambda>k. map_option (\<lambda>row. if k \<in> key ` set ?c then ev_leased x row else row) (?v k))"
        using f by (intro table_view_update [where Q = "\<lambda>k _. k \<in> key ` set ?c"]) auto
      then show ?thesis by (simp add: option.map_ident)
    qed
    show "int (length (map (\<lambda>r. er_event (proj r)) ?c)) \<le> n" using n by simp
    show "k \<in> key ` set ?c"
      if a: "int (length (map (\<lambda>r. er_event (proj r)) ?c)) < n" "?v k = Some row" "er_status row = EV_PENDING" for k row
    proof -
      have "?c = ordered" using a(1) n by simp
      moreover obtain r where "r \<in> set t" "key r = k" "proj r = row" using table_view_SomeD [OF a(2)] by auto
      ultimately show ?thesis using a(3) order(1) by auto
    qed
  qed
qed

end
