(* ===== verification/PgEvents.thy ===== *)
theory PgEvents
  imports EventQueue PgSchema
begin

text \<open>
  The relational event queue (\<open>ingest/pg.py\<close>): one table, each method one transaction. \<open>clock\<close> is
  what \<open>datetime.now(UTC)\<close> answers while an event is appended, \<open>jsonb\<close> what a JSONB column gives
  back for an object, \<open>locked\<close> the ids \<open>SKIP LOCKED\<close> finds locked by another transaction, and
  \<open>lock_ttl\<close> the \<open>lock_ttl_s\<close> of the store, which it uses in place of the lease it is asked for.
\<close>

record PgEvent =
  pe_event_id :: string
  pe_event :: string
  pe_tenant_id :: "string option"
  pe_schema_version :: string
  pe_data :: "(string, json) dict"
  pe_status :: string
  pe_locked_at :: "time option"
  pe_error :: "string option"
  pe_created_at :: time

type_synonym pg_events = "PgEvent list"

text \<open>\<open>ensure_schema\<close>, white space folded: the table and its index, in one transaction.\<close>

definition ddl_events :: "string \<Rightarrow> string" where
  "ddl_events t = ''CREATE TABLE IF NOT EXISTS '' @ t @ '' ('' @
     ''event_id TEXT NOT NULL PRIMARY KEY, event TEXT NOT NULL, tenant_id TEXT, '' @
     ''schema_version TEXT NOT NULL, data JSONB NOT NULL, '' @
     ''status TEXT NOT NULL DEFAULT '' @ [CHR 0x27] @ ''pending'' @ [CHR 0x27] @ '', '' @
     ''locked_at TIMESTAMPTZ, error TEXT, created_at TIMESTAMPTZ NOT NULL )''"

definition ddl_events_idx :: "string \<Rightarrow> string" where
  "ddl_events_idx t = ''CREATE INDEX IF NOT EXISTS '' @ t @ ''_status_created_at_idx ON '' @ t @
     '' (status, created_at)''"

definition pg_events_ensure_schema :: "(string \<Rightarrow> (exc, 's, unit) comp) \<Rightarrow> string \<Rightarrow> (exc, 's, unit) comp" where
  "pg_events_ensure_schema run t = transaction (run_all run [ddl_events t, ddl_events_idx t])"

section \<open>The operations\<close>

definition pg_event_row ::
  "(IncomingEvent \<Rightarrow> time) \<Rightarrow> ((string, json) dict \<Rightarrow> (string, json) dict) \<Rightarrow> IncomingEvent \<Rightarrow> PgEvent" where
  "pg_event_row clock jsonb e =
     \<lparr>pe_event_id = ev_event_id e, pe_event = ev_event e, pe_tenant_id = ev_tenant_id e,
      pe_schema_version = ev_schema_version e, pe_data = jsonb (ev_data e), pe_status = ''pending'',
      pe_locked_at = None, pe_error = None,
      pe_created_at = (case ev_created_at e of Some t \<Rightarrow> t | None \<Rightarrow> clock e)\<rparr>"

definition pg_ev_append ::
  "(IncomingEvent \<Rightarrow> time) \<Rightarrow> ((string, json) dict \<Rightarrow> (string, json) dict) \<Rightarrow> IncomingEvent \<Rightarrow> (exc, pg_events, unit) comp" where
  "pg_ev_append clock jsonb e = (\<lambda>t. (Inr (), insert_new pe_event_id (pg_event_row clock jsonb e) t))"

definition pg_ev_append_many ::
  "(IncomingEvent \<Rightarrow> time) \<Rightarrow> ((string, json) dict \<Rightarrow> (string, json) dict) \<Rightarrow> IncomingEvent list \<Rightarrow> (exc, pg_events, unit) comp" where
  "pg_ev_append_many clock jsonb es = (\<lambda>t.
     if es = [] then (Inr (), t)
     else (Inr (), fold (insert_new pe_event_id) (map (pg_event_row clock jsonb) es) t))"

definition pg_ev_select :: "string set \<Rightarrow> int \<Rightarrow> pg_events \<Rightarrow> exc + PgEvent list" where
  "pg_ev_select locked n t =
     limit_rows n (sort_key pe_created_at
       (filter (\<lambda>r. pe_status r = ''pending'' \<and> pe_event_id r \<notin> locked) t))"

definition pg_ev_lock :: "time \<Rightarrow> string list \<Rightarrow> pg_events \<Rightarrow> pg_events" where
  "pg_ev_lock now ids = update_where (\<lambda>r. pe_event_id r \<in> set ids)
     (\<lambda>r. r\<lparr>pe_status := ''claimed'', pe_locked_at := Some now\<rparr>)"

definition pg_event_of :: "PgEvent \<Rightarrow> IncomingEvent" where
  "pg_event_of r = \<lparr>ev_event_id = pe_event_id r, ev_event = pe_event r, ev_data = pe_data r,
     ev_tenant_id = pe_tenant_id r, ev_schema_version = pe_schema_version r,
     ev_created_at = Some (pe_created_at r)\<rparr>"

definition pg_ev_claim :: "string set \<Rightarrow> time \<Rightarrow> int \<Rightarrow> int \<Rightarrow> (exc, pg_events, IncomingEvent list) comp" where
  "pg_ev_claim locked now ttl n = transaction (\<lambda>t.
     case pg_ev_select locked n t of
       Inl e \<Rightarrow> (Inl e, t)
     | Inr rows \<Rightarrow>
         if rows = [] then (Inr [], t)
         else (Inr (map pg_event_of rows), pg_ev_lock now (map pe_event_id rows) t))"

definition pg_ev_ack :: "string list \<Rightarrow> (exc, pg_events, unit) comp" where
  "pg_ev_ack ids = (\<lambda>t.
     if ids = [] then (Inr (), t)
     else (Inr (), update_where (\<lambda>r. pe_event_id r \<in> set ids) (\<lambda>r. r\<lparr>pe_status := ''done''\<rparr>) t))"

definition pg_ev_mark_failed :: "string \<Rightarrow> string \<Rightarrow> (exc, pg_events, unit) comp" where
  "pg_ev_mark_failed k err = (\<lambda>t.
     (Inr (), update_where (\<lambda>r. pe_event_id r = k) (\<lambda>r. r\<lparr>pe_status := ''failed'', pe_error := Some err\<rparr>) t))"

definition pg_ev_stale :: "int \<Rightarrow> time \<Rightarrow> PgEvent \<Rightarrow> bool" where
  "pg_ev_stale lock_ttl now r \<longleftrightarrow> pe_status r = ''claimed'' \<and>
     (case pe_locked_at r of None \<Rightarrow> False | Some l \<Rightarrow> l < now - seconds lock_ttl)"

definition pg_ev_reclaim :: "int \<Rightarrow> time \<Rightarrow> (exc, pg_events, int) comp" where
  "pg_ev_reclaim lock_ttl now = (\<lambda>t.
     (Inr (int (length (filter (pg_ev_stale lock_ttl now) t))),
      update_where (pg_ev_stale lock_ttl now) (\<lambda>r. r\<lparr>pe_status := ''pending'', pe_locked_at := None\<rparr>) t))"

definition pg_event_store ::
  "(IncomingEvent \<Rightarrow> time) \<Rightarrow> ((string, json) dict \<Rightarrow> (string, json) dict) \<Rightarrow> int \<Rightarrow> pg_events event_store" where
  "pg_event_store clock jsonb lock_ttl =
     \<lparr>es_append = pg_ev_append clock jsonb, es_append_many = pg_ev_append_many clock jsonb,
      es_claim_events = pg_ev_claim {}, es_ack = pg_ev_ack, es_mark_failed = pg_ev_mark_failed,
      es_reclaim_stale = pg_ev_reclaim lock_ttl\<rparr>"

section \<open>The view of the table\<close>

definition ingest_status_of :: "string \<Rightarrow> EventIngestStatus" where
  "ingest_status_of v = (if v = ''claimed'' then EV_CLAIMED else if v = ''done'' then EV_DONE
     else if v = ''failed'' then EV_FAILED else EV_PENDING)"

definition pg_ev_row :: "int \<Rightarrow> PgEvent \<Rightarrow> ev_row" where
  "pg_ev_row lock_ttl r = EvRow (pg_event_of r) (ingest_status_of (pe_status r))
     (if pe_status r = ''claimed'' then map_option (\<lambda>l. l + seconds lock_ttl) (pe_locked_at r) else None)"

definition pg_ev_ok :: "PgEvent \<Rightarrow> bool" where
  "pg_ev_ok r \<longleftrightarrow> (\<exists>st. pe_status r = ingest_status_value st) \<and>
     (pe_status r = ''claimed'' \<longrightarrow> pe_locked_at r \<noteq> None) \<and> (pe_status r = ''pending'' \<longrightarrow> pe_locked_at r = None)"

definition pg_ev_inv :: "int \<Rightarrow> pg_events \<Rightarrow> bool" where
  "pg_ev_inv lock_ttl t \<longleftrightarrow> ev_rows_ok pe_event_id (pg_ev_row lock_ttl) t \<and> (\<forall>r \<in> set t. pg_ev_ok r)"

abbreviation pg_ev_view :: "int \<Rightarrow> pg_events \<Rightarrow> ev_view" where
  "pg_ev_view lock_ttl \<equiv> table_view pe_event_id (pg_ev_row lock_ttl)"

definition pg_ev_keep ::
  "(IncomingEvent \<Rightarrow> time) \<Rightarrow> ((string, json) dict \<Rightarrow> (string, json) dict) \<Rightarrow> IncomingEvent \<Rightarrow> IncomingEvent" where
  "pg_ev_keep clock jsonb e = e\<lparr>ev_data := jsonb (ev_data e),
     ev_created_at := Some (case ev_created_at e of Some t \<Rightarrow> t | None \<Rightarrow> clock e)\<rparr>"

lemma pg_ev_moves:
  "pg_ev_row l (pg_event_row clock jsonb e) = EvRow (pg_ev_keep clock jsonb e) EV_PENDING None"
  "pg_ev_row l (r\<lparr>pe_status := ''claimed'', pe_locked_at := Some now\<rparr>) = ev_leased (now + seconds l) (pg_ev_row l r)"
  "pg_ev_row l (r\<lparr>pe_status := ''done''\<rparr>) = ev_set EV_DONE (pg_ev_row l r)"
  "pg_ev_row l (r\<lparr>pe_status := ''failed'', pe_error := err\<rparr>) = ev_set EV_FAILED (pg_ev_row l r)"
  "pg_ev_row l (r\<lparr>pe_status := ''pending'', pe_locked_at := None\<rparr>) = ev_set EV_PENDING (pg_ev_row l r)"
  by (simp_all add: pg_ev_row_def pg_event_row_def pg_event_of_def ingest_status_of_def ev_leased_def ev_set_def pg_ev_keep_def)

lemma pg_ev_ids [simp]:
  "pe_event_id (pg_event_row clock jsonb e) = ev_event_id e" "ev_event_id (pg_ev_keep clock jsonb e) = ev_event_id e"
  by (simp_all add: pg_event_row_def pg_ev_keep_def)

lemma pg_ev_row_simps [simp]:
  "er_event (pg_ev_row l r) = pg_event_of r" "er_status (pg_ev_row l r) = ingest_status_of (pe_status r)"
  by (simp_all add: pg_ev_row_def)

lemma pg_ev_pending: "pg_ev_ok r \<Longrightarrow> er_status (pg_ev_row l r) = EV_PENDING \<longleftrightarrow> pe_status r = ''pending''"
proof -
  assume "pg_ev_ok r"
  then obtain st where "pe_status r = ingest_status_value st" by (auto simp: pg_ev_ok_def)
  then show ?thesis by (cases st) (simp_all add: ingest_status_of_def)
qed

lemma pg_ev_stale_iff: "pg_ev_stale l now r \<longleftrightarrow> ev_stale now (pg_ev_row l r)"
  by (auto simp: pg_ev_stale_def ev_stale_def pg_ev_row_def ingest_status_of_def split: option.split)

text \<open>What every update keeps: the rows stay well formed.\<close>

lemma pg_ev_inv_update:
  assumes "pg_ev_inv l t" and "\<And>r. pe_event_id (f r) = pe_event_id r"
    and "\<And>r. pg_event_of (f r) = pg_event_of r" and "\<And>r. r \<in> set t \<Longrightarrow> pg_ev_ok r \<Longrightarrow> pg_ev_ok (f r)"
  shows "pg_ev_inv l (update_where P f t)"
proof -
  have ok: "er_lease (pg_ev_row l r) \<noteq> None \<longleftrightarrow> er_status (pg_ev_row l r) = EV_CLAIMED" if "pg_ev_ok r" for r
    using that by (auto simp: pg_ev_row_def pg_ev_ok_def ingest_status_of_def)
  have "ev_rows_ok pe_event_id (pg_ev_row l) (update_where P f t)"
    using assms ok by (intro ev_rows_update) (auto simp: pg_ev_inv_def)
  then show ?thesis using assms by (auto simp: pg_ev_inv_def set_update_where)
qed

lemma pg_ev_ok_moves [simp]:
  "pg_ev_ok (r\<lparr>pe_status := ''claimed'', pe_locked_at := Some now\<rparr>)"
  "pg_ev_ok (r\<lparr>pe_status := ''done''\<rparr>)" "pg_ev_ok (r\<lparr>pe_status := ''failed'', pe_error := err\<rparr>)"
  "pg_ev_ok (r\<lparr>pe_status := ''pending'', pe_locked_at := None\<rparr>)" "pg_ev_ok (pg_event_row clock jsonb e)"
proof -
  have "\<exists>st. v = ingest_status_value st" if "v \<in> {''claimed'', ''done'', ''failed'', ''pending''}" for v
    using that ingest_status_value.simps by (metis insertE singletonD)
  then show "pg_ev_ok (r\<lparr>pe_status := ''claimed'', pe_locked_at := Some now\<rparr>)"
    "pg_ev_ok (r\<lparr>pe_status := ''done''\<rparr>)" "pg_ev_ok (r\<lparr>pe_status := ''failed'', pe_error := err\<rparr>)"
    "pg_ev_ok (r\<lparr>pe_status := ''pending'', pe_locked_at := None\<rparr>)" "pg_ev_ok (pg_event_row clock jsonb e)"
    by (simp_all add: pg_ev_ok_def pg_event_row_def)
qed

lemma pg_event_of_moves [simp]:
  "pg_event_of (r\<lparr>pe_status := v\<rparr>) = pg_event_of r" "pg_event_of (r\<lparr>pe_locked_at := l\<rparr>) = pg_event_of r"
  "pg_event_of (r\<lparr>pe_error := err\<rparr>) = pg_event_of r"
  by (simp_all add: pg_event_of_def)

lemma pg_ev_appended:
  assumes "pg_ev_inv l t"
  shows "pg_ev_inv l (fold (insert_new pe_event_id) (map (pg_event_row clock jsonb) evs) t)"
    and "pg_ev_view l (fold (insert_new pe_event_id) (map (pg_event_row clock jsonb) evs) t)
      = appended (map (pg_ev_keep clock jsonb) evs) (pg_ev_view l t)"
proof -
  have rows: "ev_rows_ok pe_event_id (pg_ev_row l) t" using assms by (simp add: pg_ev_inv_def)
  note app = ev_rows_append [OF rows, of "pg_event_row clock jsonb" "pg_ev_keep clock jsonb" evs]
  show "pg_ev_view l (fold (insert_new pe_event_id) (map (pg_event_row clock jsonb) evs) t)
      = appended (map (pg_ev_keep clock jsonb) evs) (pg_ev_view l t)"
    by (rule app(2)) (simp_all add: pg_ev_moves)
  have "ev_rows_ok pe_event_id (pg_ev_row l) (fold (insert_new pe_event_id) (map (pg_event_row clock jsonb) evs) t)"
    by (rule app(1)) (simp_all add: pg_ev_moves)
  moreover have "set (fold (insert_new pe_event_id) (map (pg_event_row clock jsonb) evs) t)
      \<subseteq> set t \<union> pg_event_row clock jsonb ` set evs"
    using set_fold_insert [of pe_event_id "map (pg_event_row clock jsonb) evs" t] by auto
  ultimately show "pg_ev_inv l (fold (insert_new pe_event_id) (map (pg_event_row clock jsonb) evs) t)"
    using assms unfolding pg_ev_inv_def by fastforce
qed

lemma pg_ev_claimed:
  assumes inv: "pg_ev_inv l t" and n: "0 \<le> n"
  shows "\<exists>evs t'. pg_ev_claim {} now ttl n t = (Inr evs, t') \<and> pg_ev_inv l t' \<and>
    ev_claim_ok (pg_ev_view l t) (now + seconds l) n evs (pg_ev_view l t')"
proof -
  define due where "due = sort_key pe_created_at (filter (\<lambda>r. pe_status r = ''pending'') t)"
  define rows where "rows = take (nat n) due"
  let ?t = "pg_ev_lock now (map pe_event_id rows) t"
  have rows_ok: "ev_rows_ok pe_event_id (pg_ev_row l) t" using inv by (simp add: pg_ev_inv_def)
  have "ev_claim_ok (pg_ev_view l t) (now + seconds l) n (map (\<lambda>r. er_event (pg_ev_row l r)) (take (nat n) due))
      (pg_ev_view l (update_where (\<lambda>r. pe_event_id r \<in> pe_event_id ` set (take (nat n) due))
        (\<lambda>r. r\<lparr>pe_status := ''claimed'', pe_locked_at := Some now\<rparr>) t))"
  proof (rule ev_rows_claim [OF rows_ok n])
    show "set due = {r \<in> set t. er_status (pg_ev_row l r) = EV_PENDING}"
      using inv pg_ev_pending by (auto simp: due_def pg_ev_inv_def)
    show "distinct (map pe_event_id due)"
      using rows_ok unfolding due_def ev_rows_ok_def by (intro distinct_map_sort_key distinct_map_filter) simp
  qed (simp_all add: pg_ev_moves)
  then have c: "ev_claim_ok (pg_ev_view l t) (now + seconds l) n (map pg_event_of rows) (pg_ev_view l ?t)"
    by (simp add: rows_def pg_ev_lock_def)
  have i: "pg_ev_inv l ?t" unfolding pg_ev_lock_def by (rule pg_ev_inv_update [OF inv]) simp_all
  have "pg_ev_select {} n t = Inr rows"
    using n by (simp add: pg_ev_select_def limit_rows_def rows_def due_def)
  then have "pg_ev_claim {} now ttl n t = (Inr (map pg_event_of rows), ?t)"
    by (auto simp: pg_ev_claim_def transaction_def pg_ev_lock_def update_where_def)
  then show ?thesis using c i by auto
qed

interpretation pg_ev: event_store_contract "pg_event_store clock jsonb l" "pg_ev_view l" "pg_ev_inv l"
  "\<lambda>t. t" "\<lambda>now _. now + seconds l" "pg_ev_keep clock jsonb" for clock jsonb l
proof (unfold_locales, goal_cases)
  case (5 s) then show ?case by (simp add: pg_ev_inv_def ev_rows_view_ok)
next
  case (6 s e) from pg_ev_appended [OF 6, where evs = "[e]"] show ?case by (simp add: pg_event_store_def pg_ev_append_def)
next
  case (7 s evs) then show ?case
    using pg_ev_appended [OF 7, where evs = evs] by (auto simp: pg_event_store_def pg_ev_append_many_def)
next
  case (8 s n now ttl) then show ?case using pg_ev_claimed by (simp add: pg_event_store_def)
next
  case (9 s ids)
  have "pg_ev_ack ids s = (Inr (), update_where (\<lambda>r. pe_event_id r \<in> set ids) (\<lambda>r. r\<lparr>pe_status := ''done''\<rparr>) s)"
    by (simp add: pg_ev_ack_def update_where_def)
  then show ?case
    using ev_rows_changed [of pe_event_id "\<lambda>r. r\<lparr>pe_status := ''done''\<rparr>" s "pg_ev_row l" EV_DONE "set ids"]
    by (auto simp: pg_event_store_def pg_ev_moves intro!: pg_ev_inv_update [OF 9])
next
  case (10 s k err)
  then show ?case
    using ev_rows_changed [of pe_event_id "\<lambda>r. r\<lparr>pe_status := ''failed'', pe_error := Some err\<rparr>" s "pg_ev_row l" EV_FAILED "{k}"]
    by (auto simp: pg_event_store_def pg_ev_mark_failed_def pg_ev_moves intro!: pg_ev_inv_update [OF 10])
next
  case (11 s now)
  have rows: "ev_rows_ok pe_event_id (pg_ev_row l) s" using 11 by (simp add: pg_ev_inv_def)
  have "pg_ev_view l (update_where (pg_ev_stale l now) (\<lambda>r. r\<lparr>pe_status := ''pending'', pe_locked_at := None\<rparr>) s)
      = ev_reclaimed now (pg_ev_view l s)"
    by (rule ev_rows_reclaimed) (simp_all add: pg_ev_moves pg_ev_stale_iff)
  moreover have "length (filter (pg_ev_stale l now) s) = card {k. \<exists>r. pg_ev_view l s k = Some r \<and> ev_stale now r}"
    by (rule ev_rows_stale_count [OF rows]) (simp add: pg_ev_stale_iff)
  ultimately show ?case
    by (auto simp: pg_event_store_def pg_ev_reclaim_def intro!: pg_ev_inv_update [OF 11])
qed (simp_all add: pg_ev_keep_def)

section \<open>Properties\<close>

text \<open>
  The relational queue hands an event out once. In any run of its operations from the empty
  table, an event that a claim returned is returned again only when in between a reclaim ran
  more than \<open>lock_ttl_s\<close> after that claim; the lease the caller asks for plays no part.
\<close>

theorem pg_events_exclusive:
  assumes "ev_run (pg_event_store clock jsonb lock_ttl) [] l0 s"
    and "ev_step (pg_event_store clock jsonb lock_ttl) (EvClaim now ttl n evs) s s1"
    and "ev_run (pg_event_store clock jsonb lock_ttl) s1 l s2"
    and "ev_step (pg_event_store clock jsonb lock_ttl) (EvClaim now' ttl' n' evs') s2 s3"
    and "ev_event_id e \<in> ev_event_id ` set evs" and "ev_event_id e \<in> ev_event_id ` set evs'"
  shows "\<exists>t. EvReclaim t \<in> set l \<and> now + seconds lock_ttl < t"
proof -
  have "pg_ev_inv lock_ttl []" by (simp add: pg_ev_inv_def ev_rows_ok_def)
  then have "pg_ev_inv lock_ttl s" by (rule pg_ev.run_inv [OF assms(1)])
  moreover obtain e' where "e' \<in> set evs" "ev_event_id e' = ev_event_id e" using assms(5) by auto
  ultimately show ?thesis using pg_ev.exclusive [OF _ assms(2-4)] assms(6) by metis
qed

definition sample_event :: "string \<Rightarrow> IncomingEvent" where
  "sample_event k = \<lparr>ev_event_id = k, ev_event = ''order.paid'', ev_data = [], ev_tenant_id = None,
     ev_schema_version = ''1.0'', ev_created_at = Some 0\<rparr>"

theorem pg_events_exclusive_witness:
  "\<exists>s l. ev_run (pg_event_store (\<lambda>_. 0) (\<lambda>d. d) 30) [] l s \<and> (\<exists>t. EvReclaim t \<in> set l \<and> 0 + seconds 30 < t)"
proof -
  let ?S = "pg_event_store (\<lambda>_. 0) (\<lambda>d. d) 30"
  let ?e = "sample_event ''e''"
  define s1 where "s1 = [pg_event_row (\<lambda>_. 0) (\<lambda>d. d) ?e]"
  define s2 where "s2 = pg_ev_lock 0 [''e''] s1"
  have a: "ev_step ?S (EvAppend [?e]) [] s1"
    by (rule ev_append) (simp add: pg_event_store_def pg_ev_append_many_def s1_def insert_new_def)
  have claim: "ev_step ?S (EvClaim now ttl 1 [?e]) s1 (pg_ev_lock now [''e''] s1)" for now ttl
    by (rule ev_claim) (simp_all add: pg_event_store_def pg_ev_claim_def transaction_def pg_ev_select_def
        limit_rows_def s1_def pg_event_row_def pg_event_of_def sample_event_def)
  have r: "ev_step ?S (EvReclaim (seconds 31)) s2 s1"
    by (rule ev_reclaim [where m = 1])
      (simp add: pg_event_store_def pg_ev_reclaim_def s2_def s1_def pg_ev_lock_def update_where_def
        pg_event_row_def pg_ev_stale_def sample_event_def seconds_def)
  have run: "ev_run ?S [] [EvAppend [?e]] s1" using a by (rule ev_run_Cons [OF _ ev_run_Nil])
  have run2: "ev_run ?S s2 [EvReclaim (seconds 31)] s1" using r by (rule ev_run_Cons [OF _ ev_run_Nil])
  have c: "ev_step ?S (EvClaim 0 600 1 [?e]) s1 s2" using claim unfolding s2_def .
  have "\<exists>t. EvReclaim t \<in> set [EvReclaim (seconds 31)] \<and> 0 + seconds 30 < t"
    by (rule pg_events_exclusive [OF run c run2 claim [of 0 5], where e = ?e]) simp_all
  moreover have "ev_run ?S [] [EvAppend [?e], EvClaim 0 600 1 [?e], EvReclaim (seconds 31)] s1"
    using a c r by (blast intro: ev_run.intros)
  ultimately show ?thesis by force
qed

end
