(* ===== verification/MongoEvents.thy ===== *)
theory MongoEvents
  imports EventQueue MongoStore
begin

text \<open>
  The document event queue (\<open>ingest/mongo.py\<close>): one document per event. \<open>clock\<close> is what
  \<open>datetime.now(UTC)\<close> answers while an event is appended, \<open>stored\<close> what the collection gives
  back for an object; \<open>lock_ttl\<close> is the \<open>lock_ttl_s\<close> of the store, which it uses in place of the
  lease it is asked for. A producer may write documents itself: the keys read with \<open>doc.get\<close>
  may be missing (\<open>None\<close>).
\<close>

record MongoEvent =
  me_id :: string
  me_event :: string
  me_tenant_id :: "string option"
  me_schema_version :: "string option"
  me_data :: "(string, json) dict option"
  me_status :: string
  me_created_at :: time
  me_locked_at :: "time option"
  me_error :: "string option"

type_synonym mongo_events = "MongoEvent list"

definition mongo_event_indexes :: "(string \<times> (string \<times> direction) list) list" where
  "mongo_event_indexes = [(''status_created_at_idx'', [(''status'', ASCENDING), (''created_at'', ASCENDING)])]"

definition mongo_event_doc ::
  "(IncomingEvent \<Rightarrow> time) \<Rightarrow> ((string, json) dict \<Rightarrow> (string, json) dict) \<Rightarrow> IncomingEvent \<Rightarrow> MongoEvent" where
  "mongo_event_doc clock stored e =
     \<lparr>me_id = ev_event_id e, me_event = ev_event e, me_tenant_id = ev_tenant_id e,
      me_schema_version = Some (ev_schema_version e), me_data = Some (stored (ev_data e)),
      me_status = ''pending'',
      me_created_at = bson_ms (case ev_created_at e of Some t \<Rightarrow> t | None \<Rightarrow> clock e),
      me_locked_at = None, me_error = None\<rparr>"

text \<open>\<open>insert_one\<close>, whose \<open>DuplicateKeyError\<close> is swallowed.\<close>

definition mongo_ev_append ::
  "(IncomingEvent \<Rightarrow> time) \<Rightarrow> ((string, json) dict \<Rightarrow> (string, json) dict) \<Rightarrow> IncomingEvent \<Rightarrow> (exc, mongo_events, unit) comp" where
  "mongo_ev_append clock stored e = (\<lambda>col. (Inr (), insert_new me_id (mongo_event_doc clock stored e) col))"

definition mongo_ev_append_many ::
  "(IncomingEvent \<Rightarrow> time) \<Rightarrow> ((string, json) dict \<Rightarrow> (string, json) dict) \<Rightarrow> IncomingEvent list \<Rightarrow> (exc, mongo_events, unit) comp" where
  "mongo_ev_append_many clock stored es = (\<lambda>col.
     if es = [] then (Inr (), col)
     else (case insert_unordered me_id (map (mongo_event_doc clock stored) es) col of (errors, col') \<Rightarrow>
       if list_ex (\<lambda>code. code \<noteq> 11000) errors
       then (Inl (Other ''BulkWriteError'' ''batch op errors occurred''), col')
       else (Inr (), col')))"

definition mongo_event_of :: "MongoEvent \<Rightarrow> IncomingEvent" where
  "mongo_event_of d = \<lparr>ev_event_id = me_id d, ev_event = me_event d,
     ev_data = (case me_data d of Some v \<Rightarrow> v | None \<Rightarrow> []), ev_tenant_id = me_tenant_id d,
     ev_schema_version = (case me_schema_version d of Some v \<Rightarrow> v | None \<Rightarrow> ''1.0''),
     ev_created_at = Some (me_created_at d)\<rparr>"

definition mongo_ev_lock :: "time \<Rightarrow> MongoEvent \<Rightarrow> MongoEvent" where
  "mongo_ev_lock now d = d\<lparr>me_status := ''claimed'', me_locked_at := Some (bson_ms now)\<rparr>"

text \<open>One \<open>find_one_and_update\<close>: the oldest pending document, updated and returned.\<close>

definition find_one_and_lock :: "time \<Rightarrow> mongo_events \<Rightarrow> MongoEvent option \<times> mongo_events" where
  "find_one_and_lock now col =
     (case sort_key me_created_at (filter (\<lambda>d. me_status d = ''pending'') col) of
        [] \<Rightarrow> (None, col)
      | d # _ \<Rightarrow> (Some (mongo_ev_lock now d), update_where (\<lambda>x. me_id x = me_id d) (mongo_ev_lock now) col))"

fun event_claim_loop :: "time \<Rightarrow> nat \<Rightarrow> mongo_events \<Rightarrow> IncomingEvent list \<times> mongo_events" where
  "event_claim_loop now 0 col = ([], col)"
| "event_claim_loop now (Suc n) col =
     (case find_one_and_lock now col of
        (None, col1) \<Rightarrow> ([], col1)
      | (Some doc, col1) \<Rightarrow> (case event_claim_loop now n col1 of (evs, col2) \<Rightarrow> (mongo_event_of doc # evs, col2)))"

definition mongo_ev_claim :: "time \<Rightarrow> int \<Rightarrow> int \<Rightarrow> (exc, mongo_events, IncomingEvent list) comp" where
  "mongo_ev_claim now ttl n = (\<lambda>col. case event_claim_loop now (nat n) col of (evs, col') \<Rightarrow> (Inr evs, col'))"

definition mongo_ev_ack :: "string list \<Rightarrow> (exc, mongo_events, unit) comp" where
  "mongo_ev_ack ids = (\<lambda>col.
     if ids = [] then (Inr (), col)
     else (Inr (), update_where (\<lambda>d. me_id d \<in> set ids) (\<lambda>d. d\<lparr>me_status := ''done''\<rparr>) col))"

definition mongo_ev_mark_failed :: "string \<Rightarrow> string \<Rightarrow> (exc, mongo_events, unit) comp" where
  "mongo_ev_mark_failed k err = (\<lambda>col.
     (Inr (), update_where (\<lambda>d. me_id d = k) (\<lambda>d. d\<lparr>me_status := ''failed'', me_error := Some err\<rparr>) col))"

definition mongo_ev_stale :: "int \<Rightarrow> time \<Rightarrow> MongoEvent \<Rightarrow> bool" where
  "mongo_ev_stale lock_ttl now d \<longleftrightarrow> me_status d = ''claimed'' \<and>
     (case me_locked_at d of None \<Rightarrow> False | Some l \<Rightarrow> l < bson_ms (now - seconds lock_ttl))"

definition mongo_ev_reclaim :: "int \<Rightarrow> time \<Rightarrow> (exc, mongo_events, int) comp" where
  "mongo_ev_reclaim lock_ttl now = (\<lambda>col.
     (Inr (int (length (filter (mongo_ev_stale lock_ttl now) col))),
      update_where (mongo_ev_stale lock_ttl now) (\<lambda>d. d\<lparr>me_status := ''pending'', me_locked_at := None\<rparr>) col))"

definition mongo_event_store ::
  "(IncomingEvent \<Rightarrow> time) \<Rightarrow> ((string, json) dict \<Rightarrow> (string, json) dict) \<Rightarrow> int \<Rightarrow> mongo_events event_store" where
  "mongo_event_store clock stored lock_ttl =
     \<lparr>es_append = mongo_ev_append clock stored, es_append_many = mongo_ev_append_many clock stored,
      es_claim_events = mongo_ev_claim, es_ack = mongo_ev_ack, es_mark_failed = mongo_ev_mark_failed,
      es_reclaim_stale = mongo_ev_reclaim lock_ttl\<rparr>"

section \<open>The view of the collection\<close>

definition mongo_status_of :: "string \<Rightarrow> EventIngestStatus" where
  "mongo_status_of v = (if v = ''claimed'' then EV_CLAIMED else if v = ''done'' then EV_DONE
     else if v = ''failed'' then EV_FAILED else EV_PENDING)"

definition mongo_ev_row :: "int \<Rightarrow> MongoEvent \<Rightarrow> ev_row" where
  "mongo_ev_row lock_ttl d = EvRow (mongo_event_of d) (mongo_status_of (me_status d))
     (if me_status d = ''claimed'' then map_option (\<lambda>l. l + seconds lock_ttl) (me_locked_at d) else None)"

definition mongo_ev_ok :: "MongoEvent \<Rightarrow> bool" where
  "mongo_ev_ok d \<longleftrightarrow> (\<exists>st. me_status d = ingest_status_value st) \<and> (me_status d = ''claimed'' \<longrightarrow> me_locked_at d \<noteq> None)"

definition mongo_ev_inv :: "int \<Rightarrow> mongo_events \<Rightarrow> bool" where
  "mongo_ev_inv lock_ttl col \<longleftrightarrow> ev_rows_ok me_id (mongo_ev_row lock_ttl) col \<and> (\<forall>d \<in> set col. mongo_ev_ok d)"

abbreviation mongo_ev_view :: "int \<Rightarrow> mongo_events \<Rightarrow> ev_view" where
  "mongo_ev_view lock_ttl \<equiv> table_view me_id (mongo_ev_row lock_ttl)"

definition mongo_ev_keep ::
  "(IncomingEvent \<Rightarrow> time) \<Rightarrow> ((string, json) dict \<Rightarrow> (string, json) dict) \<Rightarrow> IncomingEvent \<Rightarrow> IncomingEvent" where
  "mongo_ev_keep clock stored e = e\<lparr>ev_data := stored (ev_data e),
     ev_created_at := Some (bson_ms (case ev_created_at e of Some t \<Rightarrow> t | None \<Rightarrow> clock e))\<rparr>"

lemma mongo_event_moves:
  "mongo_ev_row l (mongo_event_doc clock stored e) = EvRow (mongo_ev_keep clock stored e) EV_PENDING None"
  "mongo_ev_row l (mongo_ev_lock now d) = ev_leased (bson_ms now + seconds l) (mongo_ev_row l d)"
  "mongo_ev_row l (d\<lparr>me_status := ''done''\<rparr>) = ev_set EV_DONE (mongo_ev_row l d)"
  "mongo_ev_row l (d\<lparr>me_status := ''failed'', me_error := err\<rparr>) = ev_set EV_FAILED (mongo_ev_row l d)"
  "mongo_ev_row l (d\<lparr>me_status := ''pending'', me_locked_at := None\<rparr>) = ev_set EV_PENDING (mongo_ev_row l d)"
  by (simp_all add: mongo_ev_row_def mongo_event_doc_def mongo_event_of_def mongo_status_of_def ev_leased_def
      ev_set_def mongo_ev_keep_def mongo_ev_lock_def)

lemma mongo_ev_simps [simp]:
  "me_id (mongo_event_doc clock stored e) = ev_event_id e" "ev_event_id (mongo_ev_keep clock stored e) = ev_event_id e"
  "er_event (mongo_ev_row l d) = mongo_event_of d" "er_status (mongo_ev_row l d) = mongo_status_of (me_status d)"
  "mongo_event_of (d\<lparr>me_status := v\<rparr>) = mongo_event_of d" "mongo_event_of (d\<lparr>me_locked_at := k\<rparr>) = mongo_event_of d"
  "mongo_event_of (d\<lparr>me_error := err\<rparr>) = mongo_event_of d" "mongo_event_of (mongo_ev_lock now d) = mongo_event_of d"
  "me_id (mongo_ev_lock now d) = me_id d" "ev_event_id (mongo_event_of d) = me_id d"
  by (simp_all add: mongo_event_doc_def mongo_ev_keep_def mongo_ev_row_def mongo_event_of_def mongo_ev_lock_def)

lemma mongo_ev_pending: "mongo_ev_ok d \<Longrightarrow> er_status (mongo_ev_row l d) = EV_PENDING \<longleftrightarrow> me_status d = ''pending''"
proof -
  assume "mongo_ev_ok d"
  then obtain st where "me_status d = ingest_status_value st" by (auto simp: mongo_ev_ok_def)
  then show ?thesis by (cases st) (simp_all add: mongo_status_of_def)
qed

lemma bson_ms_minus: "bson_ms (t - seconds n) = bson_ms t - seconds n"
  using bson_ms_seconds [of t "- n"] by (simp add: seconds_def)

lemma mongo_ev_stale_iff: "mongo_ev_stale l now d \<longleftrightarrow> ev_stale (bson_ms now) (mongo_ev_row l d)"
  by (auto simp: mongo_ev_stale_def ev_stale_def mongo_ev_row_def mongo_status_of_def bson_ms_minus split: option.split)

lemma mongo_ev_ok_moves [simp]:
  "mongo_ev_ok (mongo_ev_lock now d)" "mongo_ev_ok (d\<lparr>me_status := ''done''\<rparr>)"
  "mongo_ev_ok (d\<lparr>me_status := ''failed'', me_error := err\<rparr>)"
  "mongo_ev_ok (d\<lparr>me_status := ''pending'', me_locked_at := None\<rparr>)" "mongo_ev_ok (mongo_event_doc clock stored e)"
proof -
  have "\<exists>st. v = ingest_status_value st" if "v \<in> {''claimed'', ''done'', ''failed'', ''pending''}" for v
    using that ingest_status_value.simps by (metis insertE singletonD)
  then show "mongo_ev_ok (mongo_ev_lock now d)" "mongo_ev_ok (d\<lparr>me_status := ''done''\<rparr>)"
    "mongo_ev_ok (d\<lparr>me_status := ''failed'', me_error := err\<rparr>)"
    "mongo_ev_ok (d\<lparr>me_status := ''pending'', me_locked_at := None\<rparr>)" "mongo_ev_ok (mongo_event_doc clock stored e)"
    by (simp_all add: mongo_ev_ok_def mongo_event_doc_def mongo_ev_lock_def)
qed

lemma mongo_ev_inv_update:
  assumes "mongo_ev_inv l col" and "\<And>d. mongo_event_of (f d) = mongo_event_of d"
    and "\<And>d. d \<in> set col \<Longrightarrow> mongo_ev_ok (f d)"
  shows "mongo_ev_inv l (update_where P f col)"
proof -
  have ok: "er_lease (mongo_ev_row l d) \<noteq> None \<longleftrightarrow> er_status (mongo_ev_row l d) = EV_CLAIMED" if "mongo_ev_ok d" for d
    using that by (auto simp: mongo_ev_row_def mongo_ev_ok_def mongo_status_of_def)
  have id: "me_id (f d) = me_id d" for d using assms(2) by (metis mongo_ev_simps(10))
  have "ev_rows_ok me_id (mongo_ev_row l) (update_where P f col)"
    using assms ok id by (intro ev_rows_update) (auto simp: mongo_ev_inv_def)
  then show ?thesis using assms by (auto simp: mongo_ev_inv_def set_update_where)
qed

lemma mongo_ev_appended:
  assumes "mongo_ev_inv l t"
  shows "mongo_ev_inv l (fold (insert_new me_id) (map (mongo_event_doc clock stored) evs) t)"
    and "mongo_ev_view l (fold (insert_new me_id) (map (mongo_event_doc clock stored) evs) t)
      = appended (map (mongo_ev_keep clock stored) evs) (mongo_ev_view l t)"
proof -
  have rows: "ev_rows_ok me_id (mongo_ev_row l) t" using assms by (simp add: mongo_ev_inv_def)
  note app = ev_rows_append [OF rows, of "mongo_event_doc clock stored" "mongo_ev_keep clock stored" evs]
  show "mongo_ev_view l (fold (insert_new me_id) (map (mongo_event_doc clock stored) evs) t)
      = appended (map (mongo_ev_keep clock stored) evs) (mongo_ev_view l t)"
    by (rule app(2)) (simp_all add: mongo_event_moves)
  have "ev_rows_ok me_id (mongo_ev_row l) (fold (insert_new me_id) (map (mongo_event_doc clock stored) evs) t)"
    by (rule app(1)) (simp_all add: mongo_event_moves)
  moreover have "set (fold (insert_new me_id) (map (mongo_event_doc clock stored) evs) t)
      \<subseteq> set t \<union> mongo_event_doc clock stored ` set evs"
    using set_fold_insert [of me_id "map (mongo_event_doc clock stored) evs" t] by auto
  ultimately show "mongo_ev_inv l (fold (insert_new me_id) (map (mongo_event_doc clock stored) evs) t)"
    using assms unfolding mongo_ev_inv_def by fastforce
qed

lemma mongo_ev_claimed:
  "mongo_ev_inv l col \<Longrightarrow> event_claim_loop now n col = (evs, col') \<Longrightarrow>
   mongo_ev_inv l col' \<and> ev_claim_ok (mongo_ev_view l col) (bson_ms now + seconds l) (int n) evs (mongo_ev_view l col')"
proof (induction now n col arbitrary: evs col' rule: event_claim_loop.induct)
  case (2 now n col)
  have rows: "ev_rows_ok me_id (mongo_ev_row l) col" using "2.prems"(1) by (simp add: mongo_ev_inv_def)
  have pend: "er_status (mongo_ev_row l d) = EV_PENDING \<longleftrightarrow> me_status d = ''pending''" if "d \<in> set col" for d
    using "2.prems"(1) that mongo_ev_pending by (simp add: mongo_ev_inv_def)
  show ?case
  proof (cases "sort_key me_created_at (filter (\<lambda>d. me_status d = ''pending'') col)")
    case Nil
    from arg_cong [OF this, of set] have none: "filter (\<lambda>d. me_status d = ''pending'') col = []" by simp
    have "er_status r \<noteq> EV_PENDING" if v: "mongo_ev_view l col k = Some r" for k r
    proof -
      obtain d where d: "d \<in> set col" "mongo_ev_row l d = r" using table_view_SomeD [OF v] by blast
      then have "me_status d \<noteq> ''pending''" using none by (simp add: filter_empty_conv)
      then show ?thesis using pend [OF d(1)] d(2) by simp
    qed
    then have "ev_claim_ok (mongo_ev_view l col) (bson_ms now + seconds l) (int (Suc n)) [] (mongo_ev_view l col)"
      by (intro ev_claim_ok_none(2)) auto
    then show ?thesis using "2.prems" Nil by (simp add: find_one_and_lock_def)
  next
    case (Cons d ds)
    then have "d \<in> set (filter (\<lambda>d. me_status d = ''pending'') col)" by (metis list.set_intros(1) set_sort)
    then have d: "d \<in> set col" "me_status d = ''pending''" by auto
    let ?col = "update_where (\<lambda>x. me_id x = me_id d) (mongo_ev_lock now) col"
    let ?x = "bson_ms now + seconds l"
    have found: "find_one_and_lock now col = (Some (mongo_ev_lock now d), ?col)" by (simp add: find_one_and_lock_def Cons)
    obtain rest where r: "event_claim_loop now n ?col = (rest, col')" "evs = mongo_event_of d # rest"
      using "2.prems"(2) found by (auto split: prod.splits)
    have inv: "mongo_ev_inv l ?col" by (rule mongo_ev_inv_update [OF "2.prems"(1)]) simp_all
    have row: "mongo_ev_row l d = EvRow (mongo_event_of d) EV_PENDING None"
      using d by (simp add: mongo_ev_row_def mongo_status_of_def)
    then have at_d: "mongo_ev_view l col (me_id d) = Some (EvRow (mongo_event_of d) EV_PENDING None)"
      using ev_rows_view_in [OF rows d(1)] by simp
    have view: "mongo_ev_view l ?col = (mongo_ev_view l col)(me_id d \<mapsto> ev_leased ?x (EvRow (mongo_event_of d) EV_PENDING None))"
      by (rule table_view_update_key [OF _ _ at_d]) (simp_all add: mongo_event_moves)
    have "mongo_ev_inv l col'" and rest: "ev_claim_ok ((mongo_ev_view l col)(me_id d \<mapsto> ev_leased ?x (EvRow (mongo_event_of d) EV_PENDING None)))
        ?x (int n) rest (mongo_ev_view l col')"
      using "2.IH" [OF found [symmetric] refl inv r(1)] unfolding view by blast+
    moreover have "ev_claim_ok (mongo_ev_view l col) ?x (int n + 1) (mongo_event_of d # rest) (mongo_ev_view l col')"
      by (rule ev_claim_ok_Cons) (simp_all add: at_d rest del: fun_upd_apply)
    ultimately show ?thesis using r(2) by (simp add: algebra_simps)
  qed
qed (simp add: ev_claim_ok_none)

interpretation mongo_ev: event_store_contract "mongo_event_store clock stored l" "mongo_ev_view l" "mongo_ev_inv l"
  bson_ms "\<lambda>now _. bson_ms now + seconds l" "mongo_ev_keep clock stored" for clock stored l
proof (unfold_locales, goal_cases)
  case (5 s) then show ?case by (simp add: mongo_ev_inv_def ev_rows_view_ok)
next
  case (6 s e) from mongo_ev_appended [OF 6, where evs = "[e]"] show ?case
    by (simp add: mongo_event_store_def mongo_ev_append_def)
next
  case (7 s evs)
  obtain errors where e: "insert_unordered me_id (map (mongo_event_doc clock stored) evs) s =
      (errors, fold (insert_new me_id) (map (mongo_event_doc clock stored) evs) s)" "\<forall>c \<in> set errors. c = 11000"
    using insert_unordered_ok by blast
  then have "mongo_ev_append_many clock stored evs s = (Inr (), fold (insert_new me_id) (map (mongo_event_doc clock stored) evs) s)"
    by (auto simp: mongo_ev_append_many_def list_ex_iff)
  then show ?case using mongo_ev_appended [OF 7, where evs = evs] by (simp add: mongo_event_store_def)
next
  case (8 s n now ttl)
  obtain evs s' where "event_claim_loop now (nat n) s = (evs, s')" by fastforce
  then show ?case using mongo_ev_claimed [OF 8(1), of now "nat n" evs s'] 8(2)
    by (simp add: mongo_event_store_def mongo_ev_claim_def)
next
  case (9 s ids)
  have "mongo_ev_ack ids s = (Inr (), update_where (\<lambda>d. me_id d \<in> set ids) (\<lambda>d. d\<lparr>me_status := ''done''\<rparr>) s)"
    by (simp add: mongo_ev_ack_def update_where_def)
  then show ?case
    using ev_rows_changed [of me_id "\<lambda>d. d\<lparr>me_status := ''done''\<rparr>" s "mongo_ev_row l" EV_DONE "set ids"]
    by (auto simp: mongo_event_store_def mongo_event_moves intro!: mongo_ev_inv_update [OF 9])
next
  case (10 s k err)
  then show ?case
    using ev_rows_changed [of me_id "\<lambda>d. d\<lparr>me_status := ''failed'', me_error := Some err\<rparr>" s "mongo_ev_row l" EV_FAILED "{k}"]
    by (auto simp: mongo_event_store_def mongo_ev_mark_failed_def mongo_event_moves intro!: mongo_ev_inv_update [OF 10])
next
  case (11 s now)
  have rows: "ev_rows_ok me_id (mongo_ev_row l) s" using 11 by (simp add: mongo_ev_inv_def)
  have "mongo_ev_view l (update_where (mongo_ev_stale l now) (\<lambda>d. d\<lparr>me_status := ''pending'', me_locked_at := None\<rparr>) s)
      = ev_reclaimed (bson_ms now) (mongo_ev_view l s)"
    by (rule ev_rows_reclaimed) (simp_all add: mongo_event_moves mongo_ev_stale_iff)
  moreover have "length (filter (mongo_ev_stale l now) s) = card {k. \<exists>r. mongo_ev_view l s k = Some r \<and> ev_stale (bson_ms now) r}"
    by (rule ev_rows_stale_count [OF rows]) (simp add: mongo_ev_stale_iff)
  ultimately show ?case
    by (auto simp: mongo_event_store_def mongo_ev_reclaim_def intro!: mongo_ev_inv_update [OF 11])
qed (simp_all add: mongo_ev_keep_def)

end
