(* ===== verification/MemoryEvents.thy ===== *)
theory MemoryEvents
  imports EventQueue
begin

text \<open>
  The event queue in memory (\<open>ingest/memory.py\<close>): a dictionary of rows, each operation atomic on
  the event loop, and the interpretation of the queue contract on it.
\<close>

record MemRow =
  mr_event :: IncomingEvent
  mr_status :: EventIngestStatus
  mr_lease_until :: "time option"

type_synonym mem_events = "(string, MemRow) dict"

definition mem_ev_append :: "IncomingEvent \<Rightarrow> (exc, mem_events, unit) comp" where
  "mem_ev_append e = (\<lambda>rows. (Inr (), insert_new fst
     (ev_event_id e, \<lparr>mr_event = e, mr_status = EV_PENDING, mr_lease_until = None\<rparr>) rows))"

text \<open>The loop over the rows: \<open>claimed\<close> is what it has claimed so far.\<close>

fun mem_claim_loop :: "time \<Rightarrow> int \<Rightarrow> IncomingEvent list \<Rightarrow> mem_events \<Rightarrow> IncomingEvent list \<times> mem_events" where
  "mem_claim_loop until n claimed [] = (claimed, [])"
| "mem_claim_loop until n claimed ((k, row) # rows) =
     (if n \<le> int (length claimed) then (claimed, (k, row) # rows)
      else if mr_status row = EV_PENDING then
        (case mem_claim_loop until n (claimed @ [mr_event row]) rows of (c, rows') \<Rightarrow>
           (c, (k, row\<lparr>mr_status := EV_CLAIMED, mr_lease_until := Some until\<rparr>) # rows'))
      else (case mem_claim_loop until n claimed rows of (c, rows') \<Rightarrow> (c, (k, row) # rows')))"

definition mem_ev_claim :: "time \<Rightarrow> int \<Rightarrow> int \<Rightarrow> (exc, mem_events, IncomingEvent list) comp" where
  "mem_ev_claim now ttl n = (\<lambda>rows. case mem_claim_loop (now + seconds ttl) n [] rows of
     (c, rows') \<Rightarrow> (Inr c, rows'))"

definition mem_put_status :: "EventIngestStatus \<Rightarrow> string \<times> MemRow \<Rightarrow> string \<times> MemRow" where
  "mem_put_status st kr = (fst kr, (snd kr)\<lparr>mr_status := st, mr_lease_until := None\<rparr>)"

definition mem_ev_ack :: "string list \<Rightarrow> (exc, mem_events, unit) comp" where
  "mem_ev_ack ids = (\<lambda>rows. (Inr (),
     fold (\<lambda>i. update_where (\<lambda>kr. fst kr = i) (mem_put_status EV_DONE)) ids rows))"

definition mem_ev_mark_failed :: "string \<Rightarrow> string \<Rightarrow> (exc, mem_events, unit) comp" where
  "mem_ev_mark_failed i err = (\<lambda>rows. (Inr (), update_where (\<lambda>kr. fst kr = i) (mem_put_status EV_FAILED) rows))"

definition mem_ev_stale :: "time \<Rightarrow> string \<times> MemRow \<Rightarrow> bool" where
  "mem_ev_stale now kr \<longleftrightarrow> mr_status (snd kr) = EV_CLAIMED \<and>
     (case mr_lease_until (snd kr) of None \<Rightarrow> False | Some x \<Rightarrow> x < now)"

definition mem_ev_reclaim :: "time \<Rightarrow> (exc, mem_events, int) comp" where
  "mem_ev_reclaim now = (\<lambda>rows. (Inr (int (length (filter (mem_ev_stale now) rows))),
     update_where (mem_ev_stale now) (mem_put_status EV_PENDING) rows))"

definition mem_event_store :: "mem_events event_store" where
  "mem_event_store = \<lparr>es_append = mem_ev_append, es_append_many = append_each mem_ev_append,
     es_claim_events = mem_ev_claim, es_ack = mem_ev_ack, es_mark_failed = mem_ev_mark_failed,
     es_reclaim_stale = mem_ev_reclaim\<rparr>"

definition mem_ev_row :: "string \<times> MemRow \<Rightarrow> ev_row" where
  "mem_ev_row kr = EvRow (mr_event (snd kr)) (mr_status (snd kr)) (mr_lease_until (snd kr))"

abbreviation mem_ev_view :: "mem_events \<Rightarrow> ev_view" where
  "mem_ev_view \<equiv> table_view fst mem_ev_row"

abbreviation mem_ev_inv :: "mem_events \<Rightarrow> bool" where
  "mem_ev_inv \<equiv> ev_rows_ok fst mem_ev_row"

lemma mem_put_status_simps [simp]:
  "fst (mem_put_status st kr) = fst kr" "mem_ev_row (mem_put_status st kr) = ev_set st (mem_ev_row kr)"
  by (simp_all add: mem_put_status_def mem_ev_row_def ev_set_def)

lemma mem_append_many:
  "append_each mem_ev_append evs rows = (Inr (), fold (insert_new fst) (map (\<lambda>e. (ev_event_id e,
     \<lparr>mr_event = e, mr_status = EV_PENDING, mr_lease_until = None\<rparr>)) evs) rows)"
  by (induction evs arbitrary: rows) (simp_all add: bindE_def mem_ev_append_def)

definition mem_lease_row :: "time \<Rightarrow> string \<times> MemRow \<Rightarrow> string \<times> MemRow" where
  "mem_lease_row x kr = (fst kr, (snd kr)\<lparr>mr_status := EV_CLAIMED, mr_lease_until := Some x\<rparr>)"

lemma update_where_cong:
  "(\<And>r. r \<in> set t \<Longrightarrow> P r \<longleftrightarrow> Q r) \<Longrightarrow> update_where P f t = update_where Q f t"
  by (simp add: update_where_def)

lemma mem_claim_loop_eq:
  assumes "distinct (map fst rows)"
  shows "mem_claim_loop x n claimed rows =
    (let chosen = take (nat (n - int (length claimed))) (filter (\<lambda>kr. mr_status (snd kr) = EV_PENDING) rows)
     in (claimed @ map (\<lambda>kr. mr_event (snd kr)) chosen,
         update_where (\<lambda>kr. fst kr \<in> fst ` set chosen) (mem_lease_row x) rows))"
  using assms
proof (induction x n claimed rows rule: mem_claim_loop.induct)
  case (2 x n claimed k row rows)
  let ?P = "filter (\<lambda>kr. mr_status (snd kr) = EV_PENDING) rows"
  have new: "\<And>m kr. kr \<in> set rows \<Longrightarrow> fst kr \<noteq> k" "\<And>m. k \<notin> fst ` set (take m ?P)"
    using "2.prems" by (force dest: in_set_takeD)+
  show ?case
  proof (cases "n \<le> int (length claimed)")
    case False
    then have m: "nat (n - int (length claimed)) = Suc (nat (n - int (length (claimed @ [mr_event row]))))" by simp
    have cong: "update_where (\<lambda>kr. fst kr = k \<or> fst kr \<in> fst ` set c) f rows = update_where (\<lambda>kr. fst kr \<in> fst ` set c) f rows" for c :: "(string \<times> MemRow) list" and f
      using new(1) by (intro update_where_cong) auto
    show ?thesis
    proof (cases "mr_status row = EV_PENDING")
      case True
      then show ?thesis
        using False "2.IH"(1) "2.prems" unfolding m
        by (simp add: Let_def update_where_def mem_lease_row_def) (use new in auto)
    next
      case pending: False
      then show ?thesis
        using False "2.IH"(2) "2.prems" new(2)
        by (simp add: Let_def update_where_def)
    qed
  qed (simp add: Let_def update_where_def)
qed (simp add: update_where_def)

lemma mem_ack_eq:
  "fold (\<lambda>i. update_where (\<lambda>kr. fst kr = i) (mem_put_status st)) ids rows =
     update_where (\<lambda>kr. fst kr \<in> set ids) (mem_put_status st) rows"
  by (induction ids arbitrary: rows) (auto simp: update_where_def mem_put_status_def)

interpretation mem_ev: event_store_contract mem_event_store mem_ev_view mem_ev_inv
  "\<lambda>t. t" "\<lambda>now ttl. now + seconds ttl" "\<lambda>e. e"
proof (unfold_locales, goal_cases)
  case (5 s) then show ?case by (rule ev_rows_view_ok)
next
  case (6 s e)
  from ev_rows_append [OF this, of "\<lambda>e. (ev_event_id e, \<lparr>mr_event = e, mr_status = EV_PENDING, mr_lease_until = None\<rparr>)" "\<lambda>e. e" "[e]"]
  show ?case by (simp add: mem_event_store_def mem_ev_append_def mem_ev_row_def)
next
  case (7 s evs)
  from ev_rows_append [OF this, of "\<lambda>e. (ev_event_id e, \<lparr>mr_event = e, mr_status = EV_PENDING, mr_lease_until = None\<rparr>)" "\<lambda>e. e" evs]
  show ?case by (simp add: mem_event_store_def mem_append_many mem_ev_row_def)
next
  case (8 s n now ttl)
  let ?P = "filter (\<lambda>kr. mr_status (snd kr) = EV_PENDING) s" and ?x = "now + seconds ttl"
  have d: "distinct (map fst s)" using 8(1) by (simp add: ev_rows_ok_def)
  have "ev_claim_ok (mem_ev_view s) ?x n (map (\<lambda>r. er_event (mem_ev_row r)) (take (nat n) ?P))
      (mem_ev_view (update_where (\<lambda>r. fst r \<in> fst ` set (take (nat n) ?P)) (mem_lease_row ?x) s))"
    using 8 d by (intro ev_rows_claim) (auto simp: mem_ev_row_def mem_lease_row_def ev_leased_def distinct_map_filter)
  moreover have "mem_ev_inv (update_where (\<lambda>r. fst r \<in> fst ` set (take (nat n) ?P)) (mem_lease_row ?x) s)"
    by (rule ev_rows_update [OF 8(1)]) (simp_all add: mem_lease_row_def mem_ev_row_def)
  ultimately show ?case
    by (simp add: mem_event_store_def mem_ev_claim_def mem_claim_loop_eq [OF d] Let_def mem_ev_row_def)
next
  case (9 s ids)
  then show ?case
    by (auto simp: mem_event_store_def mem_ev_ack_def mem_ack_eq intro!: ev_rows_update ev_rows_changed)
next
  case (10 s k err)
  then show ?case
    using ev_rows_changed [of fst "mem_put_status EV_FAILED" s mem_ev_row EV_FAILED "{k}"]
    by (auto simp: mem_event_store_def mem_ev_mark_failed_def intro!: ev_rows_update)
next
  case (11 s now)
  have st: "mem_ev_stale now r \<longleftrightarrow> ev_stale now (mem_ev_row r)" for r
    by (simp add: mem_ev_stale_def ev_stale_def mem_ev_row_def)
  have "mem_ev_inv (update_where (mem_ev_stale now) (mem_put_status EV_PENDING) s)"
    by (rule ev_rows_update [OF 11]) simp_all
  then show ?case
    using ev_rows_stale_count [of fst mem_ev_row s "mem_ev_stale now" now, OF 11 st] ev_rows_reclaimed [of fst "mem_put_status EV_PENDING" s "mem_ev_stale now" now mem_ev_row] st
    by (simp add: mem_event_store_def mem_ev_reclaim_def)
qed simp_all

end
