(* ===== verification/EventIngestor.thy ===== *)
theory EventIngestor
  imports MemoryEvents MemoryStore SsrfGuard Protocols
begin

text \<open>
  From claimed events to queued deliveries (\<open>ingest/ingestor.py\<close>). The ingestor's collaborators
  are the fields of its record, what it reads and changes is the world: the event queue, the
  subscription reader and the delivery store, each with its state, and the number of identifiers
  \<open>uuid4\<close> has given out so far, the \<open>n\<close>-th of which is \<open>ing_uuid n\<close>.
\<close>

record ('e, 'q, 's) Ingestor =
  ing_events :: "'e event_store"
  ing_subs :: "'q subscription_reader"
  ing_deliveries :: "'s delivery_store"
  ing_ssrf :: UrlSafetyValidator
  ing_idna :: idna
  ing_uuid :: "nat \<Rightarrow> string"
  ing_lease_ttl_s :: int
  ing_batch_size :: int

record ('e, 'q, 's) ing_world =
  iw_events :: 'e
  iw_subs :: 'q
  iw_deliveries :: 's
  iw_uuids :: nat

record IngestTickStats =
  ing_claimed :: int
  ing_fanned_out :: int
  ing_failed :: int

definition on_events :: "(exc, 'e, 'a) comp \<Rightarrow> (exc, ('e, 'q, 's) ing_world, 'a) comp" where
  "on_events m = (\<lambda>w. case m (iw_events w) of (res, e) \<Rightarrow> (res, w\<lparr>iw_events := e\<rparr>))"

definition on_subs :: "(exc, 'q, 'a) comp \<Rightarrow> (exc, ('e, 'q, 's) ing_world, 'a) comp" where
  "on_subs m = (\<lambda>w. case m (iw_subs w) of (res, q) \<Rightarrow> (res, w\<lparr>iw_subs := q\<rparr>))"

definition on_delivery_store :: "(exc, 's, 'a) comp \<Rightarrow> (exc, ('e, 'q, 's) ing_world, 'a) comp" where
  "on_delivery_store m = (\<lambda>w. case m (iw_deliveries w) of (res, s) \<Rightarrow> (res, w\<lparr>iw_deliveries := s\<rparr>))"

section \<open>Fan-out of one event\<close>

text \<open>\<open>json.dumps(v)\<close> with the default separators.\<close>

definition dumps_default :: "json \<Rightarrow> string" where
  "dumps_default = dumps_seps '', '' '': ''"

text \<open>The re-check of a subscription's address; what it raises besides a blocked target escapes.\<close>

definition target_check :: "('e, 'q, 's) Ingestor \<Rightarrow> SubscriptionSnapshot \<Rightarrow> exc + unit" where
  "target_check d sub =
     (case urlsplit (sub_url sub) of
        None \<Rightarrow> Inl (ValueError ''Invalid IPv6 URL'')
      | Some parsed \<Rightarrow>
          (case target_port parsed of
             Inl e \<Rightarrow> Inl e
           | Inr port \<Rightarrow>
               check_ip (ing_idna d) (ing_ssrf d) (sub_resolved_ip sub)
                 (case hostname parsed of Some (c # cs) \<Rightarrow> Some (c # cs) | _ \<Rightarrow> None) (Some port)))"

definition delivery_for :: "IncomingEvent \<Rightarrow> time \<Rightarrow> bytes \<Rightarrow> SubscriptionSnapshot \<Rightarrow> string \<Rightarrow> DeliveryRecord" where
  "delivery_for event now data sub did =
     \<lparr>delivery_id = did, subscription_id = sub_id sub, owner_id = sub_owner_id sub,
      event_name = ev_event event, event_id = ev_event_id event,
      schema_version = ev_schema_version event, tenant_id = ev_tenant_id event, data_json = data,
      emitted_at = (case ev_created_at event of Some t \<Rightarrow> t | None \<Rightarrow> now),
      target_url = sub_url sub, resolved_ip = sub_resolved_ip sub, redelivery_of = None,
      attempts = 0, fire_at = now, created_at = now, status = PENDING,
      profile = DEFAULT_PROFILE, secret_version = None\<rparr>"

fun build_records ::
  "('e, 'q, 's) Ingestor \<Rightarrow> IncomingEvent \<Rightarrow> time \<Rightarrow> bytes \<Rightarrow> SubscriptionSnapshot list \<Rightarrow> nat \<Rightarrow>
   (exc + DeliveryRecord list) \<times> nat" where
  "build_records d event now data [] n = (Inr [], n)"
| "build_records d event now data (sub # subs) n =
     (case target_check d sub of
        Inl (InvalidWebhookTarget _ _) \<Rightarrow> build_records d event now data subs n
      | Inl e \<Rightarrow> (Inl e, n)
      | Inr _ \<Rightarrow>
          (case build_records d event now data subs (Suc n) of
             (Inl e, m) \<Rightarrow> (Inl e, m)
           | (Inr rs, m) \<Rightarrow> (Inr (delivery_for event now data sub (ing_uuid d n) # rs), m)))"

definition fan_out ::
  "('e, 'q, 's) Ingestor \<Rightarrow> IncomingEvent \<Rightarrow> time \<Rightarrow> (exc, ('e, 'q, 's) ing_world, int) comp" where
  "fan_out d event now =
     bindE (on_subs (ing_subs d (ev_event event) (ev_tenant_id event))) (\<lambda>subscriptions.
       if subscriptions = [] then ret 0
       else (\<lambda>w.
         case build_records d event now (encode (dumps_default (JObj (ev_data event)))) subscriptions (iw_uuids w) of
           (Inl e, n) \<Rightarrow> (Inl e, w\<lparr>iw_uuids := n\<rparr>)
         | (Inr records, n) \<Rightarrow>
             (if records = [] then ret 0
              else bindE (on_delivery_store (enqueue_many (ing_deliveries d) records))
                     (\<lambda>_. ret (int (length records)))) (w\<lparr>iw_uuids := n\<rparr>)))"

section \<open>The tick\<close>

text \<open>The loop over the claimed events: the acknowledged ids, the deliveries and the failures so far.\<close>

fun ingest_each ::
  "('e, 'q, 's) Ingestor \<Rightarrow> time \<Rightarrow> IncomingEvent list \<Rightarrow> string list \<Rightarrow> int \<Rightarrow> int \<Rightarrow>
   (exc, ('e, 'q, 's) ing_world, string list \<times> int \<times> int) comp" where
  "ingest_each d now [] acked fanned failed w = (Inr (acked, fanned, failed), w)"
| "ingest_each d now (event # events) acked fanned failed w =
     (case fan_out d event now w of
        (Inr k, w1) \<Rightarrow> ingest_each d now events (acked @ [ev_event_id event]) (fanned + k) failed w1
      | (Inl e, w1) \<Rightarrow>
          bindE (on_events (es_mark_failed (ing_events d) (ev_event_id event) (exc_text e)))
            (\<lambda>_. ingest_each d now events acked fanned (failed + 1)) w1)"

definition ingest_tick ::
  "('e, 'q, 's) Ingestor \<Rightarrow> time \<Rightarrow> (exc, ('e, 'q, 's) ing_world, IngestTickStats) comp" where
  "ingest_tick d now =
     bindE (catchE (bindE (on_events (es_reclaim_stale (ing_events d) now)) (\<lambda>_. ret ())) (\<lambda>_. ret ())) (\<lambda>_.
     bindE (on_events (es_claim_events (ing_events d) now (ing_lease_ttl_s d) (ing_batch_size d))) (\<lambda>events.
       if events = [] then ret \<lparr>ing_claimed = 0, ing_fanned_out = 0, ing_failed = 0\<rparr>
       else bindE (ingest_each d now events [] 0 0) (\<lambda>(acked, fanned_out, failed).
         bindE (if acked \<noteq> [] then on_events (es_ack (ing_events d) acked) else ret ()) (\<lambda>_.
           ret \<lparr>ing_claimed = int (length events), ing_fanned_out = fanned_out, ing_failed = failed\<rparr>))))"

section \<open>What a fan-out adds\<close>

text \<open>
  The records \<open>rs\<close> deliver the event \<open>e\<close>: some answer of the reader lists the subscriptions, and
  there is one pending record for each whose address passes the check.
\<close>

definition delivers :: "('e, 'q, 's) Ingestor \<Rightarrow> time \<Rightarrow> IncomingEvent \<Rightarrow> DeliveryRecord list \<Rightarrow> bool" where
  "delivers d now e rs \<longleftrightarrow> (\<exists>q q' subs. ing_subs d (ev_event e) (ev_tenant_id e) q = (Inr subs, q') \<and>
     (\<exists>dids. length dids = length rs \<and>
       rs = map2 (delivery_for e now (encode (dumps_default (JObj (ev_data e)))))
         (filter (\<lambda>sub. target_check d sub = Inr ()) subs) dids \<and>
       length rs = length (filter (\<lambda>sub. target_check d sub = Inr ()) subs)))"

text \<open>
  Why a fan-out raises: the reader raised, or the address of some subscription could not even be
  checked. One subscription with an unparsable URL fails the event for all of them.
\<close>

definition fan_out_fails :: "('e, 'q, 's) Ingestor \<Rightarrow> IncomingEvent \<Rightarrow> bool" where
  "fan_out_fails d e \<longleftrightarrow>
     (\<exists>q ex q'. ing_subs d (ev_event e) (ev_tenant_id e) q = (Inl ex, q')) \<or>
     (\<exists>q subs q'. ing_subs d (ev_event e) (ev_tenant_id e) q = (Inr subs, q') \<and>
        (\<exists>sub \<in> set subs. \<exists>ex. target_check d sub = Inl ex \<and> (\<forall>r t. ex \<noteq> InvalidWebhookTarget r t)))"

lemma delivery_for_simps [simp]:
  "delivery_id (delivery_for e now data sub did) = did" "status (delivery_for e now data sub did) = PENDING"
  "event_id (delivery_for e now data sub did) = ev_event_id e"
  "subscription_id (delivery_for e now data sub did) = sub_id sub"
  "resolved_ip (delivery_for e now data sub did) = sub_resolved_ip sub"
  "fire_at (delivery_for e now data sub did) = now"
  by (simp_all add: delivery_for_def)

lemma build_records_ok:
  "build_records d e now data subs n = (res, m) \<Longrightarrow> n \<le> m \<and>
   (\<forall>rs. res = Inr rs \<longrightarrow> m = n + length rs \<and>
     rs = map2 (delivery_for e now data) (filter (\<lambda>sub. target_check d sub = Inr ()) subs) (map (ing_uuid d) [n..<m]) \<and>
     length rs = length (filter (\<lambda>sub. target_check d sub = Inr ()) subs))"
proof (induction d e now data subs n arbitrary: res m rule: build_records.induct)
  case (2 d e now data sub subs n)
  show ?case
  proof (cases "target_check d sub")
    case (Inl ex)
    show ?thesis
    proof (cases "\<exists>r t. ex = InvalidWebhookTarget r t")
      case True
      then obtain r t where ex: "ex = InvalidWebhookTarget r t" by blast
      have "build_records d e now data subs n = (res, m)" using "2.prems" Inl ex by simp
      have skip: "filter (\<lambda>sub. target_check d sub = Inr ()) (sub # subs) = filter (\<lambda>sub. target_check d sub = Inr ()) subs"
        using Inl by simp
      from "2.IH"(1) [OF Inl ex \<open>build_records d e now data subs n = (res, m)\<close>] show ?thesis unfolding skip .
    next
      case False
      then show ?thesis using "2.prems" Inl by (cases ex) auto
    qed
  next
    case (Inr u)
    obtain res' m' where b: "build_records d e now data subs (Suc n) = (res', m')" by fastforce
    have IH: "Suc n \<le> m' \<and> (\<forall>rs. res' = Inr rs \<longrightarrow> m' = Suc n + length rs \<and>
       rs = map2 (delivery_for e now data) (filter (\<lambda>sub. target_check d sub = Inr ()) subs) (map (ing_uuid d) [Suc n..<m']) \<and>
       length rs = length (filter (\<lambda>sub. target_check d sub = Inr ()) subs))"
      by (rule "2.IH"(2) [OF Inr b])
    then have upt: "[n..<m'] = n # [Suc n..<m']" by (simp add: upt_conv_Cons)
    show ?thesis
    proof (cases res')
      case (Inl ex)
      then have "m = m'" "res = Inl ex" using Inr b "2.prems" by simp_all
      then show ?thesis using IH by simp
    next
      case rs: (Inr rs)
      then have m: "m = m'" and res: "res = Inr (delivery_for e now data sub (ing_uuid d n) # rs)" using Inr b "2.prems" by simp_all
      have F: "filter (\<lambda>sub. target_check d sub = Inr ()) (sub # subs) = sub # filter (\<lambda>sub. target_check d sub = Inr ()) subs"
        using Inr by simp
      have r: "m' = Suc n + length rs" "length rs = length (filter (\<lambda>sub. target_check d sub = Inr ()) subs)"
        "rs = map2 (delivery_for e now data) (filter (\<lambda>sub. target_check d sub = Inr ()) subs) (map (ing_uuid d) [Suc n..<m'])"
        using IH rs by blast+
      have "delivery_for e now data sub (ing_uuid d n) # rs = map2 (delivery_for e now data)
          (filter (\<lambda>sub. target_check d sub = Inr ()) (sub # subs)) (map (ing_uuid d) [n..<m])"
        unfolding F m upt by (subst r(3)) simp
      then show ?thesis unfolding res m using r(1,2) F by simp
    qed
  qed
qed simp

lemma build_records_raise:
  "build_records d e now data subs n = (Inl ex, m) \<Longrightarrow>
   \<exists>sub \<in> set subs. target_check d sub = Inl ex \<and> (\<forall>r t. ex \<noteq> InvalidWebhookTarget r t)"
proof (induction d e now data subs n arbitrary: m rule: build_records.induct)
  case (2 d e now data sub subs n)
  show ?case
  proof (cases "target_check d sub")
    case (Inl x)
    then show ?thesis using 2 by (cases x) auto
  next
    case (Inr u)
    then show ?thesis using "2.prems" "2.IH"(2) [OF Inr] by (auto split: sum.splits prod.splits)
  qed
qed simp

lemma enqueued_append: "enqueued (xs @ ys) v = enqueued ys (enqueued xs v)"
proof
  fix k
  have "find P (xs @ ys) = (case find P xs of Some x \<Rightarrow> Some x | None \<Rightarrow> find P ys)" for P :: "DeliveryRecord \<Rightarrow> bool"
    by (induction xs) auto
  then show "enqueued (xs @ ys) v k = enqueued ys (enqueued xs v) k"
    by (auto simp: enqueued_def split: option.splits)
qed


text \<open>\<open>fresh_ids\<close>: the identifiers not given out yet are new to the store.\<close>

definition fresh_ids :: "('s \<Rightarrow> view) \<Rightarrow> ('e, 'q, 's) Ingestor \<Rightarrow> ('e, 'q, 's) ing_world \<Rightarrow> bool" where
  "fresh_ids view d w \<longleftrightarrow> inj (ing_uuid d) \<and> (\<forall>n \<ge> iw_uuids w. view (iw_deliveries w) (ing_uuid d n) = None)"

definition rows_added ::
  "('s \<Rightarrow> view) \<Rightarrow> (DeliveryRecord \<Rightarrow> DeliveryRecord) \<Rightarrow> ('e, 'q, 's) Ingestor \<Rightarrow>
   ('e, 'q, 's) ing_world \<Rightarrow> ('e, 'q, 's) ing_world \<Rightarrow> DeliveryRecord list \<Rightarrow> bool" where
  "rows_added view keep d w w' rs \<longleftrightarrow>
     view (iw_deliveries w') = enqueued (map keep rs) (view (iw_deliveries w)) \<and>
     iw_uuids w \<le> iw_uuids w' \<and> distinct (map delivery_id rs) \<and>
     delivery_id ` set rs \<subseteq> ing_uuid d ` {iw_uuids w..<iw_uuids w'}"

lemma rows_added_none:
  "view (iw_deliveries w') = view (iw_deliveries w) \<Longrightarrow> iw_uuids w \<le> iw_uuids w' \<Longrightarrow> rows_added view keep d w w' []"
  by (auto simp: rows_added_def enqueued_def fun_eq_iff split: option.split)

lemma rows_added_trans:
  assumes "rows_added view keep d w w1 xs" and "rows_added view keep d w1 w2 ys" and "inj (ing_uuid d)"
  shows "rows_added view keep d w w2 (xs @ ys)"
proof -
  have "ing_uuid d ` {iw_uuids w..<iw_uuids w1} \<inter> ing_uuid d ` {iw_uuids w1..<iw_uuids w2} = {}"
    using assms(3) by (auto dest: injD)
  then have "delivery_id ` set xs \<inter> delivery_id ` set ys = {}" using assms(1,2) unfolding rows_added_def by blast
  moreover have "ing_uuid d ` {iw_uuids w..<iw_uuids w1} \<union> ing_uuid d ` {iw_uuids w1..<iw_uuids w2}
      = ing_uuid d ` {iw_uuids w..<iw_uuids w2}"
    using assms(1,2) by (simp add: rows_added_def image_Un [symmetric] ivl_disj_un)
  moreover have "delivery_id ` set (xs @ ys) = delivery_id ` set xs \<union> delivery_id ` set ys" by auto
  ultimately have "delivery_id ` set (xs @ ys) \<subseteq> ing_uuid d ` {iw_uuids w..<iw_uuids w2}" "distinct (map delivery_id (xs @ ys))"
    using assms(1,2) unfolding rows_added_def by (auto simp del: image_Un)
  then show ?thesis
    using assms(1,2) unfolding rows_added_def by (simp only: enqueued_append map_append) simp
qed

text \<open>
  The outcome of a tick: each claimed event with the records it was delivered by, or \<open>None\<close>
  when its fan-out raised.
\<close>

type_synonym outcomes = "(IncomingEvent \<times> DeliveryRecord list option) list"

definition acked_ids :: "outcomes \<Rightarrow> string list" where
  "acked_ids outs = map (ev_event_id \<circ> fst) (filter (\<lambda>x. snd x \<noteq> None) outs)"

definition failed_ids :: "outcomes \<Rightarrow> string list" where
  "failed_ids outs = map (ev_event_id \<circ> fst) (filter (\<lambda>x. snd x = None) outs)"

definition new_rows :: "outcomes \<Rightarrow> DeliveryRecord list" where
  "new_rows outs = concat (map (\<lambda>x. case snd x of None \<Rightarrow> [] | Some rs \<Rightarrow> rs) outs)"

definition outcomes_ok :: "('e, 'q, 's) Ingestor \<Rightarrow> time \<Rightarrow> outcomes \<Rightarrow> bool" where
  "outcomes_ok d now outs \<longleftrightarrow> (\<forall>(e, out) \<in> set outs. case out of None \<Rightarrow> fan_out_fails d e | Some rs \<Rightarrow> delivers d now e rs)"

lemma outcome_ids: "set (acked_ids outs) \<union> set (failed_ids outs) = ev_event_id ` fst ` set outs"
proof -
  have "{x \<in> set outs. snd x \<noteq> None} \<union> {x \<in> set outs. snd x = None} = set outs" by auto
  then show ?thesis by (simp only: acked_ids_def failed_ids_def set_map set_filter image_Un [symmetric] image_comp)
qed

lemma ev_set_ev_set [simp]: "ev_set st (ev_set st' r) = ev_set st r"
  by (simp add: ev_set_def)

lemma ev_changed_changed:
  "ev_changed a st (ev_changed b st' v) = (\<lambda>k. if k \<in> a then map_option (ev_set st) (v k)
     else if k \<in> b then map_option (ev_set st') (v k) else v k)"
  by (auto simp: ev_changed_def fun_eq_iff option.map_comp o_def)

text \<open>The ingestor over any queue and any store that keep their contracts.\<close>

locale ingest_contracts =
  q: event_store_contract es eview einv egrain lease_end ekeep +
  s: delivery_store_contract st view inv grain keep
  for es :: "'e event_store" and eview einv egrain lease_end ekeep
    and st :: "'s delivery_store" and view inv grain keep
begin

lemma added_fresh:
  assumes "rows_added view keep d w w' rs" and "fresh_ids view d w"
  shows "fresh_ids view d w'"
proof -
  have "view (iw_deliveries w') (ing_uuid d n) = None" if n: "iw_uuids w' \<le> n" for n
  proof -
    have "ing_uuid d n \<notin> ing_uuid d ` {iw_uuids w..<iw_uuids w'}"
      using n assms(2) by (auto simp: fresh_ids_def dest: injD)
    then have "ing_uuid d n \<notin> delivery_id ` set rs" using assms(1) by (auto simp: rows_added_def)
    then have "find (\<lambda>r. delivery_id r = ing_uuid d n) (map keep rs) = None"
      by (simp add: find_None_iff s.keep_id) (metis image_eqI)
    moreover have "view (iw_deliveries w) (ing_uuid d n) = None"
      using n assms by (auto simp: fresh_ids_def rows_added_def)
    ultimately show ?thesis using assms(1) by (simp add: rows_added_def enqueued_def)
  qed
  then show ?thesis using assms(2) by (simp add: fresh_ids_def)
qed

lemma fan_out_ok:
  assumes "ing_deliveries d = st" and "inv (iw_deliveries w)" and "fresh_ids view d w"
  shows "\<exists>res w'. fan_out d e now w = (res, w') \<and> iw_events w' = iw_events w \<and> inv (iw_deliveries w') \<and>
    (case res of Inl _ \<Rightarrow> fan_out_fails d e \<and> rows_added view keep d w w' []
     | Inr k \<Rightarrow> \<exists>rs. delivers d now e rs \<and> rows_added view keep d w w' rs \<and> k = int (length rs))"
proof -
  let ?data = "encode (dumps_default (JObj (ev_data e)))"
  obtain res q' where sub: "ing_subs d (ev_event e) (ev_tenant_id e) (iw_subs w) = (res, q')" by fastforce
  show ?thesis
  proof (cases res)
    case (Inl ex)
    then have "fan_out_fails d e" using sub by (auto simp: fan_out_fails_def)
    then show ?thesis using sub Inl assms(2) by (simp add: fan_out_def bindE_def on_subs_def rows_added_none)
  next
    case (Inr subs)
    obtain bres m where b: "build_records d e now ?data subs (iw_uuids w) = (bres, m)" by fastforce
    note built = build_records_ok [OF b]
    show ?thesis
    proof (cases bres)
      case (Inl ex)
      then have "subs \<noteq> []" using b by auto
      moreover have "fan_out_fails d e"
      proof -
        have "ing_subs d (ev_event e) (ev_tenant_id e) (iw_subs w) = (Inr subs, q')" using sub Inr by simp
        with build_records_raise [OF b [unfolded Inl]] show ?thesis unfolding fan_out_fails_def by blast
      qed
      ultimately show ?thesis using sub Inr Inl b built assms(2) by (simp add: fan_out_def bindE_def on_subs_def rows_added_none)
    next
      case rs: (Inr rs)
      let ?ok = "filter (\<lambda>sub. target_check d sub = Inr ()) subs" and ?ids = "map (ing_uuid d) [iw_uuids w..<m]"
      have len: "m = iw_uuids w + length rs" "length rs = length ?ok" "rs = map2 (delivery_for e now ?data) ?ok ?ids"
        using built rs by blast+
      have ids: "map delivery_id rs = ?ids"
      proof -
        have "map delivery_id (map2 (delivery_for e now ?data) xs ys) = ys" if "length xs = length ys" for xs ys
          using that by (induction xs ys rule: list_induct2) simp_all
        then show ?thesis using len by simp
      qed
      have del: "delivers d now e rs"
        unfolding delivers_def
      proof (intro exI conjI)
        show "ing_subs d (ev_event e) (ev_tenant_id e) (iw_subs w) = (Inr subs, q')" using sub Inr by simp
        show "length ?ids = length rs" using len(1) by simp
        show "rs = map2 (delivery_for e now ?data) ?ok ?ids" "length rs = length ?ok" by (rule len)+
      qed
      have dist: "distinct (map delivery_id rs)"
        using assms(3) unfolding ids by (simp add: distinct_map fresh_ids_def inj_on_def)
      have "set (map delivery_id rs) = ing_uuid d ` {iw_uuids w..<m}" unfolding ids by simp
      then have idset: "delivery_id ` set rs = ing_uuid d ` {iw_uuids w..<m}" by simp
      have pend: "list_all (\<lambda>r. status r = PENDING) rs"
        by (subst len(3)) (auto simp: list_all_iff)
      obtain s' where enq: "enqueue_many st rs (iw_deliveries w) = (Inr (), s')" "inv s'"
        "view s' = enqueued (map keep rs) (view (iw_deliveries w))"
        using s.enqueue [OF assms(2) pend] by blast
      show ?thesis
      proof (cases "rs = []")
        case True
        then have "fan_out d e now w = (Inr 0, w\<lparr>iw_subs := q', iw_uuids := m\<rparr>)"
          using sub Inr b rs len(1) by (auto simp: fan_out_def bindE_def on_subs_def)
        then show ?thesis using del True assms(2) len(1) by (fastforce intro: rows_added_none)
      next
        case False
        then have "subs \<noteq> []" using b rs by auto
        then have "fan_out d e now w = (Inr (int (length rs)), w\<lparr>iw_subs := q', iw_uuids := m, iw_deliveries := s'\<rparr>)"
          using sub Inr b rs False enq(1) assms(1) by (simp add: fan_out_def bindE_def on_subs_def on_delivery_store_def)
        then show ?thesis using del enq(2,3) dist idset len(1) by (auto simp: rows_added_def)
      qed
    qed
  qed
qed

lemma ingest_each_ok:
  assumes "ing_events d = es" and "ing_deliveries d = st" and "einv (iw_events w)"
    and "inv (iw_deliveries w)" and "fresh_ids view d w"
  shows "\<exists>outs w'. map fst outs = evs \<and> outcomes_ok d now outs \<and>
    ingest_each d now evs acked fanned failed w = (Inr (acked @ acked_ids outs,
      fanned + int (length (new_rows outs)), failed + int (length (failed_ids outs))), w') \<and>
    einv (iw_events w') \<and> inv (iw_deliveries w') \<and> fresh_ids view d w' \<and>
    eview (iw_events w') = ev_changed (set (failed_ids outs)) EV_FAILED (eview (iw_events w)) \<and>
    rows_added view keep d w w' (new_rows outs)"
  using assms(3-5)
proof (induction evs arbitrary: acked fanned failed w)
  case Nil
  then show ?case
    by (intro exI [of _ "[]"] exI [of _ w])
      (simp add: outcomes_ok_def acked_ids_def failed_ids_def new_rows_def ev_changed_def rows_added_none)
next
  case (Cons e evs)
  obtain res w1 where f: "fan_out d e now w = (res, w1)" "iw_events w1 = iw_events w" "inv (iw_deliveries w1)"
    "case res of Inl _ \<Rightarrow> fan_out_fails d e \<and> rows_added view keep d w w1 []
     | Inr k \<Rightarrow> \<exists>rs. delivers d now e rs \<and> rows_added view keep d w w1 rs \<and> k = int (length rs)"
    using fan_out_ok [OF assms(2) Cons.prems(2,3)] by blast
  have inj: "inj (ing_uuid d)" using Cons.prems(3) by (simp add: fresh_ids_def)
  show ?case
  proof (cases res)
    case (Inl ex)
    obtain s' where fail: "es_mark_failed es (ev_event_id e) (exc_text ex) (iw_events w) = (Inr (), s')" "einv s'"
      "eview s' = ev_changed {ev_event_id e} EV_FAILED (eview (iw_events w))"
      using q.fail [OF Cons.prems(1)] by blast
    let ?w = "w1\<lparr>iw_events := s'\<rparr>"
    have fails: "fan_out_fails d e" using f(4) Inl by simp
    have a1: "rows_added view keep d w ?w []" using f(4) Inl by (simp add: rows_added_def)
    have fr: "fresh_ids view d ?w" by (rule added_fresh [OF a1 Cons.prems(3)])
    obtain outs w' where IH: "map fst outs = evs" "outcomes_ok d now outs"
      "ingest_each d now evs acked fanned (failed + 1) ?w = (Inr (acked @ acked_ids outs,
        fanned + int (length (new_rows outs)), failed + 1 + int (length (failed_ids outs))), w')"
      "einv (iw_events w')" "inv (iw_deliveries w')" "fresh_ids view d w'"
      "eview (iw_events w') = ev_changed (set (failed_ids outs)) EV_FAILED (eview s')"
      "rows_added view keep d ?w w' (new_rows outs)"
      using Cons.IH [of ?w acked fanned "failed + 1"] fail(2) f(3) fr by auto
    have "ev_changed (set (failed_ids outs)) EV_FAILED (eview s') =
        ev_changed (insert (ev_event_id e) (set (failed_ids outs))) EV_FAILED (eview (iw_events w))"
      unfolding fail(3) ev_changed_changed by (auto simp: ev_changed_def)
    then show ?thesis
      using IH f(1,2) Inl fails fail(1) assms(1) rows_added_trans [OF a1 IH(8) inj]
      by (intro exI [of _ "(e, None) # outs"] exI [of _ w'])
        (simp add: outcomes_ok_def acked_ids_def failed_ids_def new_rows_def bindE_def on_events_def)
  next
    case (Inr k)
    obtain rs where rs: "delivers d now e rs" "rows_added view keep d w w1 rs" "k = int (length rs)"
      using f(4) Inr by auto
    have fr: "fresh_ids view d w1" by (rule added_fresh [OF rs(2) Cons.prems(3)])
    obtain outs w' where IH: "map fst outs = evs" "outcomes_ok d now outs"
      "ingest_each d now evs (acked @ [ev_event_id e]) (fanned + k) failed w1 = (Inr ((acked @ [ev_event_id e]) @ acked_ids outs,
        fanned + k + int (length (new_rows outs)), failed + int (length (failed_ids outs))), w')"
      "einv (iw_events w')" "inv (iw_deliveries w')" "fresh_ids view d w'"
      "eview (iw_events w') = ev_changed (set (failed_ids outs)) EV_FAILED (eview (iw_events w1))"
      "rows_added view keep d w1 w' (new_rows outs)"
      using Cons.IH [of w1 "acked @ [ev_event_id e]" "fanned + k" failed] Cons.prems(1) f(2,3) fr by auto
    then show ?thesis
      using f(1,2) Inr rs rows_added_trans [OF rs(2) IH(8) inj]
      by (intro exI [of _ "(e, Some rs) # outs"] exI [of _ w'])
        (simp add: outcomes_ok_def acked_ids_def failed_ids_def new_rows_def)
  qed
qed

text \<open>A tick settles every event it claimed and changes nothing else of the queue.\<close>

lemma tick_settles:
  assumes "ing_events d = es" and "ing_deliveries d = st" and "einv (iw_events w)"
    and "inv (iw_deliveries w)" and "fresh_ids view d w" and "0 \<le> ing_batch_size d"
  shows "\<exists>outs w' v1. ingest_tick d now w = (Inr \<lparr>ing_claimed = int (length outs),
      ing_fanned_out = int (length (new_rows outs)), ing_failed = int (length (failed_ids outs))\<rparr>, w') \<and>
    ev_claim_ok (ev_reclaimed (egrain now) (eview (iw_events w))) (lease_end now (ing_lease_ttl_s d))
      (ing_batch_size d) (map fst outs) v1 \<and>
    eview (iw_events w') = ev_changed (set (acked_ids outs)) EV_DONE
      (ev_changed (set (failed_ids outs)) EV_FAILED (ev_reclaimed (egrain now) (eview (iw_events w)))) \<and>
    outcomes_ok d now outs \<and> rows_added view keep d w w' (new_rows outs) \<and>
    einv (iw_events w') \<and> inv (iw_deliveries w') \<and> fresh_ids view d w'"
proof -
  let ?v = "ev_reclaimed (egrain now) (eview (iw_events w))"
  obtain s1 k where r: "es_reclaim_stale es now (iw_events w) = (Inr k, s1)" "einv s1" "eview s1 = ?v"
    using q.reclaim [OF assms(3)] by blast
  obtain evs s2 where c: "es_claim_events es now (ing_lease_ttl_s d) (ing_batch_size d) s1 = (Inr evs, s2)" "einv s2"
    "ev_claim_ok ?v (lease_end now (ing_lease_ttl_s d)) (ing_batch_size d) evs (eview s2)"
    using q.claim [OF r(2) assms(6)] r(3) by metis
  let ?w = "w\<lparr>iw_events := s2\<rparr>"
  have fr: "fresh_ids view d ?w" using assms(5) by (simp add: fresh_ids_def)
  obtain outs w1 where o: "map fst outs = evs" "outcomes_ok d now outs"
    "ingest_each d now evs [] 0 0 ?w = (Inr (acked_ids outs, int (length (new_rows outs)), int (length (failed_ids outs))), w1)"
    "einv (iw_events w1)" "inv (iw_deliveries w1)" "fresh_ids view d w1"
    "eview (iw_events w1) = ev_changed (set (failed_ids outs)) EV_FAILED (eview s2)"
    "rows_added view keep d w w1 (new_rows outs)"
    using ingest_each_ok [OF assms(1,2), of ?w evs now "[]" 0 0] c(2) assms(4) fr by (auto simp: rows_added_def)
  obtain s3 where a: "es_ack es (acked_ids outs) (iw_events w1) = (Inr (), s3)" "einv s3"
    "eview s3 = ev_changed (set (acked_ids outs)) EV_DONE (eview (iw_events w1))"
    using q.ack [OF o(4)] by blast
  have ids: "set (acked_ids outs) \<union> set (failed_ids outs) = ev_event_id ` set evs"
    unfolding outcome_ids o(1) [symmetric] by simp
  have same: "ev_changed (set (acked_ids outs)) EV_DONE (ev_changed (set (failed_ids outs)) EV_FAILED (eview s2))
      = ev_changed (set (acked_ids outs)) EV_DONE (ev_changed (set (failed_ids outs)) EV_FAILED ?v)"
    unfolding ev_changed_changed
  proof
    fix k
    show "(if k \<in> set (acked_ids outs) then map_option (ev_set EV_DONE) (eview s2 k)
        else if k \<in> set (failed_ids outs) then map_option (ev_set EV_FAILED) (eview s2 k) else eview s2 k) =
      (if k \<in> set (acked_ids outs) then map_option (ev_set EV_DONE) (?v k)
        else if k \<in> set (failed_ids outs) then map_option (ev_set EV_FAILED) (?v k) else ?v k)"
      using c(3) ids unfolding ev_claim_ok_def
      by (cases "k \<in> ev_event_id ` set evs") (auto simp: option.map_comp o_def ev_set_def ev_leased_def)
  qed
  have len: "length outs = length evs" using o(1) by (metis length_map)
  define w' where "w' = (if acked_ids outs = [] then w1 else w1\<lparr>iw_events := s3\<rparr>)"
  have view': "eview (iw_events w') = ev_changed (set (acked_ids outs)) EV_DONE
      (ev_changed (set (failed_ids outs)) EV_FAILED ?v)"
    unfolding same [symmetric] using a(3) o(7) by (auto simp: w'_def ev_changed_def)
  have tick: "ingest_tick d now w = (Inr \<lparr>ing_claimed = int (length outs),
      ing_fanned_out = int (length (new_rows outs)), ing_failed = int (length (failed_ids outs))\<rparr>, w')"
  proof (cases "evs = []")
    case True
    then have "outs = []" using o(1) by simp
    then show ?thesis using r(1) c(1) True assms(1) o(3)
      by (simp add: ingest_tick_def bindE_def catchE_def on_events_def w'_def acked_ids_def failed_ids_def new_rows_def)
  next
    case False
    then show ?thesis using r(1) c(1) assms(1) o(3) a(1) len
      by (simp add: ingest_tick_def bindE_def catchE_def on_events_def w'_def)
  qed
  moreover have "rows_added view keep d w w' (new_rows outs)" using o(8) by (simp add: w'_def rows_added_def)
  moreover have "fresh_ids view d w'" using o(6) by (simp add: w'_def fresh_ids_def)
  moreover have "einv (iw_events w')" "inv (iw_deliveries w')" using o(4,5) a(2) by (simp_all add: w'_def)
  ultimately show ?thesis using c(3) view' o(1,2) by blast
qed

end

interpretation mem_ingest: ingest_contracts mem_event_store mem_ev_view mem_ev_inv
  "\<lambda>t. t" "\<lambda>now ttl. now + seconds ttl" "\<lambda>e. e" mem_store mem_view mem_inv "\<lambda>t. t" "\<lambda>r. r"
  by unfold_locales

section \<open>Properties\<close>

text \<open>
  C26: an ingest tick settles every event it claims. On the in-memory queue and store, with new
  identifiers from \<open>uuid4\<close>, a tick returns; the events it claimed were pending or had an
  abandoned claim, at most a batch of them and all of those when the batch is not full. Each ends
  done, with one pending delivery, due now, for every subscription the reader listed whose
  address passes the guard, or failed, when the reader raised or an address could not be
  checked; the statistics are the numbers of claimed events, deliveries and failures, and nothing
  else changes in the queue or in the store.
\<close>

theorem ingest_settles_every_event:
  assumes "ing_events d = mem_event_store" and "ing_deliveries d = mem_store"
    and "mem_ev_inv (iw_events w)" and "mem_inv (iw_deliveries w)" and "fresh_ids mem_view d w"
    and "0 \<le> ing_batch_size d"
  shows "\<exists>outs w' v1. ingest_tick d now w = (Inr \<lparr>ing_claimed = int (length outs),
      ing_fanned_out = int (length (new_rows outs)), ing_failed = int (length (failed_ids outs))\<rparr>, w') \<and>
    ev_claim_ok (ev_reclaimed now (mem_ev_view (iw_events w))) (now + seconds (ing_lease_ttl_s d))
      (ing_batch_size d) (map fst outs) v1 \<and>
    mem_ev_view (iw_events w') = ev_changed (set (acked_ids outs)) EV_DONE
      (ev_changed (set (failed_ids outs)) EV_FAILED (ev_reclaimed now (mem_ev_view (iw_events w)))) \<and>
    outcomes_ok d now outs \<and> rows_added mem_view (\<lambda>r. r) d w w' (new_rows outs)"
proof -
  obtain outs w' v1 where t: "ingest_tick d now w = (Inr \<lparr>ing_claimed = int (length outs),
      ing_fanned_out = int (length (new_rows outs)), ing_failed = int (length (failed_ids outs))\<rparr>, w')"
    "ev_claim_ok (ev_reclaimed now (mem_ev_view (iw_events w))) (now + seconds (ing_lease_ttl_s d))
      (ing_batch_size d) (map fst outs) v1"
    "mem_ev_view (iw_events w') = ev_changed (set (acked_ids outs)) EV_DONE
      (ev_changed (set (failed_ids outs)) EV_FAILED (ev_reclaimed now (mem_ev_view (iw_events w))))"
    "outcomes_ok d now outs" "rows_added mem_view (\<lambda>r. r) d w w' (new_rows outs)"
    using mem_ingest.tick_settles [OF assms] by blast
  then show ?thesis by blast
qed

lemma appended_events_inv: "mem_ev_inv (snd (append_each mem_ev_append es []))"
proof -
  have "mem_ev_inv []" by (simp add: ev_rows_ok_def)
  from mem_ev.append_many [OF this, of es] show ?thesis by (auto simp: mem_event_store_def)
qed

definition sample_ingestor :: "(mem_events, unit, MemState) Ingestor" where
  "sample_ingestor = \<lparr>ing_events = mem_event_store,
     ing_subs = (\<lambda>name tenant. ret [\<lparr>sub_id = ''sub-1'', sub_owner_id = ''o'', sub_url = ''https://a.example/hook'',
       sub_resolved_ip = ''1.1.1.1'', sub_retry_overrides = None\<rparr>]),
     ing_deliveries = mem_store, ing_ssrf = default_validator, ing_idna = Some,
     ing_uuid = (\<lambda>n. replicate n CHR ''u''), ing_lease_ttl_s = 30, ing_batch_size = 10\<rparr>"

definition sample_ingest_world :: "mem_events \<Rightarrow> (mem_events, unit, MemState) ing_world" where
  "sample_ingest_world evs = \<lparr>iw_events = evs, iw_subs = (),
     iw_deliveries = mem_empty, iw_uuids = 0\<rparr>"

lemma sample_ingest_ok:
  "inj (ing_uuid sample_ingestor)" "fresh_ids mem_view sample_ingestor (sample_ingest_world evs)"
proof -
  show i: "inj (ing_uuid sample_ingestor)" by (simp add: sample_ingestor_def inj_def)
  show "fresh_ids mem_view sample_ingestor (sample_ingest_world evs)"
    using i by (simp add: fresh_ids_def sample_ingest_world_def mem_view_def mem_empty_def)
qed

definition sample_events :: mem_events where
  "sample_events = snd (append_each mem_ev_append
     [\<lparr>ev_event_id = ''e-1'', ev_event = ''order.paid'', ev_data = [(''total'', JInt 5)],
       ev_tenant_id = None, ev_schema_version = ''1.0'', ev_created_at = Some 0\<rparr>] [])"

theorem ingest_settles_every_event_witness:
  "\<exists>outs w'. ingest_tick sample_ingestor 0 (sample_ingest_world sample_events) =
     (Inr \<lparr>ing_claimed = int (length outs), ing_fanned_out = int (length (new_rows outs)),
       ing_failed = int (length (failed_ids outs))\<rparr>, w') \<and> outs \<noteq> [] \<and> outcomes_ok sample_ingestor 0 outs"
proof -
  let ?w = "sample_ingest_world sample_events"
  have "mem_ev_inv (iw_events ?w)" 
    by (simp add: sample_ingest_world_def sample_events_def appended_events_inv del: append_each.simps)
  moreover have "ing_events sample_ingestor = mem_event_store" "ing_deliveries sample_ingestor = mem_store"
    "0 \<le> ing_batch_size sample_ingestor" "mem_inv (iw_deliveries ?w)"
    by (simp_all add: sample_ingestor_def sample_ingest_world_def mem_inv_empty)
  ultimately obtain outs w' v1 where o: "ingest_tick sample_ingestor 0 ?w =
     (Inr \<lparr>ing_claimed = int (length outs), ing_fanned_out = int (length (new_rows outs)),
       ing_failed = int (length (failed_ids outs))\<rparr>, w')" "outcomes_ok sample_ingestor 0 outs"
    using ingest_settles_every_event [OF _ _ _ _ sample_ingest_ok(2), of sample_events 0] by blast
  have "map_sum (\<lambda>_. 0) ing_claimed (fst (ingest_tick sample_ingestor 0 ?w)) = (Inr 1 :: nat + int)" by code_simp
  then have "outs \<noteq> []" using o(1) by auto
  then show ?thesis using o by blast
qed

text \<open>A claim with room for every event takes each that waits.\<close>

lemma claim_takes_pending:
  assumes "ev_claim_ok v x n batch v'" and "v (ev_event_id e) = Some (EvRow e EV_PENDING None)"
    and "finite (dom v)" and "int (card (dom v)) < n"
  shows "e \<in> set batch"
proof -
  have "ev_event_id ` set batch \<subseteq> dom v" using assms(1) by (auto simp: ev_claim_ok_def dom_def)
  moreover have "card (ev_event_id ` set batch) = length batch"
    using assms(1) unfolding ev_claim_ok_def by (metis distinct_card length_map set_map)
  ultimately have "length batch \<le> card (dom v)" using assms(3) by (metis card_mono)
  then have "ev_event_id e \<in> ev_event_id ` set batch"
    using assms(1,2,4) by (auto simp: ev_claim_ok_def)
  then obtain e' where e': "e' \<in> set batch" "ev_event_id e' = ev_event_id e" by auto
  then have "v (ev_event_id e') = Some (EvRow e' EV_PENDING None)" using assms(1) unfolding ev_claim_ok_def by blast
  then show ?thesis using e' assms(2) by simp
qed

lemma delivers_each:
  assumes "delivers d now e rs" and "\<And>q. ing_subs d (ev_event e) (ev_tenant_id e) q = (Inr subs, q)"
    and "sub \<in> set subs" and "target_check d sub = Inr ()"
  shows "\<exists>r \<in> set rs. subscription_id r = sub_id sub \<and> event_id r = ev_event_id e \<and> status r = PENDING"
proof -
  let ?F = "filter (\<lambda>s. target_check d s = Inr ()) subs"
  obtain dids where d: "length dids = length rs" "length rs = length ?F"
    "rs = map2 (delivery_for e now (encode (dumps_default (JObj (ev_data e))))) ?F dids"
    using assms(1) unfolding delivers_def assms(2) by auto
  obtain i where i: "i < length ?F" "?F ! i = sub" using assms(3,4) by (metis (mono_tags) in_set_conv_nth mem_Collect_eq set_filter)
  have "rs ! i = delivery_for e now (encode (dumps_default (JObj (ev_data e)))) sub (dids ! i)"
    by (subst d(3)) (use i d(1,2) in simp)
  moreover have "rs ! i \<in> set rs" using i(1) d(2) by simp
  ultimately show ?thesis by (metis delivery_for_simps)
qed

text \<open>
  C27: the engine does not dedupe deliveries by subscription and event. When the claim of an event
  was abandoned after its fan-out, the next tick past the lease delivers the event again: a
  subscription that has a row for the event already, whatever became of it, gets a second one.
\<close>

theorem abandoned_fan_out_repeats:
  assumes "ing_events d = mem_event_store" and "ing_deliveries d = mem_store"
    and "mem_ev_inv (iw_events w)" and "mem_inv (iw_deliveries w)" and "fresh_ids mem_view d w"
    and "int (card (dom (mem_ev_view (iw_events w)))) < ing_batch_size d"
    and "mem_ev_view (iw_events w) (ev_event_id e) = Some (EvRow e EV_CLAIMED (Some x))" and "x < now"
    and "\<And>q. ing_subs d (ev_event e) (ev_tenant_id e) q = (Inr subs, q)"
    and "\<And>s. s \<in> set subs \<Longrightarrow> target_check d s = Inr () \<or> (\<exists>r t. target_check d s = Inl (InvalidWebhookTarget r t))"
    and "sub \<in> set subs" and "target_check d sub = Inr ()"
    and "mem_view (iw_deliveries w) did = Some (Row r l)"
    and "subscription_id r = sub_id sub" and "event_id r = ev_event_id e"
  shows "\<exists>stats w' did' r'. ingest_tick d now w = (Inr stats, w') \<and>
    mem_view (iw_deliveries w') did = Some (Row r l) \<and> did' \<noteq> did \<and>
    mem_view (iw_deliveries w') did' = Some (Row r' None) \<and> status r' = PENDING \<and>
    subscription_id r' = sub_id sub \<and> event_id r' = ev_event_id e"
proof -
  let ?v = "ev_reclaimed now (mem_ev_view (iw_events w))"
  have n: "0 \<le> ing_batch_size d" using assms(6) by linarith
  obtain outs w' v1 where t: "ingest_tick d now w = (Inr \<lparr>ing_claimed = int (length outs),
      ing_fanned_out = int (length (new_rows outs)), ing_failed = int (length (failed_ids outs))\<rparr>, w')"
    "ev_claim_ok ?v (now + seconds (ing_lease_ttl_s d)) (ing_batch_size d) (map fst outs) v1"
    "outcomes_ok d now outs" "rows_added mem_view (\<lambda>r. r) d w w' (new_rows outs)"
    using mem_ingest.tick_settles [OF assms(1-5) n] by blast
  have row: "?v (ev_event_id e) = Some (EvRow e EV_PENDING None)"
    using assms(7,8) by (simp add: ev_reclaimed_def ev_stale_def ev_set_def)
  have "?v k = None \<longleftrightarrow> mem_ev_view (iw_events w) k = None" for k by (simp add: ev_reclaimed_def)
  then have "dom ?v = dom (mem_ev_view (iw_events w))" by (auto simp: dom_def)
  moreover have "finite (dom (mem_ev_view (iw_events w)))" using ev_rows_view_ok [OF assms(3)] by (simp add: ev_view_ok_def)
  ultimately have "e \<in> set (map fst outs)" using claim_takes_pending [OF t(2) row] assms(6) by simp
  then obtain out where out: "(e, out) \<in> set outs" by auto
  have "\<not> fan_out_fails d e"
  proof
    assume "fan_out_fails d e"
    then obtain s ex where s: "s \<in> set subs" "target_check d s = Inl ex" "\<forall>r t. ex \<noteq> InvalidWebhookTarget r t"
      by (auto simp: fan_out_fails_def assms(9))
    with assms(10) [OF s(1)] show False by auto
  qed
  then obtain rs where rs: "out = Some rs" "delivers d now e rs"
    using t(3) out by (fastforce simp: outcomes_ok_def split: option.splits)
  obtain r' where r': "r' \<in> set rs" "subscription_id r' = sub_id sub" "event_id r' = ev_event_id e" "status r' = PENDING"
    using delivers_each [OF rs(2) assms(9,11,12)] by blast
  then have "r' \<in> set (new_rows outs)" using out rs(1) by (force simp: new_rows_def)
  moreover have added: "mem_view (iw_deliveries w') = enqueued (new_rows outs) (mem_view (iw_deliveries w))"
    "distinct (map delivery_id (new_rows outs))" "delivery_id ` set (new_rows outs) \<subseteq> ing_uuid d ` {iw_uuids w..<iw_uuids w'}"
    using t(4) by (simp_all add: rows_added_def)
  ultimately have new: "mem_view (iw_deliveries w) (delivery_id r') = None" "find (\<lambda>y. delivery_id y = delivery_id r') (new_rows outs) = Some r'"
    using assms(5) find_Some_distinct [of delivery_id "new_rows outs" r'] by (auto simp: fresh_ids_def)
  then have "mem_view (iw_deliveries w') (delivery_id r') = Some (Row r' None)" by (simp add: added(1) enqueued_def)
  moreover have "mem_view (iw_deliveries w') did = Some (Row r l)" using assms(13) by (simp add: added(1) enqueued_def)
  moreover have "delivery_id r' \<noteq> did" using new(1) assms(13) by auto
  ultimately show ?thesis using t(1) r' by blast
qed

definition sample_sub :: SubscriptionSnapshot where
  "sample_sub = \<lparr>sub_id = ''sub-1'', sub_owner_id = ''o'', sub_url = ''https://a.example/hook'',
     sub_resolved_ip = ''1.1.1.1'', sub_retry_overrides = None\<rparr>"

definition sample_incoming :: IncomingEvent where
  "sample_incoming = \<lparr>ev_event_id = ''e-1'', ev_event = ''order.paid'', ev_data = [(''total'', JInt 5)],
     ev_tenant_id = None, ev_schema_version = ''1.0'', ev_created_at = Some 0\<rparr>"

text \<open>The worker died after the fan-out: the event is claimed and its delivery is queued.\<close>

definition sample_abandoned :: "(mem_events, unit, MemState) ing_world" where
  "sample_abandoned = \<lparr>
     iw_events = [(''e-1'', \<lparr>mr_event = sample_incoming, mr_status = EV_CLAIMED, mr_lease_until = Some 0\<rparr>)],
     iw_subs = (),
     iw_deliveries = snd (mem_enqueue_many [delivery_for sample_incoming 0 [] sample_sub []] mem_empty),
     iw_uuids = 1\<rparr>"

theorem abandoned_fan_out_repeats_witness:
  "\<exists>stats w' did r. ingest_tick sample_ingestor 1 sample_abandoned = (Inr stats, w') \<and> did \<noteq> [] \<and>
     mem_view (iw_deliveries w') did = Some (Row r None) \<and> event_id r = ''e-1'' \<and>
     (\<exists>r0. mem_view (iw_deliveries w') [] = Some (Row r0 None) \<and> event_id r0 = ''e-1'')"
proof -
  let ?d = sample_ingestor and ?w = sample_abandoned and ?r = "delivery_for sample_incoming 0 [] sample_sub []"
  have "list_all (\<lambda>r. status r = PENDING) [?r]" by simp
  from mem.enqueue [OF mem_inv_empty this] obtain s where
    s: "snd (mem_enqueue_many [?r] mem_empty) = s" "mem_inv s" "mem_view s = enqueued [?r] (mem_view mem_empty)"
    by (auto simp: mem_store_def)
  have view: "mem_view (iw_deliveries ?w) = (\<lambda>k. if k = [] then Some (Row ?r None) else None)" "mem_inv (iw_deliveries ?w)"
    using s by (auto simp: sample_abandoned_def enqueued_def mem_view_def mem_empty_def fun_eq_iff)
  have ev: "mem_ev_view (iw_events ?w) = (\<lambda>k. if k = ''e-1'' then Some (EvRow sample_incoming EV_CLAIMED (Some 0)) else None)"
    by (auto simp: sample_abandoned_def table_view_def lookup_def mem_ev_row_def fun_eq_iff)
  then have "dom (mem_ev_view (iw_events ?w)) = {''e-1''}" by (auto simp: dom_def)
  then have card: "int (card (dom (mem_ev_view (iw_events ?w)))) < ing_batch_size ?d" by (simp add: sample_ingestor_def)
  have inv: "mem_ev_inv (iw_events ?w)"
    by (simp add: sample_abandoned_def ev_rows_ok_def mem_ev_row_def sample_incoming_def)
  have fresh: "fresh_ids mem_view ?d ?w"
    using sample_ingest_ok(1) by (simp add: fresh_ids_def view) (simp add: sample_ingestor_def sample_abandoned_def)
  have check: "target_check ?d sample_sub = Inr ()" by code_simp
  have subs: "ing_subs ?d name tenant q = (Inr [sample_sub], q)" for name tenant q
    by (simp add: sample_ingestor_def sample_sub_def)
  have id: "ev_event_id sample_incoming = ''e-1''" by (simp add: sample_incoming_def)
  have "\<exists>stats w' did' r'. ingest_tick ?d 1 ?w = (Inr stats, w') \<and>
    mem_view (iw_deliveries w') [] = Some (Row ?r None) \<and> did' \<noteq> [] \<and>
    mem_view (iw_deliveries w') did' = Some (Row r' None) \<and> status r' = PENDING \<and>
    subscription_id r' = sub_id sample_sub \<and> event_id r' = ev_event_id sample_incoming"
    by (rule abandoned_fan_out_repeats [where e = sample_incoming and x = 0 and subs = "[sample_sub]"])
      (use inv view fresh card ev check subs id in \<open>auto simp: sample_ingestor_def\<close>)
  then show ?thesis using id by fastforce
qed

text \<open>
  One failure loses an event. Once an event of the in-memory queue is parked as failed, which
  an ingest tick does on any exception of the subscription reader or of the enqueue, no later run of
  the queue's operations hands it out again: it is never delivered.
\<close>

theorem failed_event_is_never_retried:
  assumes "mem_ev_inv s" and "mem_ev_view s k = Some r" and "er_status r = EV_FAILED"
    and "ev_run mem_event_store s l s1" and "ev_step mem_event_store (EvClaim now ttl n evs) s1 s2"
  shows "k \<notin> ev_event_id ` set evs"
  using mem_ev.final_not_claimed [OF assms(1,2) _ assms(4,5)] assms(3) by (simp add: ev_final_def)

theorem failed_event_is_never_retried_witness:
  "\<exists>evs s2. ev_step mem_event_store (EvClaim 100 30 10 evs)
      [(''e-1'', \<lparr>mr_event = sample_incoming, mr_status = EV_FAILED, mr_lease_until = None\<rparr>)] s2 \<and>
    ''e-1'' \<notin> ev_event_id ` set evs"
proof -
  let ?s = "[(''e-1'', \<lparr>mr_event = sample_incoming, mr_status = EV_FAILED, mr_lease_until = None\<rparr>)]"
  have inv: "mem_ev_inv ?s" by (simp add: ev_rows_ok_def mem_ev_row_def sample_incoming_def)
  have view: "mem_ev_view ?s ''e-1'' = Some (EvRow sample_incoming EV_FAILED None)"
    by (simp add: table_view_def lookup_def mem_ev_row_def)
  obtain evs s2 where c: "es_claim_events mem_event_store 100 30 10 ?s = (Inr evs, s2)"
    using mem_ev.claim [OF inv, of 10 100 30] by auto
  then have "ev_step mem_event_store (EvClaim 100 30 10 evs) ?s s2" by (intro ev_claim) simp_all
  with failed_event_is_never_retried [OF inv view _ ev_run_Nil this] show ?thesis by auto
qed

end
