(* ===== verification/Json.thy ===== *)
theory Json
  imports Envelope IpAddr
begin

text \<open>
  Reading JSON text, \<open>json.loads\<close> (of Python's library), which undoes what \<open>json.dumps\<close> writes:
  the value of an event reaches the body of its delivery through this pair. A number with a
  fraction or an exponent is read by \<open>float_repr\<close>, the text of \<open>repr(float(text))\<close>; a character
  beyond the code points of the model is refused; nesting has no limit here. \<open>None\<close> is the
  \<open>JSONDecodeError\<close>.
\<close>

section \<open>Strings and numbers\<close>

definition json_ws :: "char \<Rightarrow> bool" where
  "json_ws c \<longleftrightarrow> c = CHR 0x20 \<or> c = CHR 0x09 \<or> c = CHR 0x0A \<or> c = CHR 0x0D"

abbreviation skip_ws :: "string \<Rightarrow> string" where
  "skip_ws \<equiv> dropWhile json_ws"

definition code_unit :: "char \<Rightarrow> char \<Rightarrow> char \<Rightarrow> char \<Rightarrow> int option" where
  "code_unit a b c d =
     (case (hex_val a, hex_val b, hex_val c, hex_val d) of
        (Some w, Some x, Some y, Some z) \<Rightarrow> Some (((w * 16 + x) * 16 + y) * 16 + z)
      | _ \<Rightarrow> None)"

definition simple_escape :: "char \<Rightarrow> char option" where
  "simple_escape e =
     (if e \<in> {CHR 0x22, CHR 0x5C, CHR ''/''} then Some e
      else if e = CHR ''b'' then Some (CHR 0x08)
      else if e = CHR ''f'' then Some (CHR 0x0C)
      else if e = CHR ''n'' then Some (CHR 0x0A)
      else if e = CHR ''r'' then Some (CHR 0x0D)
      else if e = CHR ''t'' then Some (CHR 0x09)
      else None)"

definition cons_to :: "'a \<Rightarrow> ('a list \<times> 'b) option \<Rightarrow> ('a list \<times> 'b) option" where
  "cons_to x r = (case r of None \<Rightarrow> None | Some (xs, rest) \<Rightarrow> Some (x # xs, rest))"

text \<open>The characters of a string after its opening quote, with the text after the closing one.\<close>

fun scan_string :: "string \<Rightarrow> (string \<times> string) option" where
  "scan_string [] = None"
| "scan_string (c # s) =
     (if c = CHR 0x22 then Some ([], s)
      else if c \<noteq> CHR 0x5C then (if of_char c < (32 :: nat) then None else cons_to c (scan_string s))
      else (case s of
              [] \<Rightarrow> None
            | e # s1 \<Rightarrow>
                (if e \<noteq> CHR ''u''
                 then (case simple_escape e of None \<Rightarrow> None | Some d \<Rightarrow> cons_to d (scan_string s1))
                 else (case s1 of
                         a # b # x # y # s2 \<Rightarrow>
                           (case code_unit a b x y of
                              None \<Rightarrow> None
                            | Some n \<Rightarrow> if n < 256 then cons_to (char_of (nat n)) (scan_string s2) else None)
                       | _ \<Rightarrow> None))))"

declare scan_string.simps [simp del]

text \<open>\<open>-?(0|[1-9][0-9]*)\<close>, then the fraction and the exponent where they are complete.\<close>

definition scan_integer :: "string \<Rightarrow> (string \<times> string) option" where
  "scan_integer s =
     (let (sign, t) = (case s of c # cs \<Rightarrow> if c = CHR ''-'' then ([c], cs) else ([], s) | [] \<Rightarrow> ([], []))
      in case t of
           [] \<Rightarrow> None
         | c # cs \<Rightarrow>
             if c = CHR ''0'' then Some (sign @ [c], cs)
             else if is_decimal c then Some (sign @ takeWhile is_decimal t, dropWhile is_decimal t)
             else None)"

definition scan_fraction :: "string \<Rightarrow> string \<times> string" where
  "scan_fraction s =
     (case s of
        c # cs \<Rightarrow> if c = CHR ''.'' \<and> takeWhile is_decimal cs \<noteq> []
                  then (c # takeWhile is_decimal cs, dropWhile is_decimal cs) else ([], s)
      | [] \<Rightarrow> ([], []))"

definition scan_exponent :: "string \<Rightarrow> string \<times> string" where
  "scan_exponent s =
     (case s of
        e # es \<Rightarrow>
          (let (sign, t) = (case es of c # cs \<Rightarrow> if c = CHR ''-'' \<or> c = CHR ''+'' then ([c], cs) else ([], es) | [] \<Rightarrow> ([], []))
           in if (e = CHR ''e'' \<or> e = CHR ''E'') \<and> takeWhile is_decimal t \<noteq> []
              then (e # sign @ takeWhile is_decimal t, dropWhile is_decimal t) else ([], s))
      | [] \<Rightarrow> ([], []))"

definition scan_number :: "(string \<Rightarrow> string) \<Rightarrow> string \<Rightarrow> (json \<times> string) option" where
  "scan_number float_repr s =
     (case scan_integer s of
        None \<Rightarrow> None
      | Some (digits, s1) \<Rightarrow>
          (case scan_fraction s1 of (fraction, s2) \<Rightarrow>
          (case scan_exponent s2 of (ex, s3) \<Rightarrow>
             if fraction = [] \<and> ex = []
             then (case py_int digits of None \<Rightarrow> None | Some i \<Rightarrow> Some (JInt i, s3))
             else Some (JFloat (float_repr (digits @ fraction @ ex)), s3))))"

text \<open>The words of the language, \<open>NaN\<close> and the infinities included.\<close>

definition json_words :: "(string \<times> json) list" where
  "json_words = [(''null'', JNull), (''true'', JBool True), (''false'', JBool False),
     (''NaN'', JFloat ''NaN''), (''Infinity'', JFloat ''Infinity''), (''-Infinity'', JFloat ''-Infinity'')]"

definition scan_word :: "string \<Rightarrow> (json \<times> string) option" where
  "scan_word s = map_option (\<lambda>(w, v). (v, drop (length w) s)) (find (\<lambda>(w, v). starts_with w s) json_words)"

section \<open>Values\<close>

text \<open>
  The scanner of a value, of the items of an array after \<open>[\<close> and of the members of an object
  after its \<open>{\<close>. Each call has less fuel; \<open>loads\<close> starts with more than it can use.
\<close>

fun scan_value :: "(string \<Rightarrow> string) \<Rightarrow> nat \<Rightarrow> string \<Rightarrow> (json \<times> string) option"
and scan_items :: "(string \<Rightarrow> string) \<Rightarrow> nat \<Rightarrow> string \<Rightarrow> (json list \<times> string) option"
and scan_members :: "(string \<Rightarrow> string) \<Rightarrow> nat \<Rightarrow> string \<Rightarrow> ((string \<times> json) list \<times> string) option" where
  "scan_value fr 0 s = None"
| "scan_value fr (Suc n) s =
     (case s of
        [] \<Rightarrow> None
      | c # cs \<Rightarrow>
          if c = CHR 0x22 then map_option (\<lambda>(t, r). (JStr t, r)) (scan_string cs)
          else if c = CHR ''['' then
            (case skip_ws cs of
               d # r \<Rightarrow> if d = CHR '']'' then Some (JList [], r)
                        else map_option (\<lambda>(vs, r). (JList vs, r)) (scan_items fr n (d # r))
             | [] \<Rightarrow> None)
          else if c = CHR ''{'' then
            (case skip_ws cs of
               d # r \<Rightarrow> if d = CHR ''}'' then Some (JObj [], r)
                        else map_option (\<lambda>(kvs, r). (JObj (fold (\<lambda>(k, v). dict_set k v) kvs []), r))
                               (scan_members fr n (d # r))
             | [] \<Rightarrow> None)
          else (case scan_word s of Some w \<Rightarrow> Some w | None \<Rightarrow> scan_number fr s))"
| "scan_items fr 0 s = None"
| "scan_items fr (Suc n) s =
     (case scan_value fr n s of
        None \<Rightarrow> None
      | Some (v, r) \<Rightarrow>
          (case skip_ws r of
             [] \<Rightarrow> None
           | c # r1 \<Rightarrow>
               if c = CHR '']'' then Some ([v], r1)
               else if c = CHR '','' then cons_to v (scan_items fr n (skip_ws r1))
               else None))"
| "scan_members fr 0 s = None"
| "scan_members fr (Suc n) s =
     (case s of
        [] \<Rightarrow> None
      | q # qs \<Rightarrow>
          if q \<noteq> CHR 0x22 then None
          else (case scan_string qs of
                  None \<Rightarrow> None
                | Some (k, r) \<Rightarrow>
                    (case skip_ws r of
                       [] \<Rightarrow> None
                     | c # r1 \<Rightarrow>
                         if c \<noteq> CHR '':'' then None
                         else (case scan_value fr n (skip_ws r1) of
                                 None \<Rightarrow> None
                               | Some (v, r2) \<Rightarrow>
                                   (case skip_ws r2 of
                                      [] \<Rightarrow> None
                                    | d # r3 \<Rightarrow>
                                        if d = CHR ''}'' then Some ([(k, v)], r3)
                                        else if d = CHR '','' then cons_to (k, v) (scan_members fr n (skip_ws r3))
                                        else None)))))"

definition loads :: "(string \<Rightarrow> string) \<Rightarrow> string \<Rightarrow> json option" where
  "loads fr s =
     (case scan_value fr (Suc (length s)) (skip_ws s) of
        None \<Rightarrow> None
      | Some (v, r) \<Rightarrow> if skip_ws r = [] then Some v else None)"

section \<open>Reading back what was written\<close>

text \<open>
  The values that survive: no float, integers the interpreter converts, no key twice. The
  separators are a comma and a colon, each with the white space after it.
\<close>

fun plain_json :: "json \<Rightarrow> bool" where
  "plain_json (JInt i) = (\<bar>i\<bar> < 10 ^ max_str_digits)"
| "plain_json (JFloat r) = False"
| "plain_json (JList vs) = (\<forall>v \<in> set vs. plain_json v)"
| "plain_json (JObj kvs) = (distinct (map fst kvs) \<and> (\<forall>kv \<in> set kvs. plain_json (snd kv)))"
| "plain_json v = True"

definition separators :: "string \<Rightarrow> string \<Rightarrow> bool" where
  "separators item key \<longleftrightarrow> (\<exists>ws ws'. item = CHR '','' # ws \<and> key = CHR '':'' # ws' \<and> list_all json_ws ws \<and> list_all json_ws ws')"

lemma hex_val_digit: "n < 16 \<Longrightarrow> hex_val (hex_digit n) = Some (int n)"
proof -
  assume n: "n < 16"
  have c: "(of_char (char_of m) :: int) = int (m mod 256)" for m :: nat
    by (metis of_nat_of_char of_char_of)
  show ?thesis using n by (simp add: hex_val_def hex_digit_def Let_def c)
qed

lemma scan_escape: "scan_string (escape_char c @ s) = cons_to c (scan_string s)"
proof -
  have "code_unit (CHR ''0'') (CHR ''0'') (hex_digit (of_char c div 16)) (hex_digit (of_char c mod 16)) = Some (int (of_char c))"
  proof -
    have c: "of_char c div 16 < (16 :: nat)" using of_char_less_256 [of c] by linarith
    have "hex_val (CHR ''0'') = Some 0" by (simp add: hex_val_def)
    moreover have "int (of_char c div 16) * 16 + int (of_char c mod 16) = int (of_char c)"
      by (metis of_nat_add of_nat_mult of_nat_numeral div_mult_mod_eq)
    ultimately show ?thesis using hex_val_digit [OF c] hex_val_digit [of "of_char c mod 16"]
      by (simp add: code_unit_def)
  qed
  then show ?thesis
    by (auto simp: escape_char_def scan_string.simps simple_escape_def of_char_less_256)
qed

lemma scan_string_dumps: "scan_string (concat (map escape_char s) @ CHR 0x22 # rest) = Some (s, rest)"
  by (induction s) (simp_all add: scan_string.simps scan_escape cons_to_def)

definition stops :: "string \<Rightarrow> bool" where
  "stops rest \<longleftrightarrow> (case rest of [] \<Rightarrow> True | c # cs \<Rightarrow> c \<in> {CHR '','', CHR '']'', CHR ''}''})"

lemma stops_simps [simp]: "stops []" "stops (CHR '','' # s)" "stops (CHR '']'' # s)" "stops (CHR ''}'' # s)"
  by (simp_all add: stops_def)

lemma take_decimals:
  assumes "\<forall>c \<in> set ds. is_decimal c" and "stops rest"
  shows "takeWhile is_decimal (ds @ rest) = ds" "dropWhile is_decimal (ds @ rest) = rest"
proof -
  have "takeWhile is_decimal rest = []" "dropWhile is_decimal rest = rest"
    using assms(2) by (auto simp: stops_def is_decimal_def split: list.splits)
  then show "takeWhile is_decimal (ds @ rest) = ds" "dropWhile is_decimal (ds @ rest) = rest"
    using assms(1) by (simp_all add: takeWhile_append2 dropWhile_append2)
qed

lemma str_nat_first: "0 < n \<Longrightarrow> \<exists>c cs. str_nat n = c # cs \<and> is_decimal c \<and> c \<noteq> CHR ''0''"
proof (induction n rule: str_nat.induct)
  case (1 n)
  show ?case
  proof (cases "n < 10")
    case True
    moreover have "\<forall>n \<in> set [1..<10]. digit_char n \<noteq> CHR ''0''" by code_simp
    ultimately have "digit_char n \<noteq> CHR ''0''" using "1.prems" by simp
    then show ?thesis using True by (subst str_nat.simps) simp
  next
    case False
    then have "0 < n div 10" by simp
    from "1.IH" [OF False this] False show ?thesis by (subst str_nat.simps) auto
  qed
qed

lemma scan_integer_nat:
  assumes "stops rest"
  shows "scan_integer (str_nat n @ rest) = Some (str_nat n, rest)"
proof (cases "n = 0")
  case True
  have "str_nat 0 = ''0''" by code_simp
  then show ?thesis using True by (simp add: scan_integer_def)
next
  case False
  then obtain c cs where c: "str_nat n = c # cs" "is_decimal c" "c \<noteq> CHR ''0''" using str_nat_first by blast
  then show ?thesis
    using take_decimals [of "str_nat n" rest] str_nat_decimal [of n] assms is_decimal_not_sign [OF c(2)]
    by (simp add: scan_integer_def list.pred_set)
qed

lemma scan_str_int:
  assumes "stops rest" and "\<bar>i\<bar> < 10 ^ max_str_digits"
  shows "scan_number fr (str_int i @ rest) = Some (JInt i, rest)"
proof -
  have "scan_integer (str_int i @ rest) = Some (str_int i, rest)"
  proof (cases "i < 0")
    case True
    obtain c cs where c: "str_nat (nat (- i)) = c # cs" "is_decimal c"
      using str_nat_first [of "nat (- i)"] True by auto
    have "scan_integer (str_nat (nat (- i)) @ rest) = Some (str_nat (nat (- i)), rest)"
      using scan_integer_nat [OF assms(1)] .
    then show ?thesis using True c is_decimal_not_sign [OF c(2)]
      by (auto simp: str_int_def scan_integer_def split: if_splits)
  next
    case False
    then show ?thesis using scan_integer_nat [OF assms(1)] by (simp add: str_int_def)
  qed
  moreover have "scan_fraction rest = ([], rest)" "scan_exponent rest = ([], rest)"
    using assms(1) by (auto simp: stops_def scan_fraction_def scan_exponent_def Let_def split: list.splits prod.splits)
  ultimately show ?thesis using py_int_str_int [OF assms(2)] by (simp add: scan_number_def)
qed

lemma str_int_first:
  obtains c cs where "str_int i = c # cs" "is_decimal c \<or> c = CHR ''-'' \<and> cs \<noteq> [] \<and> is_decimal (hd cs)"
proof (cases "i < 0")
  case True
  then show ?thesis using that str_nat_first [of "nat (- i)"] by (auto simp: str_int_def)
next
  case False
  obtain c cs where c: "str_nat (nat i) = c # cs" by (cases "str_nat (nat i)") auto
  then have "is_decimal c" using str_nat_decimal [of "nat i"] by simp
  then show ?thesis using that c False by (simp add: str_int_def)
qed

lemma scan_word_int: "scan_word (str_int i @ rest) = None"
proof -
  obtain c cs where c: "str_int i = c # cs" "is_decimal c \<or> c = CHR ''-'' \<and> cs \<noteq> [] \<and> is_decimal (hd cs)"
    by (rule str_int_first)
  have head: "starts_with (x # w) (y # t) \<longleftrightarrow> x = y \<and> starts_with w t" for x y w t by (auto simp: starts_with_def)
  have no: "c \<notin> set ''ntfNI''" using c(2) by (auto simp: is_decimal_def)
  have inf: "\<not> starts_with ''-Infinity'' (str_int i @ rest)"
  proof (cases "c = CHR ''-''")
    case True
    then obtain d ds where "cs = d # ds" "is_decimal d" using c(2) by (cases cs) (auto simp: is_decimal_def)
    then have "d \<noteq> CHR ''I''" by (auto simp: is_decimal_def)
    then show ?thesis using c(1) True \<open>cs = d # ds\<close> by (simp add: head)
  next
    case False
    then show ?thesis using c(1) by (simp add: head)
  qed
  have "\<not> starts_with (x # w) (str_int i @ rest)" if "x \<in> set ''ntfNI''" for x w
    using no that c(1) by (auto simp: head)
  then show ?thesis using inf by (simp add: scan_word_def json_words_def)
qed

fun weight :: "json \<Rightarrow> nat" where
  "weight (JList vs) = Suc (sum_list (map (\<lambda>v. Suc (weight v)) vs))"
| "weight (JObj kvs) = Suc (sum_list (map (\<lambda>kv. Suc (weight (snd kv))) kvs))"
| "weight v = 1"

lemma ws_not_special:
  "\<not> json_ws (CHR 0x22)" "\<not> json_ws (CHR ''['')" "\<not> json_ws (CHR '']'')" "\<not> json_ws (CHR ''{'')" "\<not> json_ws (CHR ''}'')"
  "\<not> json_ws (CHR '','')" "\<not> json_ws (CHR '':'')" "\<not> json_ws (CHR ''n'')" "\<not> json_ws (CHR ''t'')" "\<not> json_ws (CHR ''f'')"
  by (simp_all add: json_ws_def)

lemma dumps_first:
  assumes "plain_json v"
  obtains c cs where "dumps_seps item key v = c # cs" "\<not> json_ws c" "c \<noteq> CHR '']''"
proof (cases v)
  case (JInt i)
  obtain c cs where c: "str_int i = c # cs" "is_decimal c \<or> c = CHR ''-'' \<and> cs \<noteq> [] \<and> is_decimal (hd cs)"
    by (rule str_int_first)
  then have "\<not> json_ws c" "c \<noteq> CHR '']''" by (auto simp: json_ws_def is_decimal_def)
  then show ?thesis using that JInt c by simp
next
  case (JBool b)
  then show ?thesis using that by (cases b) (auto simp: ws_not_special)
qed (use assms that in \<open>auto simp: ws_not_special dumps_str_def split: if_splits\<close>)

definition scans :: "(string \<Rightarrow> string) \<Rightarrow> string \<Rightarrow> string \<Rightarrow> json \<Rightarrow> bool" where
  "scans fr item key v \<longleftrightarrow> (\<forall>n rest. weight v \<le> n \<longrightarrow> stops rest \<longrightarrow>
     scan_value fr n (dumps_seps item key v @ rest) = Some (v, rest))"

lemma skip_ws_append: "list_all json_ws ws \<Longrightarrow> skip_ws (ws @ s) = skip_ws s"
  by (simp add: dropWhile_append2 list.pred_set)

lemma skip_ws_dumps: "plain_json v \<Longrightarrow> skip_ws (dumps_seps item key v @ s) = dumps_seps item key v @ s"
  using dumps_first [of v item key] by fastforce

lemma skip_ws_join:
  assumes "vs \<noteq> []" and "\<forall>v \<in> set vs. plain_json v"
  shows "skip_ws (join item (map (dumps_seps item key) vs) @ s) = join item (map (dumps_seps item key) vs) @ s"
proof (cases vs)
  case (Cons v us)
  then show ?thesis using skip_ws_dumps [of v item key] assms(2) by (cases us) auto
qed (use assms in simp)

lemma scan_items_ok:
  assumes "item = CHR '','' # ws" and "list_all json_ws ws"
  shows "vs \<noteq> [] \<Longrightarrow> \<forall>v \<in> set vs. plain_json v \<and> scans fr item key v \<Longrightarrow>
    sum_list (map (\<lambda>v. Suc (weight v)) vs) \<le> n \<Longrightarrow>
    scan_items fr n (join item (map (dumps_seps item key) vs) @ CHR '']'' # rest) = Some (vs, rest)"
proof (induction vs arbitrary: n)
  case (Cons v vs)
  then obtain m where m: "n = Suc m" "weight v \<le> m" by (cases n) auto
  show ?case
  proof (cases vs)
    case Nil
    then show ?thesis using Cons.prems m by (simp add: scans_def ws_not_special)
  next
    case (Cons u us)
    have "scan_value fr m (dumps_seps item key v @ item @ join item (map (dumps_seps item key) vs) @ CHR '']'' # rest)
        = Some (v, item @ join item (map (dumps_seps item key) vs) @ CHR '']'' # rest)"
      using Cons.prems(2) m by (simp add: scans_def assms(1))
    moreover have "scan_items fr m (join item (map (dumps_seps item key) vs) @ CHR '']'' # rest) = Some (vs, rest)"
      using Cons.IH [of m] Cons.prems Cons m by simp
    ultimately show ?thesis
      using Cons m Cons.prems(2) skip_ws_join [of vs item key] assms
      by (simp add: ws_not_special skip_ws_append cons_to_def)
  qed
qed simp

abbreviation member_text :: "string \<Rightarrow> string \<Rightarrow> string \<times> json \<Rightarrow> string" where
  "member_text item key \<equiv> \<lambda>(k, v). dumps_str k @ key @ dumps_seps item key v"

lemma skip_ws_members:
  "kvs \<noteq> [] \<Longrightarrow> skip_ws (join item (map (member_text item key) kvs) @ s) = join item (map (member_text item key) kvs) @ s"
  by (cases kvs rule: remdups_adj.cases) (auto simp: dumps_str_def ws_not_special)

lemma scan_members_ok:
  assumes "item = CHR '','' # ws" "list_all json_ws ws" and "key = CHR '':'' # ws'" "list_all json_ws ws'"
  shows "kvs \<noteq> [] \<Longrightarrow> \<forall>kv \<in> set kvs. plain_json (snd kv) \<and> scans fr item key (snd kv) \<Longrightarrow>
    sum_list (map (\<lambda>kv. Suc (weight (snd kv))) kvs) \<le> n \<Longrightarrow>
    scan_members fr n (join item (map (member_text item key) kvs) @ CHR ''}'' # rest) = Some (kvs, rest)"
proof (induction kvs arbitrary: n)
  case (Cons kv kvs)
  obtain k v where kv: "kv = (k, v)" by (cases kv)
  then obtain m where m: "n = Suc m" "weight v \<le> m" using Cons.prems(3) by (cases n) auto
  have v: "plain_json v" "scans fr item key v" using Cons.prems(2) kv by auto
  have scanned: "scan_value fr m (skip_ws (ws' @ dumps_seps item key v @ t)) = Some (v, t)" if "stops t" for t
    using v m that skip_ws_dumps [OF v(1), of item key t] assms(4) by (simp add: skip_ws_append scans_def)
  show ?case
  proof (cases kvs)
    case Nil
    then show ?thesis using m kv scanned [of "CHR ''}'' # rest"] assms(3)
      by (simp add: dumps_str_def scan_string_dumps ws_not_special)
  next
    case (Cons u us)
    have "scan_members fr m (join item (map (member_text item key) kvs) @ CHR ''}'' # rest) = Some (kvs, rest)"
      using Cons.IH [of m] Cons.prems Cons m kv by simp
    then show ?thesis
      using m kv Cons scanned [of "CHR '','' # ws @ join item (map (member_text item key) kvs) @ CHR ''}'' # rest"]
        skip_ws_members [of kvs item key] assms
      by (simp add: dumps_str_def scan_string_dumps ws_not_special skip_ws_append cons_to_def)
  qed
qed simp

lemma scans_plain:
  assumes "separators item key"
  shows "plain_json v \<Longrightarrow> scans fr item key v"
proof (induction v)
  case (JInt i)
  obtain c cs where c: "str_int i = c # cs" "is_decimal c \<or> c = CHR ''-'' \<and> cs \<noteq> [] \<and> is_decimal (hd cs)"
    by (rule str_int_first)
  then have "c \<noteq> CHR 0x22 \<and> c \<noteq> CHR ''['' \<and> c \<noteq> CHR ''{''" by (auto simp: is_decimal_def)
  then show ?case
    using c(1) scan_str_int [of _ i fr] scan_word_int [of i] JInt by (auto simp: scans_def Suc_le_eq gr0_conv_Suc)
next
  case (JStr t)
  show ?case by (auto simp: scans_def dumps_str_def scan_string_dumps Suc_le_eq gr0_conv_Suc)
next
  case (JList vs)
  obtain ws where ws: "item = CHR '','' # ws" "list_all json_ws ws" using assms by (auto simp: separators_def)
  have vs: "\<forall>v \<in> set vs. plain_json v \<and> scans fr item key v" using JList by auto
  show ?case
  proof (cases "vs = []")
    case True
    then show ?thesis by (auto simp: scans_def Suc_le_eq gr0_conv_Suc ws_not_special)
  next
    case False
    obtain u us where u: "vs = u # us" using False by (cases vs) auto
    with vs obtain c0 cs0 where "dumps_seps item key u = c0 # cs0" "\<not> json_ws c0" "c0 \<noteq> CHR '']''"
      using dumps_first [of u item key] by auto
    then have "\<exists>c cs. join item (map (dumps_seps item key) vs) = c # cs \<and> \<not> json_ws c \<and> c \<noteq> CHR '']''"
      using u by (cases us) auto
    then obtain c cs where c: "join item (map (dumps_seps item key) vs) = c # cs" "\<not> json_ws c" "c \<noteq> CHR '']''" by blast
    show ?thesis unfolding scans_def
    proof (intro allI impI)
      fix n rest
      assume n: "weight (JList vs) \<le> n"
      then obtain m where m: "n = Suc m" "sum_list (map (\<lambda>v. Suc (weight v)) vs) \<le> m" by (cases n) auto
      show "scan_value fr n (dumps_seps item key (JList vs) @ rest) = Some (JList vs, rest)"
        using scan_items_ok [OF ws False vs m(2), of rest] c m(1) by simp
    qed
  qed
next
  case (JObj kvs)
  obtain ws ws' where ws: "item = CHR '','' # ws" "list_all json_ws ws" "key = CHR '':'' # ws'" "list_all json_ws ws'"
    using assms by (auto simp: separators_def)
  have kvs: "\<forall>kv \<in> set kvs. plain_json (snd kv) \<and> scans fr item key (snd kv)"
    using JObj by (fastforce simp: snds.simps)
  have eq: "map (\<lambda>(k, t). dumps_str k @ key @ t) (map (\<lambda>(k, v). (k, dumps_seps item key v)) kvs) = map (member_text item key) kvs"
    by auto
  have fold: "fold (\<lambda>(k, v). dict_set k v) kvs' d = d @ kvs'" if "distinct (map fst (d @ kvs'))"
    for kvs' and d :: "(string, json) dict"
    using that
  proof (induction kvs' arbitrary: d)
    case (Cons x xs)
    then show ?case using dict_get_append [of "fst x" d "snd x"] by (cases x) auto
  qed simp
  show ?case
  proof (cases "kvs = []")
    case True
    then show ?thesis by (auto simp: scans_def Suc_le_eq gr0_conv_Suc ws_not_special)
  next
    case False
    have "\<exists>cs. join item (map (member_text item key) kvs) = CHR 0x22 # cs"
      using False by (cases kvs rule: remdups_adj.cases) (auto simp: dumps_str_def)
    then obtain cs where c: "join item (map (member_text item key) kvs) = CHR 0x22 # cs" by blast
    show ?thesis unfolding scans_def
    proof (intro allI impI)
      fix n rest
      assume n: "weight (JObj kvs) \<le> n"
      then obtain m where m: "n = Suc m" "sum_list (map (\<lambda>kv. Suc (weight (snd kv))) kvs) \<le> m" by (cases n) auto
      show "scan_value fr n (dumps_seps item key (JObj kvs) @ rest) = Some (JObj kvs, rest)"
        using scan_members_ok [OF ws False kvs m(2), of rest] c m(1) fold [of "[]" kvs] JObj.prems
        by (simp add: eq ws_not_special del: map_map)
    qed
  qed
qed (auto simp: scans_def Suc_le_eq gr0_conv_Suc scan_word_def json_words_def starts_with_def)

lemma weight_le: "plain_json v \<Longrightarrow> item \<noteq> [] \<Longrightarrow> weight v \<le> length (dumps_seps item key v)"
proof (induction v)
  case (JInt i)
  then show ?case using str_int_not_Nil [of i] by (cases "str_int i") auto
next
  case (JList vs)
  have "sum_list (map (\<lambda>v. Suc (weight v)) us) \<le> Suc (length (join item (map (dumps_seps item key) us)))" if "set us \<subseteq> set vs" for us
    using that
  proof (induction us)
    case (Cons u us)
    then have u: "weight u \<le> length (dumps_seps item key u)" using JList by auto
    have "1 \<le> length item" using JList.prems(2) by (cases item) auto
    then show ?case using Cons u by (cases us) auto
  qed simp
  from this [of vs] show ?case by simp
next
  case (JObj kvs)
  have "sum_list (map (\<lambda>kv. Suc (weight (snd kv))) us) \<le> Suc (length (join item (map (member_text item key) us)))" if "set us \<subseteq> set kvs" for us
    using that
  proof (induction us)
    case (Cons u us)
    obtain k v where kv: "u = (k, v)" by (cases u)
    have "weight v \<le> length (dumps_seps item key v)" using JObj Cons.prems kv by (fastforce simp: snds.simps)
    moreover have "1 \<le> length item" using JObj.prems(2) by (cases item) auto
    ultimately show ?case using Cons kv by (cases us) auto
  qed simp
  moreover have "map (\<lambda>(k, t). dumps_str k @ key @ t) (map (\<lambda>(k, v). (k, dumps_seps item key v)) kvs) = map (member_text item key) kvs"
    by auto
  ultimately show ?case by (simp del: map_map)
qed (auto simp: dumps_str_def)

text \<open>What \<open>json.dumps\<close> wrote, in its own order of keys, \<open>json.loads\<close> reads back.\<close>

lemma loads_dumps:
  assumes "separators item key" and "plain_json v"
  shows "loads fr (dumps_seps item key v) = Some v"
proof -
  have "item \<noteq> []" using assms(1) by (auto simp: separators_def)
  then have "weight v \<le> Suc (length (dumps_seps item key v))" using weight_le [OF assms(2)] le_SucI by blast
  then have "scan_value fr (Suc (length (dumps_seps item key v))) (dumps_seps item key v @ []) = Some (v, [])"
    using scans_plain [OF assms] unfolding scans_def by (metis stops_simps(1))
  then show ?thesis using skip_ws_dumps [OF assms(2), of item key "[]"] by (simp add: loads_def)
qed

section \<open>JSON text is ASCII\<close>

lemma isascii_simps [simp]: "isascii []" "isascii (c # s) \<longleftrightarrow> is_ascii c \<and> isascii s"
  "isascii (s @ t) \<longleftrightarrow> isascii s \<and> isascii t"
  by (simp_all add: isascii_def)

lemma isascii_join: "isascii sep \<Longrightarrow> (\<And>x. x \<in> set xs \<Longrightarrow> isascii x) \<Longrightarrow> isascii (join sep xs)"
  by (induction sep xs rule: join.induct) auto

lemma escape_char_ascii: "isascii (escape_char c)"
proof -
  have "is_ascii (hex_digit n)" if "n < 16" for n
    using that by (auto simp: hex_digit_def is_ascii_def of_char_of)
  moreover have "ord c div 16 < 16" using of_char_less_256 [of c] by linarith
  ultimately show ?thesis by (simp add: escape_char_def is_ascii_def)
qed

lemma dumps_str_ascii: "isascii (dumps_str s)"
proof -
  have "isascii (concat (map escape_char s))" by (induction s) (simp_all add: escape_char_ascii)
  then show ?thesis by (simp add: dumps_str_def is_ascii_def)
qed

lemma dumps_seps_ascii:
  assumes "isascii item" and "isascii key"
  shows "plain_json v \<Longrightarrow> isascii (dumps_seps item key v)"
proof (induction v)
  case (JInt i)
  have "is_ascii c" if "c \<in> set (str_int i)" for c
    using str_int_chars [OF that] by (auto simp: is_decimal_def is_ascii_def)
  then show ?case by (simp add: isascii_def list_all_iff)
next
  case (JList vs)
  have "isascii (join item (map (dumps_seps item key) vs))"
    by (rule isascii_join [OF assms(1)]) (use JList in auto)
  then show ?case by (simp add: is_ascii_def)
next
  case (JObj kvs)
  have "isascii (join item (map (\<lambda>(k, t). dumps_str k @ key @ t) (map (\<lambda>(k, v). (k, dumps_seps item key v)) kvs)))"
    by (rule isascii_join [OF assms(1)]) (use JObj assms(2) dumps_str_ascii in fastforce)
  then show ?case by (simp add: is_ascii_def)
qed (simp_all add: dumps_str_ascii is_ascii_def)

end
