(* ===== verification/IsoTime.thy ===== *)
theory IsoTime
  imports PyStr Types
begin

text \<open>
  \<open>datetime.isoformat()\<close> of an aware datetime in UTC: the civil date of a day number, as the
  standard library computes it, and the text. A text is read back by \<open>parse_iso\<close>, so that what
  \<open>fromisoformat\<close> documents, to invert \<open>isoformat\<close>, can be met.
\<close>

section \<open>Days and dates\<close>

definition is_leap :: "int \<Rightarrow> bool" where
  "is_leap y \<longleftrightarrow> y mod 4 = 0 \<and> (y mod 100 \<noteq> 0 \<or> y mod 400 = 0)"

definition days_before_year :: "int \<Rightarrow> int" where
  "days_before_year y = (let y1 = y - 1 in y1 * 365 + y1 div 4 - y1 div 100 + y1 div 400)"

definition days_before_month :: "bool \<Rightarrow> int \<Rightarrow> int" where
  "days_before_month leap m =
     [0, 0, 31, 59, 90, 120, 151, 181, 212, 243, 273, 304, 334] ! nat m + (if m > 2 \<and> leap then 1 else 0)"

definition ymd2ord :: "int \<Rightarrow> int \<Rightarrow> int \<Rightarrow> int" where
  "ymd2ord y m d = days_before_year y + days_before_month (is_leap y) m + d"

definition month_of :: "bool \<Rightarrow> int \<Rightarrow> int" where
  "month_of leap n = (let m = (n + 50) div 32 in if days_before_month leap m > n then m - 1 else m)"

definition ord2ymd :: "int \<Rightarrow> int \<times> int \<times> int" where
  "ord2ymd n =
     (let n400 = (n - 1) div 146097; r = (n - 1) mod 146097; n100 = r div 36524; r = r mod 36524;
          n4 = r div 1461; r = r mod 1461; n1 = r div 365; r = r mod 365;
          year = n400 * 400 + 1 + n100 * 100 + n4 * 4 + n1
      in if n1 = 4 \<or> n100 = 4 then (year - 1, 12, 31)
         else (let leap = (n1 = 3 \<and> (n4 \<noteq> 24 \<or> n100 = 3)); m = month_of leap r
               in (year, m, r - days_before_month leap m + 1)))"

section \<open>The text\<close>

text \<open>\<open>%0wd\<close> of a number with at most \<open>w\<close> digits.\<close>

fun pad :: "nat \<Rightarrow> int \<Rightarrow> string" where
  "pad 0 n = []"
| "pad (Suc w) n = pad w (n div 10) @ [digit_char (nat (n mod 10))]"

definition isoformat :: "time \<Rightarrow> string" where
  "isoformat t =
     (let us = t mod 86400000000
      in case ord2ymd (t div 86400000000 + 719163) of (y, m, d) \<Rightarrow>
           pad 4 y @ ''-'' @ pad 2 m @ ''-'' @ pad 2 d @ ''T'' @ pad 2 (us div 3600000000) @ '':'' @
           pad 2 (us div 60000000 mod 60) @ '':'' @ pad 2 (us div 1000000 mod 60) @
           (if us mod 1000000 = 0 then '''' else ''.'' @ pad 6 (us mod 1000000)) @ ''+00:00'')"

definition digits_val :: "string \<Rightarrow> int" where
  "digits_val s = foldl (\<lambda>v c. 10 * v + int (of_char c) - 48) 0 s"

definition field_at :: "nat \<Rightarrow> nat \<Rightarrow> string \<Rightarrow> int" where
  "field_at i w s = digits_val (take w (drop i s))"

definition parse_iso :: "string \<Rightarrow> time option" where
  "parse_iso s =
     (let days = ymd2ord (field_at 0 4 s) (field_at 5 2 s) (field_at 8 2 s) - 719163;
          us = ((field_at 11 2 s * 60 + field_at 14 2 s) * 60 + field_at 17 2 s) * 1000000 +
               (if take 1 (drop 19 s) = ''.'' then field_at 20 6 s else 0);
          t = days * 86400000000 + us
      in if isoformat t = s then Some t else None)"

section \<open>A date is read back\<close>

lemma month_bounds:
  "list_all (\<lambda>leap. list_all (\<lambda>n. let m = month_of leap n in
     1 \<le> m \<and> m \<le> 12 \<and> days_before_month leap m \<le> n \<and> n \<le> days_before_month leap m + 30) [0..364]) [True, False]"
  by code_simp

lemma month_of_bounds:
  assumes "0 \<le> n" and "n \<le> 364"
  shows "1 \<le> month_of leap n \<and> month_of leap n \<le> 12 \<and> days_before_month leap (month_of leap n) \<le> n \<and>
    n \<le> days_before_month leap (month_of leap n) + 30"
proof -
  have "leap \<in> set [True, False]" "n \<in> set [0..364]" using assms by auto
  then show ?thesis using month_bounds unfolding list_all_iff Let_def by blast
qed

lemma year_start:
  assumes "0 \<le> b" "b \<le> 3" "0 \<le> c" "c \<le> 24" "0 \<le> d" "d \<le> (3 :: int)"
  shows "days_before_year (a * 400 + 1 + b * 100 + c * 4 + d) = 146097 * a + 36524 * b + 1461 * c + 365 * d"
    "is_leap (a * 400 + 1 + b * 100 + c * 4 + d) \<longleftrightarrow> d = 3 \<and> (c \<noteq> 24 \<or> b = 3)"
proof -
  let ?y = "a * 400 + b * 100 + c * 4 + d"
  have "?y div 4 = 100 * a + 25 * b + c" by (rule int_div_pos_eq [where r = d]) (use assms in auto)
  moreover have "?y div 100 = 4 * a + b" by (rule int_div_pos_eq [where r = "c * 4 + d"]) (use assms in auto)
  moreover have "?y div 400 = a" by (rule int_div_pos_eq [where r = "b * 100 + c * 4 + d"]) (use assms in auto)
  ultimately show "days_before_year (a * 400 + 1 + b * 100 + c * 4 + d) = 146097 * a + 36524 * b + 1461 * c + 365 * d"
    by (simp add: days_before_year_def Let_def algebra_simps)
  let ?z = "a * 400 + 1 + b * 100 + c * 4 + d"
  have "?z mod 4 = (d + 1) mod 4"
    using mod_mult_self2 [of "d + 1" 4 "100 * a + 25 * b + c"] by (simp add: algebra_simps)
  moreover have "(d + 1) mod 4 = 0 \<longleftrightarrow> d = 3"
  proof (cases "d = 3")
    case False
    then have "(d + 1) mod 4 = d + 1" by (intro mod_pos_pos_trivial) (use assms in linarith)+
    then show ?thesis using assms False by simp
  qed simp
  moreover have "?z mod 100 = (c * 4 + d + 1) mod 100"
    using mod_mult_self2 [of "c * 4 + d + 1" 100 "4 * a + b"] by (simp add: algebra_simps)
  moreover have "?z mod 400 = (b * 100 + c * 4 + d + 1) mod 400"
    using mod_mult_self2 [of "b * 100 + c * 4 + d + 1" 400 a] by (simp add: algebra_simps)
  moreover have "(c * 4 + 3 + 1) mod 100 = 0 \<longleftrightarrow> c = 24"
  proof (cases "c = 24")
    case False
    then have "(c * 4 + 3 + 1) mod 100 = c * 4 + 3 + 1" by (intro mod_pos_pos_trivial) (use assms in linarith)+
    then show ?thesis using assms False by simp
  qed simp
  moreover have "(b * 100 + 24 * 4 + 3 + 1) mod 400 = 0 \<longleftrightarrow> b = 3"
  proof (cases "b = 3")
    case False
    then have "(b * 100 + 24 * 4 + 3 + 1) mod 400 = b * 100 + 24 * 4 + 3 + 1"
      by (intro mod_pos_pos_trivial) (use assms in linarith)+
    then show ?thesis using assms False by simp
  qed simp
  ultimately show "is_leap ?z \<longleftrightarrow> d = 3 \<and> (c \<noteq> 24 \<or> b = 3)"
    unfolding is_leap_def by auto
qed

lemma ord2ymd_ok:
  assumes "1 \<le> n" and "n \<le> 3652059"
  shows "case ord2ymd n of (y, m, d) \<Rightarrow> ymd2ord y m d = n \<and> 1 \<le> y \<and> y \<le> 9999 \<and> 1 \<le> m \<and> m \<le> 12 \<and> 1 \<le> d \<and> d \<le> 31"
proof -
  define a where "a = (n - 1) div 146097"
  define r where "r = (n - 1) mod 146097"
  define b where "b = r div 36524"
  define r1 where "r1 = r mod 36524"
  define c where "c = r1 div 1461"
  define r2 where "r2 = r1 mod 1461"
  define d where "d = r2 div 365"
  define k where "k = r2 mod 365"
  have parts: "n - 1 = 146097 * a + r" "r = 36524 * b + r1" "r1 = 1461 * c + r2" "r2 = 365 * d + k"
    by (simp_all add: a_def r_def b_def r1_def c_def r2_def d_def k_def)
  have small: "0 \<le> r" "r < 146097" "0 \<le> r1" "r1 < 36524" "0 \<le> r2" "r2 < 1461" "0 \<le> k" "k < 365"
    by (simp_all add: r_def r1_def r2_def k_def)
  have n: "n = 146097 * a + 36524 * b + 1461 * c + 365 * d + k + 1" using parts by linarith
  have "0 \<le> a" "0 \<le> b" "0 \<le> c" "0 \<le> d"
    using assms(1) small by (simp_all add: a_def b_def c_def d_def pos_imp_zdiv_nonneg_iff)
  moreover have "a \<le> 24" "b \<le> 4" "c \<le> 24" "d \<le> 4" using parts small assms(2) by linarith+
  moreover have "b = 4 \<longrightarrow> c = 0 \<and> d = 0 \<and> k = 0" "d = 4 \<longrightarrow> k = 0"
    using parts small \<open>0 \<le> c\<close> \<open>0 \<le> d\<close> by (intro impI conjI; linarith)+
  ultimately have bounds: "0 \<le> a" "0 \<le> b" "b \<le> 4" "0 \<le> c" "c \<le> 24" "0 \<le> d" "d \<le> 4" "0 \<le> k" "k \<le> 364" "a \<le> 24"
    "b = 4 \<longrightarrow> c = 0 \<and> d = 0 \<and> k = 0" "d = 4 \<longrightarrow> k = 0"
    using small by simp_all
  have split: "ord2ymd n = (if d = 4 \<or> b = 4 then (a * 400 + 1 + b * 100 + c * 4 + d - 1, 12, 31)
      else (let leap = (d = 3 \<and> (c \<noteq> 24 \<or> b = 3)); m = month_of leap k
            in (a * 400 + 1 + b * 100 + c * 4 + d, m, k - days_before_month leap m + 1)))"
    by (simp add: ord2ymd_def Let_def a_def r_def b_def r1_def c_def r2_def d_def k_def)
  show ?thesis
  proof (cases "d = 4 \<or> b = 4")
    case False
    let ?leap = "d = 3 \<and> (c \<noteq> 24 \<or> b = 3)"
    have le: "b \<le> 3" "d \<le> 3" using False bounds by linarith+
    note year = year_start [OF bounds(2) le(1) bounds(4,5,6) le(2), of a]
    have "1 \<le> month_of ?leap k \<and> month_of ?leap k \<le> 12 \<and> days_before_month ?leap (month_of ?leap k) \<le> k \<and>
        k \<le> days_before_month ?leap (month_of ?leap k) + 30"
      using month_of_bounds [of k ?leap] bounds by simp
    moreover have "1 \<le> a * 400 + 1 + b * 100 + c * 4 + d" using bounds by simp
    moreover have "a * 400 + 1 + b * 100 + c * 4 + d \<le> 9999" using bounds(1-10) le n assms(2) by linarith
    ultimately show ?thesis unfolding split ymd2ord_def using False year n by (auto simp: Let_def)
  next
    case True
    define y where "y = a * 400 + 1 + b * 100 + c * 4 + d - 1"
    have y: "ymd2ord y 12 31 = n"
    proof (cases "b = 4")
      case True
      then have z: "c = 0" "d = 0" "k = 0" using bounds by auto
      then have "y = a * 400 + 1 + 3 * 100 + 24 * 4 + 3" using True y_def by simp
      then show ?thesis using year_start [of 3 24 3 a] n True z
        by (simp add: ymd2ord_def days_before_month_def)
    next
      case False
      then have z: "d = 4" "k = 0" "b \<le> 3" using True bounds by auto
      have y': "y = a * 400 + 1 + b * 100 + c * 4 + 3" using z y_def by simp
      have "c \<noteq> 24 \<or> b = 3"
      proof (rule ccontr)
        assume "\<not> ?thesis"
        then have "r1 = 1461 * 24 + 1460" using z(1,2) parts(3,4) by simp
        then show False using small(4) by simp
      qed
      then show ?thesis using year_start [of b c 3 a] n z y' bounds
        by (simp add: ymd2ord_def days_before_month_def)
    qed
    moreover have "1 \<le> y" using bounds(1,2,4,6) True unfolding y_def by linarith
    moreover have "y \<le> 9999" using bounds True n assms(2) unfolding y_def by (elim disjE; simp; linarith)
    ultimately show ?thesis unfolding split using True by (simp add: y_def)
  qed
qed

section \<open>A text is read back\<close>

lemma length_pad [simp]: "length (pad w n) = w"
  by (induction w arbitrary: n) simp_all

lemma of_char_digit: "i < 10 \<Longrightarrow> int (of_char (digit_char i)) = 48 + int i"
  by (simp add: digit_char_def)

lemma digits_val_pad: "0 \<le> n \<Longrightarrow> digits_val (pad w n) = n mod 10 ^ w"
proof (induction w arbitrary: n)
  case (Suc w)
  have "digits_val (pad (Suc w) n) = 10 * digits_val (pad w (n div 10)) + n mod 10"
    by (simp add: digits_val_def of_char_digit nat_less_iff)
  also have "\<dots> = 10 * (n div 10 mod 10 ^ w) + n mod 10" using Suc by simp
  also have "\<dots> = n mod 10 ^ Suc w" by (simp add: zmod_zmult2_eq)
  finally show ?case .
qed (simp add: digits_val_def)

text \<open>The fields of a text, by the lengths of what stands before them.\<close>

lemma fields_of_text:
  assumes "length a = 4" "length b = 2" "length c = 2" "length h = 2" "length i = 2" "length j = 2"
    and s: "s = a @ ''-'' @ b @ ''-'' @ c @ ''T'' @ h @ '':'' @ i @ '':'' @ j @ rest"
  shows "take 4 (drop 0 s) = a" "take 2 (drop 5 s) = b" "take 2 (drop 8 s) = c" "take 2 (drop 11 s) = h"
    "take 2 (drop 14 s) = i" "take 2 (drop 17 s) = j" "drop 19 s = rest" "drop 20 s = drop 1 rest"
proof -
  obtain a1 a2 a3 a4 b1 b2 c1 c2 h1 h2 i1 i2 j1 j2 where
    "a = [a1, a2, a3, a4]" "b = [b1, b2]" "c = [c1, c2]" "h = [h1, h2]" "i = [i1, i2]" "j = [j1, j2]"
    using assms(1-6) by (auto simp: length_Suc_conv eval_nat_numeral)
  note parts = this
  then have s': "s = [a1, a2, a3, a4, CHR ''-'', b1, b2, CHR ''-'', c1, c2, CHR ''T'', h1, h2, CHR '':'', i1, i2, CHR '':'', j1, j2] @ rest"
    by (simp add: s)
  show "take 4 (drop 0 s) = a" "take 2 (drop 5 s) = b" "take 2 (drop 8 s) = c" "take 2 (drop 11 s) = h"
    "take 2 (drop 14 s) = i" "take 2 (drop 17 s) = j" "drop 19 s = rest" "drop 20 s = drop 1 rest"
    unfolding s' parts by simp_all
qed

lemma parse_isoformat:
  assumes "valid_instant t"
  shows "parse_iso (isoformat t) = Some t"
proof -
  define us where "us = t mod 86400000000"
  obtain y m d where ymd: "ord2ymd (t div 86400000000 + 719163) = (y, m, d)" by (cases "ord2ymd (t div 86400000000 + 719163)") auto
  have "- 62135596800000000 \<le> t" "t \<le> 253402300799999999" using assms by (simp_all add: valid_instant_def seconds_def)
  from zdiv_mono1 [OF this(1), of 86400000000] zdiv_mono1 [OF this(2), of 86400000000]
  have "1 \<le> t div 86400000000 + 719163" "t div 86400000000 + 719163 \<le> 3652059" by simp_all
  from ord2ymd_ok [OF this] ymd have date: "ymd2ord y m d = t div 86400000000 + 719163" "1 \<le> y" "y \<le> 9999" "1 \<le> m"
    "m \<le> 12" "1 \<le> d" "d \<le> 31" by auto
  have us: "0 \<le> us" "us < 86400000000" by (simp_all add: us_def)
  let ?s = "isoformat t"
  have s: "?s = pad 4 y @ ''-'' @ pad 2 m @ ''-'' @ pad 2 d @ ''T'' @ pad 2 (us div 3600000000) @ '':'' @
           pad 2 (us div 60000000 mod 60) @ '':'' @ pad 2 (us div 1000000 mod 60) @
           (if us mod 1000000 = 0 then '''' else ''.'' @ pad 6 (us mod 1000000)) @ ''+00:00''"
    by (simp add: isoformat_def ymd us_def Let_def)
  have pads: "digits_val (pad 4 y) = y" "digits_val (pad 2 m) = m" "digits_val (pad 2 d) = d"
    "digits_val (pad 2 (us div 3600000000)) = us div 3600000000"
    "digits_val (pad 2 (us div 60000000 mod 60)) = us div 60000000 mod 60"
    "digits_val (pad 2 (us div 1000000 mod 60)) = us div 1000000 mod 60"
    "digits_val (pad 6 (us mod 1000000)) = us mod 1000000"
  proof -
    have h: "0 \<le> us div 3600000000" using us by (simp add: pos_imp_zdiv_nonneg_iff)
    have "us div 3600000000 \<le> 86400000000 div 3600000000" using us by (intro zdiv_mono1) simp_all
    then have "us div 3600000000 < 100" by simp
    note h = h this
    show "digits_val (pad 4 y) = y" "digits_val (pad 2 m) = m" "digits_val (pad 2 d) = d"
      using date by (simp_all add: digits_val_pad del: pad.simps)
    show "digits_val (pad 2 (us div 3600000000)) = us div 3600000000"
      using h by (simp add: digits_val_pad del: pad.simps)
    have small: "0 \<le> x mod 60" "x mod 60 < 100" for x :: int
      by (simp, rule order_less_trans [OF pos_mod_bound], simp_all)
    show "digits_val (pad 2 (us div 60000000 mod 60)) = us div 60000000 mod 60"
      "digits_val (pad 2 (us div 1000000 mod 60)) = us div 1000000 mod 60"
      using small by (simp_all add: digits_val_pad mod_pos_pos_trivial del: pad.simps)
    show "digits_val (pad 6 (us mod 1000000)) = us mod 1000000" by (simp add: digits_val_pad del: pad.simps)
  qed
  have f: "field_at 0 4 ?s = y" "field_at 5 2 ?s = m" "field_at 8 2 ?s = d" "field_at 11 2 ?s = us div 3600000000"
    "field_at 14 2 ?s = us div 60000000 mod 60" "field_at 17 2 ?s = us div 1000000 mod 60"
    "(if take 1 (drop 19 ?s) = ''.'' then field_at 20 6 ?s else 0) = us mod 1000000"
    unfolding field_at_def fields_of_text [OF length_pad length_pad length_pad length_pad length_pad length_pad s]
    using pads by (simp_all del: pad.simps)
  have g: "((us div 3600000000 * 60 + us div 60000000 mod 60) * 60 + us div 1000000 mod 60) * 1000000 + us mod 1000000 = us"
  proof -
    have "us div 60000000 = us div 1000000 div 60" "us div 3600000000 = us div 60000000 div 60"
      by (simp_all add: div_mult2_eq [symmetric] zdiv_zmult2_eq [symmetric])
    then have "us div 3600000000 * 60 + us div 60000000 mod 60 = us div 60000000"
      "us div 60000000 * 60 + us div 1000000 mod 60 = us div 1000000" by simp_all
    then show ?thesis by simp
  qed
  have h: "(t div 86400000000 + 719163 - 719163) * 86400000000 + us = t" by (simp add: us_def)
  show ?thesis unfolding parse_iso_def Let_def f g date(1) h by simp
qed

lemma isoformat_not_Nil [simp]: "isoformat t \<noteq> []"
  by (cases "ord2ymd (t div 86400000000 + 719163)") (simp add: isoformat_def Let_def)

lemma parse_iso_Nil [simp]: "parse_iso [] = None"
  by (simp add: parse_iso_def Let_def)

end
