(* ===== verification/SubscriptionStore.thy ===== *)
theory SubscriptionStore
  imports Protocols Tables UrlSplit
begin

text \<open>
  Subscriptions (\<open>service/subscription_store.py\<close>) and the interface of their stores
  (\<open>SubscriptionAdminStore\<close> of \<open>service/deps.py\<close>), with its contract. A store shows, for each
  subscription id, the subscription and the secret it had before its last rotation with the
  instant that one expires. The clock, the identifiers, the random secrets and the answers of
  the name service are the fields of an environment.
\<close>

record Subscription =
  su_id :: string
  su_owner_id :: string
  su_url :: string
  su_secret :: string
  su_events :: "string list"
  su_status :: SubscriptionStatus
  su_created_at :: time
  su_resolved_ip :: string

fun subscription_status_value :: "SubscriptionStatus \<Rightarrow> string" where
  "subscription_status_value ACTIVE = ''active''"
| "subscription_status_value PAUSED = ''paused''"
| "subscription_status_value DELETED = ''deleted''"

definition subscription_status_of :: "string \<Rightarrow> exc + SubscriptionStatus" where
  "subscription_status_of v =
     (case find (\<lambda>st. subscription_status_value st = v) [ACTIVE, PAUSED, DELETED] of
        None \<Rightarrow> Inl (ValueError (quoted v @ '' is not a valid SubscriptionStatus''))
      | Some st \<Rightarrow> Inr st)"

lemma subscription_status_of_value [simp]: "subscription_status_of (subscription_status_value st) = Inr st"
  by (cases st) (simp_all add: subscription_status_of_def)

lemma subscription_status_inject [simp]:
  "subscription_status_value st = subscription_status_value st' \<longleftrightarrow> st = st'"
  by (cases st; cases st') simp_all

lemma subscription_status_not_Nil [simp]: "subscription_status_value st \<noteq> []"
  by (cases st) simp_all

section \<open>The environment\<close>

text \<open>\<open>getaddrinfo\<close> of a host answers addresses or raises; only the first of them is used.\<close>

record sub_env =
  en_now :: time
  en_uuid :: string
  en_token :: string
  en_getaddrinfo :: "string \<Rightarrow> exc + string list"

definition resolve_ip :: "(string \<Rightarrow> exc + string list) \<Rightarrow> string \<Rightarrow> exc + string" where
  "resolve_ip getaddrinfo url =
     (case urlsplit url of
        None \<Rightarrow> Inl (ValueError ''Invalid IPv6 URL'')
      | Some parsed \<Rightarrow>
          (let host = (case hostname parsed of None \<Rightarrow> [] | Some h \<Rightarrow> h)
           in if host = [] then Inl (ValueError (''no hostname in URL: '' @ quoted url))
              else (case getaddrinfo host of
                      Inl e \<Rightarrow> Inl e
                    | Inr [] \<Rightarrow> Inl (Other ''OSError'' (''DNS lookup returned no results for '' @ quoted host))
                    | Inr (ip # infos) \<Rightarrow> Inr ip)))"

text \<open>\<open>secret or secrets.token_hex(32)\<close>\<close>

definition secret_or :: "string option \<Rightarrow> string \<Rightarrow> string" where
  "secret_or secret token = (case secret of None \<Rightarrow> token | Some s \<Rightarrow> if s = [] then token else s)"

definition new_subscription ::
  "sub_env \<Rightarrow> string \<Rightarrow> string \<Rightarrow> string \<Rightarrow> string list \<Rightarrow> string option \<Rightarrow> Subscription" where
  "new_subscription env ip owner url events secret =
     \<lparr>su_id = en_uuid env, su_owner_id = owner, su_url = url, su_secret = secret_or secret (en_token env),
      su_events = events, su_status = ACTIVE, su_created_at = en_now env, su_resolved_ip = ip\<rparr>"

section \<open>The interface\<close>

record 's subscription_store =
  ss_for_event :: "string \<Rightarrow> string option \<Rightarrow> (exc, 's, SubscriptionSnapshot list) comp"
  ss_get_secret :: "string \<Rightarrow> (exc, 's, SecretMaterial) comp"
  ss_rotate_secret :: "sub_env \<Rightarrow> string \<Rightarrow> int \<Rightarrow> string option \<Rightarrow> (exc, 's, SecretMaterial) comp"
  ss_create :: "sub_env \<Rightarrow> string \<Rightarrow> string \<Rightarrow> string list \<Rightarrow> string option \<Rightarrow> (exc, 's, Subscription) comp"
  ss_get :: "string \<Rightarrow> (exc, 's, Subscription option) comp"
  ss_list_for_owner :: "string \<Rightarrow> (exc, 's, Subscription list) comp"
  ss_delete :: "string \<Rightarrow> (exc, 's, bool) comp"
  ss_pause :: "string \<Rightarrow> (exc, 's, bool) comp"
  ss_resume :: "string \<Rightarrow> (exc, 's, bool) comp"

text \<open>\<open>make_readers\<close>: the two readers of a store; there is no secret cache to invalidate.\<close>

definition secret_reader_of :: "'s subscription_store \<Rightarrow> 's secret_reader" where
  "secret_reader_of st = \<lparr>sr_get = ss_get_secret st, sr_invalidate = (\<lambda>_. ret ())\<rparr>"

definition subscription_reader_of :: "'s subscription_store \<Rightarrow> 's subscription_reader" where
  "subscription_reader_of st = ss_for_event st"

definition make_readers :: "'s subscription_store \<Rightarrow> 's subscription_reader \<times> 's secret_reader" where
  "make_readers st = (subscription_reader_of st, secret_reader_of st)"

definition not_found :: "string \<Rightarrow> exc" where
  "not_found sid = KeyError (''subscription not found: '' @ quoted sid)"

section \<open>The contract\<close>

datatype sub_row = SubRow (row_sub: Subscription) (row_previous: "(string \<times> time) option")

type_synonym sub_view = "string \<Rightarrow> sub_row option"

definition snapshot_of :: "Subscription \<Rightarrow> SubscriptionSnapshot" where
  "snapshot_of s = \<lparr>sub_id = su_id s, sub_owner_id = su_owner_id s, sub_url = su_url s,
     sub_resolved_ip = su_resolved_ip s, sub_retry_overrides = None\<rparr>"

definition interested :: "string \<Rightarrow> string option \<Rightarrow> Subscription \<Rightarrow> bool" where
  "interested event tenant s \<longleftrightarrow> su_status s = ACTIVE \<and> event \<in> set (su_events s) \<and>
     (case tenant of None \<Rightarrow> True | Some t \<Rightarrow> su_owner_id s = t)"

definition material_of :: "sub_row \<Rightarrow> SecretMaterial" where
  "material_of r = \<lparr>sec_current = su_secret (row_sub r), sec_previous = map_option fst (row_previous r),
     sec_previous_expires_at = map_option snd (row_previous r)\<rparr>"

definition with_status :: "SubscriptionStatus \<Rightarrow> sub_row \<Rightarrow> sub_row" where
  "with_status st r = SubRow ((row_sub r)\<lparr>su_status := st\<rparr>) (row_previous r)"

definition rotated :: "string \<Rightarrow> time \<Rightarrow> sub_row \<Rightarrow> sub_row" where
  "rotated new until r = SubRow ((row_sub r)\<lparr>su_secret := new\<rparr>) (Some (su_secret (row_sub r), until))"

lemma row_simps [simp]:
  "su_id (row_sub (with_status st r)) = su_id (row_sub r)"
  "su_id (row_sub (rotated new until r)) = su_id (row_sub r)"
  "su_status (row_sub (with_status st r)) = st"
  "su_secret (row_sub (rotated new until r)) = new"
  "su_id (new_subscription env ip owner url events secret) = en_uuid env"
  by (simp_all add: with_status_def rotated_def new_subscription_def)

text \<open>
  The laws of a store. \<open>grain\<close> is what the store keeps of an instant, \<open>secret_ok\<close> the secrets it
  can be given, \<open>env_ok\<close> what it needs of the environment besides a new id.
\<close>

locale subscription_contract =
  fixes st :: "'s subscription_store"
    and view :: "'s \<Rightarrow> sub_view"
    and inv :: "'s \<Rightarrow> bool"
    and grain :: "time \<Rightarrow> time"
    and secret_ok :: "string \<Rightarrow> bool"
  assumes view_id: "inv s \<Longrightarrow> view s sid = Some r \<Longrightarrow> su_id (row_sub r) = sid"
    and get: "inv s \<Longrightarrow> ss_get st sid s = (Inr (map_option row_sub (view s sid)), s)"
    and list_for_owner: "inv s \<Longrightarrow> \<exists>subs. ss_list_for_owner st owner s = (Inr subs, s) \<and>
        distinct (map su_id subs) \<and>
        (\<forall>sub. sub \<in> set subs \<longleftrightarrow> su_owner_id sub = owner \<and> (\<exists>r. view s (su_id sub) = Some r \<and> row_sub r = sub))"
    and for_event: "inv s \<Longrightarrow> \<exists>snaps. ss_for_event st event tenant s = (Inr snaps, s) \<and>
        distinct (map sub_id snaps) \<and>
        (\<forall>snap. snap \<in> set snaps \<longleftrightarrow> (\<exists>r. view s (sub_id snap) = Some r \<and> interested event tenant (row_sub r) \<and>
           snap = snapshot_of (row_sub r)))"
    and get_secret: "inv s \<Longrightarrow> ss_get_secret st sid s =
        (case view s sid of None \<Rightarrow> Inl (not_found sid) | Some r \<Rightarrow> Inr (material_of r), s)"
    and create: "inv s \<Longrightarrow> resolve_ip (en_getaddrinfo env) url = Inr ip \<Longrightarrow> view s (en_uuid env) = None \<Longrightarrow>
        en_token env \<noteq> [] \<Longrightarrow> secret_ok (secret_or secret (en_token env)) \<Longrightarrow> valid_instant (en_now env) \<Longrightarrow>
        \<exists>s'. ss_create st env owner url events secret s = (Inr (new_subscription env ip owner url events secret), s') \<and>
          inv s' \<and> view s' = (view s)(en_uuid env \<mapsto>
            SubRow ((new_subscription env ip owner url events secret)\<lparr>su_created_at := grain (en_now env)\<rparr>) None)"
    and create_fails: "resolve_ip (en_getaddrinfo env) url = Inl e \<Longrightarrow>
        ss_create st env owner url events secret s = (Inl e, s)"
    and delete: "inv s \<Longrightarrow> \<exists>s'. ss_delete st sid s = (Inr (view s sid \<noteq> None), s') \<and> inv s' \<and>
        view s' = (view s)(sid := None)"
    and pause: "inv s \<Longrightarrow> \<exists>s'. ss_pause st sid s = (Inr (view s sid \<noteq> None), s') \<and> inv s' \<and>
        view s' = (view s)(sid := map_option (with_status PAUSED) (view s sid))"
    and resume: "inv s \<Longrightarrow> \<exists>s'. ss_resume st sid s = (Inr (view s sid \<noteq> None), s') \<and> inv s' \<and>
        view s' = (view s)(sid := map_option (with_status ACTIVE) (view s sid))"
    and rotate: "inv s \<Longrightarrow> view s sid = Some r \<Longrightarrow> grace_until (en_now env) grace = Inr until \<Longrightarrow>
        en_token env \<noteq> [] \<Longrightarrow> secret_ok (secret_or secret (en_token env)) \<Longrightarrow>
        \<exists>s' m. ss_rotate_secret st env sid grace secret s = (Inr m, s') \<and> inv s' \<and>
          sec_current m = secret_or secret (en_token env) \<and> sec_previous m = Some (su_secret (row_sub r)) \<and>
          sec_previous_expires_at m \<in> {Some until, Some (grain until)} \<and>
          view s' = (view s)(sid \<mapsto> rotated (secret_or secret (en_token env)) (grain until) r)"
    and rotate_fails: "inv s \<Longrightarrow> view s sid = None \<or> grace_until (en_now env) grace = Inl e' \<Longrightarrow>
        \<exists>e. ss_rotate_secret st env sid grace secret s = (Inl e, s)"

section \<open>Runs\<close>

text \<open>One operation of the admin interface that went through, and a sequence of them.\<close>

datatype sub_event = Created string | Deleted string | Paused string | Resumed string | Rotated string

inductive sub_step :: "'s subscription_store \<Rightarrow> (string \<Rightarrow> bool) \<Rightarrow> sub_event \<Rightarrow> 's \<Rightarrow> 's \<Rightarrow> bool" for st secret_ok where
  sub_create: "ss_get st (en_uuid env) s = (Inr None, s) \<Longrightarrow> en_token env \<noteq> [] \<Longrightarrow> valid_instant (en_now env) \<Longrightarrow>
    secret_ok (secret_or secret (en_token env)) \<Longrightarrow>
    ss_create st env owner url events secret s = (Inr sub, s') \<Longrightarrow> sub_step st secret_ok (Created (en_uuid env)) s s'"
| sub_delete: "ss_delete st sid s = (Inr b, s') \<Longrightarrow> sub_step st secret_ok (Deleted sid) s s'"
| sub_pause: "ss_pause st sid s = (Inr b, s') \<Longrightarrow> sub_step st secret_ok (Paused sid) s s'"
| sub_resume: "ss_resume st sid s = (Inr b, s') \<Longrightarrow> sub_step st secret_ok (Resumed sid) s s'"
| sub_rotate: "en_token env \<noteq> [] \<Longrightarrow> secret_ok (secret_or secret (en_token env)) \<Longrightarrow>
    ss_rotate_secret st env sid grace secret s = (Inr m, s') \<Longrightarrow> sub_step st secret_ok (Rotated sid) s s'"

inductive_cases sub_CreatedE: "sub_step st secret_ok (Created sid) s s'"
inductive_cases sub_DeletedE: "sub_step st secret_ok (Deleted sid) s s'"
inductive_cases sub_PausedE: "sub_step st secret_ok (Paused sid) s s'"
inductive_cases sub_ResumedE: "sub_step st secret_ok (Resumed sid) s s'"
inductive_cases sub_RotatedE: "sub_step st secret_ok (Rotated sid) s s'"

inductive sub_run :: "'s subscription_store \<Rightarrow> (string \<Rightarrow> bool) \<Rightarrow> 's \<Rightarrow> sub_event list \<Rightarrow> 's \<Rightarrow> bool" for st secret_ok where
  sub_run_Nil: "sub_run st secret_ok s [] s"
| sub_run_Cons: "sub_step st secret_ok e s s' \<Longrightarrow> sub_run st secret_ok s' es s'' \<Longrightarrow> sub_run st secret_ok s (e # es) s''"

text \<open>A subscription that gets no event: it is not there, or is not active.\<close>

definition silent :: "sub_view \<Rightarrow> string \<Rightarrow> bool" where
  "silent v sid \<longleftrightarrow> (case v sid of None \<Rightarrow> True | Some r \<Rightarrow> su_status (row_sub r) \<noteq> ACTIVE)"

context subscription_contract
begin

lemma step_effect:
  assumes "sub_step st secret_ok e s s'" and "inv s"
  shows "inv s' \<and> (case e of
      Created sid \<Rightarrow> view s sid = None \<and> (\<exists>r. view s' = (view s)(sid \<mapsto> r) \<and> su_status (row_sub r) = ACTIVE)
    | Deleted sid \<Rightarrow> view s' = (view s)(sid := None)
    | Paused sid \<Rightarrow> view s' = (view s)(sid := map_option (with_status PAUSED) (view s sid))
    | Resumed sid \<Rightarrow> view s' = (view s)(sid := map_option (with_status ACTIVE) (view s sid))
    | Rotated sid \<Rightarrow> \<exists>r new until. view s sid = Some r \<and> view s' = (view s)(sid \<mapsto> rotated new until r))"
  using assms
proof (induction rule: sub_step.induct)
  case (sub_create env s secret owner url events sub s')
  have "view s (en_uuid env) = None" using get [OF sub_create.prems] sub_create.hyps(1) by simp
  moreover obtain ip where "resolve_ip (en_getaddrinfo env) url = Inr ip"
    using create_fails sub_create.hyps(5) by (cases "resolve_ip (en_getaddrinfo env) url") fastforce+
  ultimately show ?case
    using create [OF sub_create.prems, of env url ip secret owner events] sub_create.hyps
    by (auto simp: new_subscription_def)
next
  case (sub_rotate env secret sid grace s m s')
  have "view s sid \<noteq> None"
    using rotate_fails [OF sub_rotate.prems, of sid env grace _ secret] sub_rotate.hyps(3) by fastforce
  moreover have "\<exists>until. grace_until (en_now env) grace = Inr until"
    using rotate_fails [OF sub_rotate.prems, of sid env grace _ secret] sub_rotate.hyps(3)
    by (cases "grace_until (en_now env) grace") fastforce+
  ultimately obtain r until where "view s sid = Some r" "grace_until (en_now env) grace = Inr until" by auto
  from rotate [OF sub_rotate.prems this sub_rotate.hyps(1,2)] sub_rotate.hyps(3) this(1) show ?case by auto
next
  case (sub_delete sid s b s')
  then show ?case using delete [OF sub_delete.prems, of sid] by auto
next
  case (sub_pause sid s b s')
  then show ?case using pause [OF sub_pause.prems, of sid] by auto
next
  case (sub_resume sid s b s')
  then show ?case using resume [OF sub_resume.prems, of sid] by auto
qed

lemma run_inv: "sub_run st secret_ok s es s' \<Longrightarrow> inv s \<Longrightarrow> inv s'"
  by (induction rule: sub_run.induct) (use step_effect in blast)+

text \<open>Only a resume, or an id given out again, ends the silence of a subscription.\<close>

lemma silence_kept:
  assumes "sub_step st secret_ok e s s'" and "inv s" and "silent (view s) sid" and "e \<noteq> Resumed sid" and "e \<noteq> Created sid"
  shows "silent (view s') sid"
  using step_effect [OF assms(1,2)] assms(3-5)
  by (cases e) (auto simp: silent_def rotated_def split: option.splits)

lemma silence:
  assumes "sub_run st secret_ok s es s'" and "inv s" and "silent (view s) sid" and "Resumed sid \<notin> set es" and "Created sid \<notin> set es"
  shows "inv s' \<and> silent (view s') sid"
  using assms
proof (induction rule: sub_run.induct)
  case (sub_run_Cons e s s' es s'')
  then have "inv s'" "silent (view s') sid"
    using step_effect [OF sub_run_Cons.hyps(1)] silence_kept [OF sub_run_Cons.hyps(1), of sid] by auto
  then show ?case using sub_run_Cons by simp
qed simp

lemma silent_gets_nothing:
  assumes "inv s" and "silent (view s) sid" and "ss_for_event st event tenant s = (Inr snaps, s')"
  shows "sid \<notin> sub_id ` set snaps"
proof
  assume "sid \<in> sub_id ` set snaps"
  then obtain snap where snap: "snap \<in> set snaps" "sub_id snap = sid" by blast
  obtain snaps' where f: "ss_for_event st event tenant s = (Inr snaps', s)"
    "\<forall>snap. snap \<in> set snaps' \<longleftrightarrow> (\<exists>r. view s (sub_id snap) = Some r \<and> interested event tenant (row_sub r) \<and>
       snap = snapshot_of (row_sub r))"
    using for_event [OF assms(1), of event tenant] by blast
  then have "snap \<in> set snaps'" using snap(1) assms(3) by simp
  then show False using f(2) snap(2) assms(2) by (auto simp: silent_def interested_def)
qed

text \<open>The secrets of a subscription change by a rotation only.\<close>

lemma secrets_kept:
  assumes "sub_run st secret_ok s es s'" and "inv s" and "view s sid = Some r"
    and "Rotated sid \<notin> set es" and "Deleted sid \<notin> set es"
  shows "\<exists>r'. view s' sid = Some r' \<and> material_of r' = material_of r"
  using assms
proof (induction arbitrary: r rule: sub_run.induct)
  case (sub_run_Cons e s s' es s'')
  have "inv s'" "\<exists>r'. view s' sid = Some r' \<and> material_of r' = material_of r"
    using step_effect [OF sub_run_Cons.hyps(1) sub_run_Cons.prems(1)] sub_run_Cons.prems
    by (cases e; auto simp: material_of_def with_status_def)+
  then show ?case using sub_run_Cons.IH sub_run_Cons.prems by (metis list.set_intros(2))
qed blast

text \<open>A rotation: the new secret at once, the old one for the time of grace.\<close>

lemma rotation_grace:
  assumes "inv s" and "en_token env \<noteq> []" and "secret_ok (secret_or secret (en_token env))"
    and "ss_get_secret st sid s = (Inr m, s0)" and "ss_rotate_secret st env sid g secret s = (Inr m1, s1)"
    and "sub_run st secret_ok s1 es s2" and "Rotated sid \<notin> set es" and "Deleted sid \<notin> set es"
  shows "\<exists>m2. ss_get_secret st sid s2 = (Inr m2, s2) \<and> sec_current m2 = secret_or secret (en_token env) \<and>
    previous_at m2 t = (if t < grain (en_now env + seconds g) then Some (sec_current m) else None)"
proof -
  obtain r where r: "view s sid = Some r" "m = material_of r"
    using get_secret [OF assms(1), of sid] assms(4) by (auto split: option.splits)
  obtain until where until: "grace_until (en_now env) g = Inr until"
    using rotate_fails [OF assms(1), of sid env g _ secret] assms(5) by (cases "grace_until (en_now env) g") fastforce+
  then have eq: "until = en_now env + seconds g" by (auto simp: grace_until_def split: if_splits)
  have s1: "inv s1" "view s1 sid = Some (rotated (secret_or secret (en_token env)) (grain until) r)"
    using rotate [OF assms(1) r(1) until assms(2,3)] assms(5) by auto
  obtain r' where "view s2 sid = Some r'" "material_of r' = material_of (rotated (secret_or secret (en_token env)) (grain until) r)"
    using secrets_kept [OF assms(6) s1 assms(7,8)] by blast
  then have "ss_get_secret st sid s2 = (Inr (material_of (rotated (secret_or secret (en_token env)) (grain until) r)), s2)"
    using get_secret [OF run_inv [OF assms(6) s1(1)], of sid] by simp
  then show ?thesis using eq r(2) by (simp add: material_of_def rotated_def previous_at_def)
qed

end

section \<open>Tables of subscriptions\<close>

text \<open>A store whose rows are a list, each shown through a projection under its own id.\<close>

definition sub_table_ok :: "('a \<Rightarrow> string) \<Rightarrow> ('a \<Rightarrow> sub_row) \<Rightarrow> 'a list \<Rightarrow> bool" where
  "sub_table_ok key proj t \<longleftrightarrow> distinct (map key t) \<and> (\<forall>r \<in> set t. su_id (row_sub (proj r)) = key r)"

lemma sub_table_id:
  "sub_table_ok key proj t \<Longrightarrow> table_view key proj t sid = Some r \<Longrightarrow> su_id (row_sub r) = sid"
  using lookup_SomeD [of key t sid] by (auto simp: sub_table_ok_def table_view_def)

lemma sub_table_in:
  "sub_table_ok key proj t \<Longrightarrow> table_view key proj t sid = Some r \<longleftrightarrow> (\<exists>x \<in> set t. key x = sid \<and> proj x = r)"
  using lookup_iff [of key t] by (auto simp: sub_table_ok_def table_view_def)

lemma sub_table_subs:
  assumes "sub_table_ok key proj t" and "\<And>r. r \<in> set t \<Longrightarrow> P r \<longleftrightarrow> Q (row_sub (proj r))"
  shows "distinct (map su_id (map (\<lambda>r. row_sub (proj r)) (filter P t))) \<and>
    (\<forall>sub. sub \<in> set (map (\<lambda>r. row_sub (proj r)) (filter P t)) \<longleftrightarrow>
       Q sub \<and> (\<exists>r. table_view key proj t (su_id sub) = Some r \<and> row_sub r = sub))"
proof (intro conjI allI)
  have "map su_id (map (\<lambda>r. row_sub (proj r)) (filter P t)) = map key (filter P t)"
    using assms(1) by (auto simp: sub_table_ok_def)
  then show "distinct (map su_id (map (\<lambda>r. row_sub (proj r)) (filter P t)))"
    using assms(1) by (simp add: sub_table_ok_def distinct_map_filter del: map_map)
  fix sub
  show "sub \<in> set (map (\<lambda>r. row_sub (proj r)) (filter P t)) \<longleftrightarrow>
       Q sub \<and> (\<exists>r. table_view key proj t (su_id sub) = Some r \<and> row_sub r = sub)"
    using assms by (auto simp: sub_table_in [OF assms(1)] sub_table_ok_def) blast
qed

lemma sub_table_snapshots:
  assumes "sub_table_ok key proj t" and "\<And>r. r \<in> set t \<Longrightarrow> P r \<longleftrightarrow> Q (row_sub (proj r))"
    and "\<And>r. r \<in> set t \<Longrightarrow> f r = snapshot_of (row_sub (proj r))"
  shows "distinct (map sub_id (map f (filter P t))) \<and>
    (\<forall>snap. snap \<in> set (map f (filter P t)) \<longleftrightarrow>
       (\<exists>r. table_view key proj t (sub_id snap) = Some r \<and> Q (row_sub r) \<and> snap = snapshot_of (row_sub r)))"
proof (intro conjI allI)
  have id: "sub_id (f r) = key r" if "r \<in> set t" for r
    using assms(1,3) that by (simp add: sub_table_ok_def snapshot_of_def)
  then have "map sub_id (map f (filter P t)) = map key (filter P t)" by simp
  then show "distinct (map sub_id (map f (filter P t)))"
    using assms(1) by (simp add: sub_table_ok_def distinct_map_filter del: map_map)
  fix snap
  show "snap \<in> set (map f (filter P t)) \<longleftrightarrow>
       (\<exists>r. table_view key proj t (sub_id snap) = Some r \<and> Q (row_sub r) \<and> snap = snapshot_of (row_sub r))"
  proof
    assume "snap \<in> set (map f (filter P t))"
    then obtain x where x: "x \<in> set t" "P x" "snap = f x" by auto
    then have "table_view key proj t (sub_id snap) = Some (proj x)" using id sub_table_in [OF assms(1)] by auto
    then show "\<exists>r. table_view key proj t (sub_id snap) = Some r \<and> Q (row_sub r) \<and> snap = snapshot_of (row_sub r)"
      using x assms(2,3) by auto
  next
    assume "\<exists>r. table_view key proj t (sub_id snap) = Some r \<and> Q (row_sub r) \<and> snap = snapshot_of (row_sub r)"
    then obtain x where "x \<in> set t" "Q (row_sub (proj x))" "snap = snapshot_of (row_sub (proj x))"
      using sub_table_in [OF assms(1)] by auto
    then show "snap \<in> set (map f (filter P t))" using assms(2,3) by auto
  qed
qed

lemma sub_table_update:
  assumes "sub_table_ok key proj t" and "\<And>r. key (f r) = key r"
    and "\<And>r. r \<in> set t \<Longrightarrow> key r = sid \<Longrightarrow> proj (f r) = g (proj r)" and "\<And>r. su_id (row_sub (g r)) = su_id (row_sub r)"
  shows "sub_table_ok key proj (update_where (\<lambda>r. key r = sid) f t)"
    "table_view key proj (update_where (\<lambda>r. key r = sid) f t) =
      (table_view key proj t)(sid := map_option g (table_view key proj t sid))"
proof -
  show "sub_table_ok key proj (update_where (\<lambda>r. key r = sid) f t)"
    using assms by (auto simp: sub_table_ok_def keys_update set_update_where)
  have "table_view key proj (update_where (\<lambda>r. key r = sid) f t) =
      (\<lambda>k. map_option (\<lambda>row. if k = sid then g row else row) (table_view key proj t k))"
    using assms(2,3) by (intro table_view_update) auto
  then show "table_view key proj (update_where (\<lambda>r. key r = sid) f t) =
      (table_view key proj t)(sid := map_option g (table_view key proj t sid))"
    by (auto simp: fun_eq_iff option.map_ident)
qed

lemma sub_table_delete:
  assumes "sub_table_ok key proj t"
  shows "sub_table_ok key proj (filter (\<lambda>r. key r \<noteq> sid) t)"
    "table_view key proj (filter (\<lambda>r. key r \<noteq> sid) t) = (table_view key proj t)(sid := None)"
proof -
  show "sub_table_ok key proj (filter (\<lambda>r. key r \<noteq> sid) t)"
    using assms by (simp add: sub_table_ok_def distinct_map_filter)
  show "table_view key proj (filter (\<lambda>r. key r \<noteq> sid) t) = (table_view key proj t)(sid := None)"
    using assms lookup_SomeD [of key t] by (fastforce simp: fun_eq_iff table_view_def sub_table_ok_def lookup_filter split: option.splits)
qed

lemma update_absent: "lookup key t k = None \<Longrightarrow> update_where (\<lambda>r. key r = k) f t = t"
  by (induction t) (auto simp: update_where_def lookup_def split: if_splits)

lemma sub_table_present:
  "filter (\<lambda>r. key r = sid) t \<noteq> [] \<longleftrightarrow> table_view key proj t sid \<noteq> None"
  by (auto simp: table_view_def filter_empty_conv lookup_None)

lemma sub_table_insert:
  assumes "sub_table_ok key proj t" and "table_view key proj t (key x) = None" and "su_id (row_sub (proj x)) = key x"
  shows "sub_table_ok key proj (t @ [x])" "table_view key proj (t @ [x]) = (table_view key proj t)(key x \<mapsto> proj x)"
proof -
  have new: "key x \<notin> key ` set t" using assms(2) by (simp add: table_view_def lookup_None)
  then show "sub_table_ok key proj (t @ [x])" using assms(1,3) by (auto simp: sub_table_ok_def)
  show "table_view key proj (t @ [x]) = (table_view key proj t)(key x \<mapsto> proj x)"
    using assms(2) by (auto simp: fun_eq_iff table_view_def lookup_append split: option.splits) (auto simp: lookup_def)
qed

text \<open>A concrete environment, for the witnesses.\<close>

definition sample_env :: sub_env where
  "sample_env = \<lparr>en_now = 5000, en_uuid = ''s1'', en_token = ''0a'', en_getaddrinfo = (\<lambda>_. Inr [''1.1.1.1''])\<rparr>"

lemma sample_resolve: "resolve_ip (en_getaddrinfo sample_env) ''https://a.example/hook'' = Inr ''1.1.1.1''"
  by code_simp

lemma sample_env_valid [simp]: "valid_instant (en_now sample_env)" "valid_instant 5000"
  by (simp_all add: sample_env_def valid_instant_def seconds_def)

lemma sample_env_simps [simp]:
  "en_now sample_env = 5000" "en_uuid sample_env = ''s1''" "en_token sample_env = ''0a''"
  by (simp_all add: sample_env_def)

end
