(* ===== verification/RedisSubs.thy ===== *)
theory RedisSubs
  imports SubscriptionStore Json IsoTime
begin

text \<open>
  Subscriptions in Redis (\<open>service/subscription_store.py\<close>): a hash per subscription, and the sets
  of ids per owner and per event name that its readers start from. \<open>rc_order\<close> is the order in
  which the members of a set arrive, \<open>rc_fromisoformat\<close> is \<open>datetime.fromisoformat\<close>, of which
  it matters that it inverts \<open>isoformat\<close>, and \<open>rc_float_repr\<close> reads floats in JSON. A method is the sequence of commands it
  issues, here without another client in between; where that matters the commands stand alone.
\<close>

record redis_subs_cfg =
  rc_order :: "string list \<Rightarrow> string list"
  rc_fromisoformat :: "string \<Rightarrow> time option"
  rc_float_repr :: "string \<Rightarrow> string"

type_synonym sub_hash = "(string, string) dict"

record RedisSubs =
  rs_hash :: "(string, sub_hash) dict"
  rs_owner :: "(string, string list) dict"
  rs_event :: "(string, string list) dict"

definition redis_subs_empty :: RedisSubs where
  "redis_subs_empty = \<lparr>rs_hash = [], rs_owner = [], rs_event = []\<rparr>"

section \<open>Reading\<close>

text \<open>\<open>hgetall\<close> and \<open>smembers\<close>; a key that is not there reads as empty.\<close>

definition hgetall :: "string \<Rightarrow> RedisSubs \<Rightarrow> sub_hash" where
  "hgetall sid db = (case dict_get (rs_hash db) sid of None \<Rightarrow> [] | Some h \<Rightarrow> h)"

definition smembers :: "string \<Rightarrow> (string, string list) dict \<Rightarrow> string list" where
  "smembers k sets = (case dict_get sets k of None \<Rightarrow> [] | Some ids \<Rightarrow> ids)"

definition hfield :: "sub_hash \<Rightarrow> string \<Rightarrow> exc + string" where
  "hfield row k = (case dict_get row k of None \<Rightarrow> Inl (KeyError (quoted k)) | Some v \<Rightarrow> Inr v)"

definition hfield_or_empty :: "sub_hash \<Rightarrow> string \<Rightarrow> string" where
  "hfield_or_empty row k = (case dict_get row k of None \<Rightarrow> [] | Some v \<Rightarrow> v)"

text \<open>
  \<open>tuple(json.loads(raw))\<close>. An array with an item that is not text has no counterpart here and
  is an error.
\<close>

definition names_of_json :: "json \<Rightarrow> exc + string list" where
  "names_of_json v =
     (case v of
        JList vs \<Rightarrow> map_exc (\<lambda>v. case v of JStr s \<Rightarrow> Inr s | _ \<Rightarrow> Inl (TypeError ''event name is not text'')) vs
      | JObj kvs \<Rightarrow> Inr (map fst kvs)
      | JStr s \<Rightarrow> Inr (map (\<lambda>c. [c]) s)
      | _ \<Rightarrow> Inl (TypeError ''object is not iterable''))"

definition loads_names :: "redis_subs_cfg \<Rightarrow> string \<Rightarrow> exc + string list" where
  "loads_names cfg raw =
     (case loads (rc_float_repr cfg) raw of
        None \<Rightarrow> Inl (ValueError ''Expecting value'')
      | Some v \<Rightarrow> names_of_json v)"

definition dumps_names :: "string list \<Rightarrow> string" where
  "dumps_names names = dumps_seps '', '' '': '' (JList (map JStr names))"

definition row_to_sub :: "redis_subs_cfg \<Rightarrow> sub_hash \<Rightarrow> exc + Subscription" where
  "row_to_sub cfg row =
     (let raw = hfield_or_empty row ''events''
      in case loads_names cfg (if raw = [] then ''[]'' else raw) of
           Inl e \<Rightarrow> Inl e
         | Inr names \<Rightarrow>
             (case subscription_status_of (hfield_or_empty row ''status'') of
                Inl e \<Rightarrow> Inl e
              | Inr st \<Rightarrow>
                  (case rc_fromisoformat cfg (hfield_or_empty row ''created_at'') of
                     None \<Rightarrow> Inl (ValueError (''Invalid isoformat string: '' @ quoted (hfield_or_empty row ''created_at'')))
                   | Some created \<Rightarrow> Inr
                       \<lparr>su_id = hfield_or_empty row ''id'', su_owner_id = hfield_or_empty row ''owner_id'',
                        su_url = hfield_or_empty row ''url'', su_secret = hfield_or_empty row ''secret'',
                        su_events = names, su_status = st, su_created_at = created,
                        su_resolved_ip = hfield_or_empty row ''resolved_ip''\<rparr>)))"

definition redis_subs_get :: "redis_subs_cfg \<Rightarrow> string \<Rightarrow> (exc, RedisSubs, Subscription option) comp" where
  "redis_subs_get cfg sid = (\<lambda>db.
     (let row = hgetall sid db
      in if row = [] then Inr None
         else (case row_to_sub cfg row of Inl e \<Rightarrow> Inl e | Inr sub \<Rightarrow> Inr (Some sub)), db))"

definition redis_list_for_owner :: "redis_subs_cfg \<Rightarrow> string \<Rightarrow> (exc, RedisSubs, Subscription list) comp" where
  "redis_list_for_owner cfg owner = (\<lambda>db.
     (map_exc (row_to_sub cfg)
        (filter (\<lambda>row. row \<noteq> []) (map (\<lambda>sid. hgetall sid db) (rc_order cfg (smembers owner (rs_owner db))))), db))"

definition row_snapshot :: "sub_hash \<Rightarrow> exc + SubscriptionSnapshot" where
  "row_snapshot row =
     (case hfield row ''id'' of Inl e \<Rightarrow> Inl e | Inr sid \<Rightarrow>
      (case hfield row ''owner_id'' of Inl e \<Rightarrow> Inl e | Inr owner \<Rightarrow>
      (case hfield row ''url'' of Inl e \<Rightarrow> Inl e | Inr url \<Rightarrow>
      (case hfield row ''resolved_ip'' of Inl e \<Rightarrow> Inl e | Inr ip \<Rightarrow>
         Inr \<lparr>sub_id = sid, sub_owner_id = owner, sub_url = url, sub_resolved_ip = ip,
              sub_retry_overrides = None\<rparr>))))"

fun active_rows :: "string option \<Rightarrow> sub_hash list \<Rightarrow> exc + SubscriptionSnapshot list" where
  "active_rows tenant [] = Inr []"
| "active_rows tenant (row # rows) =
     (if row = [] then active_rows tenant rows
      else if hfield_or_empty row ''status'' \<noteq> subscription_status_value ACTIVE then active_rows tenant rows
      else (case (case tenant of None \<Rightarrow> Inr True
                  | Some t \<Rightarrow> (case hfield row ''owner_id'' of Inl e \<Rightarrow> Inl e | Inr owner \<Rightarrow> Inr (owner = t))) of
              Inl e \<Rightarrow> Inl e
            | Inr False \<Rightarrow> active_rows tenant rows
            | Inr True \<Rightarrow>
                (case row_snapshot row of
                   Inl e \<Rightarrow> Inl e
                 | Inr snap \<Rightarrow> (case active_rows tenant rows of Inl e \<Rightarrow> Inl e | Inr snaps \<Rightarrow> Inr (snap # snaps)))))"

definition redis_for_event ::
  "redis_subs_cfg \<Rightarrow> string \<Rightarrow> string option \<Rightarrow> (exc, RedisSubs, SubscriptionSnapshot list) comp" where
  "redis_for_event cfg event tenant = (\<lambda>db.
     (active_rows tenant (map (\<lambda>sid. hgetall sid db) (rc_order cfg (smembers event (rs_event db)))), db))"

text \<open>Empty text counts as absent.\<close>

definition redis_get_secret :: "redis_subs_cfg \<Rightarrow> string \<Rightarrow> (exc, RedisSubs, SecretMaterial) comp" where
  "redis_get_secret cfg sid = (\<lambda>db.
     (let row = hgetall sid db;
          current = hfield_or_empty row ''secret'';
          previous = hfield_or_empty row ''previous_secret'';
          until = hfield_or_empty row ''previous_expires_at''
      in if current = [] then Inl (not_found sid)
         else (case (if until = [] then Some None
                     else (case rc_fromisoformat cfg until of None \<Rightarrow> None | Some t \<Rightarrow> Some (Some t))) of
                 None \<Rightarrow> Inl (ValueError (''Invalid isoformat string: '' @ quoted until))
               | Some expires \<Rightarrow> Inr \<lparr>sec_current = current,
                   sec_previous = (if previous = [] then None else Some previous),
                   sec_previous_expires_at = expires\<rparr>), db))"

section \<open>Writing\<close>

definition hset_sub :: "string \<Rightarrow> sub_hash \<Rightarrow> RedisSubs \<Rightarrow> RedisSubs" where
  "hset_sub sid flds db =
     db\<lparr>rs_hash := dict_set sid (fold (\<lambda>(k, v). dict_set k v) flds (hgetall sid db)) (rs_hash db)\<rparr>"

definition sadd :: "string \<Rightarrow> string \<Rightarrow> (string, string list) dict \<Rightarrow> (string, string list) dict" where
  "sadd k sid sets = dict_set k (if sid \<in> set (smembers k sets) then smembers k sets else smembers k sets @ [sid]) sets"

definition srem :: "string \<Rightarrow> string \<Rightarrow> (string, string list) dict \<Rightarrow> (string, string list) dict" where
  "srem k sid sets = dict_set k (filter (\<lambda>i. i \<noteq> sid) (smembers k sets)) sets"

definition redis_rotate_secret ::
  "redis_subs_cfg \<Rightarrow> sub_env \<Rightarrow> string \<Rightarrow> int \<Rightarrow> string option \<Rightarrow> (exc, RedisSubs, SecretMaterial) comp" where
  "redis_rotate_secret cfg env sid grace_s secret = (\<lambda>db.
     let old = hfield_or_empty (hgetall sid db) ''secret''
     in if old = [] then (Inl (not_found sid), db)
        else (case grace_until (en_now env) grace_s of
                Inl e \<Rightarrow> (Inl e, db)
              | Inr until \<Rightarrow>
                  (let new = secret_or secret (en_token env)
                   in (Inr \<lparr>sec_current = new, sec_previous = Some old, sec_previous_expires_at = Some until\<rparr>,
                       hset_sub sid [(''secret'', new), (''previous_secret'', old),
                                     (''previous_expires_at'', isoformat until)] db))))"

definition sub_to_row :: "Subscription \<Rightarrow> sub_hash" where
  "sub_to_row sub =
     [(''id'', su_id sub), (''owner_id'', su_owner_id sub), (''url'', su_url sub), (''secret'', su_secret sub),
      (''events'', dumps_names (su_events sub)), (''status'', subscription_status_value (su_status sub)),
      (''created_at'', isoformat (su_created_at sub)), (''resolved_ip'', su_resolved_ip sub)]"

definition redis_create ::
  "redis_subs_cfg \<Rightarrow> sub_env \<Rightarrow> string \<Rightarrow> string \<Rightarrow> string list \<Rightarrow> string option \<Rightarrow> (exc, RedisSubs, Subscription) comp" where
  "redis_create cfg env owner url events secret = (\<lambda>db.
     case resolve_ip (en_getaddrinfo env) url of
       Inl e \<Rightarrow> (Inl e, db)
     | Inr ip \<Rightarrow>
         (let sub = new_subscription env ip owner url events secret;
              db1 = hset_sub (su_id sub) (sub_to_row sub) db
          in (Inr sub, db1\<lparr>rs_owner := sadd owner (su_id sub) (rs_owner db1),
                            rs_event := fold (\<lambda>e. sadd e (su_id sub)) events (rs_event db1)\<rparr>)))"

definition redis_delete :: "redis_subs_cfg \<Rightarrow> string \<Rightarrow> (exc, RedisSubs, bool) comp" where
  "redis_delete cfg sid = (\<lambda>db.
     let row = hgetall sid db
     in if row = [] then (Inr False, db)
        else (case hfield row ''owner_id'' of
                Inl e \<Rightarrow> (Inl e, db)
              | Inr owner \<Rightarrow>
                  (case hfield row ''events'' of
                     Inl e \<Rightarrow> (Inl e, db)
                   | Inr raw \<Rightarrow>
                       (case loads_names cfg raw of
                          Inl e \<Rightarrow> (Inl e, db)
                        | Inr events \<Rightarrow> (Inr True,
                            db\<lparr>rs_hash := dict_pop sid (rs_hash db), rs_owner := srem owner sid (rs_owner db),
                               rs_event := fold (\<lambda>e. srem e sid) events (rs_event db)\<rparr>)))))"

text \<open>The two commands of \<open>_set_status\<close>, and the method.\<close>

definition redis_exists :: "string \<Rightarrow> RedisSubs \<Rightarrow> bool" where
  "redis_exists sid db \<longleftrightarrow> hgetall sid db \<noteq> []"

definition redis_write_status :: "string \<Rightarrow> SubscriptionStatus \<Rightarrow> RedisSubs \<Rightarrow> RedisSubs" where
  "redis_write_status sid st = hset_sub sid [(''status'', subscription_status_value st)]"

definition redis_set_status :: "string \<Rightarrow> SubscriptionStatus \<Rightarrow> (exc, RedisSubs, bool) comp" where
  "redis_set_status sid st = (\<lambda>db.
     if redis_exists sid db then (Inr True, redis_write_status sid st db) else (Inr False, db))"

definition redis_subs :: "redis_subs_cfg \<Rightarrow> RedisSubs subscription_store" where
  "redis_subs cfg =
     \<lparr>ss_for_event = redis_for_event cfg, ss_get_secret = redis_get_secret cfg,
      ss_rotate_secret = redis_rotate_secret cfg, ss_create = redis_create cfg, ss_get = redis_subs_get cfg,
      ss_list_for_owner = redis_list_for_owner cfg, ss_delete = redis_delete cfg,
      ss_pause = (\<lambda>sid. redis_set_status sid PAUSED), ss_resume = (\<lambda>sid. redis_set_status sid ACTIVE)\<rparr>"

section \<open>What the hashes and sets say\<close>

text \<open>What the model relies on: an instant is read back from its text, a set arrives whole.\<close>

definition codec_ok :: "redis_subs_cfg \<Rightarrow> bool" where
  "codec_ok cfg \<longleftrightarrow> (\<forall>t. valid_instant t \<longrightarrow> rc_fromisoformat cfg (isoformat t) = Some t) \<and> rc_fromisoformat cfg [] = None \<and>
     (\<forall>xs. set (rc_order cfg xs) = set xs \<and> (distinct xs \<longrightarrow> distinct (rc_order cfg xs)))"

definition previous_of :: "redis_subs_cfg \<Rightarrow> sub_hash \<Rightarrow> (string \<times> time) option" where
  "previous_of cfg row =
     (if hfield_or_empty row ''previous_secret'' = [] then None
      else map_option (\<lambda>t. (hfield_or_empty row ''previous_secret'', t))
             (rc_fromisoformat cfg (hfield_or_empty row ''previous_expires_at'')))"

definition redis_sub_view :: "redis_subs_cfg \<Rightarrow> RedisSubs \<Rightarrow> sub_view" where
  "redis_sub_view cfg db sid =
     (let row = hgetall sid db
      in if row = [] then None
         else (case row_to_sub cfg row of Inl _ \<Rightarrow> None | Inr sub \<Rightarrow> Some (SubRow sub (previous_of cfg row))))"

text \<open>A hash that carries a subscription and its previous secret.\<close>

definition row_reads :: "sub_hash \<Rightarrow> Subscription \<Rightarrow> (string \<times> time) option \<Rightarrow> bool" where
  "row_reads row sub prev \<longleftrightarrow> su_secret sub \<noteq> [] \<and> valid_instant (su_created_at sub) \<and>
     (\<forall>kv \<in> set (sub_to_row sub). dict_get row (fst kv) = Some (snd kv)) \<and>
     (case prev of
        None \<Rightarrow> dict_get row ''previous_secret'' = None \<and> dict_get row ''previous_expires_at'' = None
      | Some (p, t) \<Rightarrow> p \<noteq> [] \<and> valid_instant t \<and> dict_get row ''previous_secret'' = Some p \<and>
          dict_get row ''previous_expires_at'' = Some (isoformat t))"

definition listed :: "sub_view \<Rightarrow> (Subscription \<Rightarrow> bool) \<Rightarrow> string \<Rightarrow> bool" where
  "listed v P sid = (case v sid of None \<Rightarrow> False | Some r \<Rightarrow> P (row_sub r))"

definition redis_subs_inv :: "redis_subs_cfg \<Rightarrow> RedisSubs \<Rightarrow> bool" where
  "redis_subs_inv cfg db \<longleftrightarrow> codec_ok cfg \<and>
     (\<forall>sid. hgetall sid db \<noteq> [] \<longrightarrow> (\<exists>sub prev. su_id sub = sid \<and> row_reads (hgetall sid db) sub prev)) \<and>
     (\<forall>k. distinct (smembers k (rs_owner db)) \<and> distinct (smembers k (rs_event db))) \<and>
     (\<forall>k sid. sid \<in> set (smembers k (rs_owner db)) \<longleftrightarrow>
        listed (redis_sub_view cfg db) (\<lambda>sub. su_owner_id sub = k) sid) \<and>
     (\<forall>k sid. sid \<in> set (smembers k (rs_event db)) \<longleftrightarrow>
        listed (redis_sub_view cfg db) (\<lambda>sub. k \<in> set (su_events sub)) sid)"

lemma separators_default: "separators '', '' '': ''"
  by (simp add: separators_def json_ws_def)

lemma loads_dumps_names [simp]: "loads_names cfg (dumps_names names) = Inr names"
proof -
  have "map_exc (\<lambda>v. case v of JStr s \<Rightarrow> Inr s | _ \<Rightarrow> Inl (TypeError ''event name is not text'')) (map JStr names) = Inr names"
    by (induction names) simp_all
  then show ?thesis
    unfolding loads_names_def dumps_names_def
    by (subst loads_dumps [OF separators_default]) (simp_all add: names_of_json_def)
qed

lemma dumps_names_not_Nil [simp]: "dumps_names names \<noteq> []"
  by (simp add: dumps_names_def)

lemma row_reads_get:
  assumes "row_reads row sub prev"
  shows "dict_get row ''id'' = Some (su_id sub)" "dict_get row ''owner_id'' = Some (su_owner_id sub)"
    "dict_get row ''url'' = Some (su_url sub)" "dict_get row ''secret'' = Some (su_secret sub)"
    "dict_get row ''events'' = Some (dumps_names (su_events sub))"
    "dict_get row ''status'' = Some (subscription_status_value (su_status sub))"
    "dict_get row ''created_at'' = Some (isoformat (su_created_at sub))"
    "dict_get row ''resolved_ip'' = Some (su_resolved_ip sub)"
  using assms by (simp_all add: row_reads_def sub_to_row_def)

lemma row_reads_decode:
  assumes "row_reads row sub prev" and "codec_ok cfg"
  shows "row \<noteq> []" "row_to_sub cfg row = Inr sub" "previous_of cfg row = prev"
    "row_snapshot row = Inr (snapshot_of sub)" "hfield row ''owner_id'' = Inr (su_owner_id sub)"
    "hfield_or_empty row ''status'' = subscription_status_value (su_status sub)"
    "hfield_or_empty row ''secret'' = su_secret sub" "hfield row ''events'' = Inr (dumps_names (su_events sub))"
    "hfield_or_empty row ''previous_secret'' = (case prev of None \<Rightarrow> [] | Some (p, t) \<Rightarrow> p)"
    "hfield_or_empty row ''previous_expires_at'' = (case prev of None \<Rightarrow> [] | Some (p, t) \<Rightarrow> isoformat t)"
proof -
  note g = row_reads_get [OF assms(1)]
  show "row \<noteq> []" using g(1) by auto
  have "valid_instant (su_created_at sub)" using assms(1) by (simp add: row_reads_def)
  then show "row_to_sub cfg row = Inr sub" using assms(2) g by (simp add: row_to_sub_def hfield_or_empty_def codec_ok_def)
  show "previous_of cfg row = prev" using assms
    by (cases prev) (auto simp: previous_of_def hfield_or_empty_def row_reads_def codec_ok_def)
  show "row_snapshot row = Inr (snapshot_of sub)" using g by (simp add: row_snapshot_def hfield_def snapshot_of_def)
  show "hfield row ''owner_id'' = Inr (su_owner_id sub)" "hfield row ''events'' = Inr (dumps_names (su_events sub))"
    using g by (simp_all add: hfield_def)
  show "hfield_or_empty row ''status'' = subscription_status_value (su_status sub)"
    "hfield_or_empty row ''secret'' = su_secret sub" using g by (simp_all add: hfield_or_empty_def)
  show "hfield_or_empty row ''previous_secret'' = (case prev of None \<Rightarrow> [] | Some (p, t) \<Rightarrow> p)"
    "hfield_or_empty row ''previous_expires_at'' = (case prev of None \<Rightarrow> [] | Some (p, t) \<Rightarrow> isoformat t)"
    using assms(1) by (auto simp: row_reads_def hfield_or_empty_def split: option.splits)
qed

lemma view_row:
  assumes "redis_subs_inv cfg db" and "redis_sub_view cfg db sid = Some r"
  shows "row_reads (hgetall sid db) (row_sub r) (row_previous r)" "su_id (row_sub r) = sid"
proof -
  have ne: "hgetall sid db \<noteq> []" using assms(2) by (auto simp: redis_sub_view_def)
  then obtain sub prev where "su_id sub = sid" "row_reads (hgetall sid db) sub prev"
    using assms(1) unfolding redis_subs_inv_def by blast
  moreover have "r = SubRow sub prev"
    using assms row_reads_decode [OF calculation(2)] ne by (simp add: redis_sub_view_def redis_subs_inv_def)
  ultimately show "row_reads (hgetall sid db) (row_sub r) (row_previous r)" "su_id (row_sub r) = sid" by simp_all
qed

lemma view_None:
  assumes "redis_subs_inv cfg db"
  shows "redis_sub_view cfg db sid = None \<longleftrightarrow> hgetall sid db = []"
proof (cases "hgetall sid db = []")
  case False
  then obtain sub prev where "row_reads (hgetall sid db) sub prev"
    using assms unfolding redis_subs_inv_def by blast
  from row_reads_decode [OF this] assms False show ?thesis by (simp add: redis_sub_view_def redis_subs_inv_def)
qed (simp add: redis_sub_view_def)

lemma view_reads:
  "codec_ok cfg \<Longrightarrow> row_reads (hgetall sid db) sub prev \<Longrightarrow> redis_sub_view cfg db sid = Some (SubRow sub prev)"
  using row_reads_decode [of "hgetall sid db" sub prev cfg] by (simp add: redis_sub_view_def)

lemma hgetall_hset: "hgetall k (hset_sub sid flds db) =
    (if k = sid then fold (\<lambda>(k, v). dict_set k v) flds (hgetall sid db) else hgetall k db)"
  by (simp add: hgetall_def hset_sub_def)

lemma view_cong: "hgetall sid db = hgetall sid db' \<Longrightarrow> redis_sub_view cfg db sid = redis_sub_view cfg db' sid"
  by (simp add: redis_sub_view_def)

text \<open>A row replaced by one of the same owner and events.\<close>

lemma put_row:
  assumes "redis_subs_inv cfg db" and "redis_sub_view cfg db sid = Some r"
    and "row_reads row' sub prev" and "su_id sub = sid"
    and "su_owner_id sub = su_owner_id (row_sub r)" and "su_events sub = su_events (row_sub r)"
    and "\<And>k. hgetall k db' = (if k = sid then row' else hgetall k db)"
    and "rs_owner db' = rs_owner db" and "rs_event db' = rs_event db"
  shows "redis_subs_inv cfg db' \<and> redis_sub_view cfg db' = (redis_sub_view cfg db)(sid \<mapsto> SubRow sub prev)"
proof -
  have c: "codec_ok cfg" using assms(1) by (simp add: redis_subs_inv_def)
  have v: "redis_sub_view cfg db' = (redis_sub_view cfg db)(sid \<mapsto> SubRow sub prev)"
    using view_reads [OF c, of sid db' sub prev] assms(3,7) by (auto simp: fun_eq_iff intro: view_cong)
  have "\<exists>sub prev. su_id sub = k \<and> row_reads (hgetall k db') sub prev" if "hgetall k db' \<noteq> []" for k
    using that assms(1,3,4,7) unfolding redis_subs_inv_def by (cases "k = sid") auto
  moreover have "listed ((redis_sub_view cfg db)(sid \<mapsto> SubRow sub prev)) P k = listed (redis_sub_view cfg db) P k"
    if "P sub = P (row_sub r)" for P k using that assms(2) by (simp add: listed_def)
  ultimately show ?thesis using assms(1,5,6,8,9) v unfolding redis_subs_inv_def by simp
qed

section \<open>The operations meet the contract\<close>

lemma inv_codec: "redis_subs_inv cfg db \<Longrightarrow> codec_ok cfg"
  by (simp add: redis_subs_inv_def)

lemma view_decode:
  assumes "redis_subs_inv cfg db" and "redis_sub_view cfg db sid = Some r"
  shows "hgetall sid db \<noteq> []" "row_to_sub cfg (hgetall sid db) = Inr (row_sub r)"
    "row_snapshot (hgetall sid db) = Inr (snapshot_of (row_sub r))"
    "hfield (hgetall sid db) ''owner_id'' = Inr (su_owner_id (row_sub r))"
    "hfield (hgetall sid db) ''events'' = Inr (dumps_names (su_events (row_sub r)))"
    "hfield_or_empty (hgetall sid db) ''status'' = subscription_status_value (su_status (row_sub r))"
    "hfield_or_empty (hgetall sid db) ''secret'' = su_secret (row_sub r)" "su_secret (row_sub r) \<noteq> []"
  using row_reads_decode [OF view_row(1) [OF assms] inv_codec [OF assms(1)]] view_row(1) [OF assms]
  by (simp_all add: row_reads_def)

lemma redis_get_ok:
  assumes "redis_subs_inv cfg db"
  shows "redis_subs_get cfg sid db = (Inr (map_option row_sub (redis_sub_view cfg db sid)), db)"
  using view_None [OF assms, of sid] view_decode [OF assms, of sid]
  by (cases "redis_sub_view cfg db sid") (auto simp: redis_subs_get_def)

lemma map_exc_ids:
  assumes "\<forall>x \<in> set xs. f x = Inr (g x)"
  shows "map_exc f xs = Inr (map g xs)"
  using assms by (intro map_exc_Inr) simp

lemma listed_ids:
  assumes "redis_subs_inv cfg db" and "distinct ids" and "\<forall>sid \<in> set ids. redis_sub_view cfg db sid \<noteq> None"
  shows "distinct (map su_id (map (\<lambda>sid. row_sub (the (redis_sub_view cfg db sid))) ids))"
    "map su_id (map (\<lambda>sid. row_sub (the (redis_sub_view cfg db sid))) ids) = ids"
proof -
  show "map su_id (map (\<lambda>sid. row_sub (the (redis_sub_view cfg db sid))) ids) = ids"
    using assms(3) view_row(2) [OF assms(1)] by (induction ids) auto
  then show "distinct (map su_id (map (\<lambda>sid. row_sub (the (redis_sub_view cfg db sid))) ids))"
    using assms(2) by simp
qed

lemma redis_list_ok:
  assumes "redis_subs_inv cfg db"
  shows "\<exists>subs. redis_list_for_owner cfg owner db = (Inr subs, db) \<and> distinct (map su_id subs) \<and>
    (\<forall>sub. sub \<in> set subs \<longleftrightarrow> su_owner_id sub = owner \<and> (\<exists>r. redis_sub_view cfg db (su_id sub) = Some r \<and> row_sub r = sub))"
proof -
  let ?ids = "rc_order cfg (smembers owner (rs_owner db))"
  let ?sub = "\<lambda>sid. row_sub (the (redis_sub_view cfg db sid))"
  have ids: "distinct ?ids" "set ?ids = set (smembers owner (rs_owner db))"
    using assms by (simp_all add: redis_subs_inv_def codec_ok_def)
  have mem: "sid \<in> set ?ids \<longleftrightarrow> listed (redis_sub_view cfg db) (\<lambda>sub. su_owner_id sub = owner) sid" for sid
    using assms ids(2) by (simp add: redis_subs_inv_def)
  then have some: "\<forall>sid \<in> set ?ids. redis_sub_view cfg db sid \<noteq> None" by (auto simp: listed_def split: option.splits)
  have "filter (\<lambda>row. row \<noteq> []) (map (\<lambda>sid. hgetall sid db) ?ids) = map (\<lambda>sid. hgetall sid db) ?ids"
    using some view_None [OF assms] by (simp add: filter_id_conv)
  moreover have "map_exc (row_to_sub cfg) (map (\<lambda>sid. hgetall sid db) ids) = Inr (map ?sub ids)"
    if "\<forall>sid \<in> set ids. redis_sub_view cfg db sid \<noteq> None" for ids
    using that view_decode(2) [OF assms] by (induction ids) auto
  ultimately have "redis_list_for_owner cfg owner db = (Inr (map ?sub ?ids), db)"
    using some by (simp add: redis_list_for_owner_def)
  moreover have "sub \<in> set (map ?sub ?ids) \<longleftrightarrow>
      su_owner_id sub = owner \<and> (\<exists>r. redis_sub_view cfg db (su_id sub) = Some r \<and> row_sub r = sub)" for sub
  proof
    assume "sub \<in> set (map ?sub ?ids)"
    then obtain sid where sid: "sid \<in> set ?ids" "sub = ?sub sid" unfolding set_map by blast
    then obtain r where r: "redis_sub_view cfg db sid = Some r" using some by auto
    then show "su_owner_id sub = owner \<and> (\<exists>r. redis_sub_view cfg db (su_id sub) = Some r \<and> row_sub r = sub)"
      using sid mem [of sid] view_row(2) [OF assms r] by (simp add: listed_def)
  next
    assume s: "su_owner_id sub = owner \<and> (\<exists>r. redis_sub_view cfg db (su_id sub) = Some r \<and> row_sub r = sub)"
    then obtain r where r: "redis_sub_view cfg db (su_id sub) = Some r" "row_sub r = sub" by blast
    then have "su_id sub \<in> set ?ids" using mem [of "su_id sub"] s by (simp add: listed_def)
    moreover have "sub = ?sub (su_id sub)" using r by simp
    ultimately show "sub \<in> set (map ?sub ?ids)" unfolding set_map by (rule rev_image_eqI)
  qed
  ultimately show ?thesis using listed_ids(1) [OF assms ids(1) some] by blast
qed

definition wanted :: "redis_subs_cfg \<Rightarrow> RedisSubs \<Rightarrow> string option \<Rightarrow> string \<Rightarrow> bool" where
  "wanted cfg db tenant sid = listed (redis_sub_view cfg db)
     (\<lambda>sub. su_status sub = ACTIVE \<and> (case tenant of None \<Rightarrow> True | Some t \<Rightarrow> su_owner_id sub = t)) sid"

lemma active_rows_ok:
  assumes "redis_subs_inv cfg db"
  shows "active_rows tenant (map (\<lambda>sid. hgetall sid db) ids) =
    Inr (map (\<lambda>sid. snapshot_of (row_sub (the (redis_sub_view cfg db sid)))) (filter (wanted cfg db tenant) ids))"
proof (induction ids)
  case (Cons sid ids)
  show ?case
  proof (cases "redis_sub_view cfg db sid")
    case None
    then have "hgetall sid db = []" "\<not> wanted cfg db tenant sid"
      using view_None [OF assms, of sid] None by (simp_all add: wanted_def listed_def)
    then show ?thesis using Cons by simp
  next
    case (Some r)
    have "subscription_status_value (su_status (row_sub r)) = subscription_status_value ACTIVE \<longleftrightarrow> su_status (row_sub r) = ACTIVE"
      by (rule subscription_status_inject)
    then show ?thesis
      using view_decode [OF assms Some] Some Cons
      by (auto simp: wanted_def listed_def simp del: subscription_status_value.simps split: option.splits)
  qed
qed simp

lemma redis_for_event_ok:
  assumes "redis_subs_inv cfg db"
  shows "\<exists>snaps. redis_for_event cfg event tenant db = (Inr snaps, db) \<and> distinct (map sub_id snaps) \<and>
    (\<forall>snap. snap \<in> set snaps \<longleftrightarrow> (\<exists>r. redis_sub_view cfg db (sub_id snap) = Some r \<and>
       interested event tenant (row_sub r) \<and> snap = snapshot_of (row_sub r)))"
proof -
  let ?ids = "filter (wanted cfg db tenant) (rc_order cfg (smembers event (rs_event db)))"
  let ?snap = "\<lambda>sid. snapshot_of (row_sub (the (redis_sub_view cfg db sid)))"
  have mem: "sid \<in> set ?ids \<longleftrightarrow> listed (redis_sub_view cfg db) (interested event tenant) sid" for sid
    using assms by (auto simp: redis_subs_inv_def codec_ok_def wanted_def listed_def interested_def split: option.splits)
  have id: "sub_id (?snap sid) = sid" if "sid \<in> set ?ids" for sid
    using that mem [of sid] view_row(2) [OF assms, of sid] by (auto simp: listed_def snapshot_of_def split: option.splits)
  have "distinct ?ids" using assms by (simp add: redis_subs_inv_def codec_ok_def)
  moreover have "map sub_id (map ?snap ids) = ids" if "\<forall>sid \<in> set ids. sub_id (?snap sid) = sid" for ids
    using that by (induction ids) auto
  ultimately have "distinct (map sub_id (map ?snap ?ids))" using id by metis
  moreover have "snap \<in> set (map ?snap ?ids) \<longleftrightarrow> (\<exists>r. redis_sub_view cfg db (sub_id snap) = Some r \<and>
       interested event tenant (row_sub r) \<and> snap = snapshot_of (row_sub r))" for snap
  proof
    assume "snap \<in> set (map ?snap ?ids)"
    then obtain sid where sid: "sid \<in> set ?ids" "snap = ?snap sid" unfolding set_map by blast
    then show "\<exists>r. redis_sub_view cfg db (sub_id snap) = Some r \<and> interested event tenant (row_sub r) \<and> snap = snapshot_of (row_sub r)"
      using id [OF sid(1)] mem [of sid] by (auto simp: listed_def split: option.splits)
  next
    assume "\<exists>r. redis_sub_view cfg db (sub_id snap) = Some r \<and> interested event tenant (row_sub r) \<and> snap = snapshot_of (row_sub r)"
    then obtain r where r: "redis_sub_view cfg db (sub_id snap) = Some r" "interested event tenant (row_sub r)" "snap = snapshot_of (row_sub r)"
      by blast
    then have "sub_id snap \<in> set ?ids" using mem [of "sub_id snap"] by (simp add: listed_def)
    moreover have "snap = ?snap (sub_id snap)" using r(1,3) by simp
    ultimately show "snap \<in> set (map ?snap ?ids)" unfolding set_map by (rule rev_image_eqI)
  qed
  ultimately show ?thesis
    by (intro exI [of _ "map ?snap ?ids"]) (simp add: redis_for_event_def active_rows_ok [OF assms])
qed

lemma redis_secret_ok:
  assumes "redis_subs_inv cfg db"
  shows "redis_get_secret cfg sid db =
    (case redis_sub_view cfg db sid of None \<Rightarrow> Inl (not_found sid) | Some r \<Rightarrow> Inr (material_of r), db)"
proof (cases "redis_sub_view cfg db sid")
  case None
  then show ?thesis using view_None [OF assms, of sid] by (simp add: redis_get_secret_def hfield_or_empty_def)
next
  case (Some r)
  note d = row_reads_decode [OF view_row(1) [OF assms Some] inv_codec [OF assms]]
  have c: "valid_instant t \<Longrightarrow> rc_fromisoformat cfg (isoformat t) = Some t" for t
    using inv_codec [OF assms] by (simp add: codec_ok_def)
  have "\<And>p t. row_previous r = Some (p, t) \<Longrightarrow> p \<noteq> [] \<and> valid_instant t" using view_row(1) [OF assms Some] by (auto simp: row_reads_def)
  then show ?thesis
    using d view_decode(8) [OF assms Some] c Some
    by (cases "row_previous r") (auto simp: redis_get_secret_def material_of_def Let_def)
qed

lemma fold_flds: "distinct (map fst flds) \<Longrightarrow> dict_get (fold (\<lambda>(k, v). dict_set k v) flds d) k =
    (case dict_get flds k of Some v \<Rightarrow> Some v | None \<Rightarrow> dict_get d k)"
proof (induction flds arbitrary: d)
  case (Cons x flds)
  obtain a b where x: "x = (a, b)" by (cases x)
  have "dict_get flds a = None" using Cons.prems x by (simp add: map_of_eq_None_iff)
  then show ?case using Cons x by (auto split: option.split)
qed simp

lemma status_row:
  assumes "row_reads row sub prev"
  shows "row_reads (fold (\<lambda>(k, v). dict_set k v) [(''status'', subscription_status_value st)] row)
    (sub\<lparr>su_status := st\<rparr>) prev"
  using assms by (auto simp: row_reads_def sub_to_row_def split: option.splits)

lemma rotated_row:
  assumes "row_reads row sub prev" and "new \<noteq> []" and "valid_instant until"
  shows "row_reads (fold (\<lambda>(k, v). dict_set k v) [(''secret'', new), (''previous_secret'', su_secret sub),
      (''previous_expires_at'', isoformat until)] row) (sub\<lparr>su_secret := new\<rparr>) (Some (su_secret sub, until))"
  using assms by (auto simp: row_reads_def sub_to_row_def)

lemma redis_set_status_ok:
  assumes "redis_subs_inv cfg db"
  shows "\<exists>db'. redis_set_status sid st db = (Inr (redis_sub_view cfg db sid \<noteq> None), db') \<and> redis_subs_inv cfg db' \<and>
    redis_sub_view cfg db' = (redis_sub_view cfg db)(sid := map_option (with_status st) (redis_sub_view cfg db sid))"
proof (cases "redis_sub_view cfg db sid")
  case None
  then show ?thesis using assms view_None [OF assms, of sid] by (simp add: redis_set_status_def redis_exists_def fun_upd_idem)
next
  case (Some r)
  note put_row [OF assms Some status_row [OF view_row(1) [OF assms Some]], of st "redis_write_status sid st db"]
  then show ?thesis using Some view_None [OF assms, of sid] view_row(2) [OF assms Some]
    by (simp add: redis_set_status_def redis_exists_def redis_write_status_def hgetall_hset with_status_def)
       (simp add: hset_sub_def)
qed

lemma redis_rotate_ok:
  assumes "redis_subs_inv cfg db" and "redis_sub_view cfg db sid = Some r" and "grace_until (en_now env) grace = Inr until"
    and "en_token env \<noteq> []"
  shows "\<exists>db' m. redis_rotate_secret cfg env sid grace secret db = (Inr m, db') \<and> redis_subs_inv cfg db' \<and>
    sec_current m = secret_or secret (en_token env) \<and> sec_previous m = Some (su_secret (row_sub r)) \<and>
    sec_previous_expires_at m = Some until \<and>
    redis_sub_view cfg db' = (redis_sub_view cfg db)(sid \<mapsto> rotated (secret_or secret (en_token env)) until r)"
proof -
  let ?new = "secret_or secret (en_token env)"
  have new: "?new \<noteq> []" using assms(4) by (simp add: secret_or_def split: option.split)
  let ?db = "hset_sub sid [(''secret'', ?new), (''previous_secret'', su_secret (row_sub r)),
      (''previous_expires_at'', isoformat until)] db"
  have "valid_instant until" using assms(3) by (auto simp: grace_until_def split: if_splits)
  note put_row [OF assms(1,2) rotated_row [OF view_row(1) [OF assms(1,2)] new this], of ?db]
  then show ?thesis using assms(3) view_decode(7,8) [OF assms(1,2)] view_row(2) [OF assms(1,2)]
    by (simp add: redis_rotate_secret_def hgetall_hset rotated_def) (simp add: hset_sub_def Let_def)
qed

lemma smembers_sadd: "smembers k (sadd k' sid sets) =
    (if k = k' \<and> sid \<notin> set (smembers k sets) then smembers k sets @ [sid] else smembers k sets)"
  by (auto simp: smembers_def sadd_def)

lemma smembers_srem: "smembers k (srem k' sid sets) = (if k = k' then filter (\<lambda>i. i \<noteq> sid) (smembers k sets) else smembers k sets)"
  by (auto simp: smembers_def srem_def)

lemma smembers_fold_sadd:
  "distinct (smembers k sets) \<Longrightarrow> distinct (smembers k (fold (\<lambda>e. sadd e sid) es sets)) \<and>
    set (smembers k (fold (\<lambda>e. sadd e sid) es sets)) = (if k \<in> set es then insert sid (set (smembers k sets)) else set (smembers k sets))"
proof (induction es arbitrary: sets)
  case (Cons e es)
  have "distinct (smembers k (sadd e sid sets))" using Cons.prems by (auto simp: smembers_sadd)
  from Cons.IH [OF this] show ?case by (auto simp: smembers_sadd)
qed simp

lemma smembers_fold_srem:
  "distinct (smembers k sets) \<Longrightarrow> distinct (smembers k (fold (\<lambda>e. srem e sid) es sets)) \<and>
    set (smembers k (fold (\<lambda>e. srem e sid) es sets)) = (if k \<in> set es then set (smembers k sets) - {sid} else set (smembers k sets))"
proof (induction es arbitrary: sets)
  case (Cons e es)
  have "distinct (smembers k (srem e sid sets))" using Cons.prems by (auto simp: smembers_srem)
  from Cons.IH [OF this] show ?case by (auto simp: smembers_srem)
qed simp

lemma redis_create_ok:
  assumes "redis_subs_inv cfg db" and "resolve_ip (en_getaddrinfo env) url = Inr ip"
    and "redis_sub_view cfg db (en_uuid env) = None" and "en_token env \<noteq> []"
    and "valid_instant (en_now env)"
  shows "\<exists>db'. redis_create cfg env owner url events secret db = (Inr (new_subscription env ip owner url events secret), db') \<and>
    redis_subs_inv cfg db' \<and> redis_sub_view cfg db' = (redis_sub_view cfg db)(en_uuid env \<mapsto>
      SubRow (new_subscription env ip owner url events secret) None)"
proof -
  let ?sub = "new_subscription env ip owner url events secret" and ?id = "en_uuid env"
  let ?db1 = "hset_sub ?id (sub_to_row ?sub) db"
  let ?db = "?db1\<lparr>rs_owner := sadd owner ?id (rs_owner ?db1), rs_event := fold (\<lambda>e. sadd e ?id) events (rs_event ?db1)\<rparr>"
  have sub: "su_secret ?sub \<noteq> []" "su_owner_id ?sub = owner" "su_events ?sub = events" "su_id ?sub = ?id"
    using assms(4) by (simp_all add: new_subscription_def secret_or_def split: option.split)
  have c: "codec_ok cfg" by (rule inv_codec [OF assms(1)])
  have empty: "hgetall ?id db = []" using view_None [OF assms(1)] assms(3) by simp
  have row: "hgetall k ?db = (if k = ?id then fold (\<lambda>(k, v). dict_set k v) (sub_to_row ?sub) [] else hgetall k db)" for k
  proof -
    have "hgetall k ?db = hgetall k ?db1" by (simp add: hgetall_def)
    then show ?thesis using empty by (simp only: hgetall_hset)
  qed
  have reads: "row_reads (hgetall ?id ?db) ?sub None"
    unfolding row using sub(1) assms(5) by (simp add: row_reads_def sub_to_row_def new_subscription_def)
  have v: "redis_sub_view cfg ?db = (redis_sub_view cfg db)(?id \<mapsto> SubRow ?sub None)"
    using view_reads [OF c reads] row by (auto simp: fun_eq_iff intro: view_cong)
  have l: "listed ((redis_sub_view cfg db)(?id \<mapsto> SubRow ?sub None)) P k \<longleftrightarrow>
      listed (redis_sub_view cfg db) P k \<or> k = ?id \<and> P ?sub" for P k
    using assms(3) by (simp add: listed_def)
  have "\<exists>sub prev. su_id sub = k \<and> row_reads (hgetall k ?db) sub prev" if "hgetall k ?db \<noteq> []" for k
  proof (cases "k = ?id")
    case True
    then show ?thesis using reads sub(4) by blast
  next
    case False
    then show ?thesis using that assms(1) row unfolding redis_subs_inv_def by simp
  qed
  moreover have "rs_owner ?db = sadd owner ?id (rs_owner db)" "rs_event ?db = fold (\<lambda>e. sadd e ?id) events (rs_event db)"
    by (simp_all add: hset_sub_def)
  moreover have "distinct (smembers k (rs_owner db))" "distinct (smembers k (rs_event db))"
    "sid \<in> set (smembers k (rs_owner db)) \<longleftrightarrow> listed (redis_sub_view cfg db) (\<lambda>sub. su_owner_id sub = k) sid"
    "sid \<in> set (smembers k (rs_event db)) \<longleftrightarrow> listed (redis_sub_view cfg db) (\<lambda>sub. k \<in> set (su_events sub)) sid" for k sid
    using assms(1) by (simp_all add: redis_subs_inv_def)
  ultimately have "redis_subs_inv cfg ?db"
    unfolding redis_subs_inv_def v l using c sub(2,3) smembers_fold_sadd
    by (auto simp: smembers_sadd)
  then show ?thesis using v assms(2) sub(4) by (simp add: redis_create_def Let_def)
qed

lemma redis_delete_ok:
  assumes "redis_subs_inv cfg db"
  shows "\<exists>db'. redis_delete cfg sid db = (Inr (redis_sub_view cfg db sid \<noteq> None), db') \<and> redis_subs_inv cfg db' \<and>
    redis_sub_view cfg db' = (redis_sub_view cfg db)(sid := None)"
proof (cases "redis_sub_view cfg db sid")
  case None
  then show ?thesis using assms view_None [OF assms, of sid] by (simp add: redis_delete_def fun_upd_idem)
next
  case (Some r)
  let ?db = "db\<lparr>rs_hash := dict_pop sid (rs_hash db), rs_owner := srem (su_owner_id (row_sub r)) sid (rs_owner db),
      rs_event := fold (\<lambda>e. srem e sid) (su_events (row_sub r)) (rs_event db)\<rparr>"
  have del: "redis_delete cfg sid db = (Inr True, ?db)"
    using view_decode [OF assms Some] by (simp add: redis_delete_def)
  have row: "hgetall k ?db = (if k = sid then [] else hgetall k db)" for k
    by (simp add: hgetall_def)
  have v: "redis_sub_view cfg ?db = (redis_sub_view cfg db)(sid := None)"
    using row by (auto simp: fun_eq_iff redis_sub_view_def)
  have l: "listed ((redis_sub_view cfg db)(sid := None)) P k \<longleftrightarrow> k \<noteq> sid \<and> listed (redis_sub_view cfg db) P k" for P k
    by (simp add: listed_def)
  have here: "listed (redis_sub_view cfg db) P sid = P (row_sub r)" for P using Some by (simp add: listed_def)
  have f: "distinct (smembers k (rs_owner db))" "distinct (smembers k (rs_event db))"
    "k' \<in> set (smembers k (rs_owner db)) \<longleftrightarrow> listed (redis_sub_view cfg db) (\<lambda>sub. su_owner_id sub = k) k'"
    "k' \<in> set (smembers k (rs_event db)) \<longleftrightarrow> listed (redis_sub_view cfg db) (\<lambda>sub. k \<in> set (su_events sub)) k'" for k k'
    using assms by (simp_all add: redis_subs_inv_def)
  have "\<exists>sub prev. su_id sub = k \<and> row_reads (hgetall k ?db) sub prev" if "hgetall k ?db \<noteq> []" for k
    using that assms row unfolding redis_subs_inv_def by (cases "k = sid") simp_all
  then have "redis_subs_inv cfg ?db"
    unfolding redis_subs_inv_def v l using inv_codec [OF assms] f smembers_fold_srem [of _ "rs_event db" sid] here
    by (auto simp: smembers_srem)
  then show ?thesis using del v Some by auto
qed

interpretation redis_sub: subscription_contract "redis_subs cfg" "redis_sub_view cfg" "redis_subs_inv cfg" "\<lambda>t. t" "\<lambda>_. True"
  for cfg
proof (unfold_locales, goal_cases)
  case (1 s sid r)
  then show ?case by (rule view_row(2))
next
  case (2 s sid)
  then show ?case by (simp add: redis_subs_def redis_get_ok)
next
  case (3 s owner)
  then show ?case by (simp add: redis_subs_def redis_list_ok)
next
  case (4 s event tenant)
  then show ?case by (simp add: redis_subs_def redis_for_event_ok)
next
  case (5 s sid)
  then show ?case by (simp add: redis_subs_def redis_secret_ok)
next
  case prems: 6
  have "x\<lparr>su_created_at := t\<rparr> = x" if "t = su_created_at x" for x :: Subscription and t using that by simp
  then show ?case using redis_create_ok [OF prems(1-4,6)]
    by (simp add: redis_subs_def new_subscription_def)
next
  case 7
  then show ?case by (simp add: redis_subs_def redis_create_def)
next
  case (8 s sid)
  then show ?case using redis_delete_ok by (simp add: redis_subs_def)
next
  case (9 s sid)
  then show ?case using redis_set_status_ok [of cfg s sid PAUSED] by (simp add: redis_subs_def)
next
  case (10 s sid)
  then show ?case using redis_set_status_ok [of cfg s sid ACTIVE] by (simp add: redis_subs_def)
next
  case prems: 11
  from redis_rotate_ok [OF prems(1-4)] show ?case by (auto simp: redis_subs_def)
next
  case prems: 12
  then show ?case using view_None [OF prems(1)]
    by (auto simp: redis_subs_def redis_rotate_secret_def hfield_or_empty_def Let_def)
qed

section \<open>Properties\<close>

definition redis_subs_reachable :: "redis_subs_cfg \<Rightarrow> RedisSubs \<Rightarrow> bool" where
  "redis_subs_reachable cfg db \<longleftrightarrow> (\<exists>es. sub_run (redis_subs cfg) (\<lambda>_. True) redis_subs_empty es db)"

lemma redis_subs_reachable_inv:
  assumes "codec_ok cfg" and "redis_subs_reachable cfg db"
  shows "redis_subs_inv cfg db"
proof -
  have "redis_subs_inv cfg redis_subs_empty"
    using assms(1) by (simp add: redis_subs_inv_def redis_subs_empty_def hgetall_def smembers_def listed_def redis_sub_view_def)
  then show ?thesis using redis_sub.run_inv assms(2) unfolding redis_subs_reachable_def by blast
qed

text \<open>
  C34: the sets of ids never go stale. Whatever creations, deletions, pauses, resumptions and
  rotations went before, \<open>for_event\<close> returns, once each, exactly the subscriptions that \<open>get\<close>
  shows as active and interested in the event, and with a tenant given only those of that owner.
\<close>

theorem redis_for_event_exact:
  assumes "codec_ok cfg" and "redis_subs_reachable cfg db"
  shows "\<exists>snaps. redis_for_event cfg event tenant db = (Inr snaps, db) \<and> distinct (map sub_id snaps) \<and>
    (\<forall>snap. snap \<in> set snaps \<longleftrightarrow> (\<exists>sub. redis_subs_get cfg (sub_id snap) db = (Inr (Some sub), db) \<and>
       su_status sub = ACTIVE \<and> event \<in> set (su_events sub) \<and> (\<forall>t. tenant = Some t \<longrightarrow> su_owner_id sub = t) \<and>
       snap = \<lparr>sub_id = su_id sub, sub_owner_id = su_owner_id sub, sub_url = su_url sub,
               sub_resolved_ip = su_resolved_ip sub, sub_retry_overrides = None\<rparr>))"
proof -
  have inv: "redis_subs_inv cfg db" using redis_subs_reachable_inv [OF assms] .
  obtain snaps where s: "redis_for_event cfg event tenant db = (Inr snaps, db)" "distinct (map sub_id snaps)"
    "\<forall>snap. snap \<in> set snaps \<longleftrightarrow> (\<exists>r. redis_sub_view cfg db (sub_id snap) = Some r \<and>
       interested event tenant (row_sub r) \<and> snap = snapshot_of (row_sub r))"
    using redis_for_event_ok [OF inv] by blast
  have "(\<exists>r. redis_sub_view cfg db (sub_id snap) = Some r \<and> interested event tenant (row_sub r) \<and> snap = snapshot_of (row_sub r)) \<longleftrightarrow>
      (\<exists>sub. redis_subs_get cfg (sub_id snap) db = (Inr (Some sub), db) \<and>
       su_status sub = ACTIVE \<and> event \<in> set (su_events sub) \<and> (\<forall>t. tenant = Some t \<longrightarrow> su_owner_id sub = t) \<and>
       snap = \<lparr>sub_id = su_id sub, sub_owner_id = su_owner_id sub, sub_url = su_url sub,
               sub_resolved_ip = su_resolved_ip sub, sub_retry_overrides = None\<rparr>)" for snap
    unfolding redis_get_ok [OF inv] interested_def snapshot_of_def
    by (cases "redis_sub_view cfg db (sub_id snap)"; cases tenant) auto
  then show ?thesis using s by (intro exI [of _ snaps]) simp
qed

text \<open>
  A pause that races with a deletion leaves a ghost. When the deletion falls between the two
  commands of a pause, the subscription is back as a hash with nothing but a status: from then on
  \<open>get\<close> of that id raises, where it should find nothing, and so does another deletion.
\<close>

theorem redis_pause_delete_race:
  assumes "codec_ok cfg" and "redis_subs_reachable cfg db" and "redis_exists sid db"
    and "redis_delete cfg sid db = (Inr True, db1)" and "redis_write_status sid PAUSED db1 = db2"
  shows "(\<exists>e. redis_subs_get cfg sid db2 = (Inl (ValueError e), db2)) \<and>
    redis_delete cfg sid db2 = (Inl (KeyError (quoted ''owner_id'')), db2)"
proof -
  have inv: "redis_subs_inv cfg db" using redis_subs_reachable_inv [OF assms(1,2)] .
  obtain db' where "redis_delete cfg sid db = (Inr (redis_sub_view cfg db sid \<noteq> None), db')" "redis_subs_inv cfg db'"
    "redis_sub_view cfg db' = (redis_sub_view cfg db)(sid := None)" using redis_delete_ok [OF inv] by blast
  then have "hgetall sid db1 = []" using view_None [of cfg db1 sid] assms(4) by simp
  then have row: "hgetall sid db2 = [(''status'', ''paused'')]"
    using assms(5) by (auto simp: redis_write_status_def hgetall_hset)
  have "loads_names cfg ''[]'' = Inr []" using loads_dumps_names [of cfg "[]"] by (simp add: dumps_names_def)
  then show ?thesis using row assms(1)
    by (simp add: redis_subs_get_def row_to_sub_def hfield_or_empty_def redis_delete_def hfield_def codec_ok_def Let_def
        subscription_status_of_def)
qed

text \<open>
  A configuration that meets the hypothesis, and a store with one subscription.
\<close>

definition sample_subs_cfg :: redis_subs_cfg where
  "sample_subs_cfg = \<lparr>rc_order = (\<lambda>ids. ids),
     rc_fromisoformat = parse_iso,
     rc_float_repr = (\<lambda>s. s)\<rparr>"

lemma sample_codec: "codec_ok sample_subs_cfg"
  by (simp add: codec_ok_def sample_subs_cfg_def parse_isoformat)

definition sample_subs_db :: RedisSubs where
  "sample_subs_db = snd (redis_create sample_subs_cfg sample_env ''o1'' ''https://a.example/hook'' [''order.paid''] None redis_subs_empty)"

lemma sample_create:
  "redis_create sample_subs_cfg sample_env ''o1'' ''https://a.example/hook'' [''order.paid''] None redis_subs_empty
    = (Inr (new_subscription sample_env ''1.1.1.1'' ''o1'' ''https://a.example/hook'' [''order.paid''] None), sample_subs_db)"
  by (simp add: sample_subs_db_def redis_create_def sample_resolve Let_def)

lemma sample_subs_reachable: "redis_subs_reachable sample_subs_cfg sample_subs_db"
proof -
  have "redis_subs_get sample_subs_cfg ''s1'' redis_subs_empty = (Inr None, redis_subs_empty)"
    by (simp add: redis_subs_get_def hgetall_def redis_subs_empty_def)
  then have "sub_step (redis_subs sample_subs_cfg) (\<lambda>_. True) (Created (en_uuid sample_env)) redis_subs_empty sample_subs_db"
    using sample_create by (intro sub_create [of _ _ _ _ None]) (simp_all add: redis_subs_def)
  from sub_run_Cons [OF this sub_run_Nil] show ?thesis unfolding redis_subs_reachable_def by (rule exI)
qed

lemma sample_view: "redis_sub_view sample_subs_cfg sample_subs_db ''s1'' =
    Some (SubRow (new_subscription sample_env ''1.1.1.1'' ''o1'' ''https://a.example/hook'' [''order.paid''] None) None)"
proof -
  have "redis_subs_inv sample_subs_cfg redis_subs_empty"
    using sample_codec by (simp add: redis_subs_inv_def redis_subs_empty_def hgetall_def smembers_def listed_def redis_sub_view_def)
  moreover have "redis_sub_view sample_subs_cfg redis_subs_empty (en_uuid sample_env) = None"
    by (simp add: redis_sub_view_def redis_subs_empty_def hgetall_def)
  ultimately show ?thesis
    using redis_create_ok [OF _ sample_resolve, of sample_subs_cfg redis_subs_empty "''o1''" "[''order.paid'']" None] sample_create
    by (auto simp: sample_env_simps)
qed

theorem redis_for_event_exact_witness:
  "\<exists>snaps. redis_for_event sample_subs_cfg ''order.paid'' (Some ''o1'') sample_subs_db = (Inr snaps, sample_subs_db) \<and>
     \<lparr>sub_id = ''s1'', sub_owner_id = ''o1'', sub_url = ''https://a.example/hook'', sub_resolved_ip = ''1.1.1.1'',
      sub_retry_overrides = None\<rparr> \<in> set snaps"
proof -
  have "redis_subs_get sample_subs_cfg ''s1'' sample_subs_db =
      (Inr (Some (new_subscription sample_env ''1.1.1.1'' ''o1'' ''https://a.example/hook'' [''order.paid''] None)), sample_subs_db)"
    using redis_get_ok [OF redis_subs_reachable_inv [OF sample_codec sample_subs_reachable], of "''s1''"] sample_view by simp
  with redis_for_event_exact [OF sample_codec sample_subs_reachable, of "''order.paid''" "Some ''o1''"]
  show ?thesis by (auto simp: new_subscription_def)
qed

theorem redis_pause_delete_race_witness:
  "\<exists>db1 db2 e. redis_delete sample_subs_cfg ''s1'' sample_subs_db = (Inr True, db1) \<and>
     redis_write_status ''s1'' PAUSED db1 = db2 \<and> redis_subs_get sample_subs_cfg ''s1'' db2 = (Inl (ValueError e), db2)"
proof -
  have inv: "redis_subs_inv sample_subs_cfg sample_subs_db"
    using redis_subs_reachable_inv [OF sample_codec sample_subs_reachable] .
  obtain db1 where d: "redis_delete sample_subs_cfg ''s1'' sample_subs_db = (Inr True, db1)"
    using redis_delete_ok [OF inv, of "''s1''"] sample_view by auto
  have "redis_exists ''s1'' sample_subs_db" using view_None [OF inv, of "''s1''"] sample_view by (simp add: redis_exists_def)
  from redis_pause_delete_race [OF sample_codec sample_subs_reachable this d refl] d show ?thesis by blast
qed

end
