(* ===== verification/PgSubs.thy ===== *)
theory PgSubs
  imports SubscriptionStore PgSchema Json
begin

text \<open>
  Subscriptions in PostgreSQL (\<open>service/subscription_pg.py\<close>): one table, as a list of rows, and
  per operation one statement in one transaction. A statement does what its text says; rows come
  in table order where the text has no \<open>ORDER BY\<close>. Secrets are sealed by a cipher on their way
  into the table and opened on their way out.
\<close>

section \<open>The statements\<close>

text \<open>\<open>^[A-Za-z_][A-Za-z0-9_$]{0,62}$\<close>; the last \<open>$\<close> also matches before a newline at the end.\<close>

definition ident_char :: "char \<Rightarrow> bool" where
  "ident_char c \<longleftrightarrow> name_char c \<or> c = CHR ''$''"

definition pg_ident :: "string \<Rightarrow> bool" where
  "pg_ident s \<longleftrightarrow> (case s of [] \<Rightarrow> False | c # cs \<Rightarrow> name_start c \<and> list_all ident_char cs \<and> length cs \<le> 62)"

definition IDENT_RE :: "string \<Rightarrow> bool" where
  "IDENT_RE s \<longleftrightarrow> pg_ident s \<or> s \<noteq> [] \<and> last s = CHR 0x0A \<and> pg_ident (butlast s)"

definition validate_identifier :: "string \<Rightarrow> exc + string" where
  "validate_identifier name =
     (if IDENT_RE name then Inr name
      else Inl (ValueError (''table name '' @ quoted name @ '' is not a valid unquoted PostgreSQL identifier '' @
        ''(letters/digits/underscores/$, <=63 chars, must not start with a digit)'')))"

definition sql_create_table :: "string \<Rightarrow> string" where
  "sql_create_table t = ''CREATE TABLE IF NOT EXISTS '' @ t @ '' ('' @ ''id text PRIMARY KEY, '' @ ''owner_id text NOT NULL, '' @
     ''url text NOT NULL, '' @ ''secret text NOT NULL, '' @ ''events jsonb NOT NULL DEFAULT '' @ sq @ ''[]'' @ sq @ ''::jsonb, '' @
     ''status text NOT NULL, '' @ ''created_at timestamptz NOT NULL, '' @ ''resolved_ip text NOT NULL, '' @
     ''previous_secret text, '' @ ''previous_expires_at timestamptz'' @ '')''"

definition sql_add_previous :: "string \<Rightarrow> string" where
  "sql_add_previous t = ''ALTER TABLE '' @ t @ '' ADD COLUMN IF NOT EXISTS previous_secret text, '' @
     ''ADD COLUMN IF NOT EXISTS previous_expires_at timestamptz''"

definition sql_rotate :: "string \<Rightarrow> string" where
  "sql_rotate t = ''UPDATE '' @ t @ '' SET previous_secret = secret, previous_expires_at = :until, secret = :secret'' @
     '' WHERE id = :id RETURNING secret, previous_secret, previous_expires_at''"

definition sql_create_idx_owner :: "string \<Rightarrow> string" where
  "sql_create_idx_owner t = ''CREATE INDEX IF NOT EXISTS '' @ t @ ''_owner_id_idx ON '' @ t @ '' (owner_id)''"

definition sql_create_idx_events :: "string \<Rightarrow> string" where
  "sql_create_idx_events t = ''CREATE INDEX IF NOT EXISTS '' @ t @ ''_events_gin_idx ON '' @ t @ '' USING gin (events)''"

definition sql_for_event :: "string \<Rightarrow> string" where
  "sql_for_event t = ''SELECT id, owner_id, url, resolved_ip FROM '' @ t @
     '' WHERE events @> CAST(:event_json AS jsonb) AND status = :status''"

definition sql_for_event_owner :: "string \<Rightarrow> string" where
  "sql_for_event_owner t = sql_for_event t @ '' AND owner_id = :owner_id''"

definition sql_get_secret :: "string \<Rightarrow> string" where
  "sql_get_secret t = ''SELECT secret, previous_secret, previous_expires_at FROM '' @ t @ '' WHERE id = :id''"

definition sql_insert :: "string \<Rightarrow> string" where
  "sql_insert t = ''INSERT INTO '' @ t @ '' (id, owner_id, url, secret, events, status, created_at, resolved_ip)'' @
     '' VALUES (:id, :owner_id, :url, :secret, CAST(:events AS jsonb), :status,'' @ '' :created_at, :resolved_ip)''"

definition sql_get :: "string \<Rightarrow> string" where
  "sql_get t = ''SELECT * FROM '' @ t @ '' WHERE id = :id''"

definition sql_list_for_owner :: "string \<Rightarrow> string" where
  "sql_list_for_owner t = ''SELECT * FROM '' @ t @ '' WHERE owner_id = :owner_id''"

definition sql_delete :: "string \<Rightarrow> string" where
  "sql_delete t = ''DELETE FROM '' @ t @ '' WHERE id = :id''"

definition sql_set_status :: "string \<Rightarrow> string" where
  "sql_set_status t = ''UPDATE '' @ t @ '' SET status = :status WHERE id = :id''"

text \<open>The constructor refuses a table name; what it builds is the text of the statements.\<close>

definition sub_statements :: "string \<Rightarrow> exc + string list" where
  "sub_statements table =
     (case validate_identifier table of
        Inl e \<Rightarrow> Inl e
      | Inr t \<Rightarrow> Inr [sql_create_table t, sql_add_previous t, sql_rotate t, sql_create_idx_owner t,
          sql_create_idx_events t, sql_for_event t, sql_for_event_owner t, sql_get_secret t, sql_insert t,
          sql_get t, sql_list_for_owner t, sql_delete t, sql_set_status t])"

definition ensure_sub_schema :: "(string \<Rightarrow> (exc, 's, unit) comp) \<Rightarrow> string \<Rightarrow> (exc, 's, unit) comp" where
  "ensure_sub_schema run t = transaction (run_all run
     [sql_create_table t, sql_add_previous t, sql_create_idx_owner t, sql_create_idx_events t])"

section \<open>The rows\<close>

record PgSub =
  p_id :: string
  p_owner_id :: string
  p_url :: string
  p_secret :: string
  p_events :: "string list"
  p_status :: string
  p_created_at :: time
  p_resolved_ip :: string
  p_previous_secret :: "string option"
  p_previous_expires_at :: "time option"

definition pg_row_to_sub :: "SecretCipher \<Rightarrow> PgSub \<Rightarrow> exc + Subscription" where
  "pg_row_to_sub cipher row =
     (case subscription_status_of (p_status row) of
        Inl e \<Rightarrow> Inl e
      | Inr st \<Rightarrow> Inr
          \<lparr>su_id = p_id row, su_owner_id = p_owner_id row, su_url = p_url row, su_secret = snd cipher (p_secret row),
           su_events = p_events row, su_status = st, su_created_at = p_created_at row,
           su_resolved_ip = p_resolved_ip row\<rparr>)"

definition pg_material :: "SecretCipher \<Rightarrow> PgSub \<Rightarrow> SecretMaterial" where
  "pg_material cipher row =
     \<lparr>sec_current = snd cipher (p_secret row), sec_previous = map_option (snd cipher) (p_previous_secret row),
      sec_previous_expires_at = p_previous_expires_at row\<rparr>"

section \<open>The operations\<close>

definition pg_for_event :: "string \<Rightarrow> string option \<Rightarrow> (exc, PgSub list, SubscriptionSnapshot list) comp" where
  "pg_for_event event tenant = (\<lambda>t.
     (Inr (map (\<lambda>row. \<lparr>sub_id = p_id row, sub_owner_id = p_owner_id row, sub_url = p_url row,
                      sub_resolved_ip = p_resolved_ip row, sub_retry_overrides = None\<rparr>)
       (filter (\<lambda>row. event \<in> set (p_events row) \<and> p_status row = subscription_status_value ACTIVE \<and>
          (case tenant of None \<Rightarrow> True | Some owner \<Rightarrow> p_owner_id row = owner)) t)), t))"

definition pg_get_secret :: "SecretCipher \<Rightarrow> string \<Rightarrow> (exc, PgSub list, SecretMaterial) comp" where
  "pg_get_secret cipher sid = (\<lambda>t.
     (case lookup p_id t sid of None \<Rightarrow> Inl (not_found sid) | Some row \<Rightarrow> Inr (pg_material cipher row), t))"

definition pg_rotate_secret ::
  "SecretCipher \<Rightarrow> sub_env \<Rightarrow> string \<Rightarrow> int \<Rightarrow> string option \<Rightarrow> (exc, PgSub list, SecretMaterial) comp" where
  "pg_rotate_secret cipher env sid grace_s secret = (\<lambda>t.
     case grace_until (en_now env) grace_s of
       Inl e \<Rightarrow> (Inl e, t)
     | Inr until \<Rightarrow>
         (let new = secret_or secret (en_token env);
              t' = update_where (\<lambda>row. p_id row = sid)
                (\<lambda>row. row\<lparr>p_previous_secret := Some (p_secret row), p_previous_expires_at := Some until,
                          p_secret := fst cipher new\<rparr>) t
          in case lookup p_id t' sid of
               None \<Rightarrow> (Inl (not_found sid), t')
             | Some row \<Rightarrow> (Inr (pg_material cipher row), t')))"

definition pg_sub_create ::
  "SecretCipher \<Rightarrow> sub_env \<Rightarrow> string \<Rightarrow> string \<Rightarrow> string list \<Rightarrow> string option \<Rightarrow> (exc, PgSub list, Subscription) comp" where
  "pg_sub_create cipher env owner url events secret = (\<lambda>t.
     case resolve_ip (en_getaddrinfo env) url of
       Inl e \<Rightarrow> (Inl e, t)
     | Inr ip \<Rightarrow>
         (let sub = new_subscription env ip owner url events secret
          in if su_id sub \<in> p_id ` set t then (Inl (Other ''IntegrityError'' ''duplicate key''), t)
             else (Inr sub, t @ [\<lparr>p_id = su_id sub, p_owner_id = owner, p_url = url,
                    p_secret = fst cipher (su_secret sub), p_events = events,
                    p_status = subscription_status_value ACTIVE, p_created_at = en_now env, p_resolved_ip = ip,
                    p_previous_secret = None, p_previous_expires_at = None\<rparr>])))"

definition pg_sub_get :: "SecretCipher \<Rightarrow> string \<Rightarrow> (exc, PgSub list, Subscription option) comp" where
  "pg_sub_get cipher sid = (\<lambda>t.
     (case lookup p_id t sid of
        None \<Rightarrow> Inr None
      | Some row \<Rightarrow> (case pg_row_to_sub cipher row of Inl e \<Rightarrow> Inl e | Inr sub \<Rightarrow> Inr (Some sub)), t))"

definition pg_list_for_owner :: "SecretCipher \<Rightarrow> string \<Rightarrow> (exc, PgSub list, Subscription list) comp" where
  "pg_list_for_owner cipher owner = (\<lambda>t.
     (map_exc (pg_row_to_sub cipher) (filter (\<lambda>row. p_owner_id row = owner) t), t))"

definition pg_sub_delete :: "string \<Rightarrow> (exc, PgSub list, bool) comp" where
  "pg_sub_delete sid = (\<lambda>t.
     (Inr (filter (\<lambda>row. p_id row = sid) t \<noteq> []), filter (\<lambda>row. p_id row \<noteq> sid) t))"

definition pg_set_status :: "string \<Rightarrow> SubscriptionStatus \<Rightarrow> (exc, PgSub list, bool) comp" where
  "pg_set_status sid st = (\<lambda>t.
     (Inr (filter (\<lambda>row. p_id row = sid) t \<noteq> []),
      update_where (\<lambda>row. p_id row = sid) (\<lambda>row. row\<lparr>p_status := subscription_status_value st\<rparr>) t))"

definition pg_subs :: "SecretCipher \<Rightarrow> PgSub list subscription_store" where
  "pg_subs cipher =
     \<lparr>ss_for_event = pg_for_event, ss_get_secret = pg_get_secret cipher, ss_rotate_secret = pg_rotate_secret cipher,
      ss_create = pg_sub_create cipher, ss_get = pg_sub_get cipher, ss_list_for_owner = pg_list_for_owner cipher,
      ss_delete = pg_sub_delete, ss_pause = (\<lambda>sid. pg_set_status sid PAUSED),
      ss_resume = (\<lambda>sid. pg_set_status sid ACTIVE)\<rparr>"

section \<open>The operations meet the contract\<close>

text \<open>What the model relies on: the cipher opens what it sealed.\<close>

definition cipher_ok :: "SecretCipher \<Rightarrow> bool" where
  "cipher_ok cipher \<longleftrightarrow> (\<forall>x. snd cipher (fst cipher x) = x)"

definition pg_sub_row :: "SecretCipher \<Rightarrow> PgSub \<Rightarrow> sub_row" where
  "pg_sub_row cipher row = SubRow
     (case pg_row_to_sub cipher row of Inr sub \<Rightarrow> sub
      | Inl _ \<Rightarrow> \<lparr>su_id = p_id row, su_owner_id = [], su_url = [], su_secret = [], su_events = [],
                  su_status = DELETED, su_created_at = 0, su_resolved_ip = []\<rparr>)
     (case (p_previous_secret row, p_previous_expires_at row) of
        (Some p, Some t) \<Rightarrow> Some (snd cipher p, t) | _ \<Rightarrow> None)"

abbreviation pg_sub_view :: "SecretCipher \<Rightarrow> PgSub list \<Rightarrow> sub_view" where
  "pg_sub_view cipher \<equiv> table_view p_id (pg_sub_row cipher)"

definition pg_sub_good :: "PgSub \<Rightarrow> bool" where
  "pg_sub_good row \<longleftrightarrow> (\<exists>st. p_status row = subscription_status_value st) \<and>
     (p_previous_secret row = None \<longleftrightarrow> p_previous_expires_at row = None)"

definition pg_subs_inv :: "SecretCipher \<Rightarrow> PgSub list \<Rightarrow> bool" where
  "pg_subs_inv cipher t \<longleftrightarrow> cipher_ok cipher \<and> distinct (map p_id t) \<and> (\<forall>row \<in> set t. pg_sub_good row)"

lemma pg_row_read:
  assumes "pg_sub_good row"
  shows "pg_row_to_sub cipher row = Inr (row_sub (pg_sub_row cipher row))"
    "su_id (row_sub (pg_sub_row cipher row)) = p_id row"
    "su_owner_id (row_sub (pg_sub_row cipher row)) = p_owner_id row"
    "su_events (row_sub (pg_sub_row cipher row)) = p_events row"
    "su_secret (row_sub (pg_sub_row cipher row)) = snd cipher (p_secret row)"
    "p_status row = subscription_status_value (su_status (row_sub (pg_sub_row cipher row)))"
    "pg_material cipher row = material_of (pg_sub_row cipher row)"
    "snapshot_of (row_sub (pg_sub_row cipher row)) = \<lparr>sub_id = p_id row, sub_owner_id = p_owner_id row, sub_url = p_url row,
       sub_resolved_ip = p_resolved_ip row, sub_retry_overrides = None\<rparr>"
proof -
  obtain st where st: "p_status row = subscription_status_value st"
    "p_previous_secret row = None \<longleftrightarrow> p_previous_expires_at row = None"
    using assms by (auto simp: pg_sub_good_def)
  show "pg_row_to_sub cipher row = Inr (row_sub (pg_sub_row cipher row))"
    "su_id (row_sub (pg_sub_row cipher row)) = p_id row"
    "su_owner_id (row_sub (pg_sub_row cipher row)) = p_owner_id row"
    "su_events (row_sub (pg_sub_row cipher row)) = p_events row"
    "su_secret (row_sub (pg_sub_row cipher row)) = snd cipher (p_secret row)"
    "p_status row = subscription_status_value (su_status (row_sub (pg_sub_row cipher row)))"
    "pg_material cipher row = material_of (pg_sub_row cipher row)"
    "snapshot_of (row_sub (pg_sub_row cipher row)) = \<lparr>sub_id = p_id row, sub_owner_id = p_owner_id row, sub_url = p_url row,
       sub_resolved_ip = p_resolved_ip row, sub_retry_overrides = None\<rparr>"
    using st by (auto simp: pg_sub_row_def pg_row_to_sub_def pg_material_def material_of_def snapshot_of_def split: option.splits)
qed

lemma pg_sub_table: "pg_subs_inv cipher t \<Longrightarrow> sub_table_ok p_id (pg_sub_row cipher) t"
  by (auto simp: pg_subs_inv_def sub_table_ok_def pg_row_read)

lemma pg_subs_update:
  assumes "pg_subs_inv cipher t" and "\<And>r. p_id (f r) = p_id r" and "\<And>r. pg_sub_good r \<Longrightarrow> pg_sub_good (f r)"
    and "\<And>r. pg_sub_good r \<Longrightarrow> pg_sub_row cipher (f r) = g (pg_sub_row cipher r)"
    and "\<And>r. su_id (row_sub (g r)) = su_id (row_sub r)"
  shows "pg_subs_inv cipher (update_where (\<lambda>r. p_id r = sid) f t)"
    "pg_sub_view cipher (update_where (\<lambda>r. p_id r = sid) f t) = (pg_sub_view cipher t)(sid := map_option g (pg_sub_view cipher t sid))"
proof -
  show "pg_subs_inv cipher (update_where (\<lambda>r. p_id r = sid) f t)"
    using assms(1-3) by (auto simp: pg_subs_inv_def keys_update set_update_where)
  show "pg_sub_view cipher (update_where (\<lambda>r. p_id r = sid) f t) = (pg_sub_view cipher t)(sid := map_option g (pg_sub_view cipher t sid))"
    using assms by (intro sub_table_update(2) pg_sub_table) (auto simp: pg_subs_inv_def)
qed

lemma pg_set_status_ok:
  assumes "pg_subs_inv cipher t"
  shows "\<exists>t'. pg_set_status sid st t = (Inr (pg_sub_view cipher t sid \<noteq> None), t') \<and> pg_subs_inv cipher t' \<and>
    pg_sub_view cipher t' = (pg_sub_view cipher t)(sid := map_option (with_status st) (pg_sub_view cipher t sid))"
proof -
  let ?f = "\<lambda>row. row\<lparr>p_status := subscription_status_value st\<rparr>"
  have good: "pg_sub_good (?f r)" "pg_sub_row cipher (?f r) = with_status st (pg_sub_row cipher r)" if "pg_sub_good r" for r
    using that by (auto simp: pg_sub_good_def pg_sub_row_def pg_row_to_sub_def with_status_def split: option.splits)
  note pg_subs_update [OF assms, of ?f "with_status st" sid]
  then show ?thesis using good by (simp add: pg_set_status_def sub_table_present [where proj = "pg_sub_row cipher"])
qed

lemma pg_lookup_row: "pg_sub_view cipher t sid = Some r \<longleftrightarrow> (\<exists>row. lookup p_id t sid = Some row \<and> pg_sub_row cipher row = r)"
  by (auto simp: table_view_def)

lemma pg_rotate_ok:
  assumes "pg_subs_inv cipher t" and "pg_sub_view cipher t sid = Some r" and "grace_until (en_now env) grace = Inr until"
  shows "\<exists>t' m. pg_rotate_secret cipher env sid grace secret t = (Inr m, t') \<and> pg_subs_inv cipher t' \<and>
    sec_current m = secret_or secret (en_token env) \<and> sec_previous m = Some (su_secret (row_sub r)) \<and>
    sec_previous_expires_at m = Some until \<and>
    pg_sub_view cipher t' = (pg_sub_view cipher t)(sid \<mapsto> rotated (secret_or secret (en_token env)) until r)"
proof -
  let ?new = "secret_or secret (en_token env)"
  let ?f = "\<lambda>row. row\<lparr>p_previous_secret := Some (p_secret row), p_previous_expires_at := Some until, p_secret := fst cipher ?new\<rparr>"
  have c: "snd cipher (fst cipher x) = x" for x using assms(1) by (simp add: pg_subs_inv_def cipher_ok_def)
  have good: "pg_sub_good (?f row)" "pg_sub_row cipher (?f row) = rotated ?new until (pg_sub_row cipher row)"
    if "pg_sub_good row" for row
    using that c by (auto simp: pg_sub_good_def pg_sub_row_def pg_row_to_sub_def rotated_def)
  let ?t = "update_where (\<lambda>row. p_id row = sid) ?f t"
  have u: "pg_subs_inv cipher ?t" "pg_sub_view cipher ?t = (pg_sub_view cipher t)(sid \<mapsto> rotated ?new until r)"
    using pg_subs_update [OF assms(1), of ?f "rotated ?new until" sid] good assms(2) by simp_all
  then obtain row where row: "lookup p_id ?t sid = Some row" "pg_sub_row cipher row = rotated ?new until r"
    using pg_lookup_row [of cipher ?t sid] by auto
  then have "pg_material cipher row = material_of (rotated ?new until r)"
    using lookup_SomeD [OF row(1)] u(1) pg_row_read(7) [of row cipher] by (auto simp: pg_subs_inv_def)
  then show ?thesis using u row(1) assms(3)
    by (simp add: pg_rotate_secret_def Let_def material_of_def rotated_def)
qed

lemma pg_create_ok:
  assumes "pg_subs_inv cipher t" and "resolve_ip (en_getaddrinfo env) url = Inr ip"
    and "pg_sub_view cipher t (en_uuid env) = None"
  shows "\<exists>t'. pg_sub_create cipher env owner url events secret t = (Inr (new_subscription env ip owner url events secret), t') \<and>
    pg_subs_inv cipher t' \<and> pg_sub_view cipher t' = (pg_sub_view cipher t)(en_uuid env \<mapsto>
      SubRow (new_subscription env ip owner url events secret) None)"
proof -
  let ?sub = "new_subscription env ip owner url events secret"
  let ?row = "\<lparr>p_id = su_id ?sub, p_owner_id = owner, p_url = url, p_secret = fst cipher (su_secret ?sub), p_events = events,
      p_status = subscription_status_value ACTIVE, p_created_at = en_now env, p_resolved_ip = ip,
      p_previous_secret = None, p_previous_expires_at = None\<rparr>"
  have new: "su_id ?sub \<notin> p_id ` set t" using assms(3) by (simp add: table_view_def lookup_None)
  have c: "snd cipher (fst cipher x) = x" for x using assms(1) by (simp add: pg_subs_inv_def cipher_ok_def)
  have status: "subscription_status_of (subscription_status_value ACTIVE) = Inr ACTIVE" by (rule subscription_status_of_value)
  have row: "pg_sub_row cipher ?row = SubRow ?sub None"
    using c status by (simp add: pg_sub_row_def pg_row_to_sub_def new_subscription_def del: subscription_status_value.simps)
  have good: "pg_sub_good ?row" unfolding pg_sub_good_def by (simp del: subscription_status_value.simps)
  have "pg_subs_inv cipher (t @ [?row])" using assms(1) new good by (simp add: pg_subs_inv_def)
  moreover have "pg_sub_view cipher (t @ [?row]) = (pg_sub_view cipher t)(en_uuid env \<mapsto> SubRow ?sub None)"
    using sub_table_insert(2) [OF pg_sub_table [OF assms(1)], of ?row] assms(3) row by simp
  ultimately show ?thesis using assms(2) new by (simp add: pg_sub_create_def Let_def)
qed

interpretation pg_sub: subscription_contract "pg_subs cipher" "pg_sub_view cipher" "pg_subs_inv cipher" "\<lambda>t. t" "\<lambda>_. True"
  for cipher
proof (unfold_locales, goal_cases)
  case (1 s sid r)
  then show ?case using sub_table_id pg_sub_table by blast
next
  case (2 s sid)
  then show ?case using lookup_SomeD [of p_id s sid]
    by (auto simp: pg_subs_def pg_sub_get_def table_view_def pg_subs_inv_def pg_row_read(1) split: option.split)
next
  case prems: (3 s owner)
  have rows: "map_exc (pg_row_to_sub cipher) (filter (\<lambda>row. p_owner_id row = owner) s) =
      Inr (map (\<lambda>row. row_sub (pg_sub_row cipher row)) (filter (\<lambda>row. p_owner_id row = owner) s))"
    using prems by (intro map_exc_Inr pg_row_read(1)) (auto simp: pg_subs_inv_def)
  have "p_owner_id r = owner \<longleftrightarrow> su_owner_id (row_sub (pg_sub_row cipher r)) = owner" if "r \<in> set s" for r
    using prems that by (simp add: pg_subs_inv_def pg_row_read)
  from sub_table_subs [OF pg_sub_table [OF prems], of "\<lambda>row. p_owner_id row = owner" "\<lambda>sub. su_owner_id sub = owner", OF this]
  show ?case using rows by (simp add: pg_subs_def pg_list_for_owner_def)
next
  case prems: (4 s event tenant)
  let ?P = "\<lambda>row. event \<in> set (p_events row) \<and> p_status row = subscription_status_value ACTIVE \<and>
          (case tenant of None \<Rightarrow> True | Some owner \<Rightarrow> p_owner_id row = owner)"
  have "?P r \<longleftrightarrow> interested event tenant (row_sub (pg_sub_row cipher r))" if "r \<in> set s" for r
    using prems that pg_row_read(3,4) [of r cipher] subscription_status_inject [of "su_status (row_sub (pg_sub_row cipher r))" ACTIVE]
    unfolding interested_def pg_subs_inv_def by (metis pg_row_read(6))
  from sub_table_snapshots [OF pg_sub_table [OF prems], of ?P "interested event tenant", OF this]
  show ?case using prems pg_row_read(8)
    by (simp add: pg_subs_def pg_for_event_def pg_subs_inv_def)
next
  case (5 s sid)
  then show ?case using lookup_SomeD [of p_id s sid]
    by (auto simp: pg_subs_def pg_get_secret_def table_view_def pg_subs_inv_def pg_row_read(7) split: option.split)
next
  case prems: 6
  have "x\<lparr>su_created_at := t\<rparr> = x" if "t = su_created_at x" for x :: Subscription and t using that by simp
  then show ?case using pg_create_ok [OF prems(1-3)] by (simp add: pg_subs_def new_subscription_def)
next
  case (7 env url e owner events secret s)
  then show ?case by (simp add: pg_subs_def pg_sub_create_def)
next
  case (8 s sid)
  then show ?case using sub_table_delete [OF pg_sub_table, of cipher s sid]
    by (auto simp: pg_subs_def pg_sub_delete_def pg_subs_inv_def distinct_map_filter sub_table_present [where proj = "pg_sub_row cipher"])
next
  case (9 s sid)
  then show ?case using pg_set_status_ok [of cipher s sid PAUSED] by (simp add: pg_subs_def)
next
  case (10 s sid)
  then show ?case using pg_set_status_ok [of cipher s sid ACTIVE] by (simp add: pg_subs_def)
next
  case prems: 11
  from pg_rotate_ok [OF prems(1-3)] show ?case by (auto simp: pg_subs_def)
next
  case prems: 12
  then show ?case
    by (auto simp: pg_subs_def pg_rotate_secret_def table_view_def Let_def update_absent split: sum.split)
qed

section \<open>Properties\<close>

definition pg_subs_reachable :: "SecretCipher \<Rightarrow> PgSub list \<Rightarrow> bool" where
  "pg_subs_reachable cipher t \<longleftrightarrow> (\<exists>es. sub_run (pg_subs cipher) (\<lambda>_. True) [] es t)"

lemma pg_subs_reachable_inv:
  assumes "cipher_ok cipher" and "pg_subs_reachable cipher t"
  shows "pg_subs_inv cipher t"
proof -
  have "pg_subs_inv cipher []" using assms(1) by (simp add: pg_subs_inv_def)
  then show ?thesis using pg_sub.run_inv assms(2) unfolding pg_subs_reachable_def by blast
qed

text \<open>
  A paused subscription is silent until it is resumed. After a pause, and whatever else is
  done through the interface except resuming it, the subscription is in no answer of
  \<open>for_event\<close>, of any event and any tenant.
\<close>

theorem pg_paused_is_silent:
  assumes "cipher_ok cipher" and "pg_subs_reachable cipher t"
    and "pg_set_status sid PAUSED t = (Inr b, t1)"
    and "sub_run (pg_subs cipher) (\<lambda>_. True) t1 es t2" and "Resumed sid \<notin> set es" and "Created sid \<notin> set es"
    and "pg_for_event event tenant t2 = (Inr snaps, t3)"
  shows "sid \<notin> sub_id ` set snaps"
proof -
  have inv: "pg_subs_inv cipher t" using pg_subs_reachable_inv [OF assms(1,2)] .
  have "pg_subs_inv cipher t1 \<and> pg_sub_view cipher t1 = (pg_sub_view cipher t)(sid := map_option (with_status PAUSED) (pg_sub_view cipher t sid))"
    using pg_set_status_ok [OF inv, of sid PAUSED] assms(3) by auto
  then have "pg_subs_inv cipher t1" "silent (pg_sub_view cipher t1) sid"
    by (simp_all add: silent_def split: option.split)
  with pg_sub.silence [OF assms(4) _ _ assms(5,6)] have "pg_subs_inv cipher t2" "silent (pg_sub_view cipher t2) sid" by auto
  then show ?thesis using pg_sub.silent_gets_nothing assms(7) by (simp add: pg_subs_def)
qed

text \<open>
  A rotation is a window. After \<open>rotate_secret\<close> with \<open>g\<close> seconds of grace, and whatever else
  is done short of another rotation or a deletion, the material read for a delivery has the new
  secret as the current one, and the one from before as the previous one, which counts strictly
  before \<open>now + g\<close> and never after; both went through the cipher and the table.
\<close>

theorem pg_rotation_window:
  assumes "cipher_ok cipher" and "pg_subs_reachable cipher t" and "en_token env \<noteq> []"
    and "pg_get_secret cipher sid t = (Inr m, t0)" and "pg_rotate_secret cipher env sid g secret t = (Inr m1, t1)"
    and "sub_run (pg_subs cipher) (\<lambda>_. True) t1 es t2" and "Rotated sid \<notin> set es" and "Deleted sid \<notin> set es"
  shows "\<exists>m2. pg_get_secret cipher sid t2 = (Inr m2, t2) \<and> sec_current m2 = secret_or secret (en_token env) \<and>
    previous_at m2 now = (if now < en_now env + seconds g then Some (sec_current m) else None)"
  using pg_sub.rotation_grace [OF pg_subs_reachable_inv [OF assms(1,2)] assms(3) TrueI _ _ assms(6-8), where secret = secret and g = g]
    assms(4,5)
  by (simp add: pg_subs_def)

definition sample_cipher :: SecretCipher where
  "sample_cipher = (rev, rev)"

definition sample_pg_subs :: "PgSub list" where
  "sample_pg_subs = snd (pg_sub_create sample_cipher sample_env ''o1'' ''https://a.example/hook'' [''order.paid''] None [])"

lemma sample_cipher_ok: "cipher_ok sample_cipher"
  by (simp add: cipher_ok_def sample_cipher_def)

lemma sample_pg_subs_reachable: "pg_subs_reachable sample_cipher sample_pg_subs"
proof -
  have "pg_sub_create sample_cipher sample_env ''o1'' ''https://a.example/hook'' [''order.paid''] None [] =
      (Inr (new_subscription sample_env ''1.1.1.1'' ''o1'' ''https://a.example/hook'' [''order.paid''] None), sample_pg_subs)"
    by (simp add: sample_pg_subs_def pg_sub_create_def sample_resolve Let_def)
  then have "sub_step (pg_subs sample_cipher) (\<lambda>_. True) (Created (en_uuid sample_env)) [] sample_pg_subs"
    by (intro sub_create [of _ _ _ _ None]) (simp_all add: pg_subs_def pg_sub_get_def)
  from sub_run_Cons [OF this sub_run_Nil] show ?thesis unfolding pg_subs_reachable_def by (rule exI)
qed

theorem pg_paused_is_silent_witness:
  "\<exists>t1 snaps t3. pg_set_status ''s1'' PAUSED sample_pg_subs = (Inr True, t1) \<and>
     pg_for_event ''order.paid'' None t1 = (Inr snaps, t3) \<and> ''s1'' \<notin> sub_id ` set snaps"
proof -
  obtain t1 where p: "pg_set_status ''s1'' PAUSED sample_pg_subs = (Inr True, t1)"
    by (simp add: pg_set_status_def sample_pg_subs_def pg_sub_create_def sample_resolve Let_def)
  obtain snaps t3 where f: "pg_for_event ''order.paid'' None t1 = (Inr snaps, t3)" by (simp add: pg_for_event_def)
  from pg_paused_is_silent [OF sample_cipher_ok sample_pg_subs_reachable p sub_run_Nil _ _ f] p f show ?thesis by simp
qed

theorem pg_rotation_window_witness:
  "\<exists>m1 t1 m2. pg_rotate_secret sample_cipher sample_env ''s1'' 60 (Some ''fresh'') sample_pg_subs = (Inr m1, t1) \<and>
     pg_get_secret sample_cipher ''s1'' t1 = (Inr m2, t1) \<and> sec_current m2 = ''fresh'' \<and>
     previous_at m2 59000000 = Some ''0a'' \<and> previous_at m2 60005000 = None"
proof -
  obtain m1 t1 where r: "pg_rotate_secret sample_cipher sample_env ''s1'' 60 (Some ''fresh'') sample_pg_subs = (Inr m1, t1)"
    by (simp add: pg_rotate_secret_def sample_pg_subs_def pg_sub_create_def sample_resolve Let_def grace_until_def
        lookup_def update_where_def valid_instant_def seconds_def)
  have m: "pg_get_secret sample_cipher ''s1'' sample_pg_subs =
      (Inr \<lparr>sec_current = ''0a'', sec_previous = None, sec_previous_expires_at = None\<rparr>, sample_pg_subs)"
    by (simp add: pg_get_secret_def sample_pg_subs_def pg_sub_create_def sample_resolve Let_def lookup_def
        pg_material_def sample_cipher_def new_subscription_def secret_or_def)
  have w: "\<exists>m2. pg_get_secret sample_cipher ''s1'' t1 = (Inr m2, t1) \<and> sec_current m2 = ''fresh'' \<and>
      previous_at m2 now = (if now < 60005000 then Some ''0a'' else None)" for now
    using pg_rotation_window [OF sample_cipher_ok sample_pg_subs_reachable _ m r sub_run_Nil, of now]
    by (auto simp: secret_or_def seconds_def split: if_split)
  from w [of 59000000] w [of 60005000] r show ?thesis by auto
qed

end
