(* ===== verification/MongoSubs.thy ===== *)
theory MongoSubs
  imports SubscriptionStore MongoStore
begin

text \<open>
  Subscriptions in MongoDB (\<open>service/subscription_mongo.py\<close>): one collection, one document per
  subscription, instants cut to milliseconds. A rotation is an aggregation pipeline, in which a
  string that begins with a dollar is a field path and not itself; what the server makes of such
  a string is the parameter \<open>path\<close>: a text, nothing, or an error.
\<close>

section \<open>Documents\<close>

record MongoSub =
  ms_id :: string
  ms_owner_id :: string
  ms_url :: string
  ms_secret :: "string option"
  ms_events :: "string list option"
  ms_status :: string
  ms_created_at :: time
  ms_resolved_ip :: string
  ms_previous_secret :: "string option"
  ms_previous_expires_at :: "time option"

definition mongo_sub_indexes :: "(string \<times> (string \<times> direction) list) list" where
  "mongo_sub_indexes =
     [(''owner_id_1'', [(''owner_id'', ASCENDING)]), (''events_1'', [(''events'', ASCENDING)]),
      (''status_1'', [(''status'', ASCENDING)])]"

definition doc_secret :: "MongoSub \<Rightarrow> exc + string" where
  "doc_secret d = (case ms_secret d of None \<Rightarrow> Inl (KeyError ''secret'') | Some s \<Rightarrow> Inr s)"

definition doc_to_sub :: "MongoSub \<Rightarrow> exc + Subscription" where
  "doc_to_sub d =
     (case doc_secret d of
        Inl e \<Rightarrow> Inl e
      | Inr secret \<Rightarrow> (case subscription_status_of (ms_status d) of
          Inl e \<Rightarrow> Inl e
        | Inr st \<Rightarrow> Inr
            \<lparr>su_id = ms_id d, su_owner_id = ms_owner_id d, su_url = ms_url d, su_secret = secret,
             su_events = (case ms_events d of None \<Rightarrow> [] | Some es \<Rightarrow> es), su_status = st,
             su_created_at = ms_created_at d, su_resolved_ip = ms_resolved_ip d\<rparr>))"

definition mongo_material :: "MongoSub \<Rightarrow> exc + SecretMaterial" where
  "mongo_material d =
     (case doc_secret d of
        Inl e \<Rightarrow> Inl e
      | Inr secret \<Rightarrow> Inr \<lparr>sec_current = secret, sec_previous = ms_previous_secret d,
          sec_previous_expires_at = ms_previous_expires_at d\<rparr>)"

section \<open>The operations\<close>

definition mongo_for_event :: "string \<Rightarrow> string option \<Rightarrow> (exc, MongoSub list, SubscriptionSnapshot list) comp" where
  "mongo_for_event event tenant = (\<lambda>col.
     (Inr (map (\<lambda>d. \<lparr>sub_id = ms_id d, sub_owner_id = ms_owner_id d, sub_url = ms_url d,
                      sub_resolved_ip = ms_resolved_ip d, sub_retry_overrides = None\<rparr>)
       (filter (\<lambda>d. (case ms_events d of None \<Rightarrow> False | Some es \<Rightarrow> event \<in> set es) \<and>
          ms_status d = subscription_status_value ACTIVE \<and>
          (case tenant of None \<Rightarrow> True | Some owner \<Rightarrow> ms_owner_id d = owner)) col)), col))"

definition mongo_get_secret :: "string \<Rightarrow> (exc, MongoSub list, SecretMaterial) comp" where
  "mongo_get_secret sid = (\<lambda>col.
     (case lookup ms_id col sid of None \<Rightarrow> Inl (not_found sid) | Some d \<Rightarrow> mongo_material d, col))"

text \<open>The value of a string in a pipeline, on one document.\<close>

definition is_path :: "string \<Rightarrow> bool" where
  "is_path s \<longleftrightarrow> (case s of [] \<Rightarrow> False | c # _ \<Rightarrow> c = CHR ''$'')"

definition pipeline_string ::
  "(string \<Rightarrow> MongoSub \<Rightarrow> exc + string option) \<Rightarrow> string \<Rightarrow> MongoSub \<Rightarrow> exc + string option" where
  "pipeline_string path s d = (if is_path s then path s d else Inr (Some s))"

definition mongo_rotate_secret ::
  "(string \<Rightarrow> MongoSub \<Rightarrow> exc + string option) \<Rightarrow> sub_env \<Rightarrow> string \<Rightarrow> int \<Rightarrow> string option \<Rightarrow>
   (exc, MongoSub list, SecretMaterial) comp" where
  "mongo_rotate_secret path env sid grace_s secret = (\<lambda>col.
     case grace_until (en_now env) grace_s of
       Inl e \<Rightarrow> (Inl e, col)
     | Inr until \<Rightarrow>
         (let new = secret_or secret (en_token env)
          in case lookup ms_id col sid of
               None \<Rightarrow> (Inl (not_found sid), col)
             | Some d \<Rightarrow> (case pipeline_string path new d of
                 Inl e \<Rightarrow> (Inl e, col)
               | Inr v \<Rightarrow>
                   (let d' = d\<lparr>ms_previous_secret := ms_secret d, ms_previous_expires_at := Some (bson_ms until),
                               ms_secret := v\<rparr>
                    in (mongo_material d', update_where (\<lambda>x. ms_id x = sid) (\<lambda>_. d') col)))))"

definition mongo_sub_create ::
  "sub_env \<Rightarrow> string \<Rightarrow> string \<Rightarrow> string list \<Rightarrow> string option \<Rightarrow> (exc, MongoSub list, Subscription) comp" where
  "mongo_sub_create env owner url events secret = (\<lambda>col.
     case resolve_ip (en_getaddrinfo env) url of
       Inl e \<Rightarrow> (Inl e, col)
     | Inr ip \<Rightarrow>
         (let sub = new_subscription env ip owner url events secret
          in if su_id sub \<in> ms_id ` set col then (Inl (Other ''DuplicateKeyError'' ''duplicate key''), col)
             else (Inr sub, col @ [\<lparr>ms_id = su_id sub, ms_owner_id = owner, ms_url = url,
                    ms_secret = Some (su_secret sub), ms_events = Some events,
                    ms_status = subscription_status_value ACTIVE, ms_created_at = bson_ms (en_now env),
                    ms_resolved_ip = ip, ms_previous_secret = None, ms_previous_expires_at = None\<rparr>])))"

definition mongo_sub_get :: "string \<Rightarrow> (exc, MongoSub list, Subscription option) comp" where
  "mongo_sub_get sid = (\<lambda>col.
     (case lookup ms_id col sid of
        None \<Rightarrow> Inr None
      | Some d \<Rightarrow> (case doc_to_sub d of Inl e \<Rightarrow> Inl e | Inr sub \<Rightarrow> Inr (Some sub)), col))"

definition mongo_list_for_owner :: "string \<Rightarrow> (exc, MongoSub list, Subscription list) comp" where
  "mongo_list_for_owner owner = (\<lambda>col.
     (map_exc doc_to_sub (filter (\<lambda>d. ms_owner_id d = owner) col), col))"

text \<open>\<open>delete_one\<close> and \<open>update_one\<close> of the document with an \<open>_id\<close>, which is unique.\<close>

definition mongo_sub_delete :: "string \<Rightarrow> (exc, MongoSub list, bool) comp" where
  "mongo_sub_delete sid = (\<lambda>col.
     (Inr (filter (\<lambda>d. ms_id d = sid) col \<noteq> []), filter (\<lambda>d. ms_id d \<noteq> sid) col))"

definition mongo_set_status :: "string \<Rightarrow> SubscriptionStatus \<Rightarrow> (exc, MongoSub list, bool) comp" where
  "mongo_set_status sid st = (\<lambda>col.
     (Inr (filter (\<lambda>d. ms_id d = sid) col \<noteq> []),
      update_where (\<lambda>d. ms_id d = sid) (\<lambda>d. d\<lparr>ms_status := subscription_status_value st\<rparr>) col))"

definition mongo_subs :: "(string \<Rightarrow> MongoSub \<Rightarrow> exc + string option) \<Rightarrow> MongoSub list subscription_store" where
  "mongo_subs path =
     \<lparr>ss_for_event = mongo_for_event, ss_get_secret = mongo_get_secret, ss_rotate_secret = mongo_rotate_secret path,
      ss_create = mongo_sub_create, ss_get = mongo_sub_get, ss_list_for_owner = mongo_list_for_owner,
      ss_delete = mongo_sub_delete, ss_pause = (\<lambda>sid. mongo_set_status sid PAUSED),
      ss_resume = (\<lambda>sid. mongo_set_status sid ACTIVE)\<rparr>"

section \<open>The operations meet the contract\<close>

text \<open>For the secrets that are not field paths.\<close>

definition literal_secret :: "string \<Rightarrow> bool" where
  "literal_secret s \<longleftrightarrow> \<not> is_path s"

definition doc_row :: "MongoSub \<Rightarrow> sub_row" where
  "doc_row d = SubRow
     (case doc_to_sub d of Inr sub \<Rightarrow> sub
      | Inl _ \<Rightarrow> \<lparr>su_id = ms_id d, su_owner_id = [], su_url = [], su_secret = [], su_events = [],
                  su_status = DELETED, su_created_at = 0, su_resolved_ip = []\<rparr>)
     (case (ms_previous_secret d, ms_previous_expires_at d) of (Some p, Some t) \<Rightarrow> Some (p, t) | _ \<Rightarrow> None)"

abbreviation mongo_sub_view :: "MongoSub list \<Rightarrow> sub_view" where
  "mongo_sub_view \<equiv> table_view ms_id doc_row"

definition mongo_sub_good :: "MongoSub \<Rightarrow> bool" where
  "mongo_sub_good d \<longleftrightarrow> (\<exists>st. ms_status d = subscription_status_value st) \<and> ms_secret d \<noteq> None \<and> ms_events d \<noteq> None \<and>
     (ms_previous_secret d = None \<longleftrightarrow> ms_previous_expires_at d = None)"

definition mongo_subs_inv :: "MongoSub list \<Rightarrow> bool" where
  "mongo_subs_inv col \<longleftrightarrow> distinct (map ms_id col) \<and> (\<forall>d \<in> set col. mongo_sub_good d)"

lemma doc_row_read:
  assumes "mongo_sub_good d"
  shows "doc_to_sub d = Inr (row_sub (doc_row d))"
    "su_id (row_sub (doc_row d)) = ms_id d"
    "su_owner_id (row_sub (doc_row d)) = ms_owner_id d"
    "ms_events d = Some (su_events (row_sub (doc_row d)))"
    "ms_status d = subscription_status_value (su_status (row_sub (doc_row d)))"
    "mongo_material d = Inr (material_of (doc_row d))"
    "snapshot_of (row_sub (doc_row d)) = \<lparr>sub_id = ms_id d, sub_owner_id = ms_owner_id d, sub_url = ms_url d,
       sub_resolved_ip = ms_resolved_ip d, sub_retry_overrides = None\<rparr>"
proof -
  obtain st s es where st: "ms_status d = subscription_status_value st" "ms_secret d = Some s" "ms_events d = Some es"
    "ms_previous_secret d = None \<longleftrightarrow> ms_previous_expires_at d = None"
    using assms by (auto simp: mongo_sub_good_def)
  have sub: "doc_to_sub d = Inr \<lparr>su_id = ms_id d, su_owner_id = ms_owner_id d, su_url = ms_url d, su_secret = s,
      su_events = es, su_status = st, su_created_at = ms_created_at d, su_resolved_ip = ms_resolved_ip d\<rparr>"
    using st by (simp add: doc_to_sub_def doc_secret_def)
  show "doc_to_sub d = Inr (row_sub (doc_row d))"
    "su_id (row_sub (doc_row d)) = ms_id d"
    "su_owner_id (row_sub (doc_row d)) = ms_owner_id d"
    "ms_events d = Some (su_events (row_sub (doc_row d)))"
    "ms_status d = subscription_status_value (su_status (row_sub (doc_row d)))"
    "snapshot_of (row_sub (doc_row d)) = \<lparr>sub_id = ms_id d, sub_owner_id = ms_owner_id d, sub_url = ms_url d,
       sub_resolved_ip = ms_resolved_ip d, sub_retry_overrides = None\<rparr>"
    using st by (simp_all add: doc_row_def sub snapshot_of_def)
  show "mongo_material d = Inr (material_of (doc_row d))"
    using st by (auto simp: doc_row_def sub mongo_material_def doc_secret_def material_of_def split: option.splits)
qed

lemma mongo_sub_table: "mongo_subs_inv col \<Longrightarrow> sub_table_ok ms_id doc_row col"
  by (auto simp: mongo_subs_inv_def sub_table_ok_def doc_row_read)

lemma mongo_subs_update:
  assumes "mongo_subs_inv col" and "\<And>d. ms_id d = sid \<Longrightarrow> ms_id (f d) = sid"
    and "\<And>d. d \<in> set col \<Longrightarrow> ms_id d = sid \<Longrightarrow> mongo_sub_good (f d)"
    and "\<And>d. d \<in> set col \<Longrightarrow> ms_id d = sid \<Longrightarrow> doc_row (f d) = g (doc_row d)"
    and "\<And>r. su_id (row_sub (g r)) = su_id (row_sub r)"
  shows "mongo_subs_inv (update_where (\<lambda>d. ms_id d = sid) f col)"
    "mongo_sub_view (update_where (\<lambda>d. ms_id d = sid) f col) = (mongo_sub_view col)(sid := map_option g (mongo_sub_view col sid))"
proof -
  let ?f = "\<lambda>d. if ms_id d = sid then f d else d"
  have eq: "update_where (\<lambda>d. ms_id d = sid) f col = update_where (\<lambda>d. ms_id d = sid) ?f col"
    by (simp add: update_where_def)
  have key: "ms_id (?f d) = ms_id d" for d using assms(2) by auto
  show "mongo_subs_inv (update_where (\<lambda>d. ms_id d = sid) f col)"
    unfolding eq using assms(1,3) key by (auto simp: mongo_subs_inv_def keys_update set_update_where)
  show "mongo_sub_view (update_where (\<lambda>d. ms_id d = sid) f col) = (mongo_sub_view col)(sid := map_option g (mongo_sub_view col sid))"
    unfolding eq using sub_table_update(2) [OF mongo_sub_table [OF assms(1)], of ?f sid g, OF key _ assms(5)] assms(4) by simp
qed

lemma mongo_set_status_ok:
  assumes "mongo_subs_inv col"
  shows "\<exists>col'. mongo_set_status sid st col = (Inr (mongo_sub_view col sid \<noteq> None), col') \<and> mongo_subs_inv col' \<and>
    mongo_sub_view col' = (mongo_sub_view col)(sid := map_option (with_status st) (mongo_sub_view col sid))"
proof -
  let ?f = "\<lambda>d. d\<lparr>ms_status := subscription_status_value st\<rparr>"
  have good: "mongo_sub_good (?f d)" "doc_row (?f d) = with_status st (doc_row d)" if "mongo_sub_good d" for d
    using that by (auto simp: mongo_sub_good_def doc_row_def doc_to_sub_def doc_secret_def with_status_def split: option.splits)
  have "d \<in> set col \<Longrightarrow> mongo_sub_good d" for d using assms by (simp add: mongo_subs_inv_def)
  with good mongo_subs_update [OF assms, of sid ?f "with_status st"]
  show ?thesis by (simp add: mongo_set_status_def sub_table_present [where proj = doc_row])
qed

lemma mongo_rotate_ok:
  assumes "mongo_subs_inv col" and "mongo_sub_view col sid = Some r" and "grace_until (en_now env) grace = Inr until"
    and "literal_secret (secret_or secret (en_token env))"
  shows "\<exists>col' m. mongo_rotate_secret path env sid grace secret col = (Inr m, col') \<and> mongo_subs_inv col' \<and>
    sec_current m = secret_or secret (en_token env) \<and> sec_previous m = Some (su_secret (row_sub r)) \<and>
    sec_previous_expires_at m = Some (bson_ms until) \<and>
    mongo_sub_view col' = (mongo_sub_view col)(sid \<mapsto> rotated (secret_or secret (en_token env)) (bson_ms until) r)"
proof -
  let ?new = "secret_or secret (en_token env)"
  obtain d where d: "lookup ms_id col sid = Some d" "doc_row d = r" using assms(2) by (auto simp: table_view_def)
  then have in_col: "d \<in> set col" "ms_id d = sid" using lookup_SomeD [OF d(1)] by auto
  then have good: "mongo_sub_good d" using assms(1) by (simp add: mongo_subs_inv_def)
  let ?d = "d\<lparr>ms_previous_secret := ms_secret d, ms_previous_expires_at := Some (bson_ms until), ms_secret := Some ?new\<rparr>"
  have d': "mongo_sub_good ?d" "doc_row ?d = rotated ?new (bson_ms until) r"
    using good by (auto simp: mongo_sub_good_def doc_row_def doc_to_sub_def doc_secret_def rotated_def simp flip: d(2))
  have only: "x = d" if "x \<in> set col" "ms_id x = sid" for x
    using assms(1) that in_col unfolding mongo_subs_inv_def distinct_map inj_on_def by blast
  have "mongo_subs_inv (update_where (\<lambda>x. ms_id x = sid) (\<lambda>_. ?d) col)"
    "mongo_sub_view (update_where (\<lambda>x. ms_id x = sid) (\<lambda>_. ?d) col) = (mongo_sub_view col)(sid \<mapsto> rotated ?new (bson_ms until) r)"
  proof -
    have 1: "ms_id ?d = sid" using in_col(2) by simp
    have 2: "doc_row ?d = rotated ?new (bson_ms until) (doc_row x)" if "x \<in> set col" "ms_id x = sid" for x
      using only [OF that] d'(2) d(2) by simp
    note u = mongo_subs_update [OF assms(1), of sid "\<lambda>_. ?d" "rotated ?new (bson_ms until)", OF 1 d'(1) 2 row_simps(2)]
    from u(1) show "mongo_subs_inv (update_where (\<lambda>x. ms_id x = sid) (\<lambda>_. ?d) col)" .
    from u(2) show "mongo_sub_view (update_where (\<lambda>x. ms_id x = sid) (\<lambda>_. ?d) col) =
      (mongo_sub_view col)(sid \<mapsto> rotated ?new (bson_ms until) r)" using assms(2) by simp
  qed
  moreover have "pipeline_string path ?new d = Inr (Some ?new)"
    using assms(4) by (simp add: pipeline_string_def literal_secret_def)
  ultimately show ?thesis
    using d(1) assms(3) doc_row_read(6) [OF d'(1)] d'(2)
    by (simp add: mongo_rotate_secret_def Let_def material_of_def rotated_def)
qed

lemma mongo_create_ok:
  assumes "mongo_subs_inv col" and "resolve_ip (en_getaddrinfo env) url = Inr ip"
    and "mongo_sub_view col (en_uuid env) = None"
  shows "\<exists>col'. mongo_sub_create env owner url events secret col = (Inr (new_subscription env ip owner url events secret), col') \<and>
    mongo_subs_inv col' \<and> mongo_sub_view col' = (mongo_sub_view col)(en_uuid env \<mapsto>
      SubRow ((new_subscription env ip owner url events secret)\<lparr>su_created_at := bson_ms (en_now env)\<rparr>) None)"
proof -
  let ?sub = "new_subscription env ip owner url events secret"
  let ?d = "\<lparr>ms_id = su_id ?sub, ms_owner_id = owner, ms_url = url, ms_secret = Some (su_secret ?sub), ms_events = Some events,
      ms_status = subscription_status_value ACTIVE, ms_created_at = bson_ms (en_now env), ms_resolved_ip = ip,
      ms_previous_secret = None, ms_previous_expires_at = None\<rparr>"
  have new: "su_id ?sub \<notin> ms_id ` set col" using assms(3) by (simp add: table_view_def lookup_None)
  have status: "subscription_status_of (subscription_status_value ACTIVE) = Inr ACTIVE" by (rule subscription_status_of_value)
  have row: "doc_row ?d = SubRow (?sub\<lparr>su_created_at := bson_ms (en_now env)\<rparr>) None"
    using status by (simp add: doc_row_def doc_to_sub_def doc_secret_def new_subscription_def del: subscription_status_value.simps)
  have good: "mongo_sub_good ?d" unfolding mongo_sub_good_def by (simp del: subscription_status_value.simps)
  have "mongo_subs_inv (col @ [?d])" using assms(1) new good by (simp add: mongo_subs_inv_def)
  moreover have "mongo_sub_view (col @ [?d]) = (mongo_sub_view col)(en_uuid env \<mapsto>
      SubRow (?sub\<lparr>su_created_at := bson_ms (en_now env)\<rparr>) None)"
    using sub_table_insert(2) [OF mongo_sub_table [OF assms(1)], of ?d] assms(3) row by simp
  ultimately show ?thesis using assms(2) new by (simp add: mongo_sub_create_def Let_def)
qed

interpretation mongo_sub: subscription_contract "mongo_subs path" mongo_sub_view mongo_subs_inv bson_ms literal_secret
  for path
proof (unfold_locales, goal_cases)
  case (1 s sid r)
  then show ?case using sub_table_id mongo_sub_table by blast
next
  case (2 s sid)
  then show ?case using lookup_SomeD [of ms_id s sid]
    by (auto simp: mongo_subs_def mongo_sub_get_def table_view_def mongo_subs_inv_def doc_row_read(1) split: option.split)
next
  case prems: (3 s owner)
  have rows: "map_exc doc_to_sub (filter (\<lambda>d. ms_owner_id d = owner) s) =
      Inr (map (\<lambda>d. row_sub (doc_row d)) (filter (\<lambda>d. ms_owner_id d = owner) s))"
    using prems by (intro map_exc_Inr doc_row_read(1)) (auto simp: mongo_subs_inv_def)
  have "ms_owner_id d = owner \<longleftrightarrow> su_owner_id (row_sub (doc_row d)) = owner" if "d \<in> set s" for d
    using prems that by (simp add: mongo_subs_inv_def doc_row_read)
  from sub_table_subs [OF mongo_sub_table [OF prems], of "\<lambda>d. ms_owner_id d = owner" "\<lambda>sub. su_owner_id sub = owner", OF this]
  show ?case using rows by (simp add: mongo_subs_def mongo_list_for_owner_def)
next
  case prems: (4 s event tenant)
  let ?P = "\<lambda>d. (case ms_events d of None \<Rightarrow> False | Some es \<Rightarrow> event \<in> set es) \<and>
          ms_status d = subscription_status_value ACTIVE \<and>
          (case tenant of None \<Rightarrow> True | Some owner \<Rightarrow> ms_owner_id d = owner)"
  have "?P d \<longleftrightarrow> interested event tenant (row_sub (doc_row d))" if "d \<in> set s" for d
  proof -
    have "mongo_sub_good d" using prems that by (simp add: mongo_subs_inv_def)
    note r = doc_row_read(3-5) [OF this]
    show ?thesis
      unfolding interested_def r(1) [symmetric] r(2,3) subscription_status_inject option.case by (rule conj_left_commute)
  qed
  from sub_table_snapshots [OF mongo_sub_table [OF prems], of ?P "interested event tenant", OF this]
  show ?case using prems doc_row_read(7)
    by (simp add: mongo_subs_def mongo_for_event_def mongo_subs_inv_def)
next
  case (5 s sid)
  then show ?case using lookup_SomeD [of ms_id s sid]
    by (auto simp: mongo_subs_def mongo_get_secret_def table_view_def mongo_subs_inv_def doc_row_read(6) split: option.split)
next
  case prems: 6
  then show ?case using mongo_create_ok [OF prems(1-3)] by (simp add: mongo_subs_def)
next
  case (7 env url e owner events secret s)
  then show ?case by (simp add: mongo_subs_def mongo_sub_create_def)
next
  case (8 s sid)
  then show ?case using sub_table_delete [OF mongo_sub_table, of s sid]
    by (auto simp: mongo_subs_def mongo_sub_delete_def mongo_subs_inv_def distinct_map_filter sub_table_present [where proj = doc_row])
next
  case (9 s sid)
  then show ?case using mongo_set_status_ok [of s sid PAUSED] by (simp add: mongo_subs_def)
next
  case (10 s sid)
  then show ?case using mongo_set_status_ok [of s sid ACTIVE] by (simp add: mongo_subs_def)
next
  case prems: 11
  from mongo_rotate_ok [OF prems(1-3,5), of path] show ?case by (auto simp: mongo_subs_def)
next
  case prems: 12
  then show ?case
    by (auto simp: mongo_subs_def mongo_rotate_secret_def table_view_def Let_def split: sum.split)
qed

section \<open>A secret that is a field path\<close>

text \<open>
  A custom secret that begins with a dollar is not taken literally. The documented meaning
  of \<open>''$owner_id''\<close> in a pipeline is the field's value, so a rotation to the text \<open>$owner_id\<close>
  goes through and leaves the owner's identifier, which is no secret, as the signing key; the
  caller is told so by the material it gets back, and every delivery reads that key.
\<close>

theorem mongo_dollar_secret:
  assumes "\<And>d. path ''$owner_id'' d = Inr (Some (ms_owner_id d))"
    and "lookup ms_id col sid = Some d" and "0 \<le> g" and "valid_instant (en_now env + seconds g)"
  shows "\<exists>m col'. mongo_rotate_secret path env sid g (Some ''$owner_id'') col = (Inr m, col') \<and>
    sec_current m = ms_owner_id d \<and> mongo_get_secret sid col' = (Inr m, col')"
proof -
  let ?d = "d\<lparr>ms_previous_secret := ms_secret d,
      ms_previous_expires_at := Some (bson_ms (en_now env + seconds g)), ms_secret := Some (ms_owner_id d)\<rparr>"
  let ?col = "update_where (\<lambda>x. ms_id x = sid) (\<lambda>_. ?d) col"
  have id: "ms_id d = sid" using lookup_SomeD [OF assms(2)] by simp
  have "pipeline_string path ''$owner_id'' d = Inr (Some (ms_owner_id d))"
    using assms(1) by (simp add: pipeline_string_def is_path_def)
  then have r: "mongo_rotate_secret path env sid g (Some ''$owner_id'') col = (mongo_material ?d, ?col)"
    using assms(2-4) by (simp add: mongo_rotate_secret_def grace_until_def secret_or_def Let_def)
  have "lookup ms_id ?col sid = Some ?d"
    using assms(2) id by (induction col) (auto simp: update_where_def lookup_def split: if_splits)
  then have "mongo_get_secret sid ?col = (mongo_material ?d, ?col)" by (simp add: mongo_get_secret_def)
  moreover have "mongo_material ?d = Inr \<lparr>sec_current = ms_owner_id d, sec_previous = ms_secret d,
      sec_previous_expires_at = Some (bson_ms (en_now env + seconds g))\<rparr>"
    by (simp add: mongo_material_def doc_secret_def)
  ultimately show ?thesis using r by simp
qed

definition sample_mongo_subs :: "MongoSub list" where
  "sample_mongo_subs = snd (mongo_sub_create sample_env ''o1'' ''https://a.example/hook'' [''order.paid''] None [])"

theorem mongo_dollar_secret_witness:
  "\<exists>m col'. mongo_rotate_secret (\<lambda>s d. Inr (if s = ''$owner_id'' then Some (ms_owner_id d) else None)) sample_env ''s1'' 60
      (Some ''$owner_id'') sample_mongo_subs = (Inr m, col') \<and>
    sec_current m = ''o1'' \<and> mongo_get_secret ''s1'' col' = (Inr m, col')"
proof -
  obtain d where d: "lookup ms_id sample_mongo_subs ''s1'' = Some d" "ms_owner_id d = ''o1''"
    by (simp add: sample_mongo_subs_def mongo_sub_create_def sample_resolve Let_def lookup_def)
  have "valid_instant (en_now sample_env + seconds 60)" by (simp add: valid_instant_def seconds_def)
  from mongo_dollar_secret [of "\<lambda>s d. Inr (if s = ''$owner_id'' then Some (ms_owner_id d) else None)", OF _ d(1) _ this] d(2)
  show ?thesis by simp
qed

end
