(* ===== verification/SubBackends.thy ===== *)
theory SubBackends
  imports RedisSubs PgSubs MongoSubs
begin

text \<open>
  The three subscription stores side by side: the service picks one by its settings, and what an
  event reaches must not depend on which. A script is a list of calls of the admin interface;
  what it should do is said once, on the subscriptions alone, and each store follows.
\<close>

section \<open>Scripts\<close>

datatype sub_call =
  CallCreate sub_env string string "string list" "string option"
| CallDelete string
| CallPause string
| CallResume string
| CallRotate sub_env string int "string option"

fun do_call :: "'s subscription_store \<Rightarrow> sub_call \<Rightarrow> 's \<Rightarrow> 's" where
  "do_call st (CallCreate env owner url events secret) s = snd (ss_create st env owner url events secret s)"
| "do_call st (CallDelete sid) s = snd (ss_delete st sid s)"
| "do_call st (CallPause sid) s = snd (ss_pause st sid s)"
| "do_call st (CallResume sid) s = snd (ss_resume st sid s)"
| "do_call st (CallRotate env sid grace secret) s = snd (ss_rotate_secret st env sid grace secret s)"

definition do_calls :: "'s subscription_store \<Rightarrow> sub_call list \<Rightarrow> 's \<Rightarrow> 's" where
  "do_calls st = fold (do_call st)"

section \<open>What a script does\<close>

text \<open>The subscriptions by id, without the instant of their creation.\<close>

type_synonym sub_core = "string \<Rightarrow> Subscription option"

definition core_sub :: "Subscription \<Rightarrow> Subscription" where
  "core_sub sub = sub\<lparr>su_created_at := 0\<rparr>"

definition core_of :: "sub_view \<Rightarrow> sub_core" where
  "core_of v = (\<lambda>sid. map_option (\<lambda>r. core_sub (row_sub r)) (v sid))"

fun spec_call :: "sub_call \<Rightarrow> sub_core \<Rightarrow> sub_core" where
  "spec_call (CallCreate env owner url events secret) v =
     (case resolve_ip (en_getaddrinfo env) url of
        Inl e \<Rightarrow> v
      | Inr ip \<Rightarrow> v(en_uuid env \<mapsto> core_sub (new_subscription env ip owner url events secret)))"
| "spec_call (CallDelete sid) v = v(sid := None)"
| "spec_call (CallPause sid) v = v(sid := map_option (\<lambda>sub. sub\<lparr>su_status := PAUSED\<rparr>) (v sid))"
| "spec_call (CallResume sid) v = v(sid := map_option (\<lambda>sub. sub\<lparr>su_status := ACTIVE\<rparr>) (v sid))"
| "spec_call (CallRotate env sid grace secret) v =
     (case grace_until (en_now env) grace of
        Inl e \<Rightarrow> v
      | Inr until \<Rightarrow> v(sid := map_option (\<lambda>sub. sub\<lparr>su_secret := secret_or secret (en_token env)\<rparr>) (v sid)))"

text \<open>
  A new subscription gets an unused id and the clock shows an instant; a random secret is not
  empty, a given one is allowed.
\<close>

fun call_ok :: "(string \<Rightarrow> bool) \<Rightarrow> sub_core \<Rightarrow> sub_call \<Rightarrow> bool" where
  "call_ok secret_ok v (CallCreate env owner url events secret) \<longleftrightarrow>
     v (en_uuid env) = None \<and> en_token env \<noteq> [] \<and> valid_instant (en_now env) \<and> secret_ok (secret_or secret (en_token env))"
| "call_ok secret_ok v (CallRotate env sid grace secret) \<longleftrightarrow>
     en_token env \<noteq> [] \<and> secret_ok (secret_or secret (en_token env))"
| "call_ok secret_ok v _ \<longleftrightarrow> True"

fun script_ok :: "(string \<Rightarrow> bool) \<Rightarrow> sub_core \<Rightarrow> sub_call list \<Rightarrow> bool" where
  "script_ok secret_ok v [] \<longleftrightarrow> True"
| "script_ok secret_ok v (c # cs) \<longleftrightarrow> call_ok secret_ok v c \<and> script_ok secret_ok (spec_call c v) cs"

definition reached :: "string \<Rightarrow> string option \<Rightarrow> sub_core \<Rightarrow> SubscriptionSnapshot set" where
  "reached event tenant v = {snapshot_of sub | sub sid. v sid = Some sub \<and> interested event tenant sub}"

lemma call_ok_mono: "call_ok P v c \<Longrightarrow> (\<And>s. P s \<Longrightarrow> Q s) \<Longrightarrow> call_ok Q v c"
  by (cases c) auto

lemma script_ok_mono: "script_ok P v cs \<Longrightarrow> (\<And>s. P s \<Longrightarrow> Q s) \<Longrightarrow> script_ok Q v cs"
  by (induction cs arbitrary: v) (auto intro: call_ok_mono)

lemma core_sub_simps [simp]:
  "core_sub (sub\<lparr>su_created_at := t\<rparr>) = core_sub sub" "snapshot_of (core_sub sub) = snapshot_of sub"
  "interested event tenant (core_sub sub) = interested event tenant sub"
  "su_id (core_sub sub) = su_id sub"
  by (simp_all add: core_sub_def snapshot_of_def interested_def split: option.split)

lemma core_of_update [simp]:
  "core_of (v(sid := x)) = (core_of v)(sid := map_option (\<lambda>r. core_sub (row_sub r)) x)"
  by (auto simp: core_of_def)

lemma core_with [simp]:
  "core_sub (row_sub (with_status st r)) = (core_sub (row_sub r))\<lparr>su_status := st\<rparr>"
  "core_sub (row_sub (rotated new until r)) = (core_sub (row_sub r))\<lparr>su_secret := new\<rparr>"
  by (simp_all add: core_sub_def with_status_def rotated_def)

section \<open>Every store does it\<close>

context subscription_contract
begin

lemma call_follows:
  assumes "inv s" and "call_ok secret_ok (core_of (view s)) c"
  shows "inv (do_call st c s) \<and> core_of (view (do_call st c s)) = spec_call c (core_of (view s))"
proof (cases c)
  case (CallCreate env owner url events secret)
  show ?thesis
  proof (cases "resolve_ip (en_getaddrinfo env) url")
    case (Inl e)
    then show ?thesis using CallCreate assms(1) create_fails [OF Inl, of owner events secret s] by simp
  next
    case (Inr ip)
    have "view s (en_uuid env) = None" "en_token env \<noteq> []" "secret_ok (secret_or secret (en_token env))"
      "valid_instant (en_now env)" using assms(2) CallCreate by (simp_all add: core_of_def)
    from create [OF assms(1) Inr this, of owner events] show ?thesis using CallCreate Inr by auto
  qed
next
  case (CallDelete sid)
  then show ?thesis using delete [OF assms(1), of sid] by auto
next
  case (CallPause sid)
  then show ?thesis using pause [OF assms(1), of sid] by (auto simp: option.map_comp comp_def core_of_def fun_eq_iff)
next
  case (CallResume sid)
  then show ?thesis using resume [OF assms(1), of sid] by (auto simp: option.map_comp comp_def core_of_def fun_eq_iff)
next
  case (CallRotate env sid grace secret)
  have ok: "en_token env \<noteq> []" "secret_ok (secret_or secret (en_token env))" using assms(2) CallRotate by simp_all
  show ?thesis
  proof (cases "view s sid = None \<or> (\<exists>e. grace_until (en_now env) grace = Inl e)")
    case True
    then obtain e' where "view s sid = None \<or> grace_until (en_now env) grace = Inl e'" by blast
    from rotate_fails [OF assms(1) this, of secret] obtain e where
      "ss_rotate_secret st env sid grace secret s = (Inl e, s)" by blast
    then show ?thesis using CallRotate True assms(1) by (auto simp: core_of_def fun_eq_iff split: sum.split)
  next
    case False
    then obtain r until where "view s sid = Some r" "grace_until (en_now env) grace = Inr until"
      by (cases "grace_until (en_now env) grace") auto
    from rotate [OF assms(1) this ok] this show ?thesis using CallRotate by (auto simp: core_of_def fun_eq_iff)
  qed
qed

lemma script_follows:
  "inv s \<Longrightarrow> script_ok secret_ok (core_of (view s)) cs \<Longrightarrow>
   inv (do_calls st cs s) \<and> core_of (view (do_calls st cs s)) = fold spec_call cs (core_of (view s))"
proof (induction cs arbitrary: s)
  case (Cons c cs)
  then show ?case using call_follows [of s c] by (simp add: do_calls_def)
qed (simp add: do_calls_def)

lemma for_event_reached:
  assumes "inv s"
  shows "\<exists>snaps. ss_for_event st event tenant s = (Inr snaps, s) \<and> set snaps = reached event tenant (core_of (view s))"
proof -
  obtain snaps where f: "ss_for_event st event tenant s = (Inr snaps, s)"
    "\<forall>snap. snap \<in> set snaps \<longleftrightarrow> (\<exists>r. view s (sub_id snap) = Some r \<and> interested event tenant (row_sub r) \<and>
       snap = snapshot_of (row_sub r))"
    using for_event [OF assms, of event tenant] by blast
  have "reached event tenant (core_of (view s)) =
      {snapshot_of (row_sub r) | r sid. view s sid = Some r \<and> interested event tenant (row_sub r)}"
  proof (intro set_eqI iffI)
    fix snap
    assume "snap \<in> reached event tenant (core_of (view s))"
    then obtain sub sid where sub: "core_of (view s) sid = Some sub" "interested event tenant sub" "snap = snapshot_of sub"
      unfolding reached_def by blast
    then obtain r where "view s sid = Some r" "sub = core_sub (row_sub r)" by (auto simp: core_of_def)
    then show "snap \<in> {snapshot_of (row_sub r) | r sid. view s sid = Some r \<and> interested event tenant (row_sub r)}"
      using sub(2,3) by auto
  next
    fix snap
    assume "snap \<in> {snapshot_of (row_sub r) | r sid. view s sid = Some r \<and> interested event tenant (row_sub r)}"
    then obtain r sid where r: "view s sid = Some r" "interested event tenant (row_sub r)" "snap = snapshot_of (row_sub r)" by blast
    then have "core_of (view s) sid = Some (core_sub (row_sub r))" "interested event tenant (core_sub (row_sub r))"
      "snap = snapshot_of (core_sub (row_sub r))" by (simp_all add: core_of_def)
    then show "snap \<in> reached event tenant (core_of (view s))" unfolding reached_def by blast
  qed
  also have "\<dots> = set snaps"
  proof (intro set_eqI iffI)
    fix snap
    assume "snap \<in> {snapshot_of (row_sub r) | r sid. view s sid = Some r \<and> interested event tenant (row_sub r)}"
    then obtain r sid where r: "view s sid = Some r" "interested event tenant (row_sub r)" "snap = snapshot_of (row_sub r)" by blast
    moreover have "sub_id snap = sid" using r(3) view_id [OF assms r(1)] by (simp add: snapshot_of_def)
    ultimately show "snap \<in> set snaps" using f(2) by blast
  qed (use f(2) in blast)
  finally show ?thesis using f(1) by blast
qed

lemma script_reaches:
  assumes "inv s" and "core_of (view s) = Map.empty" and "script_ok secret_ok Map.empty cs"
  shows "\<exists>snaps. ss_for_event st event tenant (do_calls st cs s) = (Inr snaps, do_calls st cs s) \<and>
    set snaps = reached event tenant (fold spec_call cs Map.empty)"
  using for_event_reached [of "do_calls st cs s" event tenant] script_follows [OF assms(1), of cs] assms(2,3) by simp

end

section \<open>Properties\<close>

lemma core_of_empty [simp]: "core_of Map.empty = Map.empty" "core_of (\<lambda>_. None) = Map.empty"
  by (simp_all add: core_of_def)

lemma redis_subs_empty_inv: "codec_ok cfg \<Longrightarrow> redis_subs_inv cfg redis_subs_empty \<and> redis_sub_view cfg redis_subs_empty = Map.empty"
  by (auto simp: redis_subs_inv_def redis_subs_empty_def hgetall_def smembers_def listed_def redis_sub_view_def)

text \<open>
  C33: the backends agree on whom an event reaches. After the same script of creations,
  deletions, pauses, resumptions and rotations on an empty store, whichever calls of it fail,
  \<open>for_event\<close> of the Redis, the PostgreSQL and the MongoDB store return the same subscriptions,
  in some order, for every event and tenant: those the script says.
\<close>

theorem backends_agree:
  assumes "codec_ok cfg" and "cipher_ok cipher" and "script_ok literal_secret Map.empty script"
  shows "\<exists>a b c. fst (redis_for_event cfg event tenant (do_calls (redis_subs cfg) script redis_subs_empty)) = Inr a \<and>
    fst (pg_for_event event tenant (do_calls (pg_subs cipher) script [])) = Inr b \<and>
    fst (mongo_for_event event tenant (do_calls (mongo_subs path) script [])) = Inr c \<and>
    set a = reached event tenant (fold spec_call script Map.empty) \<and> set b = set a \<and> set c = set a"
proof -
  have any: "script_ok (\<lambda>_. True) Map.empty script" using assms(3) by (rule script_ok_mono) simp
  have "pg_subs_inv cipher []" using assms(2) by (simp add: pg_subs_inv_def)
  moreover have "pg_sub_view cipher [] = Map.empty" by (auto simp: table_view_def lookup_def)
  moreover have "mongo_subs_inv []" by (simp add: mongo_subs_inv_def)
  moreover have "mongo_sub_view [] = Map.empty" by (auto simp: table_view_def lookup_def)
  ultimately show ?thesis
    using redis_sub.script_reaches [of cfg redis_subs_empty script event tenant] redis_subs_empty_inv [OF assms(1)] any
      pg_sub.script_reaches [of cipher "[]" script event tenant]
      mongo_sub.script_reaches [of "[]" script path event tenant] assms(3)
    by (fastforce simp: redis_subs_def pg_subs_def mongo_subs_def)
qed

definition sample_script :: "sub_call list" where
  "sample_script = [CallCreate sample_env ''o1'' ''https://a.example/hook'' [''order.paid''] None,
     CallPause ''s1'', CallRotate sample_env ''s1'' 60 (Some ''fresh''), CallResume ''s1'']"

theorem backends_agree_witness:
  "\<exists>a b. fst (redis_for_event sample_subs_cfg ''order.paid'' None
        (do_calls (redis_subs sample_subs_cfg) sample_script redis_subs_empty)) = Inr a \<and>
    fst (pg_for_event ''order.paid'' None (do_calls (pg_subs sample_cipher) sample_script [])) = Inr b \<and>
    set b = set a \<and> ''s1'' \<in> sub_id ` set b"
proof -
  have ok: "script_ok literal_secret Map.empty sample_script"
    by (simp add: sample_script_def secret_or_def literal_secret_def is_path_def valid_instant_def seconds_def)
  have v: "fold spec_call sample_script Map.empty ''s1'' =
      Some ((core_sub (new_subscription sample_env ''1.1.1.1'' ''o1'' ''https://a.example/hook'' [''order.paid''] None))\<lparr>su_secret := ''fresh''\<rparr>)"
    by (simp add: sample_script_def sample_resolve grace_until_def valid_instant_def seconds_def secret_or_def new_subscription_def core_sub_def)
  have "''s1'' \<in> sub_id ` reached ''order.paid'' None (fold spec_call sample_script Map.empty)"
    unfolding reached_def
    by (rule rev_image_eqI, rule CollectI, intro exI conjI, rule refl, rule v)
       (simp_all add: interested_def new_subscription_def core_sub_def snapshot_of_def)
  then show ?thesis using backends_agree [OF sample_codec sample_cipher_ok ok, of "''order.paid''" None "\<lambda>_ _. Inr None"] by auto
qed

end
