(* ===== verification/DeliveryAdmin.thy ===== *)
theory DeliveryAdmin
  imports EventIngestor SubscriptionStore Json IsoTime RedisSubs PgSubs MongoSubs PgStore MongoStore
begin

text \<open>
  The operator's service (\<open>service/delivery_admin.py\<close>): look at deliveries, replay one, ping a
  subscription. It works over any delivery store and any subscription store; what it adds to
  them is said once for their contracts and holds for the three backends the service wires up.
\<close>

record ('q, 's) DeliveryAdminService =
  da_store :: "'s delivery_store"
  da_subs :: "'q subscription_store"
  da_ssrf :: UrlSafetyValidator
  da_idna :: idna
  da_uuid :: "nat \<Rightarrow> string"

record ('q, 's) admin_world =
  aw_subs :: 'q
  aw_deliveries :: 's
  aw_uuids :: nat

definition on_admin_subs :: "(exc, 'q, 'a) comp \<Rightarrow> (exc, ('q, 's) admin_world, 'a) comp" where
  "on_admin_subs m = (\<lambda>w. case m (aw_subs w) of (res, q) \<Rightarrow> (res, w\<lparr>aw_subs := q\<rparr>))"

definition on_admin_store :: "(exc, 's, 'a) comp \<Rightarrow> (exc, ('q, 's) admin_world, 'a) comp" where
  "on_admin_store m = (\<lambda>w. case m (aw_deliveries w) of (res, s) \<Rightarrow> (res, w\<lparr>aw_deliveries := s\<rparr>))"

definition PING_EVENT :: string where
  "PING_EVENT = ''webhook.ping''"

section \<open>The operations\<close>

definition check_target :: "idna \<Rightarrow> UrlSafetyValidator \<Rightarrow> string \<Rightarrow> string \<Rightarrow> exc + unit" where
  "check_target idna ssrf ip url =
     (case urlsplit url of
        None \<Rightarrow> Inl (ValueError ''Invalid IPv6 URL'')
      | Some parsed \<Rightarrow>
          (case target_port parsed of
             Inl e \<Rightarrow> Inl e
           | Inr port \<Rightarrow>
               check_ip idna ssrf ip
                 (case hostname parsed of Some (c # cs) \<Rightarrow> Some (c # cs) | _ \<Rightarrow> None) (Some port)))"

definition list_for_subscription ::
  "('q, 's) DeliveryAdminService \<Rightarrow> string \<Rightarrow> int \<Rightarrow> (exc, ('q, 's) admin_world, DeliveryRecord list) comp" where
  "list_for_subscription d sid n = on_admin_store (recent_for_subscription (da_store d) sid n)"

definition admin_get :: "('q, 's) DeliveryAdminService \<Rightarrow> string \<Rightarrow> (exc, ('q, 's) admin_world, DeliveryRecord) comp" where
  "admin_get d did =
     bindE (on_admin_store (store_get (da_store d) did))
       (\<lambda>r. case r of None \<Rightarrow> raise (DeliveryNotFound did) | Some r \<Rightarrow> ret r)"

text \<open>\<open>uuid4().hex\<close>, the next identifier.\<close>

definition new_uuid :: "('q, 's) DeliveryAdminService \<Rightarrow> (exc, ('q, 's) admin_world, string) comp" where
  "new_uuid d = (\<lambda>w. (Inr (da_uuid d (aw_uuids w)), w\<lparr>aw_uuids := Suc (aw_uuids w)\<rparr>))"

definition of_check :: "exc + unit \<Rightarrow> (exc, 's, unit) comp" where
  "of_check c = (case c of Inl e \<Rightarrow> raise e | Inr _ \<Rightarrow> ret ())"

definition redelivery :: "DeliveryRecord \<Rightarrow> time \<Rightarrow> string \<Rightarrow> DeliveryRecord" where
  "redelivery original now did =
     \<lparr>delivery_id = did, subscription_id = subscription_id original, owner_id = owner_id original,
      event_name = event_name original, event_id = event_id original,
      schema_version = schema_version original, tenant_id = tenant_id original,
      data_json = data_json original, emitted_at = emitted_at original, target_url = target_url original,
      resolved_ip = resolved_ip original, redelivery_of = Some (delivery_id original),
      attempts = 0, fire_at = now, created_at = now, status = PENDING,
      profile = DEFAULT_PROFILE, secret_version = None\<rparr>"

definition redeliver ::
  "('q, 's) DeliveryAdminService \<Rightarrow> time \<Rightarrow> string \<Rightarrow> (exc, ('q, 's) admin_world, DeliveryRecord) comp" where
  "redeliver d now did =
     bindE (admin_get d did) (\<lambda>original.
     bindE (of_check (check_target (da_idna d) (da_ssrf d) (resolved_ip original) (target_url original))) (\<lambda>_.
     bindE (new_uuid d) (\<lambda>new_id.
       (let clone = redelivery original now new_id
        in bindE (on_admin_store (enqueue_many (da_store d) [clone])) (\<lambda>_. ret clone)))))"

definition ping_body :: "string \<Rightarrow> time \<Rightarrow> json" where
  "ping_body sid now = JObj [(''ping'', JBool True), (''subscription_id'', JStr sid), (''at'', JStr (isoformat now))]"

definition ping_record :: "Subscription \<Rightarrow> time \<Rightarrow> string \<Rightarrow> string \<Rightarrow> DeliveryRecord" where
  "ping_record sub now did eid =
     \<lparr>delivery_id = did, subscription_id = su_id sub, owner_id = su_owner_id sub, event_name = PING_EVENT,
      event_id = eid, schema_version = ''1.0'', tenant_id = None,
      data_json = encode (dumps_default (ping_body (su_id sub) now)), emitted_at = now,
      target_url = su_url sub, resolved_ip = su_resolved_ip sub, redelivery_of = None,
      attempts = 0, fire_at = now, created_at = now, status = PENDING,
      profile = DEFAULT_PROFILE, secret_version = None\<rparr>"

definition ping ::
  "('q, 's) DeliveryAdminService \<Rightarrow> time \<Rightarrow> string \<Rightarrow> (exc, ('q, 's) admin_world, DeliveryRecord) comp" where
  "ping d now sid =
     bindE (on_admin_subs (ss_get (da_subs d) sid)) (\<lambda>found.
     case found of
       None \<Rightarrow> raise (SubscriptionNotFound sid)
     | Some sub \<Rightarrow>
         bindE (of_check (check_target (da_idna d) (da_ssrf d) (su_resolved_ip sub) (su_url sub))) (\<lambda>_.
         bindE (new_uuid d) (\<lambda>did.
         bindE (new_uuid d) (\<lambda>eid.
           (let record = ping_record sub now did eid
            in bindE (on_admin_store (enqueue_many (da_store d) [record])) (\<lambda>_. ret record))))))"

section \<open>What they add to the stores\<close>

lemma of_check_apply: "of_check c s = (c, s)"
  by (cases c) (simp_all add: of_check_def)

lemma bindE_of_check:
  "bindE (of_check c) f s = (case c of Inl e \<Rightarrow> (Inl e, s) | Inr _ \<Rightarrow> f () s)"
  by (cases c) (simp_all add: of_check_def bindE_def)

lemma bindE_new_uuid [simp]:
  "bindE (new_uuid d) f w = f (da_uuid d (aw_uuids w)) (w\<lparr>aw_uuids := Suc (aw_uuids w)\<rparr>)"
  by (simp add: bindE_def new_uuid_def)

locale admin_contracts =
  s: delivery_store_contract st view inv grain keep +
  u: subscription_contract us uview uinv ugrain usecret
  for st :: "'s delivery_store" and view inv grain keep
    and us :: "'q subscription_store" and uview uinv ugrain usecret
begin

lemma admin_get_ok:
  assumes "da_store d = st" and "inv (aw_deliveries w)"
  shows "admin_get d did w = (case view (aw_deliveries w) did of None \<Rightarrow> Inl (DeliveryNotFound did) | Some r \<Rightarrow> Inr (row_rec r), w)"
  using s.get [OF assms(2), of did] assms(1)
  by (simp add: admin_get_def on_admin_store_def bindE_def split: option.split)

lemma enqueue_one:
  assumes "da_store d = st" and "inv (aw_deliveries w)" and "status r = PENDING"
    and "view (aw_deliveries w) (delivery_id r) = None"
  shows "\<exists>w'. on_admin_store (enqueue_many (da_store d) [r]) w = (Inr (), w') \<and> inv (aw_deliveries w') \<and>
    view (aw_deliveries w') = (view (aw_deliveries w))(delivery_id r \<mapsto> Row (keep r) None) \<and> aw_subs w' = aw_subs w"
proof -
  obtain s' where s': "enqueue_many st [r] (aw_deliveries w) = (Inr (), s')" "inv s'"
    "view s' = enqueued [keep r] (view (aw_deliveries w))"
    using s.enqueue [OF assms(2), of "[r]"] assms(3) by auto
  have "enqueued [keep r] (view (aw_deliveries w)) = (view (aw_deliveries w))(delivery_id r \<mapsto> Row (keep r) None)"
    using assms(4) by (auto simp: enqueued_def fun_eq_iff s.keep_id split: option.split)
  then show ?thesis using s' assms(1) by (simp add: on_admin_store_def)
qed

lemma redeliver_effect:
  fixes d :: "('q, 's) DeliveryAdminService"
  assumes "da_store d = st" and "inv (aw_deliveries w)" and "view (aw_deliveries w) (da_uuid d (aw_uuids w)) = None"
    and "redeliver d now did w = (res, w')"
  shows "case res of
      Inl e \<Rightarrow> w' = w \<and> (view (aw_deliveries w) did = None \<and> e = DeliveryNotFound did \<or>
        (\<exists>r. view (aw_deliveries w) did = Some r \<and>
           check_target (da_idna d) (da_ssrf d) (resolved_ip (row_rec r)) (target_url (row_rec r)) = Inl e))
    | Inr clone \<Rightarrow> \<exists>r. view (aw_deliveries w) did = Some r \<and>
        check_target (da_idna d) (da_ssrf d) (resolved_ip (row_rec r)) (target_url (row_rec r)) = Inr () \<and>
        clone = redelivery (row_rec r) now (da_uuid d (aw_uuids w)) \<and> inv (aw_deliveries w') \<and>
        view (aw_deliveries w') = (view (aw_deliveries w))(da_uuid d (aw_uuids w) \<mapsto> Row (keep clone) None) \<and>
        aw_subs w' = aw_subs w"
proof (cases "view (aw_deliveries w) did")
  case None
  then show ?thesis using assms(4) admin_get_ok [OF assms(1,2), of did] by (auto simp: redeliver_def bindE_def)
next
  case (Some r)
  note g = admin_get_ok [OF assms(1,2), of did, unfolded Some option.case]
  have gb: "bindE (admin_get d did) f w = f (row_rec r) w" for f :: "DeliveryRecord \<Rightarrow> (exc, ('q, 's) admin_world, DeliveryRecord) comp"
    using g by (simp add: bindE_def)
  let ?check = "check_target (da_idna d) (da_ssrf d) (resolved_ip (row_rec r)) (target_url (row_rec r))"
  show ?thesis
  proof (cases ?check)
    case (Inl e)
    then show ?thesis using assms(4) g Some by (auto simp: redeliver_def gb bindE_of_check)
  next
    case (Inr u)
    let ?clone = "redelivery (row_rec r) now (da_uuid d (aw_uuids w))"
    have c: "status ?clone = PENDING" "delivery_id ?clone = da_uuid d (aw_uuids w)" by (simp_all add: redelivery_def)
    obtain w1 where w1: "on_admin_store (enqueue_many (da_store d) [?clone]) (w\<lparr>aw_uuids := Suc (aw_uuids w)\<rparr>) = (Inr (), w1)"
      "inv (aw_deliveries w1)" "view (aw_deliveries w1) = (view (aw_deliveries w))(da_uuid d (aw_uuids w) \<mapsto> Row (keep ?clone) None)"
      "aw_subs w1 = aw_subs w"
      using enqueue_one [OF assms(1) _ c(1), of "w\<lparr>aw_uuids := Suc (aw_uuids w)\<rparr>"] assms(2,3) c(2) by auto
    have "redeliver d now did w = (Inr ?clone, w1)"
      using Inr by (simp add: redeliver_def gb bindE_of_check Let_def bindE_Inr [where m = "on_admin_store _", OF w1(1)])
    then show ?thesis using assms(4) Some Inr w1 by auto
  qed
qed

lemma ping_effect:
  assumes "da_store d = st" and "da_subs d = us" and "inv (aw_deliveries w)" and "uinv (aw_subs w)"
    and "view (aw_deliveries w) (da_uuid d (aw_uuids w)) = None" and "ping d now sid w = (res, w')"
  shows "case res of
      Inl e \<Rightarrow> w' = w \<and> (uview (aw_subs w) sid = None \<and> e = SubscriptionNotFound sid \<or>
        (\<exists>r. uview (aw_subs w) sid = Some r \<and>
           check_target (da_idna d) (da_ssrf d) (su_resolved_ip (row_sub r)) (su_url (row_sub r)) = Inl e))
    | Inr record \<Rightarrow> \<exists>r eid. uview (aw_subs w) sid = Some r \<and>
        check_target (da_idna d) (da_ssrf d) (su_resolved_ip (row_sub r)) (su_url (row_sub r)) = Inr () \<and>
        record = ping_record (row_sub r) now (da_uuid d (aw_uuids w)) eid \<and> inv (aw_deliveries w') \<and>
        view (aw_deliveries w') = (view (aw_deliveries w))(da_uuid d (aw_uuids w) \<mapsto> Row (keep record) None) \<and>
        aw_subs w' = aw_subs w"
proof -
  have g: "on_admin_subs (ss_get (da_subs d) sid) w = (Inr (map_option row_sub (uview (aw_subs w) sid)), w)"
    using u.get [OF assms(4), of sid] assms(2) by (simp add: on_admin_subs_def)
  then have gb: "bindE (on_admin_subs (ss_get (da_subs d) sid)) f w = f (map_option row_sub (uview (aw_subs w) sid)) w"
    for f :: "Subscription option \<Rightarrow> (exc, ('q, 's) admin_world, DeliveryRecord) comp" by (simp add: bindE_def)
  show ?thesis
  proof (cases "uview (aw_subs w) sid")
    case None
    then show ?thesis using assms(6) g by (auto simp: ping_def gb)
  next
    case (Some r)
    let ?check = "check_target (da_idna d) (da_ssrf d) (su_resolved_ip (row_sub r)) (su_url (row_sub r))"
    show ?thesis
    proof (cases ?check)
      case (Inl e)
      then show ?thesis using assms(6) Some by (auto simp: ping_def gb bindE_of_check)
    next
      case (Inr x)
      let ?n = "aw_uuids w"
      let ?r = "ping_record (row_sub r) now (da_uuid d ?n) (da_uuid d (Suc ?n))"
      let ?w = "w\<lparr>aw_uuids := Suc (Suc ?n)\<rparr>"
      have c: "status ?r = PENDING" "delivery_id ?r = da_uuid d ?n" by (simp_all add: ping_record_def)
      obtain w1 where w1: "on_admin_store (enqueue_many (da_store d) [?r]) ?w = (Inr (), w1)"
        "inv (aw_deliveries w1)" "view (aw_deliveries w1) = (view (aw_deliveries w))(da_uuid d ?n \<mapsto> Row (keep ?r) None)"
        "aw_subs w1 = aw_subs w"
        using enqueue_one [OF assms(1) _ c(1), of ?w] assms(3,5) c(2) by auto
      have "ping d now sid w = (Inr ?r, w1)"
        using Inr Some by (simp add: ping_def gb bindE_of_check Let_def bindE_Inr [where m = "on_admin_store _", OF w1(1)])
      then show ?thesis using assms(6) Some Inr w1 by auto
    qed
  qed
qed

end

interpretation mem_admin: admin_contracts mem_store mem_view mem_inv "\<lambda>t. t" "\<lambda>r. r"
  "redis_subs cfg" "redis_sub_view cfg" "redis_subs_inv cfg" "\<lambda>t. t" "\<lambda>_. True" for cfg
  by (rule admin_contracts.intro) unfold_locales

interpretation pg_admin: admin_contracts pg_store pg_view pg_inv "\<lambda>t. t" "\<lambda>r. r"
  "pg_subs cipher" "pg_sub_view cipher" "pg_subs_inv cipher" "\<lambda>t. t" "\<lambda>_. True" for cipher
  by (rule admin_contracts.intro) unfold_locales

interpretation mongo_admin: admin_contracts "mongo_store cap" mongo_view mongo_inv bson_ms mongo_keep
  "mongo_subs path" mongo_sub_view mongo_subs_inv bson_ms literal_secret for cap path
  by (rule admin_contracts.intro) unfold_locales

section \<open>Properties\<close>


text \<open>
  A ping tests the pipeline from end to end. If the subscription exists and its address
  passes the guard, a row is queued that is due now, for the subscription's current address,
  with the event name \<open>webhook.ping\<close>; its body is JSON that reads back as the ping, the
  subscription's id and the instant. If not, nothing is queued.
\<close>

lemma ping_body_loads: "loads fr (encode (dumps_default (ping_body sid now))) = Some (ping_body sid now)"
proof -
  have "isascii (dumps_default (ping_body sid now))"
    unfolding dumps_default_def by (rule dumps_seps_ascii) (simp_all add: ping_body_def isascii_def is_ascii_def)
  then show ?thesis
    unfolding dumps_default_def by (simp add: encode_ascii) (rule loads_dumps, simp_all add: separators_default ping_body_def)
qed

theorem ping_queues_a_test:
  assumes "da_store d = mongo_store cap" and "da_subs d = mongo_subs path" and "mongo_inv (aw_deliveries w)"
    and "mongo_subs_inv (aw_subs w)" and "mongo_view (aw_deliveries w) (da_uuid d (aw_uuids w)) = None"
    and "ping d now sid w = (res, w')"
  shows "case res of
      Inl e \<Rightarrow> w' = w
    | Inr p \<Rightarrow> \<exists>sub. mongo_sub_get sid (aw_subs w) = (Inr (Some sub), aw_subs w) \<and>
        check_target (da_idna d) (da_ssrf d) (su_resolved_ip sub) (su_url sub) = Inr () \<and>
        event_name p = PING_EVENT \<and> subscription_id p = sid \<and> target_url p = su_url sub \<and>
        loads fr (data_json p) = Some (JObj [(''ping'', JBool True), (''subscription_id'', JStr sid),
          (''at'', JStr (isoformat now))]) \<and>
        mongo_view (aw_deliveries w') = (mongo_view (aw_deliveries w))(da_uuid d (aw_uuids w) \<mapsto> Row (mongo_keep p) None) \<and>
        ready (bson_ms now) (Row (mongo_keep p) None)"
proof (cases res)
  case (Inl e)
  then show ?thesis using mongo_admin.ping_effect [OF assms] by auto
next
  case (Inr p)
  then obtain r eid where r: "mongo_sub_view (aw_subs w) sid = Some r"
    "check_target (da_idna d) (da_ssrf d) (su_resolved_ip (row_sub r)) (su_url (row_sub r)) = Inr ()"
    "p = ping_record (row_sub r) now (da_uuid d (aw_uuids w)) eid"
    "mongo_view (aw_deliveries w') = (mongo_view (aw_deliveries w))(da_uuid d (aw_uuids w) \<mapsto> Row (mongo_keep p) None)"
    using mongo_admin.ping_effect [OF assms] by auto
  have id: "su_id (row_sub r) = sid" by (rule mongo_sub.view_id [OF assms(4) r(1)])
  have "mongo_sub_get sid (aw_subs w) = (Inr (Some (row_sub r)), aw_subs w)"
    using mongo_sub.get [OF assms(4), of path sid] r(1) by (simp add: mongo_subs_def)
  moreover have "loads fr (data_json p) = Some (JObj [(''ping'', JBool True), (''subscription_id'', JStr sid),
          (''at'', JStr (isoformat now))])"
    using ping_body_loads [of fr sid now] r(3) id by (simp add: ping_record_def) (simp add: ping_body_def)
  moreover have "ready (bson_ms now) (Row (mongo_keep p) None)"
    using mongo.keep_status [of p] mongo.keep_fire_at [of p] r(3) by (simp add: ready_def claimable_def ping_record_def)
  ultimately show ?thesis using Inr r id by (auto simp: ping_record_def)
qed

section \<open>Witnesses\<close>

definition sample_pg_admin :: "(PgSub list, PgDb) DeliveryAdminService" where
  "sample_pg_admin = \<lparr>da_store = pg_store, da_subs = pg_subs sample_cipher, da_ssrf = default_validator, da_idna = Some,
     da_uuid = (\<lambda>n. replicate (Suc n) CHR ''u'')\<rparr>"

definition sample_mongo_admin :: "(MongoSub list, mongo_col) DeliveryAdminService" where
  "sample_mongo_admin = \<lparr>da_store = mongo_store 20, da_subs = mongo_subs (\<lambda>_ _. Inr None), da_ssrf = default_validator,
     da_idna = Some, da_uuid = (\<lambda>n. replicate (Suc n) CHR ''u'')\<rparr>"

lemma sample_targets:
  "check_target Some default_validator ''1.1.1.1'' ''https://receiver.example/hook'' = Inr ()"
  "check_target Some default_validator ''1.1.1.1'' ''https://a.example/hook'' = Inr ()"
  by code_simp+


lemma sample_mongo_subs_ok:
  "mongo_subs_inv sample_mongo_subs"
  "mongo_sub_view sample_mongo_subs ''s1'' = Some (SubRow ((new_subscription sample_env ''1.1.1.1'' ''o1''
     ''https://a.example/hook'' [''order.paid''] None)\<lparr>su_created_at := bson_ms 5000\<rparr>) None)"
proof -
  have "mongo_subs_inv []" "mongo_sub_view [] ''s1'' = None" by (simp_all add: mongo_subs_inv_def table_view_def lookup_def)
  from mongo_create_ok [OF this(1) sample_resolve, of "''o1''" "[''order.paid'']" None] this(2)
  show "mongo_subs_inv sample_mongo_subs"
    "mongo_sub_view sample_mongo_subs ''s1'' = Some (SubRow ((new_subscription sample_env ''1.1.1.1'' ''o1''
     ''https://a.example/hook'' [''order.paid''] None)\<lparr>su_created_at := bson_ms 5000\<rparr>) None)"
    by (auto simp: sample_mongo_subs_def)
qed

theorem ping_queues_a_test_witness:
  "\<exists>p w'. ping sample_mongo_admin 7 ''s1'' \<lparr>aw_subs = sample_mongo_subs, aw_deliveries = [], aw_uuids = 0\<rparr> = (Inr p, w') \<and>
     event_name p = ''webhook.ping'' \<and> loads (\<lambda>s. s) (data_json p) = Some (JObj [(''ping'', JBool True),
       (''subscription_id'', JStr ''s1''), (''at'', JStr (isoformat 7))])"
proof -
  let ?w = "\<lparr>aw_subs = sample_mongo_subs, aw_deliveries = [], aw_uuids = 0\<rparr>"
  obtain res w' where run: "ping sample_mongo_admin 7 ''s1'' ?w = (res, w')" by fastforce
  have d: "da_store sample_mongo_admin = mongo_store 20" "da_subs sample_mongo_admin = mongo_subs (\<lambda>_ _. Inr None)"
    "mongo_inv (aw_deliveries ?w)" "mongo_subs_inv (aw_subs ?w)"
    "mongo_view (aw_deliveries ?w) (da_uuid sample_mongo_admin (aw_uuids ?w)) = None"
    using mongo_inv_empty sample_mongo_subs_ok by (simp_all add: sample_mongo_admin_def mongo_view_def table_view_def lookup_def)
  show ?thesis
  proof (cases res)
    case (Inl e)
    then have False using mongo_admin.ping_effect [OF d run] sample_mongo_subs_ok(2) sample_targets
      by (auto simp: sample_mongo_admin_def new_subscription_def)
    then show ?thesis ..
  next
    case (Inr p)
    then show ?thesis using ping_queues_a_test [OF d run, of "\<lambda>s. s"] run by (auto simp: PING_EVENT_def)
  qed
qed

end
