(* ===== verification/Routes.thy ===== *)
theory Routes
  imports DeliveryAdmin PgEvents MongoEvents
begin

text \<open>
  The HTTP surface (\<open>service/routes/\<close>, \<open>service/schemas.py\<close>): one definition per handler, over
  the state the service holds (queue, subscriptions, deliveries), and the table of them. Routing,
  parsing and the validation of bodies are the framework's; what the declared models ask of a
  body is written out where a handler relies on it. A handler answers, raises an
  \<open>HTTPException\<close>, or lets another exception through, which the framework turns into a 500.
\<close>

datatype api_error = HTTPException int string | Unhandled exc

record ('e, 'q, 's) ServiceDeps =
  dp_event_store :: "'e event_store"
  dp_delivery_store :: "'s delivery_store"
  dp_sub_store :: "'q subscription_store"
  dp_ssrf_guard :: UrlSafetyValidator
  dp_idna :: idna
  dp_uuid :: "nat \<Rightarrow> string"
  dp_source_key :: string

type_synonym ('e, 'q, 's, 'a) handler = "(api_error, ('e, 'q, 's) ing_world, 'a) comp"

text \<open>\<open>try: m except ...: raise HTTPException\<close>, as what becomes of an exception.\<close>

definition raising :: "(exc \<Rightarrow> api_error) \<Rightarrow> (exc, 'w, 'a) comp \<Rightarrow> (api_error, 'w, 'a) comp" where
  "raising f m = (\<lambda>w. case m w of (Inl e, w') \<Rightarrow> (Inl (f e), w') | (Inr a, w') \<Rightarrow> (Inr a, w'))"

definition on_admin :: "(exc, ('q, 's) admin_world, 'a) comp \<Rightarrow> (exc, ('e, 'q, 's) ing_world, 'a) comp" where
  "on_admin m = (\<lambda>w. case m \<lparr>aw_subs = iw_subs w, aw_deliveries = iw_deliveries w, aw_uuids = iw_uuids w\<rparr> of
     (res, a) \<Rightarrow> (res, w\<lparr>iw_subs := aw_subs a, iw_deliveries := aw_deliveries a, iw_uuids := aw_uuids a\<rparr>))"

definition auth :: "('e, 'q, 's) ServiceDeps \<Rightarrow> string \<Rightarrow> ('e, 'q, 's, unit) handler" where
  "auth d key = (if key \<noteq> dp_source_key d then raise (HTTPException 401 ''invalid source key'') else ret ())"

text \<open>\<open>xs[i:j]\<close>\<close>

definition py_slice :: "int \<Rightarrow> int \<Rightarrow> 'a list \<Rightarrow> 'a list" where
  "py_slice i j xs = (let n = length xs; a = slice_index n i; b = slice_index n j in take (b - a) (drop a xs))"

record 'a Page =
  pg_items :: "'a list"
  pg_total :: int
  pg_limit :: int
  pg_offset :: int

section \<open>Subscriptions\<close>

record SubscriptionResponse =
  sr_id :: string
  sr_owner_id :: string
  sr_url :: string
  sr_events :: "string list"
  sr_status :: string
  sr_created_at :: string
  sr_secret :: "string option"

definition to_resp :: "Subscription \<Rightarrow> bool \<Rightarrow> SubscriptionResponse" where
  "to_resp sub include_secret =
     \<lparr>sr_id = su_id sub, sr_owner_id = su_owner_id sub, sr_url = su_url sub, sr_events = su_events sub,
      sr_status = subscription_status_value (su_status sub), sr_created_at = isoformat (su_created_at sub),
      sr_secret = (if include_secret then Some (su_secret sub) else None)\<rparr>"

definition require :: "('e, 'q, 's) ServiceDeps \<Rightarrow> string \<Rightarrow> ('e, 'q, 's, Subscription) handler" where
  "require d sid =
     bindE (raising Unhandled (on_subs (ss_get (dp_sub_store d) sid)))
       (\<lambda>sub. case sub of None \<Rightarrow> raise (HTTPException 404 ''subscription not found'') | Some sub \<Rightarrow> ret sub)"

text \<open>\<open>except (ValueError, OSError)\<close>: those classes and the ones below them that can turn up here.\<close>

definition value_or_os_error :: "exc \<Rightarrow> bool" where
  "value_or_os_error e \<longleftrightarrow> exc_class_name e \<in> {''ValueError'', ''UnicodeError'', ''UnicodeEncodeError'',
     ''OSError'', ''gaierror'', ''TimeoutError'', ''ConnectionError'', ''ConnectionRefusedError''}"

definition create_subscription ::
  "('e, 'q, 's) ServiceDeps \<Rightarrow> string \<Rightarrow> sub_env \<Rightarrow> string \<Rightarrow> string \<Rightarrow> string list \<Rightarrow> string option \<Rightarrow>
   ('e, 'q, 's, SubscriptionResponse) handler" where
  "create_subscription d key env owner url events secret =
     bindE (auth d key) (\<lambda>_.
     bindE (raising (\<lambda>e. if value_or_os_error e then HTTPException 422 (exc_text e) else Unhandled e)
              (on_subs (ss_create (dp_sub_store d) env owner url events secret))) (\<lambda>sub.
       ret (to_resp sub True)))"

definition list_subscriptions ::
  "('e, 'q, 's) ServiceDeps \<Rightarrow> string \<Rightarrow> string \<Rightarrow> int \<Rightarrow> int \<Rightarrow> ('e, 'q, 's, SubscriptionResponse Page) handler" where
  "list_subscriptions d key owner count offset =
     bindE (auth d key) (\<lambda>_.
     bindE (raising Unhandled (on_subs (ss_list_for_owner (dp_sub_store d) owner))) (\<lambda>subs.
       ret \<lparr>pg_items = map (\<lambda>s. to_resp s False) (py_slice offset (offset + count) subs),
            pg_total = int (length subs), pg_limit = count, pg_offset = offset\<rparr>))"

definition get_subscription ::
  "('e, 'q, 's) ServiceDeps \<Rightarrow> string \<Rightarrow> string \<Rightarrow> ('e, 'q, 's, SubscriptionResponse) handler" where
  "get_subscription d key sid =
     bindE (auth d key) (\<lambda>_. bindE (require d sid) (\<lambda>sub. ret (to_resp sub False)))"

definition delete_subscription ::
  "('e, 'q, 's) ServiceDeps \<Rightarrow> string \<Rightarrow> string \<Rightarrow> ('e, 'q, 's, SubscriptionResponse) handler" where
  "delete_subscription d key sid =
     bindE (auth d key) (\<lambda>_.
     bindE (require d sid) (\<lambda>sub.
     bindE (raising Unhandled (on_subs (ss_delete (dp_sub_store d) sid))) (\<lambda>_.
       ret (to_resp sub False))))"

definition pause_subscription ::
  "('e, 'q, 's) ServiceDeps \<Rightarrow> string \<Rightarrow> string \<Rightarrow> ('e, 'q, 's, SubscriptionResponse) handler" where
  "pause_subscription d key sid =
     bindE (auth d key) (\<lambda>_.
     bindE (raising Unhandled (on_subs (ss_pause (dp_sub_store d) sid))) (\<lambda>_.
     bindE (require d sid) (\<lambda>sub. ret (to_resp sub False))))"

definition resume_subscription ::
  "('e, 'q, 's) ServiceDeps \<Rightarrow> string \<Rightarrow> string \<Rightarrow> ('e, 'q, 's, SubscriptionResponse) handler" where
  "resume_subscription d key sid =
     bindE (auth d key) (\<lambda>_.
     bindE (raising Unhandled (on_subs (ss_resume (dp_sub_store d) sid))) (\<lambda>_.
     bindE (require d sid) (\<lambda>sub. ret (to_resp sub False))))"

section \<open>Deliveries\<close>

record DeliveryView =
  dv_delivery_id :: string
  dv_subscription_id :: string
  dv_event_name :: string
  dv_event_id :: string
  dv_status :: string
  dv_attempts :: int
  dv_target_url :: string
  dv_redelivery_of :: "string option"

definition delivery_view :: "DeliveryRecord \<Rightarrow> DeliveryView" where
  "delivery_view r =
     \<lparr>dv_delivery_id = delivery_id r, dv_subscription_id = subscription_id r, dv_event_name = event_name r,
      dv_event_id = event_id r, dv_status = status_value (status r), dv_attempts = attempts r,
      dv_target_url = target_url r, dv_redelivery_of = redelivery_of r\<rparr>"

definition admin :: "('e, 'q, 's) ServiceDeps \<Rightarrow> ('q, 's) DeliveryAdminService" where
  "admin d = \<lparr>da_store = dp_delivery_store d, da_subs = dp_sub_store d, da_ssrf = dp_ssrf_guard d,
     da_idna = dp_idna d, da_uuid = dp_uuid d\<rparr>"

definition list_deliveries ::
  "('e, 'q, 's) ServiceDeps \<Rightarrow> string \<Rightarrow> string \<Rightarrow> int \<Rightarrow> int \<Rightarrow> ('e, 'q, 's, DeliveryView Page) handler" where
  "list_deliveries d key sid count offset =
     bindE (auth d key) (\<lambda>_.
     bindE (raising Unhandled (on_admin (list_for_subscription (admin d) sid (offset + count)))) (\<lambda>records.
       ret \<lparr>pg_items = map delivery_view (py_slice offset (offset + count) records),
            pg_total = int (length records), pg_limit = count, pg_offset = offset\<rparr>))"

definition delivery_error :: "exc \<Rightarrow> api_error" where
  "delivery_error e =
     (case e of
        DeliveryNotFound _ \<Rightarrow> HTTPException 404 ''delivery not found''
      | InvalidWebhookTarget reason _ \<Rightarrow> HTTPException 422 (''target blocked: '' @ reason_value reason)
      | _ \<Rightarrow> Unhandled e)"

definition get_delivery ::
  "('e, 'q, 's) ServiceDeps \<Rightarrow> string \<Rightarrow> string \<Rightarrow> ('e, 'q, 's, DeliveryView) handler" where
  "get_delivery d key did =
     bindE (auth d key) (\<lambda>_.
     bindE (raising (\<lambda>e. case e of DeliveryNotFound _ \<Rightarrow> HTTPException 404 ''delivery not found'' | _ \<Rightarrow> Unhandled e)
              (on_admin (admin_get (admin d) did))) (\<lambda>r. ret (delivery_view r)))"

definition redeliver_route ::
  "('e, 'q, 's) ServiceDeps \<Rightarrow> string \<Rightarrow> time \<Rightarrow> string \<Rightarrow> ('e, 'q, 's, DeliveryView) handler" where
  "redeliver_route d key now did =
     bindE (auth d key) (\<lambda>_.
     bindE (raising delivery_error (on_admin (redeliver (admin d) now did))) (\<lambda>clone. ret (delivery_view clone)))"

definition ping_error :: "exc \<Rightarrow> api_error" where
  "ping_error e =
     (case e of
        SubscriptionNotFound _ \<Rightarrow> HTTPException 404 ''subscription not found''
      | InvalidWebhookTarget reason _ \<Rightarrow> HTTPException 422 (''target blocked: '' @ reason_value reason)
      | _ \<Rightarrow> Unhandled e)"

definition ping_route ::
  "('e, 'q, 's) ServiceDeps \<Rightarrow> string \<Rightarrow> time \<Rightarrow> string \<Rightarrow> ('e, 'q, 's, DeliveryView) handler" where
  "ping_route d key now sid =
     bindE (auth d key) (\<lambda>_.
     bindE (raising ping_error (on_admin (ping (admin d) now sid))) (\<lambda>r. ret (delivery_view r)))"

section \<open>Events\<close>

record EmitRequest =
  em_event :: string
  em_event_id :: string
  em_tenant_id :: "string option"
  em_schema_version :: string
  em_data :: "(string, json) dict"

text \<open>The defaults of a body that leaves everything but the event out; the id is a new one.\<close>

definition emit_request :: "string \<Rightarrow> string \<Rightarrow> EmitRequest" where
  "emit_request uuid event =
     \<lparr>em_event = event, em_event_id = uuid, em_tenant_id = None, em_schema_version = ''1.0'', em_data = []\<rparr>"

definition MAX_BATCH :: nat where
  "MAX_BATCH = 50"

definition batch_request_ok :: "EmitRequest list \<Rightarrow> bool" where
  "batch_request_ok items \<longleftrightarrow> 1 \<le> length items \<and> length items \<le> MAX_BATCH"

definition incoming :: "time \<Rightarrow> EmitRequest \<Rightarrow> IncomingEvent" where
  "incoming now item =
     \<lparr>ev_event_id = em_event_id item, ev_event = em_event item, ev_data = em_data item,
      ev_tenant_id = em_tenant_id item, ev_schema_version = em_schema_version item, ev_created_at = Some now\<rparr>"

record EmitResponse =
  er_accepted :: bool
  er_event_id :: string

record BatchEmitResponse =
  br_accepted :: bool
  br_count :: int
  br_event_ids :: "string list"

definition emit_event ::
  "('e, 'q, 's) ServiceDeps \<Rightarrow> string \<Rightarrow> time \<Rightarrow> EmitRequest \<Rightarrow> ('e, 'q, 's, EmitResponse) handler" where
  "emit_event d key now body =
     bindE (auth d key) (\<lambda>_.
     bindE (raising Unhandled (on_events (es_append (dp_event_store d) (incoming now body)))) (\<lambda>_.
       ret \<lparr>er_accepted = True, er_event_id = em_event_id body\<rparr>))"

definition emit_batch ::
  "('e, 'q, 's) ServiceDeps \<Rightarrow> string \<Rightarrow> time \<Rightarrow> EmitRequest list \<Rightarrow> ('e, 'q, 's, BatchEmitResponse) handler" where
  "emit_batch d key now items =
     bindE (auth d key) (\<lambda>_.
       (let events = map (incoming now) items
        in bindE (raising Unhandled (on_events (es_append_many (dp_event_store d) events))) (\<lambda>_.
             ret \<lparr>br_accepted = True, br_count = int (length events), br_event_ids = map ev_event_id events\<rparr>)))"

section \<open>Probes\<close>

definition liveness :: "int \<times> string" where
  "liveness = (200, ''ok'')"

definition readiness :: "('e, 'q, 's) ServiceDeps \<Rightarrow> time \<Rightarrow> ('e, 'q, 's) ing_world \<Rightarrow> (int \<times> string) \<times> ('e, 'q, 's) ing_world" where
  "readiness d now w =
     (case on_events (es_reclaim_stale (dp_event_store d) now) w of
        (Inr _, w') \<Rightarrow> ((200, ''ok''), w')
      | (Inl _, w') \<Rightarrow> ((503, ''backend_unavailable''), w'))"

section \<open>The table of routes\<close>

datatype api_call =
  CreateSubscription sub_env string string "string list" "string option"
| ListSubscriptions string int int
| GetSubscription string
| DeleteSubscription string
| PauseSubscription string
| ResumeSubscription string
| ListDeliveries string int int
| GetDelivery string
| Redeliver time string
| PingSubscription time string
| Emit time EmitRequest
| EmitBatch time "EmitRequest list"

datatype api_answer =
  SubscriptionAnswer SubscriptionResponse
| SubscriptionPage "SubscriptionResponse Page"
| DeliveryAnswer DeliveryView
| DeliveryPage "DeliveryView Page"
| EmitAnswer EmitResponse
| BatchAnswer BatchEmitResponse

definition answered :: "('a \<Rightarrow> api_answer) \<Rightarrow> ('e, 'q, 's, 'a) handler \<Rightarrow> ('e, 'q, 's, api_answer) handler" where
  "answered f m = bindE m (\<lambda>a. ret (f a))"

fun handle :: "('e, 'q, 's) ServiceDeps \<Rightarrow> string \<Rightarrow> api_call \<Rightarrow> ('e, 'q, 's, api_answer) handler" where
  "handle d key (CreateSubscription env owner url events secret) =
     answered SubscriptionAnswer (create_subscription d key env owner url events secret)"
| "handle d key (ListSubscriptions owner count offset) = answered SubscriptionPage (list_subscriptions d key owner count offset)"
| "handle d key (GetSubscription sid) = answered SubscriptionAnswer (get_subscription d key sid)"
| "handle d key (DeleteSubscription sid) = answered SubscriptionAnswer (delete_subscription d key sid)"
| "handle d key (PauseSubscription sid) = answered SubscriptionAnswer (pause_subscription d key sid)"
| "handle d key (ResumeSubscription sid) = answered SubscriptionAnswer (resume_subscription d key sid)"
| "handle d key (ListDeliveries sid count offset) = answered DeliveryPage (list_deliveries d key sid count offset)"
| "handle d key (GetDelivery did) = answered DeliveryAnswer (get_delivery d key did)"
| "handle d key (Redeliver now did) = answered DeliveryAnswer (redeliver_route d key now did)"
| "handle d key (PingSubscription now sid) = answered DeliveryAnswer (ping_route d key now sid)"
| "handle d key (Emit now body) = answered EmitAnswer (emit_event d key now body)"
| "handle d key (EmitBatch now items) = answered BatchAnswer (emit_batch d key now items)"

lemma handle_unauthorised:
  assumes "key \<noteq> dp_source_key d"
  shows "handle d key call w = (Inl (HTTPException 401 ''invalid source key''), w)"
proof -
  have "auth d key = raise (HTTPException 401 ''invalid source key'')" using assms by (simp add: auth_def)
  then show ?thesis
    by (cases call) (simp_all add: answered_def create_subscription_def list_subscriptions_def get_subscription_def
      delete_subscription_def pause_subscription_def resume_subscription_def list_deliveries_def get_delivery_def
      redeliver_route_def ping_route_def emit_event_def emit_batch_def)
qed

section \<open>Properties\<close>


text \<open>The secrets an answer shows.\<close>

fun shown_secrets :: "api_answer \<Rightarrow> string option list" where
  "shown_secrets (SubscriptionAnswer r) = [sr_secret r]"
| "shown_secrets (SubscriptionPage p) = map sr_secret (pg_items p)"
| "shown_secrets _ = []"

lemma bindE_eq_Inr:
  "bindE m f s = (Inr b, s') \<longleftrightarrow> (\<exists>a s1. m s = (Inr a, s1) \<and> f a s1 = (Inr b, s'))"
  by (auto simp: bindE_def split: prod.splits sum.splits)

lemma answered_eq_Inr: "answered f m w = (Inr ans, w') \<longleftrightarrow> (\<exists>a. m w = (Inr a, w') \<and> ans = f a)"
  by (auto simp: answered_def bindE_eq_Inr)

lemma to_resp_secret [simp]: "sr_secret (to_resp sub b) = (if b then Some (su_secret sub) else None)"
  by (simp add: to_resp_def)

text \<open>
  C39: a signing secret is shown once. Only the answer to the creation of a subscription carries
  a secret, and it is the secret of that subscription; no listing, lookup, pause, resumption,
  deletion or delivery answer ever does.
\<close>

theorem secret_shown_once:
  assumes "handle d key call w = (Inr ans, w')" and "Some s \<in> set (shown_secrets ans)"
  shows "\<exists>env owner url events secret sub q. call = CreateSubscription env owner url events secret \<and>
    ss_create (dp_sub_store d) env owner url events secret (iw_subs w) = (Inr sub, q) \<and> s = su_secret sub"
proof (cases call)
  case (CreateSubscription env owner url events secret)
  then show ?thesis using assms
    by (auto simp: answered_eq_Inr create_subscription_def bindE_eq_Inr raising_def on_subs_def auth_def
        split: if_splits prod.splits sum.splits)
qed (use assms in \<open>auto simp: answered_eq_Inr list_subscriptions_def get_subscription_def delete_subscription_def
  pause_subscription_def resume_subscription_def bindE_eq_Inr\<close>)

lemma py_slice_window: "0 \<le> i \<Longrightarrow> 0 \<le> c \<Longrightarrow> py_slice i (i + c) xs = take (nat c) (drop (nat i) xs)"
proof -
  assume "0 \<le> i" "0 \<le> c"
  then have n: "nat (i + c) = nat i + nat c" by simp
  show ?thesis
  proof (cases "nat i + nat c \<le> length xs")
    case True
    then show ?thesis using \<open>0 \<le> i\<close> \<open>0 \<le> c\<close> by (simp add: py_slice_def slice_index_def n min_def)
  next
    case False
    then have "min (nat i + nat c) (length xs) = length xs" by simp
    then show ?thesis using \<open>0 \<le> i\<close> \<open>0 \<le> c\<close> False
      by (simp add: py_slice_def slice_index_def n Let_def min_def)
  qed
qed

lemma windows_cover: "length xs \<le> n * c \<Longrightarrow> concat (map (\<lambda>k. take c (drop (k * c) xs)) [0..<n]) = xs"
proof (induction n arbitrary: xs)
  case (Suc n)
  have "concat (map (\<lambda>k. take c (drop (k * c) xs)) [0..<Suc n]) =
      take c xs @ concat (map (\<lambda>k. take c (drop (k * c) (drop c xs))) [0..<n])"
    by (simp add: upt_conv_Cons map_Suc_upt [symmetric] comp_def add.commute del: upt_Suc)
  also have "\<dots> = take c xs @ drop c xs"
    using Suc.IH [of "drop c xs"] Suc.prems by (simp only: length_drop) simp
  finally show ?case by simp
qed simp

text \<open>
  Paging loses nothing. With a positive limit, the pages at offsets 0, limit, 2 * limit and
  so on, put one after the other, are the owner's subscriptions, each once and in order, and
  every page states their number.
\<close>

theorem pages_cover_the_list:
  assumes "ss_list_for_owner (dp_sub_store d) owner (iw_subs w) = (Inr subs, iw_subs w)"
    and "0 < count" and "int (length subs) \<le> int n * count"
  shows "\<exists>pages. (\<forall>k < n. fst (handle d (dp_source_key d) (ListSubscriptions owner count (int k * count)) w) = Inr (SubscriptionPage (pages ! k)) \<and>
      pg_total (pages ! k) = int (length subs)) \<and> length pages = n \<and>
    concat (map pg_items pages) = map (\<lambda>sub. to_resp sub False) subs"
proof -
  let ?page = "\<lambda>k. \<lparr>pg_items = map (\<lambda>s. to_resp s False) (py_slice (int k * count) (int k * count + count) subs),
      pg_total = int (length subs), pg_limit = count, pg_offset = int k * count\<rparr>"
  let ?pages = "map ?page [0..<n]"
  have run: "fst (handle d (dp_source_key d) (ListSubscriptions owner count (int k * count)) w) = Inr (SubscriptionPage (?page k))" for k
    using assms(1) by (simp add: answered_def list_subscriptions_def auth_def bindE_def raising_def on_subs_def)
  have slice: "py_slice (int k * count) (int k * count + count) subs = take (nat count) (drop (k * nat count) subs)" for k
    using assms(2) py_slice_window [of "int k * count" count subs] by (simp add: nat_mult_distrib)
  have "int (length subs) \<le> int (n * nat count)" using assms(2,3) by simp
  then have "length subs \<le> n * nat count" by (simp only: of_nat_le_iff)
  then have "concat (map (\<lambda>k. take (nat count) (drop (k * nat count) subs)) [0..<n]) = subs" by (rule windows_cover)
  moreover have "concat (map pg_items ?pages) =
      map (\<lambda>s. to_resp s False) (concat (map (\<lambda>k. take (nat count) (drop (k * nat count) subs)) [0..<n]))"
    by (simp add: slice map_concat comp_def)
  ultimately have "concat (map pg_items ?pages) = map (\<lambda>s. to_resp s False) subs" by simp
  then show ?thesis using run by (intro exI [of _ ?pages]) simp
qed

text \<open>
  The listing of deliveries asks the store for no more than it shows, so the \<open>total\<close> it states
  is not the number of deliveries: it never exceeds offset + limit.
\<close>

lemma delivery_total_capped:
  assumes "dp_delivery_store d = pg_store" and "pg_inv (iw_deliveries w)" and "0 < offset + count"
    and "list_deliveries d key sid count offset w = (Inr p, w')"
  shows "pg_total p \<le> offset + count"
proof -
  obtain rs where "recent_for_subscription pg_store sid (offset + count) (iw_deliveries w) = (Inr rs, iw_deliveries w)"
    "int (length rs) \<le> offset + count"
    using pg.recent [OF assms(2,3), of sid] by blast
  then show ?thesis using assms(1,4)
    by (auto simp: list_deliveries_def bindE_eq_Inr auth_def raising_def on_admin_def list_for_subscription_def admin_def
        on_admin_store_def split: if_splits)
qed

text \<open>
  Every failure of a replay is reported for what it is, and undone. A redelivery that does
  not go through leaves everything as it was, and the answer is 401 for a wrong key, 404 for an
  unknown delivery, 422 with the reason for a blocked address; the one failure without a status
  of its own is a stored URL that does not parse.
\<close>

theorem redeliver_failures:
  fixes d :: "('e, PgSub list, PgDb) ServiceDeps"
  assumes "dp_delivery_store d = pg_store" and "pg_inv (iw_deliveries w)"
    and "pg_view (iw_deliveries w) (dp_uuid d (iw_uuids w)) = None"
    and "handle d key (Redeliver now did) w = (Inl err, w')"
  shows "w' = w \<and>
    (key \<noteq> dp_source_key d \<and> err = HTTPException 401 ''invalid source key'' \<or>
     pg_view (iw_deliveries w) did = None \<and> err = HTTPException 404 ''delivery not found'' \<or>
     (\<exists>r. pg_view (iw_deliveries w) did = Some r \<and>
       (case check_target (dp_idna d) (dp_ssrf_guard d) (resolved_ip (row_rec r)) (target_url (row_rec r)) of
          Inr _ \<Rightarrow> False
        | Inl (InvalidWebhookTarget reason _) \<Rightarrow> err = HTTPException 422 (''target blocked: '' @ reason_value reason)
        | Inl e \<Rightarrow> (urlsplit (target_url (row_rec r)) = None \<or> (\<exists>p. urlsplit (target_url (row_rec r)) = Some p \<and> port_of p = None)) \<and>
            err = Unhandled e)))"
proof (cases "key = dp_source_key d")
  case False
  then show ?thesis using handle_unauthorised [OF False, of "Redeliver now did" w] assms(4) by auto
next
  case True
  let ?a = "\<lparr>aw_subs = iw_subs w, aw_deliveries = iw_deliveries w, aw_uuids = iw_uuids w\<rparr>"
  have adm: "da_store (admin d) = pg_store" "da_uuid (admin d) = dp_uuid d" "da_idna (admin d) = dp_idna d"
    "da_ssrf (admin d) = dp_ssrf_guard d" using assms(1) by (simp_all add: admin_def)
  obtain res a' where run: "redeliver (admin d) now did ?a = (res, a')" by fastforce
  note eff = pg_admin.redeliver_effect [OF adm(1) _ _ run, unfolded adm, simplified, OF assms(2,3)]
  obtain e where e: "res = Inl e" "err = delivery_error e" "w' = w\<lparr>iw_subs := aw_subs a', iw_deliveries := aw_deliveries a', iw_uuids := aw_uuids a'\<rparr>"
    using assms(4) True run
    by (auto simp: answered_def redeliver_route_def bindE_def auth_def raising_def on_admin_def split: sum.splits prod.splits)
  then have same: "w' = w" using eff by auto
  show ?thesis
  proof (cases "pg_view (iw_deliveries w) did")
    case None
    then show ?thesis using eff e same by (auto simp: delivery_error_def)
  next
    case (Some r)
    then have chk: "check_target (dp_idna d) (dp_ssrf_guard d) (resolved_ip (row_rec r)) (target_url (row_rec r)) = Inl e"
      using eff e(1) by auto
    have "(\<exists>m. e = ValueError m) \<and> (urlsplit (target_url (row_rec r)) = None \<or> (\<exists>p. urlsplit (target_url (row_rec r)) = Some p \<and> port_of p = None))"
      if no: "\<And>x y. e \<noteq> InvalidWebhookTarget x y"
    proof (cases "urlsplit (target_url (row_rec r))")
      case (Some p)
      show ?thesis
      proof (cases "target_port p")
        case (Inl ex)
        then show ?thesis using Some chk by (auto simp: check_target_def target_port_def Let_def split: option.splits)
      next
        case (Inr po)
        then show ?thesis using chk Some no by (auto simp: check_target_def check_ip_def Let_def split: option.splits if_splits)
      qed
    qed (use chk in \<open>auto simp: check_target_def\<close>)
    then show ?thesis using Some chk e(2) same by (cases e) (auto simp: delivery_error_def)
  qed
qed

text \<open>
  C40: emitting is idempotent. A batch is accepted whole: each of its events is pending in the
  queue afterwards, unless the queue had its id already, in whatever state, and then that
  event, its body included, stays as it was; of two events of a batch with one id the first
  counts. Sending a batch again, or an overlapping one, is safe.
\<close>

theorem emit_batch_idempotent:
  assumes "dp_event_store d = pg_event_store clock jsonb l" and "pg_ev_inv l (iw_events w)"
  shows "\<exists>w'. handle d (dp_source_key d) (EmitBatch now items) w =
      (Inr (BatchAnswer \<lparr>br_accepted = True, br_count = int (length items), br_event_ids = map em_event_id items\<rparr>), w') \<and>
    (\<forall>k r. pg_ev_view l (iw_events w) k = Some r \<longrightarrow> pg_ev_view l (iw_events w') k = Some r) \<and>
    (\<forall>k. pg_ev_view l (iw_events w) k = None \<longrightarrow> pg_ev_view l (iw_events w') k =
       map_option (\<lambda>item. EvRow (pg_ev_keep clock jsonb (incoming now item)) EV_PENDING None)
         (find (\<lambda>item. em_event_id item = k) items))"
proof -
  obtain s' where s': "es_append_many (dp_event_store d) (map (incoming now) items) (iw_events w) = (Inr (), s')"
    "pg_ev_view l s' = appended (map (pg_ev_keep clock jsonb) (map (incoming now) items)) (pg_ev_view l (iw_events w))"
    using pg_ev.append_many [OF assms(2), of clock jsonb "map (incoming now) items"] assms(1) by auto
  have run: "handle d (dp_source_key d) (EmitBatch now items) w = (Inr (BatchAnswer \<lparr>br_accepted = True,
      br_count = int (length items), br_event_ids = map em_event_id items\<rparr>), w\<lparr>iw_events := s'\<rparr>)"
    using s'(1) by (simp add: answered_def emit_batch_def bindE_def auth_def raising_def on_events_def Let_def comp_def incoming_def)
  have id: "ev_event_id (incoming now item) = em_event_id item" for item by (simp add: incoming_def)
  have "map_option (\<lambda>e. EvRow e EV_PENDING None) (find (\<lambda>e. ev_event_id e = k)
        (map (pg_ev_keep clock jsonb) (map (incoming now) its))) =
      map_option (\<lambda>item. EvRow (pg_ev_keep clock jsonb (incoming now item)) EV_PENDING None) (find (\<lambda>item. em_event_id item = k) its)" for k its
    by (induction its) (simp_all add: pg_ev.keep_event id)
  then show ?thesis using run s'(2) by (auto simp: appended_def)
qed

section \<open>Witnesses\<close>

definition sample_deps :: "(PgEvent list, PgSub list, PgDb) ServiceDeps" where
  "sample_deps = \<lparr>dp_event_store = pg_event_store (\<lambda>_. 0) (\<lambda>d. d) 30, dp_delivery_store = pg_store,
     dp_sub_store = pg_subs sample_cipher, dp_ssrf_guard = default_validator, dp_idna = Some,
     dp_uuid = (\<lambda>n. replicate (Suc n) CHR ''u''), dp_source_key = ''key''\<rparr>"

definition sample_service :: "(PgEvent list, PgSub list, PgDb) ing_world" where
  "sample_service = \<lparr>iw_events = [], iw_subs = sample_pg_subs, iw_deliveries = pg_empty, iw_uuids = 0\<rparr>"


theorem secret_shown_once_witness:
  "\<exists>ans w' (sub :: Subscription). handle sample_deps ''key'' (CreateSubscription sample_env ''o1'' ''https://a.example/hook'' [''order.paid''] None)
      (sample_service\<lparr>iw_subs := []\<rparr>) = (Inr ans, w') \<and> Some (su_secret sub) \<in> set (shown_secrets ans)"
proof -
  obtain ans w' where run: "handle sample_deps ''key'' (CreateSubscription sample_env ''o1'' ''https://a.example/hook'' [''order.paid''] None)
      (sample_service\<lparr>iw_subs := []\<rparr>) = (Inr ans, w')" and s: "Some ''0a'' \<in> set (shown_secrets ans)"
    by (simp add: sample_deps_def answered_def create_subscription_def auth_def bindE_def raising_def on_subs_def pg_subs_def
        pg_sub_create_def sample_resolve Let_def new_subscription_def secret_or_def)
  obtain sub :: Subscription where "''0a'' = su_secret sub" using secret_shown_once [OF run s] by blast
  then show ?thesis using run s by (intro exI [of _ ans] exI [of _ w'] exI [of _ sub]) simp
qed

theorem pages_cover_the_list_witness:
  "\<exists>pages sub. length pages = 2 \<and> concat (map pg_items pages) = [to_resp sub False] \<and>
     fst (handle sample_deps ''key'' (ListSubscriptions ''o1'' 1 0) sample_service) = Inr (SubscriptionPage (pages ! 0))"
proof -
  obtain sub where l: "ss_list_for_owner (dp_sub_store sample_deps) ''o1'' (iw_subs sample_service) = (Inr [sub], iw_subs sample_service)"
    by (simp add: sample_deps_def sample_service_def sample_pg_subs_def pg_subs_def pg_sub_create_def sample_resolve Let_def
        pg_list_for_owner_def pg_row_to_sub_def subscription_status_of_def)
  obtain pages where p: "\<forall>k < 2. fst (handle sample_deps (dp_source_key sample_deps) (ListSubscriptions ''o1'' 1 (int k * 1)) sample_service)
        = Inr (SubscriptionPage (pages ! k)) \<and> pg_total (pages ! k) = int (length [sub])"
    "length pages = 2" "concat (map pg_items pages) = map (\<lambda>sub. to_resp sub False) [sub]"
    using pages_cover_the_list [OF l, of 1 2] by auto
  from p(1) [rule_format, of 0] p(2,3) show ?thesis by (auto simp: sample_deps_def)
qed

theorem redeliver_failures_witness:
  "\<exists>w'. handle sample_deps ''key'' (Redeliver 0 ''x'') sample_service = (Inl (HTTPException 404 ''delivery not found''), w')"
proof -
  have v: "pg_view (iw_deliveries sample_service) k = None" for k
    by (simp add: sample_service_def pg_view_def pg_empty_def table_view_def lookup_def)
  have d: "dp_delivery_store sample_deps = pg_store" "pg_inv (iw_deliveries sample_service)"
    using pg_inv_empty by (simp_all add: sample_deps_def sample_service_def)
  obtain res w' where run: "handle sample_deps ''key'' (Redeliver 0 ''x'') sample_service = (res, w')" by fastforce
  have "store_get pg_store ''x'' (iw_deliveries sample_service) = (Inr None, iw_deliveries sample_service)"
    using pg.get [OF d(2), of "''x''"] v by simp
  then have "\<exists>err. res = Inl err" using run d(1)
    by (auto simp: answered_def redeliver_route_def auth_def bindE_def raising_def on_admin_def redeliver_def admin_get_def admin_def
        on_admin_store_def split: if_splits)
  then obtain err where "res = Inl err" ..
  with redeliver_failures [OF d v, of "''key''" 0 "''x''" err w'] run v show ?thesis by (auto simp: sample_deps_def)
qed

theorem emit_batch_idempotent_witness:
  "\<exists>w'. handle sample_deps ''key'' (EmitBatch 5 [emit_request ''e1'' ''order.paid'', emit_request ''e1'' ''order.lost'']) sample_service =
      (Inr (BatchAnswer \<lparr>br_accepted = True, br_count = 2, br_event_ids = [''e1'', ''e1'']\<rparr>), w') \<and>
    pg_ev_view 30 (iw_events w') ''e1'' \<noteq> None"
proof -
  have d: "dp_event_store sample_deps = pg_event_store (\<lambda>_. 0) (\<lambda>d. d) 30" "pg_ev_inv 30 (iw_events sample_service)"
    by (simp_all add: sample_deps_def sample_service_def pg_ev_inv_def ev_rows_ok_def)
  have v: "pg_ev_view 30 (iw_events sample_service) ''e1'' = None"
    by (simp add: sample_service_def table_view_def lookup_def)
  show ?thesis
    using emit_batch_idempotent [OF d, of 5 "[emit_request ''e1'' ''order.paid'', emit_request ''e1'' ''order.lost'']"] v
    by (auto simp: sample_deps_def emit_request_def)
qed

end
