(* ===== verification/Registry.thy ===== *)
theory Registry
  imports Envelope
begin

text \<open>
  The catalogue of events (\<open>meta.py\<close>, \<open>registry.py\<close>, \<open>events.py\<close>): classes carry a marker, and
  \<open>discover\<close> walks the subclass trees for them. The classes of the process are a table, a class
  its index in it; what the walk reads of a class is its entry. An index outside the table is a
  class without subclasses and marker.
\<close>

section \<open>Classes\<close>

datatype class_attr = Absent | Marker WebhookMeta | OtherObject

record py_class =
  cl_qualname :: string
  cl_subclasses :: "nat list"
  cl_abortable :: bool
  cl_pre_event :: bool
  cl_webhook_meta :: class_attr
  cl_dataclass_fields :: "string list option"
  cl_attrs :: "string list"

type_synonym classes = "py_class list"

definition blank_class :: py_class where
  "blank_class = \<lparr>cl_qualname = [], cl_subclasses = [], cl_abortable = False, cl_pre_event = False,
     cl_webhook_meta = Absent, cl_dataclass_fields = None, cl_attrs = []\<rparr>"

definition class_at :: "classes \<Rightarrow> nat \<Rightarrow> py_class" where
  "class_at h c = (if c < length h then h ! c else blank_class)"

text \<open>\<open>WebhookMeta(name=..., description=..., scopes=..., tenant_field=...)\<close>, the rest defaulted.\<close>

definition mk_meta :: "string \<Rightarrow> string \<Rightarrow> WebhookScope list \<Rightarrow> string option \<Rightarrow> WebhookMeta" where
  "mk_meta name description scopes tenant_field =
     \<lparr>meta_name = name, meta_description = description, meta_scopes = scopes, meta_tenant_field = tenant_field,
      meta_since = ''1.0.0'', meta_sample_payload = None, redacted_fields = [], allow_sensitive = False\<rparr>"

text \<open>The decorator, on one class of the table.\<close>

definition webhook_event :: "WebhookMeta \<Rightarrow> nat \<Rightarrow> classes \<Rightarrow> exc + classes" where
  "webhook_event m c h =
     (let cls = class_at h c
      in if cl_pre_event cls then
           Inl (ValueError (cl_qualname cls @ '': PreEvent subclasses cannot carry webhook_meta '' @
             ''(abort semantics don't survive external delivery)''))
         else if cl_webhook_meta cls \<noteq> Absent then
           Inl (ValueError (cl_qualname cls @ '' already has webhook_meta''))
         else Inr (h[c := cls\<lparr>cl_webhook_meta := Marker m\<rparr>]))"

section \<open>The catalogue\<close>

record WebhookEventEntry =
  en_event_cls :: nat
  en_meta :: WebhookMeta

type_synonym WebhookCatalog = "WebhookEventEntry list"

definition by_name :: "WebhookCatalog \<Rightarrow> (string, WebhookEventEntry) dict" where
  "by_name entries = fold (\<lambda>e. dict_set (meta_name (en_meta e)) e) entries []"

definition catalog_names :: "WebhookCatalog \<Rightarrow> string list" where
  "catalog_names entries = map (\<lambda>e. meta_name (en_meta e)) entries"

definition by_scope :: "WebhookScope \<Rightarrow> WebhookCatalog \<Rightarrow> WebhookEventEntry list" where
  "by_scope scope entries = filter (\<lambda>e. scope \<in> set (meta_scopes (en_meta e))) entries"

definition has_tenant_field :: "classes \<Rightarrow> WebhookEventEntry \<Rightarrow> bool" where
  "has_tenant_field h e \<longleftrightarrow>
     (case meta_tenant_field (en_meta e) of
        None \<Rightarrow> True
      | Some f \<Rightarrow> f = [] \<or>
          (case cl_dataclass_fields (class_at h (en_event_cls e)) of
             Some declared \<Rightarrow> f \<in> set declared
           | None \<Rightarrow> f \<in> set (cl_attrs (class_at h (en_event_cls e)))))"

fun verify_tenant_fields :: "classes \<Rightarrow> WebhookCatalog \<Rightarrow> exc + unit" where
  "verify_tenant_fields h [] = Inr ()"
| "verify_tenant_fields h (e # es) =
     (if has_tenant_field h e then verify_tenant_fields h es
      else Inl (WebhookTenantFieldMissing (meta_name (en_meta e)) (cl_qualname (class_at h (en_event_cls e)))
             (case meta_tenant_field (en_meta e) of None \<Rightarrow> [] | Some f \<Rightarrow> f)))"

section \<open>Discovery\<close>

text \<open>The variables of \<open>discover\<close> that \<open>walk\<close> closes over.\<close>

record discovery =
  ds_seen :: "nat set"
  ds_entries :: WebhookCatalog
  ds_by_name :: "(string, string) dict"

text \<open>What the loop body does with a new subclass before it walks on.\<close>

definition visit :: "classes \<Rightarrow> nat \<Rightarrow> discovery \<Rightarrow> exc + discovery" where
  "visit h sub st =
     (let cls = class_at h sub; st' = st\<lparr>ds_seen := insert sub (ds_seen st)\<rparr>
      in if cl_abortable cls then Inr st'
         else (case cl_webhook_meta cls of
           Marker m \<Rightarrow>
             (case dict_get (ds_by_name st') (meta_name m) of
                Some first \<Rightarrow> Inl (WebhookEventCollision (meta_name m) first (cl_qualname cls))
              | None \<Rightarrow> Inr (st'\<lparr>ds_entries := ds_entries st' @ [\<lparr>en_event_cls = sub, en_meta = m\<rparr>],
                  ds_by_name := dict_set (meta_name m) (cl_qualname cls) (ds_by_name st')\<rparr>))
         | _ \<Rightarrow> Inr st'))"

lemma visit_seen: "visit h sub st = Inr st' \<Longrightarrow> ds_seen st' = insert sub (ds_seen st)"
  by (auto simp: visit_def Let_def split: if_splits class_attr.splits option.splits)

text \<open>The loop over the subclasses of a class; \<open>walk(sub)\<close> is the loop over those of \<open>sub\<close>.\<close>

function (domintros) walk :: "classes \<Rightarrow> nat list \<Rightarrow> discovery \<Rightarrow> exc + discovery" where
  "walk h [] st = Inr st"
| "walk h (sub # subs) st =
     (if sub \<in> ds_seen st then walk h subs st
      else (case visit h sub st of
              Inl e \<Rightarrow> Inl e
            | Inr st1 \<Rightarrow> (case walk h (cl_subclasses (class_at h sub)) st1 of
                Inl e \<Rightarrow> Inl e
              | Inr st2 \<Rightarrow> walk h subs st2)))"
  by pat_completeness auto

lemma walk_seen_partial:
  "walk_dom (h, subs, st) \<Longrightarrow> walk h subs st = Inr st' \<Longrightarrow> ds_seen st \<subseteq> ds_seen st'"
proof (induction arbitrary: st' rule: walk.pinduct)
  case (2 h sub subs st)
  show ?case
  proof (cases "sub \<in> ds_seen st")
    case True
    then show ?thesis using 2 by (simp add: walk.psimps)
  next
    case False
    then obtain st1 st2 where s: "visit h sub st = Inr st1" "walk h (cl_subclasses (class_at h sub)) st1 = Inr st2"
      "walk h subs st2 = Inr st'"
      using "2.prems" "2.hyps" by (auto simp: walk.psimps split: sum.splits)
    then show ?thesis using "2.IH"(2) [OF False s(1,2)] "2.IH"(3) [OF False s(1,2,3)] visit_seen [OF s(1)] by auto
  qed
qed (simp add: walk.psimps)

definition unseen :: "classes \<Rightarrow> discovery \<Rightarrow> nat set" where
  "unseen h st = {..<length h} - ds_seen st"

lemma unseen_less:
  assumes "sub \<notin> ds_seen st" and "insert sub (ds_seen st) \<subseteq> ds_seen st'"
  shows "card (unseen h st') < card (unseen h st) \<or> card (unseen h st') = card (unseen h st) \<and> length h \<le> sub"
proof (cases "sub < length h")
  case True
  then have "unseen h st' \<subset> unseen h st" using assms by (auto simp: unseen_def)
  then show ?thesis by (simp add: psubset_card_mono unseen_def)
next
  case False
  have "unseen h st' \<subseteq> unseen h st" using assms by (auto simp: unseen_def)
  then have "card (unseen h st') \<le> card (unseen h st)" by (intro card_mono) (simp_all add: unseen_def)
  then show ?thesis using False by auto
qed

text \<open>The walk ends, on any table, cycles included: a class is walked into once.\<close>

termination walk
proof (relation "measures [\<lambda>(h, subs, st). card (unseen h st), \<lambda>(h, subs, st). length subs]")
  fix h sub subs and st st1 :: discovery
  assume new: "sub \<notin> ds_seen st" and v: "visit h sub st = Inr st1"
  have "insert sub (ds_seen st) \<subseteq> ds_seen st1" using visit_seen [OF v] by simp
  from unseen_less [OF new this, of h]
  show "((h, cl_subclasses (class_at h sub), st1), h, sub # subs, st)
      \<in> measures [\<lambda>(h, subs, st). card (unseen h st), \<lambda>(h, subs, st). length subs]"
    by (auto simp: class_at_def blank_class_def)
  fix st2
  assume d: "walk_dom (h, cl_subclasses (class_at h sub), st1)" and w: "walk h (cl_subclasses (class_at h sub)) st1 = Inr st2"
  have "insert sub (ds_seen st) \<subseteq> ds_seen st2" using walk_seen_partial [OF d w] visit_seen [OF v] by simp
  from unseen_less [OF new this, of h]
  show "((h, subs, st2), h, sub # subs, st) \<in> measures [\<lambda>(h, subs, st). card (unseen h st), \<lambda>(h, subs, st). length subs]"
    by auto
qed auto

fun walk_roots :: "classes \<Rightarrow> nat list \<Rightarrow> discovery \<Rightarrow> exc + discovery" where
  "walk_roots h [] st = Inr st"
| "walk_roots h (base # roots) st =
     (case walk h (cl_subclasses (class_at h base)) st of Inl e \<Rightarrow> Inl e | Inr st' \<Rightarrow> walk_roots h roots st')"

definition discover :: "classes \<Rightarrow> nat list \<Rightarrow> exc + WebhookCatalog" where
  "discover h roots =
     (case walk_roots h roots \<lparr>ds_seen = {}, ds_entries = [], ds_by_name = []\<rparr> of
        Inl e \<Rightarrow> Inl e
      | Inr st \<Rightarrow> Inr (ds_entries st))"

section \<open>The lifecycle events\<close>

text \<open>The classes of \<open>events.py\<close>: the name, the marker and the fields each declares.\<close>

definition lifecycle_events :: "(string \<times> WebhookMeta \<times> string list) list" where
  "lifecycle_events =
     [(''WebhookDeliveryExhausted'', mk_meta ''webhook.delivery.exhausted'' ''Webhook delivery reached max attempts; moved to DEAD_LETTERED.'' [GLOBAL] None,
        [''delivery_id'', ''subscription_id'', ''owner_id'', ''source_event'', ''attempts'', ''last_error'']),
      (''WebhookSubscriptionCreated'', mk_meta ''webhook.subscription.created'' ''New webhook subscription was created.'' [GLOBAL] (Some ''owner_id''),
        [''subscription_id'', ''owner_id'', ''url_host'', ''event_names'', ''scope'']),
      (''WebhookSubscriptionUpdated'', mk_meta ''webhook.subscription.updated'' ''Webhook subscription config was updated.'' [GLOBAL] (Some ''owner_id''),
        [''subscription_id'', ''owner_id'', ''changed_fields'']),
      (''WebhookSubscriptionPaused'', mk_meta ''webhook.subscription.paused'' ''Subscription paused (by user or auto-suspend).'' [GLOBAL] (Some ''owner_id''),
        [''subscription_id'', ''owner_id'', ''reason'']),
      (''WebhookSubscriptionResumed'', mk_meta ''webhook.subscription.resumed'' ''Subscription resumed.'' [GLOBAL] (Some ''owner_id''),
        [''subscription_id'', ''owner_id'']),
      (''WebhookSubscriptionDeleted'', mk_meta ''webhook.subscription.deleted'' ''Subscription soft-deleted.'' [GLOBAL] (Some ''owner_id''),
        [''subscription_id'', ''owner_id'']),
      (''WebhookSubscriptionSecretRotated'', mk_meta ''webhook.subscription.secret_rotated'' ''Subscription secret rotated.'' [GLOBAL] (Some ''owner_id''),
        [''subscription_id'', ''owner_id'']),
      (''WebhookSubscriptionAutoSuspended'', mk_meta ''webhook.subscription.auto_suspended'' ''Subscription auto-suspended by ReResolveWorker (host resolved to a blocked IP or became unresolvable).'' [GLOBAL] (Some ''owner_id''),
        [''subscription_id'', ''owner_id'', ''url_host'', ''reason''])]"

text \<open>
  The table when the module has been imported: \<open>PostEvent\<close> of the event bus, with the fields
  \<open>inherited\<close> it gives every event, and below it each class as its decorator left it.
\<close>

fun decorate_all :: "WebhookMeta list \<Rightarrow> nat \<Rightarrow> classes \<Rightarrow> exc + classes" where
  "decorate_all [] c h = Inr h"
| "decorate_all (m # ms) c h =
     (case webhook_event m c h of Inl e \<Rightarrow> Inl e | Inr h' \<Rightarrow> decorate_all ms (Suc c) h')"

definition lifecycle_classes :: "string list \<Rightarrow> exc + classes" where
  "lifecycle_classes inherited =
     decorate_all (map (\<lambda>(_, m, _). m) lifecycle_events) 1
       (blank_class\<lparr>cl_qualname := ''PostEvent'', cl_subclasses := [1..<Suc (length lifecycle_events)]\<rparr> #
        map (\<lambda>(name, _, own). blank_class\<lparr>cl_qualname := name, cl_dataclass_fields := Some (inherited @ own)\<rparr>) lifecycle_events)"

section \<open>What discovery finds\<close>

text \<open>The proper descendants of a class.\<close>

inductive descends :: "classes \<Rightarrow> nat \<Rightarrow> nat \<Rightarrow> bool" for h where
  child: "c \<in> set (cl_subclasses (class_at h r)) \<Longrightarrow> descends h r c"
| grandchild: "descends h r b \<Longrightarrow> c \<in> set (cl_subclasses (class_at h b)) \<Longrightarrow> descends h r c"

text \<open>A class that belongs in the catalogue, under its own marker.\<close>

definition offers :: "classes \<Rightarrow> nat \<Rightarrow> WebhookMeta \<Rightarrow> bool" where
  "offers h c m \<longleftrightarrow> \<not> cl_abortable (class_at h c) \<and> cl_webhook_meta (class_at h c) = Marker m"

definition found_ok :: "classes \<Rightarrow> discovery \<Rightarrow> bool" where
  "found_ok h st \<longleftrightarrow>
     (\<forall>e. e \<in> set (ds_entries st) \<longleftrightarrow> en_event_cls e \<in> ds_seen st \<and> offers h (en_event_cls e) (en_meta e)) \<and>
     distinct (catalog_names (ds_entries st)) \<and>
     (\<forall>n q. dict_get (ds_by_name st) n = Some q \<longleftrightarrow>
        (\<exists>e \<in> set (ds_entries st). meta_name (en_meta e) = n \<and> cl_qualname (class_at h (en_event_cls e)) = q))"

lemma entry_eqI: "en_event_cls e = c \<Longrightarrow> en_meta e = m \<Longrightarrow> e = \<lparr>en_event_cls = c, en_meta = m\<rparr>"
  for e :: WebhookEventEntry by simp

lemma visit_found:
  assumes "found_ok h st" and "sub \<notin> ds_seen st" and "visit h sub st = Inr st'"
  shows "found_ok h st'"
proof (cases "\<exists>m. offers h sub m")
  case False
  then have "st' = st\<lparr>ds_seen := insert sub (ds_seen st)\<rparr>"
    using assms(3) by (auto simp: visit_def Let_def offers_def split: if_splits class_attr.splits)
  then show ?thesis using assms(1) False unfolding found_ok_def by auto
next
  case True
  then obtain m where m: "offers h sub m" by blast
  let ?e = "\<lparr>en_event_cls = sub, en_meta = m\<rparr>"
  have st': "dict_get (ds_by_name st) (meta_name m) = None" "ds_seen st' = insert sub (ds_seen st)"
    "ds_entries st' = ds_entries st @ [?e]" "ds_by_name st' = dict_set (meta_name m) (cl_qualname (class_at h sub)) (ds_by_name st)"
    using assms(3) m by (auto simp: visit_def Let_def offers_def split: option.splits)
  have fresh: "meta_name m \<notin> set (catalog_names (ds_entries st))"
  proof
    assume "meta_name m \<in> set (catalog_names (ds_entries st))"
    then obtain e where "e \<in> set (ds_entries st)" "meta_name (en_meta e) = meta_name m" by (auto simp: catalog_names_def)
    then have "dict_get (ds_by_name st) (meta_name m) = Some (cl_qualname (class_at h (en_event_cls e)))"
      using assms(1) unfolding found_ok_def by blast
    then show False using st'(1) by simp
  qed
  have "e \<in> set (ds_entries st') \<longleftrightarrow> en_event_cls e \<in> ds_seen st' \<and> offers h (en_event_cls e) (en_meta e)" for e
  proof (cases "en_event_cls e = sub")
    case True
    then have "offers h (en_event_cls e) (en_meta e) \<longleftrightarrow> en_meta e = m" using m by (auto simp: offers_def)
    moreover have "e \<notin> set (ds_entries st)" using assms(1,2) True unfolding found_ok_def by auto
    moreover have "e = ?e \<longleftrightarrow> en_meta e = m" using True by (cases e) auto
    ultimately show ?thesis using True st'(2,3) by auto
  next
    case False
    then show ?thesis using assms(1) st'(2,3) unfolding found_ok_def by auto
  qed
  moreover have "distinct (catalog_names (ds_entries st'))"
    using assms(1) fresh st'(3) by (simp add: found_ok_def catalog_names_def)
  moreover have "dict_get (ds_by_name st') n = Some q \<longleftrightarrow>
      (\<exists>e \<in> set (ds_entries st'). meta_name (en_meta e) = n \<and> cl_qualname (class_at h (en_event_cls e)) = q)" for n q
  proof (cases "n = meta_name m")
    case True
    have "meta_name (en_meta x) \<noteq> meta_name m" if "x \<in> set (ds_entries st)" for x
      using fresh that by (force simp: catalog_names_def)
    then show ?thesis using True st'(3,4) by auto
  next
    case False
    have "dict_get (ds_by_name st) n = Some q \<longleftrightarrow>
        (\<exists>e \<in> set (ds_entries st). meta_name (en_meta e) = n \<and> cl_qualname (class_at h (en_event_cls e)) = q)"
      using assms(1) unfolding found_ok_def by blast
    then show ?thesis using False st'(3,4) by auto
  qed
  ultimately show ?thesis unfolding found_ok_def by blast
qed

text \<open>A walk closes what it has seen under subclasses, and sees descendants only.\<close>

lemma walk_ok:
  assumes "walk h subs st = Inr st'" and "found_ok h st"
  shows "found_ok h st' \<and> ds_seen st \<subseteq> ds_seen st' \<and> set subs \<subseteq> ds_seen st' \<and>
    (\<forall>c \<in> ds_seen st' - ds_seen st. set (cl_subclasses (class_at h c)) \<subseteq> ds_seen st') \<and>
    (\<forall>c \<in> ds_seen st' - ds_seen st. c \<in> set subs \<or> (\<exists>r \<in> set subs. descends h r c))"
  using assms
proof (induction h subs st arbitrary: st' rule: walk.induct)
  case (2 h sub subs st)
  show ?case
  proof (cases "sub \<in> ds_seen st")
    case True
    then have "walk h subs st = Inr st'" using "2.prems"(1) by simp
    from "2.IH"(1) [OF True this "2.prems"(2)] show ?thesis using True by auto
  next
    case False
    then obtain st1 st2 where s: "visit h sub st = Inr st1" "walk h (cl_subclasses (class_at h sub)) st1 = Inr st2"
      "walk h subs st2 = Inr st'"
      using "2.prems"(1) by (auto split: sum.splits)
    note f1 = visit_found [OF "2.prems"(2) False s(1)]
    note a = "2.IH"(2) [OF False s(1,2) f1]
    note b = "2.IH"(3) [OF False s(1,2,3) conjunct1 [OF a]]
    have seen: "ds_seen st1 = insert sub (ds_seen st)" by (rule visit_seen [OF s(1)])
    have desc: "c \<in> set (sub # subs) \<or> (\<exists>r \<in> set (sub # subs). descends h r c)" if c: "c \<in> ds_seen st' - ds_seen st" for c
    proof -
      consider "c \<in> ds_seen st' - ds_seen st2" | "c \<in> ds_seen st2 - ds_seen st1" | "c = sub" using c seen by blast
      then show ?thesis
      proof cases
        case 1
        then show ?thesis using b by auto
      next
        case 2
        then have "c \<in> set (cl_subclasses (class_at h sub)) \<or> (\<exists>r \<in> set (cl_subclasses (class_at h sub)). descends h r c)"
          using a by blast
        then have "descends h sub c"
        proof
          assume "\<exists>r \<in> set (cl_subclasses (class_at h sub)). descends h r c"
          then obtain r where r: "r \<in> set (cl_subclasses (class_at h sub))" "descends h r c" by blast
          from r(2,1) show ?thesis by (induction rule: descends.induct) (blast intro: descends.intros)+
        qed (rule child)
        then show ?thesis by simp
      qed simp
    qed
    have "set (cl_subclasses (class_at h c)) \<subseteq> ds_seen st'" if c: "c \<in> ds_seen st' - ds_seen st" for c
    proof -
      consider "c \<in> ds_seen st' - ds_seen st2" | "c \<in> ds_seen st2 - ds_seen st1" | "c = sub" using c seen by blast
      then show ?thesis
      proof cases
        case 1
        then show ?thesis using b by simp
      next
        case 2
        then have "set (cl_subclasses (class_at h c)) \<subseteq> ds_seen st2" using a by simp
        then show ?thesis using b by auto
      next
        case 3
        then have "set (cl_subclasses (class_at h c)) \<subseteq> ds_seen st2" using a by simp
        then show ?thesis using b by auto
      qed
    qed
    moreover have "ds_seen st1 \<subseteq> ds_seen st2" "ds_seen st2 \<subseteq> ds_seen st'" "set subs \<subseteq> ds_seen st'" "found_ok h st'"
      using a b by simp_all
    moreover from this(1-3) have "ds_seen st \<subseteq> ds_seen st'" "set (sub # subs) \<subseteq> ds_seen st'" unfolding seen by auto
    ultimately show ?thesis using desc by (intro conjI ballI) simp_all
  qed
qed auto

lemma walk_roots_ok:
  assumes "walk_roots h roots st = Inr st'" and "found_ok h st"
    and "\<forall>c \<in> ds_seen st. set (cl_subclasses (class_at h c)) \<subseteq> ds_seen st"
  shows "found_ok h st' \<and> ds_seen st \<subseteq> ds_seen st' \<and> (\<forall>c \<in> ds_seen st'. set (cl_subclasses (class_at h c)) \<subseteq> ds_seen st') \<and>
    (\<forall>r \<in> set roots. set (cl_subclasses (class_at h r)) \<subseteq> ds_seen st') \<and>
    (\<forall>c \<in> ds_seen st' - ds_seen st. \<exists>r \<in> set roots. descends h r c)"
  using assms
proof (induction roots arbitrary: st)
  case (Cons base roots)
  obtain st1 where s: "walk h (cl_subclasses (class_at h base)) st = Inr st1" "walk_roots h roots st1 = Inr st'"
    using Cons.prems(1) by (auto split: sum.splits)
  note a = walk_ok [OF s(1) Cons.prems(2)]
  have closed: "\<forall>c \<in> ds_seen st1. set (cl_subclasses (class_at h c)) \<subseteq> ds_seen st1"
    using a Cons.prems(3) by blast
  note b = Cons.IH [OF s(2) conjunct1 [OF a] closed]
  have desc: "descends h base c" if "c \<in> ds_seen st1 - ds_seen st" for c
  proof -
    have "c \<in> set (cl_subclasses (class_at h base)) \<or> (\<exists>r \<in> set (cl_subclasses (class_at h base)). descends h r c)"
      using a that by blast
    then show ?thesis
    proof
      assume "\<exists>r \<in> set (cl_subclasses (class_at h base)). descends h r c"
      then obtain r where r: "r \<in> set (cl_subclasses (class_at h base))" "descends h r c" by blast
      from r(2,1) show ?thesis by (induction rule: descends.induct) (blast intro: descends.intros)+
    qed (rule child)
  qed
  have "\<exists>r \<in> set (base # roots). descends h r c" if "c \<in> ds_seen st' - ds_seen st" for c
    using b desc [of c] that by (cases "c \<in> ds_seen st1") auto
  then show ?case using a b by auto
qed simp

lemma discover_seen:
  assumes "walk_roots h roots \<lparr>ds_seen = {}, ds_entries = [], ds_by_name = []\<rparr> = Inr st"
  shows "found_ok h st" "c \<in> ds_seen st \<longleftrightarrow> (\<exists>r \<in> set roots. descends h r c)"
proof -
  have "found_ok h \<lparr>ds_seen = {}, ds_entries = [], ds_by_name = []\<rparr>" by (simp add: found_ok_def catalog_names_def)
  note w = walk_roots_ok [OF assms this]
  then show "found_ok h st" by simp
  have "c \<in> ds_seen st" if "descends h r c" "r \<in> set roots" for r c
    using that by (induction rule: descends.induct) (use w in \<open>auto\<close>)
  then show "c \<in> ds_seen st \<longleftrightarrow> (\<exists>r \<in> set roots. descends h r c)" using w by auto
qed

text \<open>Why a walk fails: two of the classes it reaches offer the same name.\<close>

definition collide :: "classes \<Rightarrow> (nat \<Rightarrow> bool) \<Rightarrow> exc \<Rightarrow> bool" where
  "collide h R e \<longleftrightarrow> (\<exists>a b ma mb. R a \<and> R b \<and> a \<noteq> b \<and> offers h a ma \<and> offers h b mb \<and> meta_name ma = meta_name mb \<and>
     e = WebhookEventCollision (meta_name mb) (cl_qualname (class_at h a)) (cl_qualname (class_at h b)))"

lemma visit_collides:
  assumes "visit h sub st = Inl e" and "found_ok h st" and "sub \<notin> ds_seen st" and "R sub" and "\<forall>c \<in> ds_seen st. R c"
  shows "collide h R e"
proof -
  obtain m first where m: "offers h sub m" "dict_get (ds_by_name st) (meta_name m) = Some first"
    "e = WebhookEventCollision (meta_name m) first (cl_qualname (class_at h sub))"
    using assms(1) by (auto simp: visit_def Let_def offers_def split: if_splits class_attr.splits option.splits)
  then obtain x where "x \<in> set (ds_entries st)" "meta_name (en_meta x) = meta_name m"
    "cl_qualname (class_at h (en_event_cls x)) = first"
    using assms(2) unfolding found_ok_def by blast
  moreover from this(1) have "en_event_cls x \<in> ds_seen st" "offers h (en_event_cls x) (en_meta x)"
    using assms(2) unfolding found_ok_def by blast+
  ultimately show ?thesis using m assms(3-5) unfolding collide_def by metis
qed

lemma descends_within:
  "descends h r c \<Longrightarrow> R r \<Longrightarrow> (\<And>b c. R b \<Longrightarrow> c \<in> set (cl_subclasses (class_at h b)) \<Longrightarrow> R c) \<Longrightarrow> R c"
  by (induction rule: descends.induct) blast+

lemma walk_collides:
  assumes "walk h subs st = Inl e" and "found_ok h st" and "\<forall>c \<in> ds_seen st. R c" and "\<forall>c \<in> set subs. R c"
    and "\<And>b c. R b \<Longrightarrow> c \<in> set (cl_subclasses (class_at h b)) \<Longrightarrow> R c"
  shows "collide h R e"
  using assms
proof (induction h subs st rule: walk.induct)
  case (2 h sub subs st)
  show ?case
  proof (cases "sub \<in> ds_seen st")
    case True
    then show ?thesis using "2.IH"(1) [OF True] "2.prems" by simp
  next
    case False
    show ?thesis
    proof (cases "visit h sub st")
      case (Inl e')
      then have "visit h sub st = Inl e" using "2.prems"(1) False by simp
      from visit_collides [OF this "2.prems"(2) False, of R] "2.prems"(3,4) show ?thesis by simp
    next
      case v: (Inr st1)
      note f1 = visit_found [OF "2.prems"(2) False v]
      have sub: "\<forall>c \<in> set (cl_subclasses (class_at h sub)). R c" using "2.prems"(4,5) by auto
      have seen1: "\<forall>c \<in> ds_seen st1. R c" using visit_seen [OF v] "2.prems"(3,4) by auto
      show ?thesis
      proof (cases "walk h (cl_subclasses (class_at h sub)) st1")
        case (Inl e')
        then have "walk h (cl_subclasses (class_at h sub)) st1 = Inl e" using "2.prems"(1) False v by simp
        from "2.IH"(2) [OF False v this f1 seen1 sub] "2.prems"(5) show ?thesis by blast
      next
        case w: (Inr st2)
        note a = walk_ok [OF w f1]
        have "R c" if "c \<in> ds_seen st2" for c
        proof (cases "c \<in> ds_seen st1")
          case False
          then have "c \<in> set (cl_subclasses (class_at h sub)) \<or> (\<exists>r \<in> set (cl_subclasses (class_at h sub)). descends h r c)"
            using a that by blast
          then show ?thesis using sub descends_within [of h _ c R] "2.prems"(5) by blast
        qed (use seen1 in blast)
        moreover have "walk h subs st2 = Inl e" using "2.prems"(1) False v w by simp
        ultimately show ?thesis using "2.IH"(3) [OF False v w] a "2.prems"(4,5) by auto
      qed
    qed
  qed
qed simp

lemma walk_roots_collides:
  assumes "walk_roots h roots st = Inl e" and "found_ok h st" and "\<forall>c \<in> ds_seen st. R c"
    and "\<forall>r \<in> set roots. \<forall>c \<in> set (cl_subclasses (class_at h r)). R c"
    and "\<And>b c. R b \<Longrightarrow> c \<in> set (cl_subclasses (class_at h b)) \<Longrightarrow> R c"
  shows "collide h R e"
  using assms
proof (induction roots arbitrary: st)
  case (Cons base roots)
  show ?case
  proof (cases "walk h (cl_subclasses (class_at h base)) st")
    case (Inl e')
    then have "walk h (cl_subclasses (class_at h base)) st = Inl e" using Cons.prems(1) by simp
    from walk_collides [OF this Cons.prems(2,3) _ Cons.prems(5)] Cons.prems(4) show ?thesis by simp
  next
    case w: (Inr st1)
    note a = walk_ok [OF w Cons.prems(2)]
    have "R c" if "c \<in> ds_seen st1" for c
    proof (cases "c \<in> ds_seen st")
      case False
      then have "c \<in> set (cl_subclasses (class_at h base)) \<or> (\<exists>r \<in> set (cl_subclasses (class_at h base)). descends h r c)"
        using a that by blast
      then show ?thesis using Cons.prems(4) descends_within [of h _ c R] Cons.prems(5) by (metis list.set_intros(1))
    qed (use Cons.prems(3) in blast)
    moreover have "walk_roots h roots st1 = Inl e" using Cons.prems(1) w by simp
    ultimately show ?thesis using Cons.IH [of st1] a Cons.prems(4,5) by auto
  qed
qed simp

section \<open>Properties\<close>

text \<open>
  C36: discovery is complete, exact and refuses ambiguity. Whatever the class hierarchy, shared
  or cyclic as it may be, it ends: with the catalogue of all and only those proper descendants
  of the roots that carry their own marker and are not abortable, no name in it twice; or with
  a collision that names two of them with the same name.
\<close>

theorem discover_correct:
  "case discover h roots of
     Inr catalog \<Rightarrow> (\<forall>e. e \<in> set catalog \<longleftrightarrow> (\<exists>r \<in> set roots. descends h r (en_event_cls e)) \<and> offers h (en_event_cls e) (en_meta e)) \<and>
       distinct (catalog_names catalog)
   | Inl e \<Rightarrow> \<exists>a b ma mb. a \<noteq> b \<and> (\<exists>r \<in> set roots. descends h r a) \<and> (\<exists>r \<in> set roots. descends h r b) \<and>
       offers h a ma \<and> offers h b mb \<and> meta_name ma = meta_name mb \<and>
       e = WebhookEventCollision (meta_name mb) (cl_qualname (class_at h a)) (cl_qualname (class_at h b))"
proof (cases "walk_roots h roots \<lparr>ds_seen = {}, ds_entries = [], ds_by_name = []\<rparr>")
  case (Inl e)
  have "found_ok h \<lparr>ds_seen = {}, ds_entries = [], ds_by_name = []\<rparr>" by (simp add: found_ok_def catalog_names_def)
  from walk_roots_collides [OF Inl this, of "\<lambda>c. \<exists>r \<in> set roots. descends h r c"]
  have "collide h (\<lambda>c. \<exists>r \<in> set roots. descends h r c) e" by (auto intro: descends.intros)
  then show ?thesis using Inl unfolding collide_def discover_def by auto
next
  case (Inr st)
  note d = discover_seen [OF Inr]
  have "e \<in> set (ds_entries st) \<longleftrightarrow> (\<exists>r \<in> set roots. descends h r (en_event_cls e)) \<and> offers h (en_event_cls e) (en_meta e)" for e
    using d(1) unfolding found_ok_def d(2) by blast
  then show ?thesis using Inr d(1) by (simp add: discover_def found_ok_def)
qed

lemma verify_tenant_fields_ok:
  "verify_tenant_fields h es = Inr () \<longleftrightarrow> list_all (has_tenant_field h) es"
  by (induction es) simp_all

text \<open>
  The package's own events boot. Importing \<open>events.py\<close> decorates its eight classes without
  an error, discovery from \<open>PostEvent\<close> finds all of them, in the order they are declared and
  under distinct names, every tenant field named by a marker is a field of its class, and all
  are of global scope.
\<close>

theorem lifecycle_events_boot:
  "\<exists>h catalog. lifecycle_classes inherited = Inr h \<and> discover h [0] = Inr catalog \<and>
     catalog_names catalog = map (\<lambda>(_, m, _). meta_name m) lifecycle_events \<and> length catalog = 8 \<and>
     verify_tenant_fields h catalog = Inr () \<and> by_scope GLOBAL catalog = catalog \<and> by_scope TENANT catalog = []"
proof -
  have "case lifecycle_classes inherited of Inl e \<Rightarrow> False | Inr h \<Rightarrow>
      (case discover h [0] of Inl e \<Rightarrow> False | Inr catalog \<Rightarrow>
        catalog_names catalog = map (\<lambda>(_, m, _). meta_name m) lifecycle_events \<and> length catalog = 8 \<and>
        verify_tenant_fields h catalog = Inr () \<and> by_scope GLOBAL catalog = catalog \<and> by_scope TENANT catalog = [])"
    by (simp add: lifecycle_classes_def lifecycle_events_def webhook_event_def discover_def visit_def class_at_def
        blank_class_def Let_def mk_meta_def catalog_names_def by_scope_def has_tenant_field_def upt_rec)
  then show ?thesis by (auto split: sum.splits)
qed

end
