(* ===== verification/Fanout.thy ===== *)
theory Fanout
  imports Registry Protocols MemoryStore RedisSubs
begin

text \<open>
  Fan-out from the event bus (\<open>fanout.py\<close>, \<open>fanout_installer.py\<close>): a handler per event of the
  catalogue, which turns a published event into one delivery for each subscription the reader
  answers. An event is what the handler reads of it: its attributes, its fields as JSON (a value
  JSON has no form for as the bus's serializer renders it), and its metadata.
\<close>

section \<open>Events and handlers\<close>

datatype attr_val = NoneVal | TextVal string | OtherVal string

record bus_event =
  be_attrs :: "(string, attr_val) dict"
  be_raw :: "(string, json) dict"
  be_event_id :: string
  be_schema_version :: string
  be_emitted_at :: time

record handler_class =
  hc_event_cls :: nat
  hc_plugin_id :: string
  hc_meta :: WebhookMeta
  hc_qualname :: string

definition specialize :: "classes \<Rightarrow> nat \<Rightarrow> WebhookMeta \<Rightarrow> handler_class" where
  "specialize h c m =
     \<lparr>hc_event_cls = c, hc_plugin_id = ''core.webhooks.'' @ meta_name m, hc_meta = m,
      hc_qualname = ''WebhookFanoutHandler__'' @ cl_qualname (class_at h c)\<rparr>"

record ('q, 's) FanoutHandler =
  fh_class :: handler_class
  fh_reader :: "'q subscription_reader"
  fh_store :: "'s delivery_store"
  fh_dispatch_enabled :: bool
  fh_uuid :: "nat \<Rightarrow> string"

record ('q, 's) fan_world =
  fw_subs :: 'q
  fw_store :: 's
  fw_uuids :: nat

definition on_reader :: "(exc, 'q, 'a) comp \<Rightarrow> (exc, ('q, 's) fan_world, 'a) comp" where
  "on_reader m = (\<lambda>w. case m (fw_subs w) of (res, q) \<Rightarrow> (res, w\<lparr>fw_subs := q\<rparr>))"

definition on_fan_store :: "(exc, 's, 'a) comp \<Rightarrow> (exc, ('q, 's) fan_world, 'a) comp" where
  "on_fan_store m = (\<lambda>w. case m (fw_store w) of (res, s) \<Rightarrow> (res, w\<lparr>fw_store := s\<rparr>))"

section \<open>The handler\<close>

text \<open>The tenant of an event: no tenant field, no such attribute, \<open>None\<close> and \<open>""\<close> are all no tenant.\<close>

definition tenant_of :: "WebhookMeta \<Rightarrow> bus_event \<Rightarrow> string option" where
  "tenant_of m event =
     (case meta_tenant_field m of
        None \<Rightarrow> None
      | Some f \<Rightarrow> if f = [] then None
          else (case dict_get (be_attrs event) f of
                  None \<Rightarrow> None
                | Some NoneVal \<Rightarrow> None
                | Some (TextVal s) \<Rightarrow> if s = [] then None else Some s
                | Some (OtherVal s) \<Rightarrow> Some s))"

definition fan_record :: "bus_event \<Rightarrow> WebhookMeta \<Rightarrow> string option \<Rightarrow> bytes \<Rightarrow> time \<Rightarrow> SubscriptionSnapshot \<Rightarrow> string \<Rightarrow> DeliveryRecord" where
  "fan_record event m tenant data now sub did =
     \<lparr>delivery_id = did, subscription_id = sub_id sub, owner_id = sub_owner_id sub, event_name = meta_name m,
      event_id = be_event_id event, schema_version = be_schema_version event, tenant_id = tenant, data_json = data,
      emitted_at = be_emitted_at event, target_url = sub_url sub, resolved_ip = sub_resolved_ip sub,
      redelivery_of = None, attempts = 0, fire_at = now, created_at = now, status = PENDING,
      profile = DEFAULT_PROFILE, secret_version = None\<rparr>"

definition fan_body :: "bus_event \<Rightarrow> WebhookMeta \<Rightarrow> bytes" where
  "fan_body event m = encode (dumps (JObj (redact_payload (be_raw event) m)))"

definition fan_records ::
  "('q, 's) FanoutHandler \<Rightarrow> time \<Rightarrow> bus_event \<Rightarrow> SubscriptionSnapshot list \<Rightarrow> nat \<Rightarrow> DeliveryRecord list" where
  "fan_records h now event subs n =
     (let m = hc_meta (fh_class h)
      in map2 (fan_record event m (tenant_of m event) (fan_body event m) now) subs (map (fh_uuid h) [n..<n + length subs]))"

definition fanout_handle ::
  "('q, 's) FanoutHandler \<Rightarrow> time \<Rightarrow> bus_event \<Rightarrow> (exc, ('q, 's) fan_world, unit) comp" where
  "fanout_handle h now event =
     (if \<not> fh_dispatch_enabled h then ret ()
      else (let m = hc_meta (fh_class h) in
        bindE (on_reader (fh_reader h (meta_name m) (tenant_of m event))) (\<lambda>subs.
          if subs = [] then ret ()
          else (\<lambda>w. on_fan_store (enqueue_many (fh_store h) (fan_records h now event subs (fw_uuids w)))
                      (w\<lparr>fw_uuids := fw_uuids w + length subs\<rparr>)))))"

section \<open>Installation\<close>

text \<open>The bus's handler registry is a parameter: what installing a handler does to its state \<open>'h\<close>.\<close>

record ('q, 's) FanoutInstaller =
  fi_classes :: classes
  fi_catalog :: WebhookCatalog
  fi_reader :: "'q subscription_reader"
  fi_store :: "'s delivery_store"
  fi_dispatch_enabled :: bool
  fi_uuid :: "nat \<Rightarrow> string"

record 'h installed =
  is_registry :: 'h
  is_installed :: "string set"

definition handler_for :: "('q, 's) FanoutInstaller \<Rightarrow> WebhookEventEntry \<Rightarrow> ('q, 's) FanoutHandler" where
  "handler_for i e =
     \<lparr>fh_class = specialize (fi_classes i) (en_event_cls e) (en_meta e), fh_reader = fi_reader i, fh_store = fi_store i,
      fh_dispatch_enabled = fi_dispatch_enabled i, fh_uuid = fi_uuid i\<rparr>"

fun install_each ::
  "(('q, 's) FanoutHandler \<Rightarrow> 'h \<Rightarrow> 'h) \<Rightarrow> ('q, 's) FanoutInstaller \<Rightarrow> WebhookEventEntry list \<Rightarrow> int \<Rightarrow> 'h installed \<Rightarrow> int \<times> 'h installed" where
  "install_each install i [] count s = (count, s)"
| "install_each install i (e # es) count s =
     (if meta_name (en_meta e) \<in> is_installed s then install_each install i es count s
      else install_each install i es (count + 1)
             \<lparr>is_registry = install (handler_for i e) (is_registry s),
              is_installed = insert (meta_name (en_meta e)) (is_installed s)\<rparr>)"

definition install_all ::
  "(('q, 's) FanoutHandler \<Rightarrow> 'h \<Rightarrow> 'h) \<Rightarrow> ('q, 's) FanoutInstaller \<Rightarrow> WebhookCatalog option \<Rightarrow> 'h installed \<Rightarrow> int \<times> 'h installed" where
  "install_all install i catalog s =
     install_each install i (case catalog of None \<Rightarrow> fi_catalog i | Some c \<Rightarrow> c) 0 s"

definition is_event_installed :: "string \<Rightarrow> 'h installed \<Rightarrow> bool" where
  "is_event_installed event s \<longleftrightarrow> event \<in> is_installed s"

section \<open>Facts\<close>

lemma fan_records_ids:
  "map delivery_id (fan_records h now event subs n) = map (fh_uuid h) [n..<n + length subs]"
  "map subscription_id (fan_records h now event subs n) = map sub_id subs"
proof -
  let ?f = "fan_record event (hc_meta (fh_class h)) (tenant_of (hc_meta (fh_class h)) event) (fan_body event (hc_meta (fh_class h))) now"
  have "map delivery_id (map2 ?f xs ys) = ys \<and> map subscription_id (map2 ?f xs ys) = map sub_id xs" if "length xs = length ys" for xs ys
    using that by (induction xs ys rule: list_induct2) (simp_all add: fan_record_def)
  from this [of subs "map (fh_uuid h) [n..<n + length subs]"]
  show "map delivery_id (fan_records h now event subs n) = map (fh_uuid h) [n..<n + length subs]"
    "map subscription_id (fan_records h now event subs n) = map sub_id subs"
    by (simp_all add: fan_records_def Let_def)
qed

lemma fan_records_in:
  "r \<in> set (fan_records h now event subs n) \<Longrightarrow> \<exists>sub \<in> set subs. \<exists>did.
     r = fan_record event (hc_meta (fh_class h)) (tenant_of (hc_meta (fh_class h)) event) (fan_body event (hc_meta (fh_class h))) now sub did"
  by (auto simp: fan_records_def Let_def set_zip)

lemma fan_records_pending: "list_all (\<lambda>r. status r = PENDING) (fan_records h now event subs n)"
  unfolding list_all_iff using fan_records_in [of _ h now event subs n] by (fastforce simp: fan_record_def)

lemma find_distinct_in:
  "distinct (map k xs) \<Longrightarrow> x \<in> set xs \<Longrightarrow> find (\<lambda>y. k y = k x) xs = Some x"
  by (rule find_Some_distinct)

text \<open>
  What a handler adds to the in-memory store when it reads its subscriptions from Redis: the rows
  with new identifiers are those of the subscriptions the event reaches.
\<close>

lemma fanout_rows:
  assumes "fh_reader h = redis_for_event cfg" and "fh_store h = mem_store" and "fh_dispatch_enabled h"
    and "redis_subs_inv cfg (fw_subs w)" and "mem_inv (fw_store w)"
    and "inj (fh_uuid h)" and "\<forall>n \<ge> fw_uuids w. mem_view (fw_store w) (fh_uuid h n) = None"
  shows "\<exists>subs w'. redis_for_event cfg (meta_name (hc_meta (fh_class h))) (tenant_of (hc_meta (fh_class h)) event) (fw_subs w) = (Inr subs, fw_subs w) \<and>
    fanout_handle h now event w = (Inr (), w') \<and>
    (let rs = fan_records h now event subs (fw_uuids w) in
     mem_view (fw_store w') = (\<lambda>did. case find (\<lambda>r. delivery_id r = did) rs of Some r \<Rightarrow> Some (Row r None) | None \<Rightarrow> mem_view (fw_store w) did))"
proof -
  let ?m = "hc_meta (fh_class h)"
  obtain subs where subs: "redis_for_event cfg (meta_name ?m) (tenant_of ?m event) (fw_subs w) = (Inr subs, fw_subs w)"
    using redis_sub.for_event [OF assms(4), of "meta_name ?m" "tenant_of ?m event"] by (auto simp: redis_subs_def)
  let ?rs = "fan_records h now event subs (fw_uuids w)"
  have run: "fanout_handle h now event w = (if subs = [] then (Inr (), w)
      else on_fan_store (enqueue_many mem_store ?rs) (w\<lparr>fw_uuids := fw_uuids w + length subs\<rparr>))"
    using subs assms(1-3) by (simp add: fanout_handle_def on_reader_def bindE_def Let_def)
  show ?thesis
  proof (cases "subs = []")
    case True
    then show ?thesis using run subs by (simp add: fan_records_def Let_def)
  next
    case False
    obtain s' where s': "enqueue_many mem_store ?rs (fw_store w) = (Inr (), s')" "mem_view s' = enqueued ?rs (mem_view (fw_store w))"
      using mem.enqueue [OF assms(5) fan_records_pending, of h now event subs "fw_uuids w"] by auto
    have "mem_view (fw_store w) did = None" if "find (\<lambda>r. delivery_id r = did) ?rs = Some r" for did r
    proof -
      have "did \<in> set (map delivery_id ?rs)" using that by (auto simp: find_Some_iff)
      then show ?thesis using assms(7) unfolding fan_records_ids by auto
    qed
    then have "enqueued ?rs (mem_view (fw_store w)) =
        (\<lambda>did. case find (\<lambda>r. delivery_id r = did) ?rs of Some r \<Rightarrow> Some (Row r None) | None \<Rightarrow> mem_view (fw_store w) did)"
      by (auto simp: enqueued_def fun_eq_iff split: option.splits)
    then show ?thesis using run s' subs False by (simp add: on_fan_store_def Let_def)
  qed
qed

lemma install_each_done:
  "meta_name ` en_meta ` set es \<subseteq> is_installed s \<Longrightarrow> install_each install i es n s = (n, s)"
  by (induction es) auto

lemma install_each_names:
  "is_installed (snd (install_each install i es n s)) = is_installed s \<union> set (catalog_names es)"
  by (induction install i es n s rule: install_each.induct) (auto simp: catalog_names_def)

lemma install_each_registry:
  "distinct (catalog_names es) \<Longrightarrow> install_each install i es n s =
     (n + int (length (filter (\<lambda>e. meta_name (en_meta e) \<notin> is_installed s) es)),
      \<lparr>is_registry = fold (\<lambda>e. install (handler_for i e)) (filter (\<lambda>e. meta_name (en_meta e) \<notin> is_installed s) es) (is_registry s),
       is_installed = is_installed s \<union> set (catalog_names es)\<rparr>)"
proof (induction es arbitrary: n s)
  case (Cons e es)
  let ?n = "meta_name (en_meta e)"
  have new: "?n \<notin> set (catalog_names es)" and d: "distinct (catalog_names es)" using Cons.prems by (simp_all add: catalog_names_def)
  have cong: "filter (\<lambda>x. meta_name (en_meta x) \<notin> insert ?n (is_installed s)) es = filter (\<lambda>x. meta_name (en_meta x) \<notin> is_installed s) es"
    using new by (intro filter_cong refl) (auto simp: catalog_names_def dest: rev_image_eqI [where f = "\<lambda>e. meta_name (en_meta e)"])
  show ?case
    using Cons.IH [OF d] cong by (auto simp: catalog_names_def)
qed (simp add: catalog_names_def)

section \<open>Properties\<close>

text \<open>The rows a handler adds, each for a subscription the reader answered.\<close>

lemma fanout_new_rows:
  assumes "fh_reader h = redis_for_event cfg" and "fh_store h = mem_store" and "fh_dispatch_enabled h"
    and "redis_subs_inv cfg (fw_subs w)" and "mem_inv (fw_store w)"
    and "inj (fh_uuid h)" and "\<forall>n \<ge> fw_uuids w. mem_view (fw_store w) (fh_uuid h n) = None"
    and "fanout_handle h now event w = (res, w')"
  shows "res = Inr () \<and>
    (\<forall>did row. mem_view (fw_store w) did = None \<longrightarrow> mem_view (fw_store w') did = Some row \<longrightarrow>
       (\<exists>r. redis_sub_view cfg (fw_subs w) (subscription_id (row_rec row)) = Some r \<and>
          interested (meta_name (hc_meta (fh_class h))) (tenant_of (hc_meta (fh_class h)) event) (row_sub r) \<and>
          owner_id (row_rec row) = su_owner_id (row_sub r) \<and>
          tenant_id (row_rec row) = tenant_of (hc_meta (fh_class h)) event)) \<and>
    (\<forall>sid r. redis_sub_view cfg (fw_subs w) sid = Some r \<longrightarrow>
       interested (meta_name (hc_meta (fh_class h))) (tenant_of (hc_meta (fh_class h)) event) (row_sub r) \<longrightarrow>
       (\<exists>did row. mem_view (fw_store w) did = None \<and> mem_view (fw_store w') did = Some (Row row None) \<and>
          subscription_id row = sid \<and> owner_id row = su_owner_id (row_sub r)))"
proof -
  let ?m = "hc_meta (fh_class h)"
  obtain subs where subs: "redis_for_event cfg (meta_name ?m) (tenant_of ?m event) (fw_subs w) = (Inr subs, fw_subs w)"
    "fanout_handle h now event w = (Inr (), w')" "res = Inr ()"
    "mem_view (fw_store w') = (\<lambda>did. case find (\<lambda>r. delivery_id r = did) (fan_records h now event subs (fw_uuids w)) of
       Some r \<Rightarrow> Some (Row r None) | None \<Rightarrow> mem_view (fw_store w) did)"
    using fanout_rows [OF assms(1-7), where now = now and event = event] assms(8) by (auto simp: Let_def)
  let ?rs = "fan_records h now event subs (fw_uuids w)"
  have snap: "snap \<in> set subs \<longleftrightarrow> (\<exists>r. redis_sub_view cfg (fw_subs w) (sub_id snap) = Some r \<and>
      interested (meta_name ?m) (tenant_of ?m event) (row_sub r) \<and> snap = snapshot_of (row_sub r))" for snap
    using redis_sub.for_event [OF assms(4), of "meta_name ?m" "tenant_of ?m event"] subs(1) by (auto simp: redis_subs_def)
  have rec: "\<exists>r. redis_sub_view cfg (fw_subs w) (subscription_id x) = Some r \<and>
      interested (meta_name ?m) (tenant_of ?m event) (row_sub r) \<and>
      owner_id x = su_owner_id (row_sub r) \<and> tenant_id x = tenant_of ?m event" if x: "x \<in> set ?rs" for x
  proof -
    obtain sub did where sub: "sub \<in> set subs" "x = fan_record event ?m (tenant_of ?m event) (fan_body event ?m) now sub did"
      using fan_records_in [OF x] by blast
    then have sx: "subscription_id x = sub_id sub" "owner_id x = sub_owner_id sub" "tenant_id x = tenant_of ?m event"
      by (simp_all add: fan_record_def)
    obtain r where "redis_sub_view cfg (fw_subs w) (sub_id sub) = Some r"
      "interested (meta_name ?m) (tenant_of ?m event) (row_sub r)" "sub = snapshot_of (row_sub r)"
      using snap [of sub] sub(1) by blast
    then show ?thesis using sx by (intro exI [of _ r]) (simp add: snapshot_of_def)
  qed
  have ids: "distinct (map delivery_id ?rs)"
    unfolding fan_records_ids using inj_on_subset [OF assms(6)] by (simp add: distinct_map)
  have fresh: "mem_view (fw_store w) (delivery_id x) = None" if "x \<in> set ?rs" for x
  proof -
    have "delivery_id x \<in> set (map delivery_id ?rs)" using that by simp
    then show ?thesis using assms(7) unfolding fan_records_ids by auto
  qed
  have all: "\<exists>did row. mem_view (fw_store w) did = None \<and> mem_view (fw_store w') did = Some (Row row None) \<and>
      subscription_id row = sid \<and> owner_id row = su_owner_id (row_sub r)"
    if r: "redis_sub_view cfg (fw_subs w) sid = Some r" "interested (meta_name ?m) (tenant_of ?m event) (row_sub r)" for sid r
  proof -
    have id: "su_id (row_sub r) = sid" by (rule redis_sub.view_id [OF assms(4) r(1)])
    then have "snapshot_of (row_sub r) \<in> set subs" using snap r by (auto simp: snapshot_of_def)
    then have "sid \<in> set (map sub_id subs)" using id by (force simp: snapshot_of_def)
    then have "sid \<in> set (map subscription_id ?rs)" by (simp only: fan_records_ids)
    then obtain x where x: "x \<in> set ?rs" "subscription_id x = sid" unfolding set_map by blast
    moreover have "mem_view (fw_store w') (delivery_id x) = Some (Row x None)"
      using find_distinct_in [OF ids x(1)] subs(4) by simp
    moreover have "owner_id x = su_owner_id (row_sub r)" using rec [OF x(1)] x(2) r(1) by auto
    ultimately show ?thesis using fresh by blast
  qed
  have new: "\<exists>r. redis_sub_view cfg (fw_subs w) (subscription_id (row_rec row)) = Some r \<and>
          interested (meta_name ?m) (tenant_of ?m event) (row_sub r) \<and>
          owner_id (row_rec row) = su_owner_id (row_sub r) \<and> tenant_id (row_rec row) = tenant_of ?m event"
    if n: "mem_view (fw_store w) did = None" "mem_view (fw_store w') did = Some row" for did row
  proof -
    obtain x where "find (\<lambda>r. delivery_id r = did) ?rs = Some x" "row = Row x None"
      using n subs(4) by (auto split: option.splits)
    then show ?thesis using rec [of x] by (auto simp: find_Some_iff)
  qed
  from subs(3) new all show ?thesis by blast
qed

definition fan_ready :: "redis_subs_cfg \<Rightarrow> (RedisSubs, MemState) FanoutHandler \<Rightarrow> (RedisSubs, MemState) fan_world \<Rightarrow> bool" where
  "fan_ready cfg h w \<longleftrightarrow> codec_ok cfg \<and> redis_subs_reachable cfg (fw_subs w) \<and> mem_inv (fw_store w) \<and>
     fh_reader h = redis_for_event cfg \<and> fh_store h = mem_store \<and> fh_dispatch_enabled h \<and> inj (fh_uuid h) \<and>
     (\<forall>n. fw_uuids w \<le> n \<longrightarrow> mem_view (fw_store w) (fh_uuid h n) = None)"


text \<open>
  An event that has lost its tenant reaches every tenant. If the marker names a tenant field
  but the event's value there is missing, \<open>None\<close> or empty, the reader is asked for every owner:
  each active subscription to the event, whoever owns it, gets the delivery. The scopes of the
  marker are not looked at.
\<close>

theorem fanout_without_tenant_reaches_all:
  assumes "fan_ready cfg h w" and "meta_tenant_field (hc_meta (fh_class h)) = Some f"
    and "dict_get (be_attrs event) f \<in> {None, Some NoneVal, Some (TextVal [])}"
    and "fanout_handle h now event w = (res, w')"
    and "redis_subs_get cfg sid (fw_subs w) = (Inr (Some sub), fw_subs w)" and "su_status sub = ACTIVE"
    and "meta_name (hc_meta (fh_class h)) \<in> set (su_events sub)"
  shows "\<exists>did row. mem_view (fw_store w) did = None \<and> mem_view (fw_store w') did = Some (Row row None) \<and>
    subscription_id row = sid \<and> owner_id row = su_owner_id sub"
proof -
  have f: "fh_reader h = redis_for_event cfg" "fh_store h = mem_store" "fh_dispatch_enabled h" "mem_inv (fw_store w)" "inj (fh_uuid h)"
    "\<forall>n \<ge> fw_uuids w. mem_view (fw_store w) (fh_uuid h n) = None" and inv: "redis_subs_inv cfg (fw_subs w)"
    using assms(1) redis_subs_reachable_inv by (auto simp: fan_ready_def)
  have "tenant_of (hc_meta (fh_class h)) event = None" using assms(2,3) by (auto simp: tenant_of_def)
  note n = fanout_new_rows [OF f(1-3) inv f(4-6) assms(4), unfolded this]
  obtain r where r: "redis_sub_view cfg (fw_subs w) sid = Some r" "row_sub r = sub"
    using redis_get_ok [OF inv, of sid] assms(5) by (cases "redis_sub_view cfg (fw_subs w) sid") auto
  then have "interested (meta_name (hc_meta (fh_class h))) None (row_sub r)"
    using assms(6,7) by (simp add: interested_def)
  then show ?thesis using n r by blast
qed

text \<open>
  Installing is idempotent. Installing a catalogue whose names are distinct, as discovery
  makes them, registers one handler, bound to its event and marker, for exactly the entries not
  installed before, in order, and counts them; installing it again registers nothing.
\<close>

theorem install_all_idempotent:
  assumes "distinct (catalog_names catalog)"
  shows "let new = filter (\<lambda>e. \<not> is_event_installed (meta_name (en_meta e)) s) catalog;
      s' = \<lparr>is_registry = fold (\<lambda>e. install (handler_for i e)) new (is_registry s),
            is_installed = is_installed s \<union> set (catalog_names catalog)\<rparr>
    in install_all install i (Some catalog) s = (int (length new), s') \<and>
       install_all install i (Some catalog) s' = (0, s') \<and>
       list_all (\<lambda>e. is_event_installed (meta_name (en_meta e)) s') catalog"
  using install_each_registry [OF assms, of install i 0 s]
  by (auto simp: Let_def install_all_def is_event_installed_def catalog_names_def list_all_iff intro!: install_each_done)

section \<open>Witnesses\<close>

definition sample_meta :: WebhookMeta where
  "sample_meta = mk_meta ''order.paid'' ''An order was paid.'' [TENANT] (Some ''user_id'')"

definition sample_fanout :: "(RedisSubs, MemState) FanoutHandler" where
  "sample_fanout = \<lparr>fh_class = specialize [] 0 sample_meta, fh_reader = redis_for_event sample_subs_cfg, fh_store = mem_store,
     fh_dispatch_enabled = True, fh_uuid = (\<lambda>n. replicate (Suc n) CHR ''u'')\<rparr>"

definition sample_fan_world :: "(RedisSubs, MemState) fan_world" where
  "sample_fan_world = \<lparr>fw_subs = sample_subs_db, fw_store = mem_empty, fw_uuids = 0\<rparr>"

definition sample_bus_event :: "attr_val \<Rightarrow> bus_event" where
  "sample_bus_event v = \<lparr>be_attrs = [(''user_id'', v)], be_raw = [(''user_id'', JStr ''o1''), (''amount'', JInt 5)],
     be_event_id = ''e1'', be_schema_version = ''1.0'', be_emitted_at = 0\<rparr>"

lemma sample_fan_ready: "fan_ready sample_subs_cfg sample_fanout sample_fan_world"
proof -
  have "inj (\<lambda>n. replicate (Suc n) CHR ''u'')" by (rule injI) (metis length_replicate nat.inject)
  moreover have "mem_view mem_empty k = None" for k
    by (simp add: mem_empty_def mem_view_def)
  ultimately show ?thesis
    using sample_codec sample_subs_reachable mem_inv_empty
    by (simp add: fan_ready_def sample_fanout_def sample_fan_world_def)
qed

lemma sample_fan_meta: "hc_meta (fh_class sample_fanout) = sample_meta"
  by (simp add: sample_fanout_def specialize_def)

lemma sample_subscribed: "redis_subs_get sample_subs_cfg ''s1'' (fw_subs sample_fan_world) =
    (Inr (Some (new_subscription sample_env ''1.1.1.1'' ''o1'' ''https://a.example/hook'' [''order.paid''] None)), fw_subs sample_fan_world)"
  using redis_get_ok [OF redis_subs_reachable_inv [OF sample_codec sample_subs_reachable], of "''s1''"] sample_view
  by (simp add: sample_fan_world_def)


theorem fanout_without_tenant_reaches_all_witness:
  "\<exists>res w' did r. fanout_handle sample_fanout 9 (sample_bus_event NoneVal) sample_fan_world = (res, w') \<and>
     mem_view (fw_store w') did = Some (Row r None) \<and> subscription_id r = ''s1'' \<and> owner_id r = ''o1''"
proof -
  obtain res w' where run: "fanout_handle sample_fanout 9 (sample_bus_event NoneVal) sample_fan_world = (res, w')" by fastforce
  have f: "meta_tenant_field (hc_meta (fh_class sample_fanout)) = Some ''user_id''"
    unfolding sample_fan_meta by (simp add: sample_meta_def mk_meta_def)
  have e: "dict_get (be_attrs (sample_bus_event NoneVal)) ''user_id'' \<in> {None, Some NoneVal, Some (TextVal [])}"
    by (simp add: sample_bus_event_def)
  have "meta_name (hc_meta (fh_class sample_fanout)) = ''order.paid''"
    unfolding sample_fan_meta by (simp add: sample_meta_def mk_meta_def)
  then have "\<exists>did r. mem_view (fw_store sample_fan_world) did = None \<and> mem_view (fw_store w') did = Some (Row r None) \<and>
      subscription_id r = ''s1'' \<and> owner_id r = ''o1''"
    using fanout_without_tenant_reaches_all [OF sample_fan_ready f e run sample_subscribed]
    by (simp add: new_subscription_def)
  then show ?thesis using run by blast
qed

definition sample_installer :: "(RedisSubs, MemState) FanoutInstaller" where
  "sample_installer = \<lparr>fi_classes = [], fi_catalog = [], fi_reader = redis_for_event sample_subs_cfg, fi_store = mem_store,
     fi_dispatch_enabled = True, fi_uuid = (\<lambda>n. replicate (Suc n) CHR ''u'')\<rparr>"

theorem install_all_idempotent_witness:
  "\<exists>s'. install_all (\<lambda>h hs. hs @ [h]) sample_installer (Some [\<lparr>en_event_cls = 0, en_meta = sample_meta\<rparr>])
      \<lparr>is_registry = [], is_installed = {}\<rparr> = (1, s') \<and> is_event_installed ''order.paid'' s'"
proof -
  have "distinct (catalog_names [\<lparr>en_event_cls = 0, en_meta = sample_meta\<rparr>])" by (simp add: catalog_names_def)
  from install_all_idempotent [OF this, of "\<lparr>is_registry = [], is_installed = {}\<rparr>" "\<lambda>h hs. hs @ [h]" sample_installer]
  show ?thesis by (simp add: Let_def is_event_installed_def sample_meta_def mk_meta_def)
qed

end
