(* ===== verification/Worker.thy ===== *)
theory Worker
  imports Engine EventIngestor
begin

text \<open>
  The engine as a set of asyncio tasks: the tasks a tick makes, the gate they pass
  (\<open>engine.py\<close>), the loop that ticks (\<open>service/worker.py\<close>) and the shutdown of the service
  (\<open>service/app.py\<close>). What a dispatch does to the store is in \<open>Engine\<close>; here a task is the phase
  it is in, because asyncio switches tasks only at an \<open>await\<close>. A task that is cancelled gets
  \<open>CancelledError\<close> at its \<open>await\<close>; nothing below \<open>_dispatch_one\<close> catches it, since every handler
  there is for \<open>Exception\<close>. The two loops without their tasks are functions of the clock's values.
\<close>

section \<open>The loops\<close>

text \<open>
  \<open>run_ingest_loop\<close> until it is cancelled, given what the clock says at each turn: whatever a turn
  raises is logged and the loop goes on. \<open>run_tick_loop\<close> is \<open>ticks\<close> of \<open>Engine\<close>, whose turns raise
  nothing.
\<close>

definition run_ingest_loop ::
  "('e, 'q, 's) Ingestor \<Rightarrow> time list \<Rightarrow> ('e, 'q, 's) ing_world \<Rightarrow> ('e, 'q, 's) ing_world" where
  "run_ingest_loop d clock w =
     fold (\<lambda>now w. case ingest_tick d now w of (Inl _, w') \<Rightarrow> w' | (Inr _, w') \<Rightarrow> w') clock w"

section \<open>Tasks\<close>

datatype ending = Returned | RaisedOut | CancelledOut

text \<open>\<open>Cancelling b\<close>: cancelled and not unwound yet, holding a permit of the gate if \<open>b\<close>.\<close>

datatype task_phase = Queued | Sending | Notifying | Cancelling bool | Ended ending

fun cancel_task :: "task_phase \<Rightarrow> task_phase" where
  "cancel_task Queued = Cancelling False"
| "cancel_task Sending = Cancelling True"
| "cancel_task Notifying = Cancelling False"
| "cancel_task (Cancelling b) = Cancelling b"
| "cancel_task (Ended r) = Ended r"

text \<open>
  Where the loop is: in a tick up to its \<open>gather\<close>, in the \<open>gather\<close> of some tasks and whether it
  has been cancelled there, between two ticks, gone.
\<close>

datatype loop_phase = Polling | Gathering "nat list" bool | Sleeping | Stopped

datatype drain_phase = NotDraining | Draining "nat set" | Expired "nat set" | Drained

record EngineTasks =
  et_tasks :: "nat \<rightharpoonup> task_phase"
  et_gate :: int
  et_inflight :: "nat set"
  et_loop :: loop_phase
  et_drain :: drain_phase

definition engine_start :: "int \<Rightarrow> EngineTasks" where
  "engine_start concurrency =
     \<lparr>et_tasks = Map.empty, et_gate = concurrency, et_inflight = {}, et_loop = Polling, et_drain = NotDraining\<rparr>"

definition set_phase :: "nat \<Rightarrow> task_phase \<Rightarrow> EngineTasks \<Rightarrow> EngineTasks" where
  "set_phase t ph s = s\<lparr>et_tasks := (et_tasks s)(t \<mapsto> ph)\<rparr>"

definition cancel_tasks :: "nat set \<Rightarrow> EngineTasks \<Rightarrow> EngineTasks" where
  "cancel_tasks ts s =
     s\<lparr>et_tasks := (\<lambda>t. if t \<in> ts then map_option cancel_task (et_tasks s t) else et_tasks s t)\<rparr>"

text \<open>A tick makes one task per claimed record, each in flight until its done callback runs.\<close>

definition spawn :: "nat list \<Rightarrow> EngineTasks \<Rightarrow> EngineTasks" where
  "spawn ts s =
     s\<lparr>et_tasks := (\<lambda>t. if t \<in> set ts then Some Queued else et_tasks s t),
       et_inflight := et_inflight s \<union> set ts, et_loop := Gathering ts False\<rparr>"

text \<open>\<open>cancel()\<close> of the task the loop runs in; cancelling a \<open>gather\<close> cancels its tasks.\<close>

definition cancel_loop :: "EngineTasks \<Rightarrow> EngineTasks" where
  "cancel_loop s =
     (case et_loop s of
        Gathering ts _ \<Rightarrow> (cancel_tasks (set ts) s)\<lparr>et_loop := Gathering ts True\<rparr>
      | _ \<Rightarrow> s\<lparr>et_loop := Stopped\<rparr>)"

text \<open>\<open>drain\<close> up to its first await: with nothing in flight it has returned.\<close>

definition drain :: "EngineTasks \<Rightarrow> EngineTasks" where
  "drain s = s\<lparr>et_drain := (if et_inflight s = {} then Drained else Draining (et_inflight s))\<rparr>"

definition all_ended :: "nat set \<Rightarrow> EngineTasks \<Rightarrow> bool" where
  "all_ended ts s \<longleftrightarrow> (\<forall>t \<in> ts. \<exists>r. et_tasks s t = Some (Ended r))"

text \<open>
  The steps of the dispatch tasks. The permit is held while the record is sent, and while a
  record whose dispatch raised is quarantined; the outcome callback runs without it.
\<close>

inductive task_step :: "EngineTasks \<Rightarrow> EngineTasks \<Rightarrow> bool" where
  acquire: "et_tasks s t = Some Queued \<Longrightarrow> 0 < et_gate s \<Longrightarrow>
    task_step s (set_phase t Sending (s\<lparr>et_gate := et_gate s - 1\<rparr>))"
| sent: "et_tasks s t = Some Sending \<Longrightarrow>
    task_step s (set_phase t Notifying (s\<lparr>et_gate := et_gate s + 1\<rparr>))"
| raised: "et_tasks s t = Some Sending \<Longrightarrow>
    task_step s (set_phase t (Ended RaisedOut) (s\<lparr>et_gate := et_gate s + 1\<rparr>))"
| notified: "et_tasks s t = Some Notifying \<Longrightarrow> task_step s (set_phase t (Ended Returned) s)"
| unwound: "et_tasks s t = Some (Cancelling permit) \<Longrightarrow>
    task_step s (set_phase t (Ended CancelledOut) (s\<lparr>et_gate := et_gate s + (if permit then 1 else 0)\<rparr>))"
| discard: "et_tasks s t = Some (Ended r) \<Longrightarrow> t \<in> et_inflight s \<Longrightarrow>
    task_step s (s\<lparr>et_inflight := et_inflight s - {t}\<rparr>)"

text \<open>
  Those of the loop and of \<open>drain\<close>. The callback that takes a task out of \<open>_inflight\<close> was added
  before the one of \<open>gather\<close>, so \<open>gather\<close> is over only when both have run for every task. \<open>wait_for\<close>
  that runs out of time cancels what it waits for and still waits for that to end.
\<close>

inductive engine_step :: "EngineTasks \<Rightarrow> EngineTasks \<Rightarrow> bool" where
  task: "task_step s s' \<Longrightarrow> engine_step s s'"
| claimed: "et_loop s = Polling \<Longrightarrow> ts \<noteq> [] \<Longrightarrow> distinct ts \<Longrightarrow> set ts \<inter> dom (et_tasks s) = {} \<Longrightarrow>
    engine_step s (spawn ts s)"
| claimed_none: "et_loop s = Polling \<Longrightarrow> engine_step s (s\<lparr>et_loop := Sleeping\<rparr>)"
| gathered: "et_loop s = Gathering ts False \<Longrightarrow> all_ended (set ts) s \<Longrightarrow> set ts \<inter> et_inflight s = {} \<Longrightarrow>
    engine_step s (s\<lparr>et_loop := Sleeping\<rparr>)"
| halted: "et_loop s = Gathering ts True \<Longrightarrow> all_ended (set ts) s \<Longrightarrow> set ts \<inter> et_inflight s = {} \<Longrightarrow>
    engine_step s (s\<lparr>et_loop := Stopped\<rparr>)"
| woken: "et_loop s = Sleeping \<Longrightarrow> engine_step s (s\<lparr>et_loop := Polling\<rparr>)"
| cancelled: "engine_step s (cancel_loop s)"
| drain: "et_drain s \<in> {NotDraining, Drained} \<Longrightarrow> engine_step s (drain s)"
| drained: "et_drain s = Draining ts \<Longrightarrow> all_ended ts s \<Longrightarrow> engine_step s (s\<lparr>et_drain := Drained\<rparr>)"
| timed_out: "et_drain s = Draining ts \<Longrightarrow> engine_step s ((cancel_tasks ts s)\<lparr>et_drain := Expired ts\<rparr>)"
| gave_up: "et_drain s = Expired ts \<Longrightarrow> all_ended ts s \<Longrightarrow>
    engine_step s ((cancel_tasks (et_inflight s) s)\<lparr>et_drain := Drained\<rparr>)"

inductive engine_reach :: "int \<Rightarrow> EngineTasks \<Rightarrow> bool" for concurrency where
  init: "engine_reach concurrency (engine_start concurrency)"
| step: "engine_reach concurrency s \<Longrightarrow> engine_step s s' \<Longrightarrow> engine_reach concurrency s'"

section \<open>Invariants\<close>

definition senders :: "EngineTasks \<Rightarrow> nat set" where
  "senders s = {t. et_tasks s t = Some Sending \<or> et_tasks s t = Some (Cancelling True)}"

definition gate_inv :: "int \<Rightarrow> EngineTasks \<Rightarrow> bool" where
  "gate_inv n s \<longleftrightarrow> finite (dom (et_tasks s)) \<and> 0 \<le> et_gate s \<and> et_gate s + int (card (senders s)) = n"

lemma senders_update:
  "senders (s\<lparr>et_gate := g\<rparr>) = senders s" "senders (s\<lparr>et_inflight := f\<rparr>) = senders s"
  "senders (s\<lparr>et_loop := l\<rparr>) = senders s" "senders (s\<lparr>et_drain := d\<rparr>) = senders s"
  by (simp_all add: senders_def)

lemma senders_set_phase:
  "senders (set_phase t ph s) = (if ph = Sending \<or> ph = Cancelling True then insert t (senders s) else senders s - {t})"
  by (auto simp: senders_def set_phase_def)

lemma senders_cancel [simp]: "senders (cancel_tasks ts s) = senders s"
  unfolding senders_def cancel_tasks_def
  by (rule Collect_cong) (auto elim!: cancel_task.elims)

lemma senders_spawn: "set ts \<inter> dom (et_tasks s) = {} \<Longrightarrow> senders (spawn ts s) = senders s"
  by (auto simp: senders_def spawn_def)

lemma senders_finite: "finite (dom (et_tasks s)) \<Longrightarrow> finite (senders s)"
  by (rule finite_subset [of _ "dom (et_tasks s)"]) (auto simp: senders_def)

lemma cancel_tasks_simps [simp]:
  "et_gate (cancel_tasks ts s) = et_gate s" "et_inflight (cancel_tasks ts s) = et_inflight s"
  "et_loop (cancel_tasks ts s) = et_loop s" "et_drain (cancel_tasks ts s) = et_drain s"
  "dom (et_tasks (cancel_tasks ts s)) = dom (et_tasks s)"
  by (auto simp: cancel_tasks_def split: if_splits)

lemma set_phase_simps [simp]:
  "et_gate (set_phase t ph s) = et_gate s" "et_inflight (set_phase t ph s) = et_inflight s"
  "et_loop (set_phase t ph s) = et_loop s" "et_drain (set_phase t ph s) = et_drain s"
  "et_tasks (set_phase t ph s) = (et_tasks s)(t \<mapsto> ph)"
  by (simp_all add: set_phase_def)

lemma spawn_simps [simp]:
  "et_gate (spawn ts s) = et_gate s" "et_inflight (spawn ts s) = et_inflight s \<union> set ts"
  "et_loop (spawn ts s) = Gathering ts False" "et_drain (spawn ts s) = et_drain s"
  "dom (et_tasks (spawn ts s)) = set ts \<union> dom (et_tasks s)"
  by (auto simp: spawn_def split: if_splits)

lemma gate_inv_fields:
  "senders s' = senders s \<Longrightarrow> et_gate s' = et_gate s \<Longrightarrow> finite (dom (et_tasks s')) \<Longrightarrow> gate_inv n s \<Longrightarrow> gate_inv n s'"
  by (simp add: gate_inv_def)

lemma gate_inv_take:
  assumes "gate_inv n s" and "t \<notin> senders s" and "0 < et_gate s"
  shows "gate_inv n (set_phase t Sending (s\<lparr>et_gate := et_gate s - 1\<rparr>))"
  using assms senders_finite [of s] by (auto simp: gate_inv_def senders_set_phase senders_update)

lemma gate_inv_give:
  assumes "gate_inv n s" and "t \<in> senders s" and "ph \<noteq> Sending" and "ph \<noteq> Cancelling True"
  shows "gate_inv n (set_phase t ph (s\<lparr>et_gate := et_gate s + 1\<rparr>))"
proof -
  have "card (senders s) = Suc (card (senders s - {t}))"
    using assms(1,2) senders_finite by (intro card_Suc_Diff1 [symmetric]) (simp_all add: gate_inv_def)
  then show ?thesis using assms by (simp add: gate_inv_def senders_set_phase senders_update)
qed

lemma gate_inv_keep:
  assumes "gate_inv n s" and "t \<notin> senders s" and "ph \<noteq> Sending" and "ph \<noteq> Cancelling True"
  shows "gate_inv n (set_phase t ph s)"
  using assms by (simp add: gate_inv_def senders_set_phase)

lemma task_step_gate: "task_step s s' \<Longrightarrow> gate_inv n s \<Longrightarrow> gate_inv n s'"
proof (induction rule: task_step.induct)
  case (acquire s t)
  then show ?case by (intro gate_inv_take) (auto simp: senders_def)
next
  case (sent s t)
  then show ?case by (intro gate_inv_give) (auto simp: senders_def)
next
  case (raised s t)
  then show ?case by (intro gate_inv_give) (auto simp: senders_def)
next
  case (notified s t)
  then show ?case by (intro gate_inv_keep) (auto simp: senders_def)
next
  case (unwound s t permit)
  then show ?case
    using gate_inv_give [of n s t "Ended CancelledOut"] gate_inv_keep [of n s t "Ended CancelledOut"]
    by (cases permit) (auto simp: senders_def)
next
  case (discard s t r)
  then show ?case by (intro gate_inv_fields [OF _ _ _ discard.prems]) (simp_all add: senders_update gate_inv_def)
qed

lemma engine_step_gate: "engine_step s s' \<Longrightarrow> gate_inv n s \<Longrightarrow> gate_inv n s'"
proof (induction rule: engine_step.induct)
  case (task s s')
  then show ?case by (rule task_step_gate)
next
  case (claimed s ts)
  then show ?case
    by (intro gate_inv_fields [OF _ _ _ claimed.prems]) (simp_all add: senders_spawn gate_inv_def)
qed (auto intro: gate_inv_fields simp: senders_update gate_inv_def cancel_loop_def drain_def split: loop_phase.splits)

lemma engine_reach_gate: "engine_reach n s \<Longrightarrow> 0 \<le> n \<Longrightarrow> gate_inv n s"
proof (induction rule: engine_reach.induct)
  case init
  then show ?case by (simp add: engine_start_def gate_inv_def senders_def)
next
  case (step s s')
  then show ?case by (blast intro: engine_step_gate)
qed

text \<open>
  What has not ended is in flight, and what is in flight belongs to the batch the loop gathers;
  once that is cancelled, so is every task of it.
\<close>

definition alive :: "EngineTasks \<Rightarrow> nat \<Rightarrow> bool" where
  "alive s t \<longleftrightarrow> (case et_tasks s t of None \<Rightarrow> False | Some (Ended _) \<Rightarrow> False | Some _ \<Rightarrow> True)"

definition doomed :: "EngineTasks \<Rightarrow> nat \<Rightarrow> bool" where
  "doomed s t \<longleftrightarrow> (\<exists>b. et_tasks s t = Some (Cancelling b)) \<or> et_tasks s t = Some (Ended CancelledOut)"

definition flight_inv :: "EngineTasks \<Rightarrow> bool" where
  "flight_inv s \<longleftrightarrow> (\<forall>t. alive s t \<longrightarrow> t \<in> et_inflight s) \<and> et_inflight s \<subseteq> dom (et_tasks s) \<and>
     (case et_loop s of
        Gathering ts c \<Rightarrow> et_inflight s \<subseteq> set ts \<and> set ts \<subseteq> dom (et_tasks s) \<and> (c \<longrightarrow> (\<forall>t. alive s t \<longrightarrow> doomed s t))
      | _ \<Rightarrow> et_inflight s = {})"

lemma alive_cancel [simp]: "alive (cancel_tasks ts s) t \<longleftrightarrow> alive s t"
  by (auto simp: alive_def cancel_tasks_def split: option.split task_phase.split elim!: cancel_task.elims)

lemma alive_phase: "et_tasks s t = Some ph \<Longrightarrow> alive s t \<longleftrightarrow> (\<forall>r. ph \<noteq> Ended r)"
  by (auto simp: alive_def split: task_phase.split)

lemma alive_set_phase: "alive (set_phase t ph s) u \<longleftrightarrow> (if u = t then \<forall>r. ph \<noteq> Ended r else alive s u)"
  by (auto simp: alive_def split: task_phase.split)

lemma doomed_set_phase:
  "doomed (set_phase t ph s) u \<longleftrightarrow> (if u = t then (\<exists>b. ph = Cancelling b) \<or> ph = Ended CancelledOut else doomed s u)"
  by (auto simp: doomed_def)

lemma alive_update:
  "alive (s\<lparr>et_gate := g\<rparr>) = alive s" "alive (s\<lparr>et_inflight := f\<rparr>) = alive s"
  "alive (s\<lparr>et_loop := l\<rparr>) = alive s" "alive (s\<lparr>et_drain := d\<rparr>) = alive s"
  "doomed (s\<lparr>et_gate := g\<rparr>) = doomed s" "doomed (s\<lparr>et_inflight := f\<rparr>) = doomed s"
  "doomed (s\<lparr>et_loop := l\<rparr>) = doomed s" "doomed (s\<lparr>et_drain := d\<rparr>) = doomed s"
  by (simp_all add: alive_def doomed_def fun_eq_iff)

lemma doomed_cancel: "doomed s t \<Longrightarrow> doomed (cancel_tasks ts s) t"
  by (auto simp: doomed_def cancel_tasks_def)

lemma doomed_cancelled: "t \<in> ts \<Longrightarrow> alive s t \<Longrightarrow> doomed (cancel_tasks ts s) t"
  by (auto simp: doomed_def alive_def cancel_tasks_def split: option.splits task_phase.splits)

lemma doomed_task_step: "task_step s s' \<Longrightarrow> doomed s t \<Longrightarrow> doomed s' t"
  by (induction rule: task_step.induct) (auto simp: doomed_set_phase alive_update, auto simp: doomed_def)

lemma doomed_engine_step: "engine_step s s' \<Longrightarrow> doomed s t \<Longrightarrow> doomed s' t"
proof (induction rule: engine_step.induct)
  case (claimed s ts)
  then show ?case by (auto simp: doomed_def spawn_def)
qed (auto simp: alive_update cancel_loop_def drain_def doomed_cancel doomed_task_step split: loop_phase.split)

lemma flight_inv_phase:
  assumes "flight_inv s" and "alive s t" and "doomed s t \<Longrightarrow> (\<exists>b. ph = Cancelling b) \<or> (\<exists>r. ph = Ended r)"
  shows "flight_inv (set_phase t ph (s\<lparr>et_gate := g\<rparr>))"
  using assms
  by (auto simp: flight_inv_def alive_set_phase doomed_set_phase alive_update split: loop_phase.splits)

lemma task_step_flight: "task_step s s' \<Longrightarrow> flight_inv s \<Longrightarrow> flight_inv s'"
proof (induction rule: task_step.induct)
  case (notified s t)
  then show ?case using flight_inv_phase [of s t "Ended Returned" "et_gate s"] by (simp add: alive_phase)
next
  case (unwound s t permit)
  then show ?case
    using flight_inv_phase [of s t "Ended CancelledOut" "et_gate s + (if permit then 1 else 0)"]
    by (simp add: alive_phase)
next
  case (discard s t r)
  then show ?case by (auto simp: flight_inv_def alive_update alive_phase split: loop_phase.splits)
qed (auto simp: alive_phase doomed_def intro!: flight_inv_phase)

lemma engine_step_flight: "engine_step s s' \<Longrightarrow> flight_inv s \<Longrightarrow> flight_inv s'"
proof (induction rule: engine_step.induct)
  case (task s s')
  then show ?case by (blast intro: task_step_flight)
next
  case (claimed s ts)
  then have "alive (spawn ts s) t \<longleftrightarrow> t \<in> set ts \<or> alive s t" for t
    by (auto simp: alive_def spawn_def split: option.split)
  then show ?case using claimed by (auto simp: flight_inv_def)
next
  case (cancelled s)
  then show ?case
    by (auto simp: flight_inv_def cancel_loop_def alive_update doomed_cancelled split: loop_phase.splits)
next
  case (timed_out s ts)
  then show ?case by (auto simp: flight_inv_def alive_update doomed_cancel split: loop_phase.splits)
next
  case (gave_up s ts)
  then show ?case by (auto simp: flight_inv_def alive_update doomed_cancel split: loop_phase.splits)
qed (auto simp: flight_inv_def alive_update drain_def split: loop_phase.splits)

lemma engine_reach_flight: "engine_reach n s \<Longrightarrow> flight_inv s"
proof (induction rule: engine_reach.induct)
  case init
  then show ?case by (simp add: engine_start_def flight_inv_def alive_def)
next
  case (step s s')
  then show ?case by (blast intro: engine_step_flight)
qed

section \<open>Progress of a batch\<close>

fun task_weight :: "task_phase \<Rightarrow> nat" where
  "task_weight Queued = 4"
| "task_weight Sending = 3"
| "task_weight Notifying = 2"
| "task_weight (Cancelling _) = 2"
| "task_weight (Ended _) = 1"

definition work :: "EngineTasks \<Rightarrow> nat" where
  "work s = (\<Sum>t \<in> et_inflight s. case et_tasks s t of None \<Rightarrow> 0 | Some ph \<Rightarrow> task_weight ph)"

lemma work_set_phase:
  assumes "finite (et_inflight s)" and "t \<in> et_inflight s" and "et_tasks s t = Some old" and "task_weight ph < task_weight old"
  shows "work (set_phase t ph (s\<lparr>et_gate := g\<rparr>)) < work s"
proof -
  let ?w = "\<lambda>tasks u. case tasks u of None \<Rightarrow> 0 | Some x \<Rightarrow> task_weight x"
  have "(\<Sum>u \<in> et_inflight s. ?w ((et_tasks s)(t \<mapsto> ph)) u) < (\<Sum>u \<in> et_inflight s. ?w (et_tasks s) u)"
    using assms by (intro sum_strict_mono_ex1) auto
  then show ?thesis by (simp add: work_def)
qed

lemma task_step_work:
  "task_step s s' \<Longrightarrow> flight_inv s \<Longrightarrow> finite (et_inflight s) \<Longrightarrow> work s' < work s"
proof (induction rule: task_step.induct)
  case (acquire s t)
  then show ?case by (intro work_set_phase [where old = Queued]) (auto simp: flight_inv_def alive_phase)
next
  case (sent s t)
  then show ?case by (intro work_set_phase [where old = Sending]) (auto simp: flight_inv_def alive_phase)
next
  case (raised s t)
  then show ?case by (intro work_set_phase [where old = Sending]) (auto simp: flight_inv_def alive_phase)
next
  case (notified s t)
  then have "t \<in> et_inflight s" by (simp add: flight_inv_def alive_phase)
  then show ?case
    using work_set_phase [of s t Notifying "Ended Returned" "et_gate s"] notified by simp
next
  case (unwound s t permit)
  then show ?case
    by (intro work_set_phase [where old = "Cancelling permit"]) (auto simp: flight_inv_def alive_phase)
next
  case (discard s t r)
  let ?w = "\<lambda>u. case et_tasks s u of None \<Rightarrow> 0 | Some ph \<Rightarrow> task_weight ph"
  have "sum ?w (et_inflight s) = ?w t + sum ?w (et_inflight s - {t})"
    using discard by (intro sum.remove) simp_all
  moreover have "?w t = 1" using discard by simp
  ultimately show ?case by (simp add: work_def)
qed

text \<open>Every task in flight can step, or waits for a permit that another one holds.\<close>

lemma stuck_empty:
  assumes "gate_inv n s" and "0 < n" and "flight_inv s" and "\<nexists>s'. task_step s s'"
  shows "et_inflight s = {}"
proof (rule ccontr)
  assume "et_inflight s \<noteq> {}"
  then obtain t ph where t: "t \<in> et_inflight s" "et_tasks s t = Some ph"
    using assms(3) unfolding flight_inv_def by blast
  have none: "et_tasks s u \<noteq> Some Sending" "\<forall>b. et_tasks s u \<noteq> Some (Cancelling b)" for u
    using assms(4) task_step.sent [of s u] task_step.unwound [of s u] by blast+
  then have "senders s = {}" by (auto simp: senders_def)
  then have "0 < et_gate s" using assms(1,2) by (simp add: gate_inv_def)
  then show False
    using t none assms(4) task_step.acquire [of s t] task_step.notified [of s t] task_step.discard [of s t]
    by (cases ph) auto
qed

lemma task_steps:
  assumes "(task_step ^^ k) s s'" and "gate_inv n s" and "flight_inv s"
  shows "gate_inv n s' \<and> flight_inv s' \<and> k + work s' \<le> work s \<and> et_loop s' = et_loop s"
  using assms(1)
proof (induction k arbitrary: s')
  case (Suc k)
  then obtain s1 where run: "(task_step ^^ k) s s1" "task_step s1 s'" by auto
  note IH = Suc.IH [OF run(1)]
  then have "finite (et_inflight s1)"
    by (auto simp: gate_inv_def flight_inv_def intro: finite_subset)
  then have "work s' < work s1" using task_step_work [OF run(2)] IH by simp
  moreover have "et_loop s' = et_loop s1" using run(2) by cases simp_all
  ultimately show ?case
    using IH task_step_gate [OF run(2)] task_step_flight [OF run(2)] by simp
qed (use assms in auto)

lemma settled_ended:
  assumes "flight_inv s" and "et_loop s = Gathering ts c" and "et_inflight s = {}"
  shows "all_ended (set ts) s"
  unfolding all_ended_def
proof
  fix t
  assume "t \<in> set ts"
  then obtain ph where ph: "et_tasks s t = Some ph" using assms(1,2) by (auto simp: flight_inv_def)
  moreover have "\<not> alive s t" using assms(1,3) by (auto simp: flight_inv_def)
  ultimately show "\<exists>r. et_tasks s t = Some (Ended r)" by (simp add: alive_phase)
qed

lemma batch_settles:
  assumes "gate_inv n s" and "0 < n" and "flight_inv s"
  shows "\<exists>k s'. (task_step ^^ k) s s' \<and> et_inflight s' = {}"
  using assms(1,3)
proof (induction "work s" arbitrary: s rule: less_induct)
  case less
  show ?case
  proof (cases "\<exists>s'. task_step s s'")
    case True
    then obtain s1 where s1: "task_step s s1" by blast
    then have "(task_step ^^ Suc 0) s s1" by (auto simp: OO_def)
    note inv = task_steps [OF this less.prems]
    then have "work s1 < work s" by linarith
    then obtain k s' where "(task_step ^^ k) s1 s'" "et_inflight s' = {}" using less.hyps inv by blast
    then show ?thesis using relpowp_Suc_I2 [where P = task_step, OF s1] by blast
  next
    case False
    then have "et_inflight s = {}" using stuck_empty less.prems assms(2) by blast
    then show ?thesis by (intro exI [of _ 0] exI [of _ s]) simp
  qed
qed

text \<open>A cancelled loop stops.\<close>

lemma shutdown_completes:
  assumes "engine_reach n s" and "0 < n" and "et_loop s = Gathering ts True"
  shows "\<exists>s'. engine_step\<^sup>*\<^sup>* s s' \<and> et_loop s' = Stopped"
proof -
  have inv: "gate_inv n s" "flight_inv s"
    using engine_reach_gate [OF assms(1)] engine_reach_flight [OF assms(1)] assms(2) by simp_all
  obtain k s1 where run: "(task_step ^^ k) s s1" "et_inflight s1 = {}"
    using batch_settles [OF inv(1) assms(2) inv(2)] by blast
  note s1 = task_steps [OF run(1) inv]
  have "task_step\<^sup>*\<^sup>* s s1" by (rule relpowp_imp_rtranclp [OF run(1)])
  then have "engine_step\<^sup>*\<^sup>* s s1" by (induction rule: rtranclp_induct) (auto intro: engine_step.task rtranclp.rtrancl_into_rtrancl)
  moreover have "engine_step s1 (s1\<lparr>et_loop := Stopped\<rparr>)"
    using settled_ended [of s1 ts True] s1 run(2) assms(3) by (intro engine_step.halted [where ts = ts]) simp_all
  ultimately show ?thesis by (intro exI [of _ "s1\<lparr>et_loop := Stopped\<rparr>"]) auto
qed

section \<open>Properties\<close>

text \<open>
  C30: at most \<open>worker_concurrency\<close> deliveries are being sent at any moment, over all ticks and
  under every interleaving, cancellation included; and a queued delivery can start exactly when
  fewer are being sent, however many outcome callbacks are still running.
\<close>

theorem worker_concurrency_bound:
  assumes "engine_reach concurrency s" and "0 \<le> concurrency"
  shows "int (card (senders s)) \<le> concurrency \<and>
    (\<forall>t. et_tasks s t = Some Queued \<longrightarrow>
       ((\<exists>s'. task_step s s' \<and> et_tasks s' t = Some Sending) \<longleftrightarrow> int (card (senders s)) < concurrency))"
proof (intro conjI allI impI)
  have inv: "gate_inv concurrency s" by (rule engine_reach_gate [OF assms])
  then show "int (card (senders s)) \<le> concurrency" by (simp add: gate_inv_def)
  fix t
  assume t: "et_tasks s t = Some Queued"
  have "0 < et_gate s" if "task_step s s'" "et_tasks s' t = Some Sending" for s'
    using that t by cases (auto split: if_splits)
  moreover have "\<exists>s'. task_step s s' \<and> et_tasks s' t = Some Sending" if "0 < et_gate s"
    using task_step.acquire [OF t that] by (intro exI conjI) (assumption, simp)
  ultimately have "(\<exists>s'. task_step s s' \<and> et_tasks s' t = Some Sending) \<longleftrightarrow> 0 < et_gate s" by blast
  also have "0 < et_gate s \<longleftrightarrow> int (card (senders s)) < concurrency"
    using inv by (auto simp: gate_inv_def)
  finally show "(\<exists>s'. task_step s s' \<and> et_tasks s' t = Some Sending) \<longleftrightarrow> int (card (senders s)) < concurrency" .
qed

text \<open>
  C31: a tick comes to its end. When at least one delivery may be sent at a time, the tasks of a
  batch of \<open>k\<close> records take at most \<open>4 * k\<close> steps however they are interleaved, and they can go on
  until nothing is in flight and every task has ended: the gate never deadlocks.
\<close>

theorem every_batch_settles:
  assumes "engine_reach concurrency s" and "0 < concurrency" and "et_loop s = Gathering ts c"
    and "(task_step ^^ k) s s'"
  shows "k \<le> 4 * length ts \<and>
    ((\<nexists>s''. task_step s' s'') \<longrightarrow> et_inflight s' = {} \<and> all_ended (set ts) s')"
proof (intro conjI impI)
  have inv: "gate_inv concurrency s" "flight_inv s"
    using engine_reach_gate [OF assms(1)] engine_reach_flight [OF assms(1)] assms(2) by simp_all
  note run = task_steps [OF assms(4) inv]
  have weight: "task_weight ph \<le> 4" for ph by (cases ph) simp_all
  have "work s \<le> card (et_inflight s) * 4"
    unfolding work_def by (rule order_trans [OF sum_bounded_above [where K = 4]]) (auto split: option.split simp: weight)
  moreover have "card (et_inflight s) \<le> length ts"
    using inv(2) assms(3) card_length [of ts] card_mono [of "set ts" "et_inflight s"]
    by (fastforce simp: flight_inv_def)
  ultimately show "k \<le> 4 * length ts" using run by linarith
  assume "\<nexists>s''. task_step s' s''"
  then show none: "et_inflight s' = {}" using stuck_empty run assms(2) by blast
  show "all_ended (set ts) s'" using settled_ended run none assms(3) by simp
qed

text \<open>
  C32: a shutdown finishes no delivery. Once the loop is cancelled in the middle of a batch, every
  delivery of it that had not ended ends cancelled, none is sent to its end, and when the loop is
  gone nothing is in flight, so that the \<open>drain\<close> the service then calls returns at once.
\<close>

theorem shutdown_abandons_the_batch:
  assumes "engine_reach concurrency s" and "et_loop s = Gathering ts c"
    and "engine_step\<^sup>*\<^sup>* (cancel_loop s) s'" and "et_loop s' = Stopped"
  shows "et_drain (drain s') = Drained \<and>
    (\<forall>t \<in> set ts. (\<exists>r. et_tasks s t = Some (Ended r)) \<or> et_tasks s' t = Some (Ended CancelledOut))"
proof -
  have reach: "engine_reach concurrency s'"
    using assms(3) by (induction rule: rtranclp_induct) (blast intro: engine_reach.step engine_step.cancelled assms(1))+
  then have stopped: "et_inflight s' = {}"
    using engine_reach_flight assms(4) by (fastforce simp: flight_inv_def)
  have ended: "\<not> alive s' t" for t
    using engine_reach_flight [OF reach] stopped by (simp add: flight_inv_def)
  have inv: "flight_inv s" by (rule engine_reach_flight [OF assms(1)])
  have "et_tasks s' t = Some (Ended CancelledOut)"
    if t: "t \<in> set ts" and old: "\<forall>r. et_tasks s t \<noteq> Some (Ended r)" for t
  proof -
    obtain ph where ph: "et_tasks s t = Some ph" using inv assms(2) t by (auto simp: flight_inv_def)
    then have "alive s t" using old by (simp add: alive_phase)
    then have "doomed (cancel_loop s) t"
      using t assms(2) by (simp add: cancel_loop_def alive_update doomed_cancelled)
    with assms(3) have "doomed s' t"
      by (induction rule: rtranclp_induct) (auto intro: doomed_engine_step)
    then show ?thesis using ended [of t] by (auto simp: doomed_def alive_phase)
  qed
  then show ?thesis using stopped by (auto simp: drain_def)
qed

section \<open>A sample run\<close>

definition sample_batch :: EngineTasks where
  "sample_batch = set_phase 10 Sending ((spawn [10, 20] (engine_start 1))\<lparr>et_gate := 0\<rparr>)"

lemma sample_batch_reach: "engine_reach 1 sample_batch"
proof -
  have "engine_reach 1 (spawn [10, 20] (engine_start 1))"
    by (rule engine_reach.step [OF engine_reach.init]) (rule engine_step.claimed, auto simp: engine_start_def)
  moreover have "et_tasks (spawn [10, 20] (engine_start 1)) 10 = Some Queued" "0 < et_gate (spawn [10, 20] (engine_start 1))"
    by (simp_all add: spawn_def engine_start_def)
  ultimately have "engine_reach 1 (set_phase 10 Sending
      ((spawn [10, 20] (engine_start 1))\<lparr>et_gate := et_gate (spawn [10, 20] (engine_start 1)) - 1\<rparr>))"
    by (intro engine_reach.step [OF _ engine_step.task [OF task_step.acquire]])
  then show ?thesis by (simp add: sample_batch_def engine_start_def)
qed

lemma sample_batch_fields:
  "et_loop sample_batch = Gathering [10, 20] False" "et_tasks sample_batch 10 = Some Sending"
  "et_tasks sample_batch 20 = Some Queued"
  by (simp_all add: sample_batch_def spawn_def)

theorem worker_concurrency_bound_witness:
  "card (senders sample_batch) = 1 \<and> \<not> (\<exists>s'. task_step sample_batch s' \<and> et_tasks s' 20 = Some Sending)"
proof -
  note bound = worker_concurrency_bound [OF sample_batch_reach]
  have "finite (senders sample_batch)" "10 \<in> senders sample_batch"
    using engine_reach_gate [OF sample_batch_reach] senders_finite sample_batch_fields(2)
    by (simp_all add: gate_inv_def senders_def)
  then have "card (senders sample_batch) \<noteq> 0" by auto
  then show ?thesis using bound sample_batch_fields(3) by simp
qed

theorem every_batch_settles_witness:
  "\<not> (\<exists>s'. (task_step ^^ 9) sample_batch s')"
  using every_batch_settles [OF sample_batch_reach _ sample_batch_fields(1), of 9] by auto

theorem shutdown_abandons_the_batch_witness:
  "\<exists>s'. engine_step\<^sup>*\<^sup>* (cancel_loop sample_batch) s' \<and> et_loop s' = Stopped \<and>
     et_tasks s' 10 = Some (Ended CancelledOut) \<and> et_drain (drain s') = Drained"
proof -
  have "et_loop (cancel_loop sample_batch) = Gathering [10, 20] True"
    by (simp add: cancel_loop_def sample_batch_fields)
  then obtain s' where run: "engine_step\<^sup>*\<^sup>* (cancel_loop sample_batch) s'" "et_loop s' = Stopped"
    using shutdown_completes [OF engine_reach.step [OF sample_batch_reach engine_step.cancelled]] by auto
  then show ?thesis
    using shutdown_abandons_the_batch [OF sample_batch_reach sample_batch_fields(1) run] sample_batch_fields(2)
    by (intro exI [of _ s']) auto
qed

end
