(* ===== verification/Service.thy ===== *)
theory Service
  imports Routes Engine HttpSender SubBackends EventIngestor
begin

text \<open>
  The service put together (\<open>service/settings.py\<close>, \<open>service/deps.py\<close>): its settings, the three
  back ends, and the dispatcher, the engine, the ingestor and the dependencies of the routes that
  are built over one of them. What comes from outside, the cryptography, the network, the new
  ids and the clocks, is the record \<open>externals\<close>. The last section runs the composition: an event that
  a producer emits reaches the queue of deliveries of every subscription it is due to.
\<close>

section \<open>Settings\<close>

datatype EventBackend = BACKEND_PG | BACKEND_MONGO | BACKEND_MEMORY

record Settings =
  set_backend :: EventBackend
  set_source_key :: string
  set_pg_dsn :: string
  set_pg_events_table :: string
  set_pg_subscriptions_table :: string
  set_pg_deliveries_table :: string
  set_pg_attempts_table :: string
  set_mongo_dsn :: string
  set_mongo_db :: string
  set_mongo_events_collection :: string
  set_mongo_subscriptions_collection :: string
  set_mongo_deliveries_collection :: string
  set_host :: string
  set_port :: int
  set_debug :: bool
  set_trusted_private_hosts :: "string list"
  set_poll_interval_s :: rat
  set_ingest_poll_interval_s :: rat
  set_batch_size :: int
  set_ingest_batch_size :: int
  set_worker_concurrency :: int
  set_lease_ttl_s :: int
  set_drain_timeout_s :: rat

text \<open>Nothing set in the environment but the source key, which has no default.\<close>

definition default_settings :: "string \<Rightarrow> Settings" where
  "default_settings source_key =
     \<lparr>set_backend = BACKEND_PG, set_source_key = source_key,
      set_pg_dsn = ''postgresql+asyncpg://localhost:5432/webhooks'',
      set_pg_events_table = ''wh_events'', set_pg_subscriptions_table = ''wh_subscriptions'',
      set_pg_deliveries_table = ''wh_deliveries'', set_pg_attempts_table = ''wh_delivery_attempts'',
      set_mongo_dsn = ''mongodb://localhost:27017'', set_mongo_db = ''webhooks'',
      set_mongo_events_collection = ''wh_events'', set_mongo_subscriptions_collection = ''wh_subscriptions'',
      set_mongo_deliveries_collection = ''wh_deliveries'',
      set_host = ''0.0.0.0'', set_port = 8080, set_debug = False, set_trusted_private_hosts = [],
      set_poll_interval_s = 1, set_ingest_poll_interval_s = 1, set_batch_size = 50,
      set_ingest_batch_size = 100, set_worker_concurrency = 20, set_lease_ttl_s = 30,
      set_drain_timeout_s = 10\<rparr>"

section \<open>Back ends\<close>

record ('e, 'q, 's) Backends =
  bk_event_store :: "'e event_store"
  bk_sub_store :: "'q subscription_store"
  bk_sub_reader :: "'q subscription_reader"
  bk_secret_reader :: "'q secret_reader"
  bk_delivery_store :: "'s delivery_store"

definition build_memory :: "redis_subs_cfg \<Rightarrow> (mem_events, RedisSubs, MemState) Backends" where
  "build_memory fake =
     (let sub_store = redis_subs fake; (sub_reader, secret_reader) = make_readers sub_store
      in \<lparr>bk_event_store = mem_event_store, bk_sub_store = sub_store, bk_sub_reader = sub_reader,
          bk_secret_reader = secret_reader, bk_delivery_store = mem_store\<rparr>)"

text \<open>
  \<open>clock\<close> is what \<open>now()\<close> says when a row is written without an instant, \<open>jsonb\<close> what the column
  keeps of the data. No cipher is configured.
\<close>

definition build_pg ::
  "(IncomingEvent \<Rightarrow> time) \<Rightarrow> ((string, json) dict \<Rightarrow> (string, json) dict) \<Rightarrow> Settings \<Rightarrow>
   (pg_events, PgSub list, PgDb) Backends" where
  "build_pg clock jsonb s =
     (let sub_store = pg_subs IdentityCipher; (sub_reader, secret_reader) = make_readers sub_store
      in \<lparr>bk_event_store = pg_event_store clock jsonb (set_lease_ttl_s s), bk_sub_store = sub_store,
          bk_sub_reader = sub_reader, bk_secret_reader = secret_reader, bk_delivery_store = pg_store\<rparr>)"

text \<open>The statements \<open>_build_pg\<close> runs before the service starts; a table name can stop it.\<close>

definition boot_pg :: "(string \<Rightarrow> (exc, 'd, unit) comp) \<Rightarrow> Settings \<Rightarrow> (exc, 'd, unit) comp" where
  "boot_pg run s =
     bindE (pg_events_ensure_schema run (set_pg_events_table s)) (\<lambda>_.
     bindE (ensure_sub_schema run (set_pg_subscriptions_table s)) (\<lambda>_.
       ensure_delivery_schema run (set_pg_deliveries_table s) (set_pg_attempts_table s)))"

definition build_mongo ::
  "(string \<Rightarrow> MongoSub \<Rightarrow> exc + string option) \<Rightarrow> (IncomingEvent \<Rightarrow> time) \<Rightarrow>
   ((string, json) dict \<Rightarrow> (string, json) dict) \<Rightarrow> Settings \<Rightarrow> (mongo_events, MongoSub list, mongo_col) Backends" where
  "build_mongo path clock stored s =
     (let sub_store = mongo_subs path; (sub_reader, secret_reader) = make_readers sub_store
      in \<lparr>bk_event_store = mongo_event_store clock stored (set_lease_ttl_s s), bk_sub_store = sub_store,
          bk_sub_reader = sub_reader, bk_secret_reader = secret_reader,
          bk_delivery_store = mongo_store 20\<rparr>)"

section \<open>The dependency graph\<close>

record externals =
  x_sha256 :: "bytes \<Rightarrow> string"
  x_hmac :: "bytes \<Rightarrow> bytes \<Rightarrow> string"
  x_http :: "HttpRequest \<Rightarrow> exc + HttpResponse"
  x_decode_utf8 :: "bytes \<Rightarrow> string"
  x_loads :: "bytes \<Rightarrow> json option"
  x_idna :: idna
  x_parsedate :: "string \<Rightarrow> parsed_date"
  x_uuid :: "nat \<Rightarrow> string"
  x_send_clock :: "DeliveryRecord \<Rightarrow> time"
  x_draw :: "DeliveryRecord \<Rightarrow> rat"
  x_now :: time

record ('e, 'q, 's) Service =
  sv_deps :: "('e, 'q, 's) ServiceDeps"
  sv_engine :: "('s, 'q) Engine"
  sv_ingestor :: "('e, 'q, 's) Ingestor"
  sv_settings :: Settings

definition service_policy :: "Settings \<Rightarrow> WebhookPolicyConfig" where
  "service_policy s = DEFAULT_WEBHOOK_POLICY
     \<lparr>cfg_dispatch := default_dispatch\<lparr>batch_size := set_batch_size s,
        worker_concurrency := set_worker_concurrency s, lease_ttl_s := set_lease_ttl_s s,
        drain_timeout_s := set_drain_timeout_s s\<rparr>,
      cfg_security := default_security\<lparr>trusted_private_hosts := set_trusted_private_hosts s\<rparr>\<rparr>"

definition service_dispatcher ::
  "externals \<Rightarrow> WebhookPolicyConfig \<Rightarrow> UrlSafetyValidator \<Rightarrow> ('e, 'q, 's) Backends \<Rightarrow> ('s, 'q) Dispatcher" where
  "service_dispatcher x cfg guard b =
     \<lparr>d_signer = HmacSigner (x_sha256 x) (x_hmac x) V1,
      d_post = (\<lambda>call. fst (post (x_http x) (x_decode_utf8 x) call \<lparr>hc_requests = [], hc_open = 0\<rparr>)),
      d_config = cfg, d_store = bk_delivery_store b, d_secret_reader = bk_secret_reader b,
      d_ssrf = guard, d_idna = x_idna x, d_bus = None, d_resolver = None,
      d_profiles = single (EnvelopeEncoder (x_loads x) isoformat) None, d_parsedate = x_parsedate x,
      d_uuid = x_uuid x 0, d_now_utc = x_now x\<rparr>"

text \<open>\<open>build_deps\<close> over the back ends the settings select; a bad network among the blocked stops it.\<close>

definition build_deps :: "externals \<Rightarrow> Settings \<Rightarrow> ('e, 'q, 's) Backends \<Rightarrow> ('e, 'q, 's) Service option" where
  "build_deps x s b =
     (let cfg = service_policy s in
      case mk_validator (cfg_security cfg) of
        None \<Rightarrow> None
      | Some guard \<Rightarrow> Some
          \<lparr>sv_deps = \<lparr>dp_event_store = bk_event_store b, dp_delivery_store = bk_delivery_store b,
             dp_sub_store = bk_sub_store b, dp_ssrf_guard = guard, dp_idna = x_idna x,
             dp_uuid = x_uuid x, dp_source_key = set_source_key s\<rparr>,
           sv_engine = \<lparr>e_store = bk_delivery_store b, e_dispatcher = service_dispatcher x cfg guard b,
             e_cfg = cfg_dispatch cfg, e_on_outcome = None, e_send_clock = x_send_clock x,
             e_draw = x_draw x, e_now_utc = x_now x\<rparr>,
           sv_ingestor = \<lparr>ing_events = bk_event_store b, ing_subs = bk_sub_reader b,
             ing_deliveries = bk_delivery_store b, ing_ssrf = guard, ing_idna = x_idna x,
             ing_uuid = x_uuid x, ing_lease_ttl_s = set_lease_ttl_s s,
             ing_batch_size = set_ingest_batch_size s\<rparr>,
           sv_settings = s\<rparr>)"

lemma build_deps_starts: "\<exists>svc. build_deps x s b = Some svc"
proof -
  have "blocked_cidrs (cfg_security (service_policy s)) = default_blocked_cidrs"
    by (simp add: service_policy_def default_security_def)
  then show ?thesis by (simp add: build_deps_def mk_validator_def from_strings_default Let_def)
qed

lemma build_deps_wired:
  assumes "build_deps x s b = Some svc"
  shows "dp_event_store (sv_deps svc) = bk_event_store b" "dp_source_key (sv_deps svc) = set_source_key s"
    "ing_events (sv_ingestor svc) = bk_event_store b" "ing_subs (sv_ingestor svc) = bk_sub_reader b"
    "ing_deliveries (sv_ingestor svc) = bk_delivery_store b" "ing_batch_size (sv_ingestor svc) = set_ingest_batch_size s"
    "sv_settings svc = s"
  using assms by (auto simp: build_deps_def Let_def split: option.splits)

section \<open>From an emitted event to the queue of deliveries\<close>

text \<open>
  The subscriptions an event is due to: active, interested, of its tenant if it has one, with an
  address that passes the guard.
\<close>

definition wants :: "sub_view \<Rightarrow> IncomingEvent \<Rightarrow> SubscriptionSnapshot \<Rightarrow> bool" where
  "wants subs e snap \<longleftrightarrow> (\<exists>r. subs (sub_id snap) = Some r \<and>
     interested (ev_event e) (ev_tenant_id e) (row_sub r) \<and> snap = snapshot_of (row_sub r))"

definition due :: "('e, 'q, 's) Ingestor \<Rightarrow> sub_view \<Rightarrow> IncomingEvent \<Rightarrow> SubscriptionSnapshot \<Rightarrow> bool" where
  "due d subs e snap \<longleftrightarrow> wants subs e snap \<and> target_check d snap = Inr ()"

text \<open>The rows that are new, pending, due at \<open>t\<close>, and carry the event to the subscription.\<close>

definition queued_for :: "view \<Rightarrow> view \<Rightarrow> IncomingEvent \<Rightarrow> time \<Rightarrow> SubscriptionSnapshot \<Rightarrow> string set" where
  "queued_for v v' e t snap = {did. v did = None \<and> (\<exists>r. v' did = Some (Row r None) \<and>
     event_id r = ev_event_id e \<and> event_name r = ev_event e \<and> subscription_id r = sub_id snap \<and>
     target_url r = sub_url snap \<and> resolved_ip r = sub_resolved_ip snap \<and> status r = PENDING \<and> fire_at r = t)}"

text \<open>
  A service at rest: the queue holds no event that is waiting or claimed, the new ids are new, and
  no subscription the event interests has an address that cannot even be checked.
\<close>

definition at_rest ::
  "('s \<Rightarrow> view) \<Rightarrow> ('e \<Rightarrow> ev_view) \<Rightarrow> ('q \<Rightarrow> sub_view) \<Rightarrow> ('e, 'q, 's) Ingestor \<Rightarrow> IncomingEvent \<Rightarrow>
   ('e, 'q, 's) ing_world \<Rightarrow> bool" where
  "at_rest view eview sview d e w \<longleftrightarrow> fresh_ids view d w \<and>
     (\<forall>k r. eview (iw_events w) k = Some r \<longrightarrow> ev_final (er_status r)) \<and>
     eview (iw_events w) (ev_event_id e) = None \<and>
     (\<forall>snap. wants (sview (iw_subs w)) e snap \<longrightarrow>
        target_check d snap = Inr () \<or> (\<exists>why t. target_check d snap = Inl (InvalidWebhookTarget why t)))"

text \<open>
  The event is emitted over HTTP and the next turn of the ingest loop runs: the producer is
  answered, every subscription the event is due to has exactly one new row, no other row is new
  or changed, and the event is done.
\<close>

definition reaches_subscribers ::
  "('s \<Rightarrow> view) \<Rightarrow> ('e \<Rightarrow> ev_view) \<Rightarrow> ('q \<Rightarrow> sub_view) \<Rightarrow> (time \<Rightarrow> time) \<Rightarrow> ('e, 'q, 's) Service \<Rightarrow>
   time \<Rightarrow> EmitRequest \<Rightarrow> time \<Rightarrow> ('e, 'q, 's) ing_world \<Rightarrow> bool" where
  "reaches_subscribers view eview sview grain svc emitted body now w \<longleftrightarrow>
     (\<exists>w1 stats w2 r. let e = incoming emitted body; d = sv_ingestor svc;
        v = view (iw_deliveries w); v' = view (iw_deliveries w2) in
        handle (sv_deps svc) (set_source_key (sv_settings svc)) (Emit emitted body) w =
          (Inr (EmitAnswer \<lparr>er_accepted = True, er_event_id = em_event_id body\<rparr>), w1) \<and>
        ingest_tick d now w1 = (Inr stats, w2) \<and>
        (\<forall>snap. due d (sview (iw_subs w)) e snap \<longrightarrow> card (queued_for v v' e (grain now) snap) = 1) \<and>
        (\<forall>did. v' did \<noteq> v did \<longrightarrow>
           (\<exists>snap. due d (sview (iw_subs w)) e snap \<and> did \<in> queued_for v v' e (grain now) snap)) \<and>
        eview (iw_events w2) (em_event_id body) = Some r \<and> er_status r = EV_DONE)"

text \<open>An ingestor over stores that keep their three contracts.\<close>

locale service_contracts = ingest_contracts es eview einv egrain lease_end ekeep st view inv grain keep +
  subs: subscription_contract sst sview sinv sgrain secret_ok
  for es :: "'e event_store" and eview einv egrain lease_end ekeep
    and st :: "'s delivery_store" and view inv grain keep
    and sst :: "'q subscription_store" and sview sinv sgrain secret_ok +
  assumes keep_address: "subscription_id (keep r) = subscription_id r" "event_id (keep r) = event_id r"
    "event_name (keep r) = event_name r" "target_url (keep r) = target_url r" "resolved_ip (keep r) = resolved_ip r"
begin

text \<open>The fan-out of one event when every address can be checked.\<close>

lemma fan_out_reaches:
  assumes "ing_deliveries d = st" and "inv (iw_deliveries w)" and "fresh_ids view d w"
    and "ing_subs d (ev_event e) (ev_tenant_id e) (iw_subs w) = (Inr snaps, q')"
    and "\<forall>snap \<in> set snaps. target_check d snap = Inr () \<or> (\<exists>why t. target_check d snap = Inl (InvalidWebhookTarget why t))"
  shows "\<exists>rs w'. fan_out d e now w = (Inr (int (length rs)), w') \<and> iw_events w' = iw_events w \<and>
    rows_added view keep d w w' rs \<and>
    (\<exists>dids. rs = map2 (delivery_for e now (encode (dumps_default (JObj (ev_data e)))))
       (filter (\<lambda>snap. target_check d snap = Inr ()) snaps) dids \<and>
       length dids = length (filter (\<lambda>snap. target_check d snap = Inr ()) snaps))"
proof -
  let ?data = "encode (dumps_default (JObj (ev_data e)))" and ?ok = "filter (\<lambda>snap. target_check d snap = Inr ()) snaps"
  obtain bres m where b: "build_records d e now ?data snaps (iw_uuids w) = (bres, m)" by fastforce
  obtain rs where rs: "bres = Inr rs"
  proof (cases bres)
    case (Inl ex)
    with build_records_raise [of d e now ?data snaps "iw_uuids w" ex m] b assms(5) show ?thesis by fastforce
  qed
  note built = build_records_ok [OF b, unfolded rs]
  let ?ids = "map (ing_uuid d) [iw_uuids w..<m]"
  have len: "m = iw_uuids w + length rs" "length rs = length ?ok" "rs = map2 (delivery_for e now ?data) ?ok ?ids"
    using built by blast+
  have ids: "map delivery_id rs = ?ids"
  proof -
    have "map delivery_id (map2 (delivery_for e now ?data) xs ys) = ys" if "length xs = length ys" for xs ys
      using that by (induction xs ys rule: list_induct2) simp_all
    then show ?thesis using len by simp
  qed
  have idset: "delivery_id ` set rs = ing_uuid d ` {iw_uuids w..<m}"
  proof -
    have "delivery_id ` set rs = set (map delivery_id rs)" by simp
    then show ?thesis unfolding ids by simp
  qed
  have dist: "distinct (map delivery_id rs)"
    using assms(3) unfolding ids by (simp add: distinct_map fresh_ids_def inj_on_def)
  have pend: "list_all (\<lambda>r. status r = PENDING) rs"
    by (subst len(3)) (auto simp: list_all_iff)
  obtain s' where enq: "enqueue_many st rs (iw_deliveries w) = (Inr (), s')" "inv s'"
    "view s' = enqueued (map keep rs) (view (iw_deliveries w))"
    using s.enqueue [OF assms(2) pend] by blast
  let ?w = "w\<lparr>iw_subs := q', iw_uuids := m\<rparr>"
  have run: "fan_out d e now w = (if rs = [] then (Inr 0, ?w) else (Inr (int (length rs)), ?w\<lparr>iw_deliveries := s'\<rparr>))"
    using assms(1,4) b rs enq(1) len(1)
    by (auto simp: fan_out_def bindE_def on_subs_def on_delivery_store_def)
  have ex: "\<exists>dids. rs = map2 (delivery_for e now ?data) ?ok dids \<and> length dids = length ?ok"
    using len by (intro exI [of _ ?ids]) simp
  show ?thesis
  proof (cases "rs = []")
    case True
    then show ?thesis using run ex len(1) by (intro exI [of _ rs] exI [of _ ?w]) (simp add: rows_added_none)
  next
    case False
    then show ?thesis
      using run ex enq(3) dist idset len(1)
      by (intro exI [of _ rs] exI [of _ "?w\<lparr>iw_deliveries := s'\<rparr>"]) (simp add: rows_added_def)
  qed
qed

text \<open>What those rows are, one per address.\<close>

lemma added_rows:
  assumes "rows_added view keep d w w' rs" and "fresh_ids view d w"
  shows "r \<in> set rs \<Longrightarrow> view (iw_deliveries w) (delivery_id r) = None"
    and "r \<in> set rs \<Longrightarrow> view (iw_deliveries w') (delivery_id r) = Some (Row (keep r) None)"
    and "view (iw_deliveries w') did \<noteq> view (iw_deliveries w) did \<or> view (iw_deliveries w) did = None \<and> view (iw_deliveries w') did \<noteq> None \<Longrightarrow>
      \<exists>r \<in> set rs. delivery_id r = did \<and> view (iw_deliveries w') did = Some (Row (keep r) None)"
proof -
  let ?v = "view (iw_deliveries w)" and ?v' = "view (iw_deliveries w')"
  have added: "?v' = enqueued (map keep rs) ?v" "distinct (map delivery_id rs)"
    "delivery_id ` set rs \<subseteq> ing_uuid d ` {iw_uuids w..<iw_uuids w'}"
    using assms(1) by (simp_all add: rows_added_def)
  have fresh: "?v (delivery_id r) = None" if "r \<in> set rs" for r
    using that added(3) assms(2) by (auto simp: fresh_ids_def)
  have "map delivery_id (map keep rs) = map delivery_id rs" by (simp add: s.keep_id)
  then have "find (\<lambda>x. delivery_id x = delivery_id r) (map keep rs) = Some (keep r)" if "r \<in> set rs" for r
    using find_Some_distinct [of delivery_id "map keep rs" "keep r"] that added(2)
    by (simp add: s.keep_id comp_def)
  then have row: "?v' (delivery_id r) = Some (Row (keep r) None)" if "r \<in> set rs" for r
    using fresh that by (simp add: added(1) enqueued_def)
  show "r \<in> set rs \<Longrightarrow> ?v (delivery_id r) = None" "r \<in> set rs \<Longrightarrow> ?v' (delivery_id r) = Some (Row (keep r) None)"
    by (rule fresh row, assumption)+
  assume "?v' did \<noteq> ?v did \<or> ?v did = None \<and> ?v' did \<noteq> None"
  then have "find (\<lambda>x. delivery_id x = did) (map keep rs) \<noteq> None"
    by (auto simp: added(1) enqueued_def split: option.splits)
  then obtain x where "find (\<lambda>x. delivery_id x = did) (map keep rs) = Some x" by blast
  then have "x \<in> set (map keep rs)" "delivery_id x = did" by (auto simp: find_Some_iff)
  then obtain r where "r \<in> set rs" "delivery_id r = did" using s.keep_id by auto
  then show "\<exists>r \<in> set rs. delivery_id r = did \<and> ?v' did = Some (Row (keep r) None)" using row by blast
qed

lemma delivery_in:
  assumes "rs = map2 (delivery_for e now data) snaps dids" and "length dids = length snaps"
  shows "r \<in> set rs \<longleftrightarrow> (\<exists>i < length snaps. r = delivery_for e now data (snaps ! i) (dids ! i))"
proof -
  have "length rs = length snaps" using assms by simp
  moreover have "rs ! i = delivery_for e now data (snaps ! i) (dids ! i)" if "i < length snaps" for i
    unfolding assms(1) using that assms(2) by simp
  ultimately show ?thesis by (auto simp: in_set_conv_nth)
qed

lemma queued_rows:
  assumes "rows_added view keep d w w' rs" and "fresh_ids view d w"
    and "rs = map2 (delivery_for e now data) snaps dids" and "length dids = length snaps"
    and "distinct (map sub_id snaps)" and "i < length snaps"
  shows "queued_for (view (iw_deliveries w)) (view (iw_deliveries w')) e (grain now) (snaps ! i) = {dids ! i}"
proof (intro equalityI subsetI)
  note new = added_rows [OF assms(1,2)] and of = delivery_in [OF assms(3,4)]
  fix did
  assume "did \<in> queued_for (view (iw_deliveries w)) (view (iw_deliveries w')) e (grain now) (snaps ! i)"
  then obtain r0 where r0: "view (iw_deliveries w) did = None" "view (iw_deliveries w') did = Some (Row r0 None)"
    "subscription_id r0 = sub_id (snaps ! i)" by (auto simp: queued_for_def)
  then obtain r where "r \<in> set rs" "delivery_id r = did" "r0 = keep r" using new(3) [of did] by auto
  then obtain j where "j < length snaps" "did = dids ! j" "sub_id (snaps ! j) = sub_id (snaps ! i)"
    using of [of r] r0(3) keep_address(1) by auto
  moreover from this have "j = i" using assms(5,6) by (metis length_map nth_eq_iff_index_eq nth_map)
  ultimately show "did \<in> {dids ! i}" by simp
next
  let ?r = "delivery_for e now data (snaps ! i) (dids ! i)"
  fix did
  assume did: "did \<in> {dids ! i}"
  have "?r \<in> set rs" using delivery_in [OF assms(3,4)] assms(6) by blast
  from added_rows(1,2) [OF assms(1,2) this] did
  show "did \<in> queued_for (view (iw_deliveries w)) (view (iw_deliveries w')) e (grain now) (snaps ! i)"
    by (auto simp: queued_for_def delivery_for_def keep_address s.keep_status s.keep_fire_at)
qed

lemma added_rows_reach:
  assumes "rows_added view keep d w w' rs" and "fresh_ids view d w"
    and "rs = map2 (delivery_for e now data) snaps dids" and "length dids = length snaps"
    and "distinct (map sub_id snaps)"
  shows "(\<forall>snap \<in> set snaps. card (queued_for (view (iw_deliveries w)) (view (iw_deliveries w')) e (grain now) snap) = 1) \<and>
    (\<forall>did. view (iw_deliveries w') did \<noteq> view (iw_deliveries w) did \<longrightarrow>
       (\<exists>snap \<in> set snaps. did \<in> queued_for (view (iw_deliveries w)) (view (iw_deliveries w')) e (grain now) snap))"
proof (intro conjI ballI allI impI)
  note queued = queued_rows [OF assms]
  show "card (queued_for (view (iw_deliveries w)) (view (iw_deliveries w')) e (grain now) snap) = 1" if "snap \<in> set snaps" for snap
    using that queued by (auto simp: in_set_conv_nth)
  fix did
  assume "view (iw_deliveries w') did \<noteq> view (iw_deliveries w) did"
  then obtain r where "r \<in> set rs" "delivery_id r = did" using added_rows(3) [OF assms(1,2)] by blast
  then obtain i where "i < length snaps" "did = dids ! i" using delivery_in [OF assms(3,4), of r] by auto
  then show "\<exists>snap \<in> set snaps. did \<in> queued_for (view (iw_deliveries w)) (view (iw_deliveries w')) e (grain now) snap"
    using queued by (intro bexI [of _ "snaps ! i"]) simp_all
qed

lemma only_event_claimed:
  assumes "ev_claim_ok v x n evs v'" and "0 < n"
    and "v (ev_event_id e) = Some (EvRow e EV_PENDING None)"
    and "\<And>k r. v k = Some r \<Longrightarrow> er_status r = EV_PENDING \<Longrightarrow> k = ev_event_id e"
  shows "evs = [e]"
proof -
  have all: "d = e" if "d \<in> set evs" for d
  proof -
    have "v (ev_event_id d) = Some (EvRow d EV_PENDING None)" using that assms(1) by (simp add: ev_claim_ok_def)
    moreover from assms(4) [OF this] have "ev_event_id d = ev_event_id e" by simp
    ultimately show ?thesis using assms(3) by simp
  qed
  have "evs \<noteq> []" using assms(1-3) by (force simp: ev_claim_ok_def)
  then obtain d ds where evs: "evs = d # ds" by (cases evs) auto
  have "distinct (map ev_event_id evs)" using assms(1) by (simp add: ev_claim_ok_def)
  then have "ds = []" using all unfolding evs by (cases ds) auto
  then show ?thesis using all evs by simp
qed

lemma emit_reaches:
  assumes wired: "dp_event_store (sv_deps svc) = es" "ing_events (sv_ingestor svc) = es"
      "ing_subs (sv_ingestor svc) = subscription_reader_of sst" "ing_deliveries (sv_ingestor svc) = st"
      "dp_source_key (sv_deps svc) = set_source_key (sv_settings svc)" "0 < ing_batch_size (sv_ingestor svc)"
    and inv: "einv (iw_events w)" "sinv (iw_subs w)" "inv (iw_deliveries w)"
    and rest: "at_rest view eview sview (sv_ingestor svc) (incoming emitted body) w"
  shows "reaches_subscribers view eview sview grain svc emitted body now w"
proof -
  let ?d = "sv_ingestor svc" and ?e = "incoming emitted body" and ?v0 = "eview (iw_events w)"
  let ?e' = "ekeep ?e" and ?eid = "em_event_id body"
  let ?v1 = "?v0(?eid \<mapsto> EvRow ?e' EV_PENDING None)"
  have e: "ev_event_id ?e = ?eid" by (simp add: incoming_def)
  have e': "ev_event_id ?e' = ?eid" "ev_event ?e' = ev_event ?e" "ev_tenant_id ?e' = ev_tenant_id ?e"
    by (simp_all add: q.keep_event e)
  have final: "ev_final (er_status r)" if "?v0 k = Some r" for k r using rest that by (simp add: at_rest_def)
  obtain q1 where q1: "es_append es ?e (iw_events w) = (Inr (), q1)" "einv q1" "eview q1 = appended [?e'] ?v0"
    using q.append [OF inv(1)] by blast
  have v1: "eview q1 = ?v1"
    using rest e e'(1) by (auto simp: q1(3) appended_def at_rest_def fun_eq_iff split: option.split)
  let ?w1 = "w\<lparr>iw_events := q1\<rparr>"
  have emit: "handle (sv_deps svc) (set_source_key (sv_settings svc)) (Emit emitted body) w =
      (Inr (EmitAnswer \<lparr>er_accepted = True, er_event_id = ?eid\<rparr>), ?w1)"
    using q1(1) by (simp add: answered_def emit_event_def auth_def wired(1,5) raising_def on_events_def bindE_def)
  obtain k s1 where r: "es_reclaim_stale es now q1 = (Inr k, s1)" "einv s1" "eview s1 = ev_reclaimed (egrain now) ?v1"
    using q.reclaim [OF q1(2)] unfolding v1 by blast
  have v1': "ev_reclaimed (egrain now) ?v1 = ?v1"
  proof
    fix k
    show "ev_reclaimed (egrain now) ?v1 k = ?v1 k"
      using final [of k] by (cases "?v0 k") (auto simp: ev_reclaimed_def ev_stale_def ev_final_def)
  qed
  obtain evs s2 where c: "es_claim_events es now (ing_lease_ttl_s ?d) (ing_batch_size ?d) s1 = (Inr evs, s2)" "einv s2"
    "ev_claim_ok ?v1 (lease_end now (ing_lease_ttl_s ?d)) (ing_batch_size ?d) evs (eview s2)"
    using q.claim [OF r(2) less_imp_le [OF wired(6)]] unfolding r(3) v1' by blast
  have evs: "evs = [?e']"
  proof (rule only_event_claimed [OF c(3) wired(6)])
    show "?v1 (ev_event_id ?e') = Some (EvRow ?e' EV_PENDING None)" by (simp add: e'(1))
    show "k = ev_event_id ?e'" if "?v1 k = Some r" "er_status r = EV_PENDING" for k r
      using that final [of k r] e'(1) by (auto simp: ev_final_def split: if_splits)
  qed
  obtain snaps where snaps: "ss_for_event sst (ev_event ?e') (ev_tenant_id ?e') (iw_subs w) = (Inr snaps, iw_subs w)"
    "distinct (map sub_id snaps)" "\<forall>snap. snap \<in> set snaps \<longleftrightarrow> wants (sview (iw_subs w)) ?e snap"
    using subs.for_event [OF inv(2), of "ev_event ?e'" "ev_tenant_id ?e'"] unfolding wants_def e'(2,3) by blast
  let ?ok = "filter (\<lambda>snap. target_check ?d snap = Inr ()) snaps" and ?w2 = "w\<lparr>iw_events := s2\<rparr>"
  have due: "snap \<in> set ?ok \<longleftrightarrow> due ?d (sview (iw_subs w)) ?e snap" for snap
    using snaps(3) by (auto simp: due_def)
  have fresh: "fresh_ids view ?d ?w2" using rest by (simp add: at_rest_def fresh_ids_def)
  have checks: "\<forall>snap \<in> set snaps. target_check ?d snap = Inr () \<or> (\<exists>why t. target_check ?d snap = Inl (InvalidWebhookTarget why t))"
    using rest snaps(3) by (simp add: at_rest_def)
  obtain rs w3 dids where f: "fan_out ?d ?e' now ?w2 = (Inr (int (length rs)), w3)" "iw_events w3 = s2"
    "rows_added view keep ?d ?w2 w3 rs"
    "rs = map2 (delivery_for ?e' now (encode (dumps_default (JObj (ev_data ?e'))))) ?ok dids" "length dids = length ?ok"
    using fan_out_reaches [where w = ?w2 and d = ?d and e = ?e' and now = now and snaps = snaps and q' = "iw_subs w"]
      wired(3,4) inv(3) fresh snaps(1) checks
    by (auto simp: subscription_reader_of_def)
  have "distinct (map sub_id ?ok)" using snaps(2) by (rule distinct_map_filter)
  note reach = added_rows_reach [OF f(3) fresh f(4,5) this]
  obtain s3 where a: "es_ack es [?eid] s2 = (Inr (), s3)" "eview s3 = ev_changed {?eid} EV_DONE (eview s2)"
    using q.ack [OF c(2), of "[?eid]"] by auto
  have "eview s2 ?eid = map_option (ev_leased (lease_end now (ing_lease_ttl_s ?d))) (?v1 ?eid)"
    using c(3) e'(1) by (simp add: ev_claim_ok_def evs)
  then have finished: "\<exists>r. eview s3 ?eid = Some r \<and> er_status r = EV_DONE" by (simp add: a(2) ev_changed_def)
  have tick: "ingest_tick ?d now ?w1 = (Inr \<lparr>ing_claimed = 1, ing_fanned_out = int (length rs), ing_failed = 0\<rparr>, w3\<lparr>iw_events := s3\<rparr>)"
    using r(1) c(1) f(1,2) a(1) e'(1) wired(2)
    by (simp add: ingest_tick_def bindE_def catchE_def on_events_def evs)
  have same: "queued_for v v' ?e' t snap = queued_for v v' ?e t snap" for v v' t snap
    by (simp add: queued_for_def e' e)
  let ?w4 = "w3\<lparr>iw_events := s3\<rparr>"
  let ?q = "queued_for (view (iw_deliveries w)) (view (iw_deliveries w3)) ?e (grain now)"
  have each: "card (?q snap) = 1" if "due ?d (sview (iw_subs w)) ?e snap" for snap
    using conjunct1 [OF reach] that [folded due] same by simp
  have others: "\<exists>snap. due ?d (sview (iw_subs w)) ?e snap \<and> did \<in> ?q snap"
    if "view (iw_deliveries w3) did \<noteq> view (iw_deliveries w) did" for did
    using conjunct2 [OF reach] that unfolding Bex_def due same by simp
  obtain r where "eview s3 ?eid = Some r" "er_status r = EV_DONE" using finished by blast
  then show ?thesis
    unfolding reaches_subscribers_def Let_def
    by (intro exI [of _ ?w1] exI [of _ "\<lparr>ing_claimed = 1, ing_fanned_out = int (length rs), ing_failed = 0\<rparr>"]
        exI [of _ ?w4] exI [of _ r] conjI allI impI)
      (use emit tick each others in simp_all)
qed

end

interpretation mem_service: service_contracts mem_event_store mem_ev_view mem_ev_inv
  "\<lambda>t. t" "\<lambda>now ttl. now + seconds ttl" "\<lambda>e. e" mem_store mem_view mem_inv "\<lambda>t. t" "\<lambda>r. r"
  "redis_subs fake" "redis_sub_view fake" "redis_subs_inv fake" "\<lambda>t. t" "\<lambda>_. True" for fake
  by unfold_locales simp_all

interpretation pg_service: service_contracts "pg_event_store clock jsonb l" "pg_ev_view l" "pg_ev_inv l"
  "\<lambda>t. t" "\<lambda>now _. now + seconds l" "pg_ev_keep clock jsonb" pg_store pg_view pg_inv "\<lambda>t. t" "\<lambda>r. r"
  "pg_subs cipher" "pg_sub_view cipher" "pg_subs_inv cipher" "\<lambda>t. t" "\<lambda>_. True" for clock jsonb l cipher
  by unfold_locales simp_all

interpretation mongo_service: service_contracts "mongo_event_store clock stored l" "mongo_ev_view l" "mongo_ev_inv l"
  bson_ms "\<lambda>now _. bson_ms now + seconds l" "mongo_ev_keep clock stored" "mongo_store cap" mongo_view mongo_inv bson_ms mongo_keep
  "mongo_subs path" mongo_sub_view mongo_subs_inv bson_ms literal_secret for clock stored l cap path
  by unfold_locales (simp_all add: mongo_keep_def)

section \<open>Properties\<close>

text \<open>
  C3: an emitted event reaches its subscribers, whichever of the three back ends the settings
  select. On a service at rest, after \<open>POST /v1/emit\<close> and one turn of the ingest loop every active
  subscription interested in the event, of its tenant if it has one, whose address the guard lets
  pass has exactly one new pending delivery, due at once and addressed to it; nothing else in
  the queue of deliveries is new or changed, and the event is done.
\<close>

theorem emitted_event_reaches_subscribers:
  assumes "0 < set_ingest_batch_size s"
  shows "(build_deps x s (build_memory fake) = Some mem_svc \<and>
      mem_ev_inv (iw_events w) \<and> redis_subs_inv fake (iw_subs w) \<and> mem_inv (iw_deliveries w) \<and>
      at_rest mem_view mem_ev_view (redis_sub_view fake) (sv_ingestor mem_svc) (incoming emitted body) w \<longrightarrow>
      reaches_subscribers mem_view mem_ev_view (redis_sub_view fake) (\<lambda>t. t) mem_svc emitted body now w) \<and>
    (build_deps x s (build_pg clock jsonb s) = Some pg_svc \<and>
      pg_ev_inv (set_lease_ttl_s s) (iw_events u) \<and> pg_subs_inv IdentityCipher (iw_subs u) \<and> pg_inv (iw_deliveries u) \<and>
      at_rest pg_view (pg_ev_view (set_lease_ttl_s s)) (pg_sub_view IdentityCipher) (sv_ingestor pg_svc) (incoming emitted body) u \<longrightarrow>
      reaches_subscribers pg_view (pg_ev_view (set_lease_ttl_s s)) (pg_sub_view IdentityCipher) (\<lambda>t. t) pg_svc emitted body now u) \<and>
    (build_deps x s (build_mongo path clock jsonb s) = Some mongo_svc \<and>
      mongo_ev_inv (set_lease_ttl_s s) (iw_events c) \<and> mongo_subs_inv (iw_subs c) \<and> mongo_inv (iw_deliveries c) \<and>
      at_rest mongo_view (mongo_ev_view (set_lease_ttl_s s)) mongo_sub_view (sv_ingestor mongo_svc) (incoming emitted body) c \<longrightarrow>
      reaches_subscribers mongo_view (mongo_ev_view (set_lease_ttl_s s)) mongo_sub_view bson_ms mongo_svc emitted body now c)"
proof (intro conjI impI; elim conjE)
  assume b: "build_deps x s (build_memory fake) = Some mem_svc"
  show "mem_ev_inv (iw_events w) \<Longrightarrow> redis_subs_inv fake (iw_subs w) \<Longrightarrow> mem_inv (iw_deliveries w) \<Longrightarrow>
      at_rest mem_view mem_ev_view (redis_sub_view fake) (sv_ingestor mem_svc) (incoming emitted body) w \<Longrightarrow>
      reaches_subscribers mem_view mem_ev_view (redis_sub_view fake) (\<lambda>t. t) mem_svc emitted body now w"
    using assms by (intro mem_service.emit_reaches) (simp_all add: build_deps_wired [OF b] build_memory_def make_readers_def Let_def)
next
  assume b: "build_deps x s (build_pg clock jsonb s) = Some pg_svc"
  show "pg_ev_inv (set_lease_ttl_s s) (iw_events u) \<Longrightarrow> pg_subs_inv IdentityCipher (iw_subs u) \<Longrightarrow> pg_inv (iw_deliveries u) \<Longrightarrow>
      at_rest pg_view (pg_ev_view (set_lease_ttl_s s)) (pg_sub_view IdentityCipher) (sv_ingestor pg_svc) (incoming emitted body) u \<Longrightarrow>
      reaches_subscribers pg_view (pg_ev_view (set_lease_ttl_s s)) (pg_sub_view IdentityCipher) (\<lambda>t. t) pg_svc emitted body now u"
    using assms by (intro pg_service.emit_reaches) (simp_all add: build_deps_wired [OF b] build_pg_def make_readers_def Let_def)
next
  assume b: "build_deps x s (build_mongo path clock jsonb s) = Some mongo_svc"
  show "mongo_ev_inv (set_lease_ttl_s s) (iw_events c) \<Longrightarrow> mongo_subs_inv (iw_subs c) \<Longrightarrow> mongo_inv (iw_deliveries c) \<Longrightarrow>
      at_rest mongo_view (mongo_ev_view (set_lease_ttl_s s)) mongo_sub_view (sv_ingestor mongo_svc) (incoming emitted body) c \<Longrightarrow>
      reaches_subscribers mongo_view (mongo_ev_view (set_lease_ttl_s s)) mongo_sub_view bson_ms mongo_svc emitted body now c"
    using assms by (intro mongo_service.emit_reaches) (simp_all add: build_deps_wired [OF b] build_mongo_def make_readers_def Let_def)
qed

section \<open>A sample service\<close>

definition sample_externals :: externals where
  "sample_externals = \<lparr>x_sha256 = (\<lambda>_. []), x_hmac = (\<lambda>_ _. []),
     x_http = (\<lambda>_. Inl (Other ''ConnectError'' [])), x_decode_utf8 = (\<lambda>_. []),
     x_loads = (\<lambda>_. None), x_idna = Some, x_parsedate = (\<lambda>_. Unparsable),
     x_uuid = (\<lambda>n. replicate n CHR ''u''), x_send_clock = (\<lambda>_. 0), x_draw = (\<lambda>_. 0), x_now = 0\<rparr>"

definition sample_service_world :: "(mem_events, RedisSubs, MemState) ing_world" where
  "sample_service_world = \<lparr>iw_events = [], iw_subs = sample_subs_db, iw_deliveries = mem_empty, iw_uuids = 0\<rparr>"

lemma sample_subs_view: "redis_sub_view sample_subs_cfg sample_subs_db = (\<lambda>sid. if sid = ''s1''
    then Some (SubRow (new_subscription sample_env ''1.1.1.1'' ''o1'' ''https://a.example/hook'' [''order.paid''] None) None) else None)"
proof -
  have "redis_subs_inv sample_subs_cfg redis_subs_empty" "redis_sub_view sample_subs_cfg redis_subs_empty = Map.empty"
    using redis_subs_empty_inv [OF sample_codec] by simp_all
  then show ?thesis
    using redis_create_ok [OF _ sample_resolve, of sample_subs_cfg redis_subs_empty "''o1''" "[''order.paid'']" None] sample_create
    by (auto simp: sample_env_simps new_subscription_def fun_eq_iff)
qed

lemma target_check_same:
  "sub_url a = sub_url b \<Longrightarrow> sub_resolved_ip a = sub_resolved_ip b \<Longrightarrow> ing_idna d = ing_idna d' \<Longrightarrow>
   ing_ssrf d = ing_ssrf d' \<Longrightarrow> target_check d a = target_check d' b"
  by (simp only: target_check_def)

lemma sample_target: "target_check d (snapshot_of (new_subscription sample_env ''1.1.1.1'' ''o1'' ''https://a.example/hook'' evs None)) = Inr ()"
  if "ing_idna d = Some" "ing_ssrf d = default_validator"
proof -
  let ?snap = "snapshot_of (new_subscription sample_env ''1.1.1.1'' ''o1'' ''https://a.example/hook'' evs None)"
  have "target_check d ?snap = target_check sample_ingestor sample_sub"
    by (rule target_check_same)
      (simp_all add: that snapshot_of_def new_subscription_def sample_ingestor_def sample_sub_def)
  also have "\<dots> = Inr ()" by code_simp
  finally show ?thesis .
qed

theorem emitted_event_reaches_subscribers_witness:
  "\<exists>svc. build_deps sample_externals (default_settings ''key'') (build_memory sample_subs_cfg) = Some svc \<and>
     reaches_subscribers mem_view mem_ev_view (redis_sub_view sample_subs_cfg) (\<lambda>t. t) svc 0
       (emit_request ''e-1'' ''order.paid'') 1 sample_service_world \<and>
     due (sv_ingestor svc) (redis_sub_view sample_subs_cfg (iw_subs sample_service_world))
       (incoming 0 (emit_request ''e-1'' ''order.paid''))
       (snapshot_of (new_subscription sample_env ''1.1.1.1'' ''o1'' ''https://a.example/hook'' [''order.paid''] None))"
proof -
  let ?s = "default_settings ''key''" and ?e = "incoming 0 (emit_request ''e-1'' ''order.paid'')"
  let ?sub = "new_subscription sample_env ''1.1.1.1'' ''o1'' ''https://a.example/hook'' [''order.paid''] None"
  obtain svc where svc: "build_deps sample_externals ?s (build_memory sample_subs_cfg) = Some svc"
    using build_deps_starts by blast
  have "cfg_security (service_policy ?s) = default_security"
    by (simp add: service_policy_def default_settings_def default_security_def)
  then have d: "ing_idna (sv_ingestor svc) = Some" "ing_ssrf (sv_ingestor svc) = default_validator"
    "ing_uuid (sv_ingestor svc) = (\<lambda>n. replicate n CHR ''u'')"
    using svc by (auto simp: build_deps_def Let_def mk_validator_default sample_externals_def)
  have subs: "iw_subs sample_service_world = sample_subs_db" by (simp add: sample_service_world_def)
  have wants: "wants (redis_sub_view sample_subs_cfg sample_subs_db) ?e snap \<longleftrightarrow> snap = snapshot_of ?sub" for snap
    by (auto simp: wants_def sample_subs_view interested_def snapshot_of_def new_subscription_def incoming_def emit_request_def split: if_splits)
  have "inj (\<lambda>n. replicate n CHR ''u'')" by (simp add: inj_def)
  then have "fresh_ids mem_view (sv_ingestor svc) sample_service_world"
    by (simp add: fresh_ids_def d sample_service_world_def mem_view_def mem_empty_def)
  then have rest: "at_rest mem_view mem_ev_view (redis_sub_view sample_subs_cfg) (sv_ingestor svc) ?e sample_service_world"
    using sample_target [OF d(1,2)]
    by (simp add: at_rest_def subs wants) (simp add: sample_service_world_def table_view_def lookup_def)
  have inv: "mem_ev_inv (iw_events sample_service_world)" "mem_inv (iw_deliveries sample_service_world)"
    "redis_subs_inv sample_subs_cfg (iw_subs sample_service_world)"
    using mem_inv_empty redis_subs_reachable_inv [OF sample_codec sample_subs_reachable]
    by (simp_all add: sample_service_world_def ev_rows_ok_def)
  have "0 < set_ingest_batch_size ?s" by (simp add: default_settings_def)
  note reach = emitted_event_reaches_subscribers [OF this, THEN conjunct1, THEN mp]
  have "reaches_subscribers mem_view mem_ev_view (redis_sub_view sample_subs_cfg) (\<lambda>t. t) svc 0
       (emit_request ''e-1'' ''order.paid'') 1 sample_service_world"
    using svc rest inv by (intro reach) simp
  moreover have "due (sv_ingestor svc) (redis_sub_view sample_subs_cfg (iw_subs sample_service_world)) ?e (snapshot_of ?sub)"
    using sample_target [OF d(1,2)] by (simp add: due_def subs wants)
  ultimately show ?thesis using svc by blast
qed

end
