(* ===== verification/StoreSuite.thy ===== *)
theory StoreSuite
  imports MemoryStore PgStore MongoStore "HOL-Library.Multiset"
begin

text \<open>
  The behaviour suite for delivery stores (\<open>testing/store_contract.py\<close>), run on the models. A case
  is a computation over the store's state that raises \<open>AssertionError\<close>; \<open>uuid n\<close> is the \<open>n\<close>-th
  \<open>uuid4\<close> of the case; no case sets the \<open>fire_at\<close> of a record. What the cases ask for on one schedule of fixed instants the contract
  gives for all of them, so every store that keeps the contract passes.
\<close>

section \<open>The cases\<close>

definition T0 :: time where
  "T0 = seconds 1790942400"

definition LEASE_S :: int where
  "LEASE_S = 30"

definition BATCH :: int where
  "BATCH = 10"

definition OTHER_PROFILE :: string where
  "OTHER_PROFILE = ''plugin_push''"

definition SECRET_VERSION :: string where
  "SECRET_VERSION = ''v7''"

definition suite_record :: "(nat \<Rightarrow> string) \<Rightarrow> nat \<Rightarrow> string \<Rightarrow> string option \<Rightarrow> DeliveryRecord" where
  "suite_record uuid n prof version =
     \<lparr>delivery_id = uuid (2 * n), subscription_id = ''sub-1'', owner_id = ''owner-1'',
      event_name = ''order.paid'', event_id = uuid (2 * n + 1), schema_version = ''1'',
      tenant_id = Some ''tenant-1'', data_json = encode (''{'' @ [CHR 0x22] @ ''ok'' @ [CHR 0x22] @ '': true}''),
      emitted_at = T0, target_url = ''https://receiver.example/hook'', resolved_ip = ''1.1.1.1'',
      redelivery_of = None, attempts = 0, fire_at = T0, created_at = T0, status = PENDING,
      profile = prof, secret_version = version\<rparr>"

definition suite_attempt :: "int \<Rightarrow> string \<Rightarrow> AttemptRecord" where
  "suite_attempt n body =
     \<lparr>att_attempt = n, att_attempted_at = T0, att_http_code = Some 200, att_duration_ms = 5,
      att_error = None, att_response_snippet = body, att_response_body = encode body,
      att_response_truncated = False\<rparr>"

definition ensure :: "bool \<Rightarrow> (exc, 's, unit) comp" where
  "ensure b = (if b then ret () else raise (Other ''AssertionError'' []))"

abbreviation ids_of :: "DeliveryRecord list \<Rightarrow> string list" where
  "ids_of \<equiv> map delivery_id"

text \<open>A claim is atomic, so the two claims of \<open>gather\<close> run one after the other.\<close>

definition case_two_claimers_never_share_a_row :: "(nat \<Rightarrow> string) \<Rightarrow> 's delivery_store \<Rightarrow> (exc, 's, unit) comp" where
  "case_two_claimers_never_share_a_row uuid st =
     (let rows = map (\<lambda>n. suite_record uuid n DEFAULT_PROFILE None) [0..<nat BATCH] in
      bindE (enqueue_many st rows) (\<lambda>_.
      bindE (claim_batch st T0 LEASE_S BATCH) (\<lambda>first.
      bindE (claim_batch st T0 LEASE_S BATCH) (\<lambda>second.
        let taken = ids_of first @ ids_of second
        in bindE (ensure (length taken = card (set taken))) (\<lambda>_. ensure (mset taken = mset (ids_of rows)))))))"

definition case_reclaim_returns_an_expired_lease :: "(nat \<Rightarrow> string) \<Rightarrow> 's delivery_store \<Rightarrow> (exc, 's, unit) comp" where
  "case_reclaim_returns_an_expired_lease uuid st =
     (let row = suite_record uuid 0 DEFAULT_PROFILE None in
      bindE (enqueue_many st [row]) (\<lambda>_.
      bindE (claim_batch st T0 LEASE_S BATCH) (\<lambda>first.
      bindE (ensure (ids_of first = [delivery_id row])) (\<lambda>_.
      bindE (reclaim_stale st (T0 + seconds (LEASE_S + 1))) (\<lambda>k.
      bindE (ensure (k = 1)) (\<lambda>_.
      bindE (claim_batch st T0 LEASE_S BATCH) (\<lambda>second.
        ensure (ids_of second = [delivery_id row]))))))))"

definition case_retry_keeps_the_id_and_waits :: "(nat \<Rightarrow> string) \<Rightarrow> 's delivery_store \<Rightarrow> (exc, 's, unit) comp" where
  "case_retry_keeps_the_id_and_waits uuid st =
     (let row = suite_record uuid 0 DEFAULT_PROFILE None; later = T0 + seconds (5 * 60) in
      bindE (enqueue_many st [row]) (\<lambda>_.
      bindE (claim_batch st T0 LEASE_S BATCH) (\<lambda>_.
      bindE (schedule_retry st (delivery_id row) later (suite_attempt 1 [])) (\<lambda>_.
      bindE (claim_batch st T0 LEASE_S BATCH) (\<lambda>early.
      bindE (ensure (early = [])) (\<lambda>_.
      bindE (claim_batch st later LEASE_S BATCH) (\<lambda>again.
        ensure (ids_of again = [delivery_id row]))))))))"

definition case_dead_is_terminal :: "(nat \<Rightarrow> string) \<Rightarrow> 's delivery_store \<Rightarrow> (exc, 's, unit) comp" where
  "case_dead_is_terminal uuid st =
     (let row = suite_record uuid 0 DEFAULT_PROFILE None in
      bindE (enqueue_many st [row]) (\<lambda>_.
      bindE (claim_batch st T0 LEASE_S BATCH) (\<lambda>_.
      bindE (mark_dead st (delivery_id row) (suite_attempt 1 [])) (\<lambda>_.
      bindE (claim_batch st (T0 + seconds 86400) LEASE_S BATCH) (\<lambda>batch.
      bindE (ensure (batch = [])) (\<lambda>_.
      bindE (store_get st (delivery_id row)) (\<lambda>found.
        ensure (map_option status found = Some DEAD_LETTERED))))))))"

definition case_profile_and_secret_version_round_trip :: "(nat \<Rightarrow> string) \<Rightarrow> 's delivery_store \<Rightarrow> (exc, 's, unit) comp" where
  "case_profile_and_secret_version_round_trip uuid st =
     bindE (enqueue_many st [suite_record uuid 0 OTHER_PROFILE (Some SECRET_VERSION)]) (\<lambda>_.
     bindE (claim_batch st T0 LEASE_S BATCH) (\<lambda>batch.
       case batch of
         [claimed] \<Rightarrow> ensure (profile claimed = OTHER_PROFILE \<and> secret_version claimed = Some SECRET_VERSION)
       | _ \<Rightarrow> raise (ValueError ''wrong number of values to unpack'')))"

definition case_mark_sent_changes_exactly_one_row :: "(nat \<Rightarrow> string) \<Rightarrow> 's delivery_store \<Rightarrow> (exc, 's, unit) comp" where
  "case_mark_sent_changes_exactly_one_row uuid st =
     (let sent = suite_record uuid 0 DEFAULT_PROFILE None; other = suite_record uuid 1 DEFAULT_PROFILE None in
      bindE (enqueue_many st [sent, other]) (\<lambda>_.
      bindE (claim_batch st T0 LEASE_S BATCH) (\<lambda>_.
      bindE (mark_sent st (delivery_id sent)
        (suite_attempt 1 (''{'' @ [CHR 0x22] @ ''type'' @ [CHR 0x22] @ '': '' @ [CHR 0x22] @ ''complete'' @ [CHR 0x22] @ ''}''))) (\<lambda>_.
      bindE (store_get st (delivery_id sent)) (\<lambda>after_sent.
      bindE (store_get st (delivery_id other)) (\<lambda>after_other.
      bindE (ensure (map_option status after_sent = Some SENT)) (\<lambda>_.
        ensure (map_option status after_other = Some IN_FLIGHT))))))))"

definition case_enqueue_is_idempotent :: "(nat \<Rightarrow> string) \<Rightarrow> 's delivery_store \<Rightarrow> (exc, 's, unit) comp" where
  "case_enqueue_is_idempotent uuid st =
     (let row = suite_record uuid 0 DEFAULT_PROFILE None in
      bindE (enqueue_many st [row]) (\<lambda>_.
      bindE (enqueue_many st [row]) (\<lambda>_.
      bindE (claim_batch st T0 LEASE_S BATCH) (\<lambda>batch. ensure (length batch = 1)))))"

text \<open>\<open>StoreContract\<close>: every case on a store of its own.\<close>

definition passes :: "(exc, 's, unit) comp \<Rightarrow> 's \<Rightarrow> bool" where
  "passes m s = (\<not> isl (fst (m s)))"

definition StoreContract :: "(nat \<Rightarrow> string) \<Rightarrow> 's delivery_store \<Rightarrow> 's \<Rightarrow> bool" where
  "StoreContract uuid st s = list_all (\<lambda>m. passes m s)
     [case_two_claimers_never_share_a_row uuid st, case_reclaim_returns_an_expired_lease uuid st,
      case_retry_keeps_the_id_and_waits uuid st, case_dead_is_terminal uuid st,
      case_profile_and_secret_version_round_trip uuid st, case_mark_sent_changes_exactly_one_row uuid st,
      case_enqueue_is_idempotent uuid st]"

section \<open>Every store that keeps the contract passes\<close>

lemma bindE_ensure [simp]: "bindE (ensure b) f = (if b then f () else raise (Other ''AssertionError'' []))"
  by (simp add: ensure_def)

lemma ensure_apply [simp]: "ensure True s = (Inr (), s)"
  by (simp add: ensure_def)

lemma suite_record_simps [simp]:
  "delivery_id (suite_record uuid n p v) = uuid (2 * n)" "status (suite_record uuid n p v) = PENDING"
  "fire_at (suite_record uuid n p v) = T0" "profile (suite_record uuid n p v) = p"
  "secret_version (suite_record uuid n p v) = v" "attempts (suite_record uuid n p v) = 0"
  by (simp_all add: suite_record_def)

definition ready_ids :: "time \<Rightarrow> view \<Rightarrow> string set" where
  "ready_ids now v = {did. \<exists>r. v did = Some r \<and> ready now r}"

lemma claim_ok_all:
  "claim_ok v now x n batch v' \<Longrightarrow> int (length batch) < n \<Longrightarrow> v did = Some row \<Longrightarrow> ready now row \<Longrightarrow>
   did \<in> delivery_id ` set batch"
  by (simp add: claim_ok_def)

lemma claim_ok_row:
  "claim_ok v now x n batch v' \<Longrightarrow> r \<in> set batch \<Longrightarrow>
   \<exists>row. v (delivery_id r) = Some row \<and> r\<lparr>status := IN_FLIGHT\<rparr> = (row_rec row)\<lparr>status := IN_FLIGHT\<rparr>"
  by (auto simp: claim_ok_def)

context delivery_store_contract
begin

text \<open>A claim with room for every ready row takes exactly those.\<close>

lemma claim_exact:
  assumes "inv s" and "int (card (ready_ids (grain now) (view s))) \<le> n"
  shows "\<exists>batch s'. claim_batch st now ttl n s = (Inr batch, s') \<and> inv s' \<and> distinct (ids_of batch) \<and>
    delivery_id ` set batch = ready_ids (grain now) (view s) \<and>
    (\<forall>r \<in> set batch. \<exists>row. view s (delivery_id r) = Some row \<and>
       r\<lparr>status := IN_FLIGHT\<rparr> = (row_rec row)\<lparr>status := IN_FLIGHT\<rparr>) \<and>
    view s' = (\<lambda>did. if did \<in> ready_ids (grain now) (view s)
       then map_option (leased (grain now + seconds ttl)) (view s did) else view s did)"
proof -
  let ?R = "ready_ids (grain now) (view s)"
  have "0 \<le> n" using assms(2) by linarith
  then obtain batch s' where c: "claim_batch st now ttl n s = (Inr batch, s')" "inv s'"
    "claim_ok (view s) (grain now) (grain now + seconds ttl) n batch (view s')"
    using claim [OF assms(1)] by blast
  have sub: "delivery_id ` set batch \<subseteq> ?R" using c(3) by (fastforce simp: claim_ok_def ready_ids_def)
  have fin: "finite ?R"
    using view_ok [OF assms(1)] by (intro finite_subset [of ?R "dom (view s)"]) (auto simp: view_ok_def ready_ids_def)
  have dist: "distinct (ids_of batch)" using c(3) by (simp add: claim_ok_def)
  then have card: "card (delivery_id ` set batch) = length batch" using distinct_card by fastforce
  have eq: "delivery_id ` set batch = ?R"
  proof (cases "int (length batch) < n")
    case True
    from claim_ok_all [OF c(3) this] have "?R \<subseteq> delivery_id ` set batch" unfolding ready_ids_def by blast
    then show ?thesis using sub by simp
  next
    case False
    then have "card ?R \<le> card (delivery_id ` set batch)" using assms(2) card by linarith
    then show ?thesis by (intro card_subset_eq [OF fin sub] antisym card_mono [OF fin sub])
  qed
  have "view s' = (\<lambda>did. if did \<in> ?R then map_option (leased (grain now + seconds ttl)) (view s did) else view s did)"
    using c(3) unfolding claim_ok_def eq by auto
  moreover have "\<forall>r \<in> set batch. \<exists>row. view s (delivery_id r) = Some row \<and>
       r\<lparr>status := IN_FLIGHT\<rparr> = (row_rec row)\<lparr>status := IN_FLIGHT\<rparr>"
    using claim_ok_row [OF c(3)] by blast
  ultimately show ?thesis
    using c(1,2) dist eq by (intro exI [of _ batch] exI [of _ s'] conjI)
qed

lemma claim_single:
  assumes "inv s" and "view s = [did \<mapsto> r]" and "ready (grain now) r"
  shows "\<exists>c s'. claim_batch st now ttl BATCH s = (Inr [c], s') \<and> inv s' \<and> delivery_id c = did \<and>
    c\<lparr>status := IN_FLIGHT\<rparr> = (row_rec r)\<lparr>status := IN_FLIGHT\<rparr> \<and> view s' = [did \<mapsto> leased (grain now + seconds ttl) r]"
proof -
  have R: "ready_ids (grain now) (view s) = {did}" using assms(2,3) by (auto simp: ready_ids_def)
  then have "int (card (ready_ids (grain now) (view s))) \<le> BATCH" by (simp add: BATCH_def)
  from claim_exact [OF assms(1) this, of ttl] obtain batch s' where
    c: "claim_batch st now ttl BATCH s = (Inr batch, s')" "inv s'" "distinct (ids_of batch)" "delivery_id ` set batch = {did}"
    "\<forall>r \<in> set batch. \<exists>row. view s (delivery_id r) = Some row \<and> r\<lparr>status := IN_FLIGHT\<rparr> = (row_rec row)\<lparr>status := IN_FLIGHT\<rparr>"
    "view s' = (\<lambda>d. if d \<in> {did} then map_option (leased (grain now + seconds ttl)) (view s d) else view s d)"
    unfolding R by blast
  have "card (set (ids_of batch)) = 1" using c(4) by simp
  then have "length batch = 1" using distinct_card [OF c(3)] by simp
  then obtain x where x: "batch = [x]" by (cases batch) auto
  then show ?thesis using c assms(2) by (intro exI [of _ x] exI [of _ s']) auto
qed

lemma claim_none:
  assumes "inv s" and "\<forall>did r. view s did = Some r \<longrightarrow> \<not> ready (grain now) r"
  shows "\<exists>s'. claim_batch st now ttl BATCH s = (Inr [], s') \<and> inv s' \<and> view s' = view s"
proof -
  have R: "ready_ids (grain now) (view s) = {}" using assms(2) by (auto simp: ready_ids_def)
  then have "int (card (ready_ids (grain now) (view s))) \<le> BATCH" by (simp add: BATCH_def)
  from claim_exact [OF assms(1) this, of ttl] show ?thesis unfolding R by auto
qed

lemma enqueue_single:
  assumes "inv s" and "view s = Map.empty" and "status r = PENDING"
  shows "\<exists>s'. enqueue_many st [r] s = (Inr (), s') \<and> inv s' \<and> view s' = [delivery_id r \<mapsto> Row (keep r) None]"
  using enqueue [OF assms(1), of "[r]"] assms(2,3) by (auto simp: enqueued_def fun_eq_iff keep_id)

lemma kept_ready: "status r = PENDING \<Longrightarrow> fire_at r \<le> now \<Longrightarrow> ready (grain now) (Row (keep r) None)"
  by (simp add: ready_def claimable_def keep_status keep_fire_at grain_mono)

text \<open>What every case but two begins with: one row, claimed at its time.\<close>

lemma claimed_row:
  assumes "inv s" and "view s = Map.empty" and "status r = PENDING" and "fire_at r = T0"
  shows "\<exists>s1 c s2. enqueue_many st [r] s = (Inr (), s1) \<and> inv s1 \<and> view s1 = [delivery_id r \<mapsto> Row (keep r) None] \<and>
    claim_batch st T0 LEASE_S BATCH s1 = (Inr [c], s2) \<and> inv s2 \<and> delivery_id c = delivery_id r \<and>
    c\<lparr>status := IN_FLIGHT\<rparr> = (keep r)\<lparr>status := IN_FLIGHT\<rparr> \<and>
    view s2 = [delivery_id r \<mapsto> leased (grain T0 + seconds LEASE_S) (Row (keep r) None)]"
proof -
  obtain s1 where s1: "enqueue_many st [r] s = (Inr (), s1)" "inv s1" "view s1 = [delivery_id r \<mapsto> Row (keep r) None]"
    using enqueue_single [OF assms(1-3)] by blast
  from claim_single [OF s1(2,3) kept_ready [OF assms(3)], of T0 LEASE_S] assms(4) show ?thesis using s1 by auto
qed

lemma leased_simps: "status (row_rec (leased x r)) = IN_FLIGHT" "attempts (row_rec (leased x r)) = attempts (row_rec r)"
  by (simp_all add: leased_def)

lemma passes_reclaim:
  assumes "inv s" and "view s = Map.empty"
  shows "passes (case_reclaim_returns_an_expired_lease uuid st) s"
proof -
  let ?r = "suite_record uuid 0 DEFAULT_PROFILE None" and ?x = "grain T0 + seconds LEASE_S"
  let ?now = "T0 + seconds (LEASE_S + 1)" and ?l = "leased (grain T0 + seconds LEASE_S) (Row (keep (suite_record uuid 0 DEFAULT_PROFILE None)) None)"
  obtain s1 c s2 where run: "enqueue_many st [?r] s = (Inr (), s1)" "claim_batch st T0 LEASE_S BATCH s1 = (Inr [c], s2)"
    "inv s2" "delivery_id c = delivery_id ?r" "view s2 = [delivery_id ?r \<mapsto> ?l]"
    using claimed_row [OF assms, of ?r] by auto
  have now: "?x < grain ?now" unfolding grain_seconds by (simp add: seconds_def)
  then have st: "stale (grain ?now) ?l" by (simp add: stale_def leased_def)
  then have "stale_ids (grain ?now) (view s2) = {delivery_id ?r}" using run(5) by (auto simp: stale_ids_def)
  then obtain s3 where s3: "reclaim_stale st ?now s2 = (Inr 1, s3)" "inv s3" "view s3 = reclaimed (grain ?now) (view s2)"
    using reclaim [OF run(3), of ?now] by auto
  have v3: "view s3 = [delivery_id ?r \<mapsto> released ?l]" using st by (auto simp: s3(3) run(5) reclaimed_def fun_eq_iff)
  have "ready (grain T0) (released ?l)"
    by (simp add: ready_def released_def leased_def claimable_def keep_fire_at)
  from claim_single [OF s3(2) v3 this, of LEASE_S] show ?thesis
    using run(1,2,4) s3(1)
    by (auto simp: passes_def case_reclaim_returns_an_expired_lease_def Let_def bindE_Inr)
qed

lemma passes_retry:
  assumes "inv s" and "view s = Map.empty"
  shows "passes (case_retry_keeps_the_id_and_waits uuid st) s"
proof -
  let ?r = "suite_record uuid 0 DEFAULT_PROFILE None" and ?later = "T0 + seconds (5 * 60)"
  let ?l = "leased (grain T0 + seconds LEASE_S) (Row (keep (suite_record uuid 0 DEFAULT_PROFILE None)) None)"
  obtain s1 c s2 where run: "enqueue_many st [?r] s = (Inr (), s1)" "claim_batch st T0 LEASE_S BATCH s1 = (Inr [c], s2)"
    "inv s2" "view s2 = [delivery_id ?r \<mapsto> ?l]"
    using claimed_row [OF assms, of ?r] by auto
  obtain k s3 where s3: "schedule_retry st (delivery_id ?r) ?later (suite_attempt 1 []) s2 = (Inr (), s3)" "inv s3"
    "view s3 = [delivery_id ?r \<mapsto> retried (grain ?later) k ?l]"
    using retry [OF run(3), of "delivery_id ?r" ?l ?later "suite_attempt 1 []"] run(4) by auto
  have later: "grain T0 < grain ?later" unfolding grain_seconds by (simp add: seconds_def)
  have "\<forall>d r. view s3 d = Some r \<longrightarrow> \<not> ready (grain T0) r"
    using later by (auto simp: s3(3) ready_def retried_def split: if_splits)
  from claim_none [where s = s3 and now = T0 and ttl = LEASE_S, OF s3(2) this]
  obtain s4 where s4: "claim_batch st T0 LEASE_S BATCH s3 = (Inr [], s4)" "inv s4" "view s4 = view s3"
    by auto
  have "ready (grain ?later) (retried (grain ?later) k ?l)" by (simp add: ready_def retried_def claimable_def)
  from claim_single [OF s4(2) _ this, of "delivery_id ?r" LEASE_S] show ?thesis
    using run(1,2) s3(1,3) s4(1,3)
    by (auto simp: passes_def case_retry_keeps_the_id_and_waits_def Let_def bindE_Inr)
qed

lemma passes_dead:
  assumes "inv s" and "view s = Map.empty"
  shows "passes (case_dead_is_terminal uuid st) s"
proof -
  let ?r = "suite_record uuid 0 DEFAULT_PROFILE None"
  let ?l = "leased (grain T0 + seconds LEASE_S) (Row (keep (suite_record uuid 0 DEFAULT_PROFILE None)) None)"
  obtain s1 c s2 where run: "enqueue_many st [?r] s = (Inr (), s1)" "claim_batch st T0 LEASE_S BATCH s1 = (Inr [c], s2)"
    "inv s2" "view s2 = [delivery_id ?r \<mapsto> ?l]"
    using claimed_row [OF assms, of ?r] by auto
  obtain k s3 where s3: "mark_dead st (delivery_id ?r) (suite_attempt 1 []) s2 = (Inr (), s3)" "inv s3"
    "view s3 = [delivery_id ?r \<mapsto> settled DEAD_LETTERED k ?l]"
    using dead [OF run(3), of "delivery_id ?r" ?l "suite_attempt 1 []"] run(4) by auto
  have "\<forall>d r. view s3 d = Some r \<longrightarrow> \<not> ready (grain (T0 + seconds 86400)) r"
    by (auto simp: s3(3) ready_def settled_def claimable_def split: if_splits)
  from claim_none [where s = s3 and now = "T0 + seconds 86400" and ttl = LEASE_S, OF s3(2) this]
  obtain s4 where s4: "claim_batch st (T0 + seconds 86400) LEASE_S BATCH s3 = (Inr [], s4)" "inv s4" "view s4 = view s3"
    by auto
  have "store_get st (delivery_id ?r) s4 = (Inr (Some (row_rec (settled DEAD_LETTERED k ?l))), s4)"
    using get [OF s4(2), of "delivery_id ?r"] by (simp add: s4(3) s3(3))
  then show ?thesis
    using run(1,2) s3(1) s4(1)
    by (simp add: passes_def case_dead_is_terminal_def Let_def bindE_Inr settled_def)
qed

lemma passes_profile:
  assumes "inv s" and "view s = Map.empty"
  shows "passes (case_profile_and_secret_version_round_trip uuid st) s"
proof -
  let ?r = "suite_record uuid 0 OTHER_PROFILE (Some SECRET_VERSION)"
  obtain s1 c s2 where run: "enqueue_many st [?r] s = (Inr (), s1)" "claim_batch st T0 LEASE_S BATCH s1 = (Inr [c], s2)"
    "c\<lparr>status := IN_FLIGHT\<rparr> = (keep ?r)\<lparr>status := IN_FLIGHT\<rparr>"
    using claimed_row [OF assms, of ?r] by auto
  have "profile (c\<lparr>status := IN_FLIGHT\<rparr>) = OTHER_PROFILE" "secret_version (c\<lparr>status := IN_FLIGHT\<rparr>) = Some SECRET_VERSION"
    unfolding run(3) by (simp_all add: keep_profile keep_version OTHER_PROFILE_def)
  then show ?thesis
    using run(1,2) by (simp add: passes_def case_profile_and_secret_version_round_trip_def bindE_Inr)
qed

lemma passes_enqueue:
  assumes "inv s" and "view s = Map.empty"
  shows "passes (case_enqueue_is_idempotent uuid st) s"
proof -
  let ?r = "suite_record uuid 0 DEFAULT_PROFILE None"
  obtain s1 where s1: "enqueue_many st [?r] s = (Inr (), s1)" "inv s1" "view s1 = [delivery_id ?r \<mapsto> Row (keep ?r) None]"
    using enqueue_single [OF assms, of ?r] by auto
  obtain s2 where s2: "enqueue_many st [?r] s1 = (Inr (), s2)" "inv s2" "view s2 = enqueued [keep ?r] (view s1)"
    using enqueue [OF s1(2), of "[?r]"] by auto
  have "view s2 = [delivery_id ?r \<mapsto> Row (keep ?r) None]"
    by (auto simp: s2(3) s1(3) enqueued_def fun_eq_iff keep_id)
  from claim_single [OF s2(2) this kept_ready, of T0 LEASE_S] show ?thesis
    using s1(1) s2(1) by (auto simp: passes_def case_enqueue_is_idempotent_def Let_def bindE_Inr)
qed

lemma passes_mark_sent:
  assumes "inv s" and "view s = Map.empty" and "inj uuid"
  shows "passes (case_mark_sent_changes_exactly_one_row uuid st) s"
proof -
  let ?a = "suite_record uuid 0 DEFAULT_PROFILE None" and ?b = "suite_record uuid 1 DEFAULT_PROFILE None"
  let ?row = "\<lambda>r. Row (keep r) None" and ?x = "grain T0 + seconds LEASE_S"
  have ne: "uuid 0 \<noteq> uuid 2" "uuid 2 \<noteq> uuid 0" using injD [OF assms(3)] by fastforce+
  obtain s1 where s1: "enqueue_many st [?a, ?b] s = (Inr (), s1)" "inv s1"
    "view s1 = enqueued (map keep [?a, ?b]) (view s)"
    using enqueue [OF assms(1), of "[?a, ?b]"] by auto
  have v1: "view s1 = [delivery_id ?a \<mapsto> ?row ?a, delivery_id ?b \<mapsto> ?row ?b]"
    using ne by (auto simp: s1(3) assms(2) enqueued_def keep_id fun_eq_iff)
  have "ready_ids (grain T0) (view s1) = {uuid 0, uuid 2}"
    using kept_ready [of ?a T0] kept_ready [of ?b T0] ne by (auto simp: v1 ready_ids_def)
  moreover have "int (card {uuid 0, uuid 2}) \<le> BATCH"
    using card_insert_le_m1 [of 2 "{uuid 2}" "uuid 0"] by (simp add: BATCH_def)
  ultimately obtain batch s2 where s2: "claim_batch st T0 LEASE_S BATCH s1 = (Inr batch, s2)" "inv s2"
    "view s2 = (\<lambda>d. if d \<in> {uuid 0, uuid 2} then map_option (leased ?x) (view s1 d) else view s1 d)"
    using claim_exact [where s = s1 and now = T0 and ttl = LEASE_S and n = BATCH, OF s1(2)] by auto
  have v2: "view s2 (uuid 0) = Some (leased ?x (?row ?a))" "view s2 (uuid 2) = Some (leased ?x (?row ?b))"
    using ne by (simp_all add: s2(3) v1)
  let ?att = "suite_attempt 1 (''{'' @ [CHR 0x22] @ ''type'' @ [CHR 0x22] @ '': '' @ [CHR 0x22] @ ''complete'' @ [CHR 0x22] @ ''}'')"
  from sent [OF s2(2) v2(1), of ?att] obtain k s3 where
    s3: "mark_sent st (uuid 0) ?att s2 = (Inr (), s3)" "inv s3"
    "view s3 = (view s2)(uuid 0 \<mapsto> settled SENT k (leased ?x (?row ?a)))"
    by blast
  have "store_get st (uuid 0) s3 = (Inr (Some (row_rec (settled SENT k (leased ?x (?row ?a))))), s3)"
    "store_get st (uuid 2) s3 = (Inr (Some (row_rec (leased ?x (?row ?b)))), s3)"
    using get [OF s3(2)] ne by (simp_all add: s3(3) v2)
  then show ?thesis
    using s1(1) s2(1) s3(1)
    by (simp add: passes_def case_mark_sent_changes_exactly_one_row_def Let_def bindE_Inr settled_def leased_def)
qed

lemma find_suite_record:
  "find (\<lambda>r. delivery_id r = d) (map keep (map (\<lambda>n. suite_record uuid n p v) ns)) = Some r \<Longrightarrow>
   \<exists>n \<in> set ns. d = uuid (2 * n) \<and> r = keep (suite_record uuid n p v)"
  by (induction ns) (auto simp: keep_id split: if_splits)

lemma find_suite_record_mem:
  "n \<in> set ns \<Longrightarrow> find (\<lambda>r. delivery_id r = uuid (2 * n)) (map keep (map (\<lambda>n. suite_record uuid n p v) ns)) \<noteq> None"
  by (auto simp: find_None_iff keep_id)

lemma passes_two_claimers:
  assumes "inv s" and "view s = Map.empty" and "inj uuid"
  shows "passes (case_two_claimers_never_share_a_row uuid st) s"
proof -
  let ?ns = "[0..<nat BATCH]"
  let ?rows = "map (\<lambda>n. suite_record uuid n DEFAULT_PROFILE None) ?ns"
  have ids: "ids_of ?rows = map (\<lambda>n. uuid (2 * n)) ?ns" by simp
  have dist: "distinct (ids_of ?rows)"
    unfolding ids distinct_map using injD [OF assms(3)] by (fastforce simp: inj_on_def)
  have pend: "list_all (\<lambda>r. status r = PENDING) ?rows" by (simp add: list_all_iff)
  obtain s1 where s1: "enqueue_many st ?rows s = (Inr (), s1)" "inv s1" "view s1 = enqueued (map keep ?rows) (view s)"
    using enqueue [OF assms(1) pend] by blast
  have v1: "view s1 = (\<lambda>d. map_option (\<lambda>r. Row r None) (find (\<lambda>r. delivery_id r = d) (map keep ?rows)))"
    by (simp add: s1(3) assms(2) enqueued_def fun_eq_iff)
  have R: "ready_ids (grain T0) (view s1) = set (ids_of ?rows)"
  proof (rule set_eqI)
    fix d
    show "d \<in> ready_ids (grain T0) (view s1) \<longleftrightarrow> d \<in> set (ids_of ?rows)"
    proof
      assume "d \<in> set (ids_of ?rows)"
      then obtain n where n: "n \<in> set ?ns" "d = uuid (2 * n)" by auto
      then obtain r where r: "find (\<lambda>r. delivery_id r = d) (map keep ?rows) = Some r"
        using find_suite_record_mem [OF n(1), of uuid DEFAULT_PROFILE None] by blast
      from find_suite_record [OF this] have "ready (grain T0) (Row r None)" by (auto intro: kept_ready)
      then show "d \<in> ready_ids (grain T0) (view s1)" unfolding ready_ids_def v1 mem_Collect_eq r by simp
    next
      assume "d \<in> ready_ids (grain T0) (view s1)"
      then obtain r where "find (\<lambda>r. delivery_id r = d) (map keep ?rows) = Some r"
        by (auto simp: v1 ready_ids_def)
      from find_suite_record [OF this] show "d \<in> set (ids_of ?rows)" by auto
    qed
  qed
  have len: "length (ids_of ?rows) = nat BATCH" by simp
  have "int (card (ready_ids (grain T0) (view s1))) \<le> BATCH"
    unfolding R distinct_card [OF dist] len by (simp add: BATCH_def)
  from claim_exact [OF s1(2) this, of LEASE_S] obtain b s2 where
    s2: "claim_batch st T0 LEASE_S BATCH s1 = (Inr b, s2)" "inv s2" "distinct (ids_of b)"
    "delivery_id ` set b = set (ids_of ?rows)"
    "view s2 = (\<lambda>d. if d \<in> set (ids_of ?rows) then map_option (leased (grain T0 + seconds LEASE_S)) (view s1 d) else view s1 d)"
    unfolding R by blast
  have "\<forall>d r. view s2 d = Some r \<longrightarrow> \<not> ready (grain T0) r"
    using R by (auto simp: s2(5) ready_ids_def leased_def ready_def claimable_def split: if_splits)
  from claim_none [where s = s2 and now = T0 and ttl = LEASE_S, OF s2(2) this]
  obtain s3 where s3: "claim_batch st T0 LEASE_S BATCH s2 = (Inr [], s3)" by auto
  have "mset (ids_of b) = mset (ids_of ?rows)" using s2(3,4) dist by (simp add: set_eq_iff_mset_eq_distinct [symmetric] del: mset_map)
  then show ?thesis
    using s1(1) s2(1) s3 distinct_card [OF s2(3)]
    by (simp add: passes_def case_two_claimers_never_share_a_row_def Let_def bindE_Inr del: mset_map)
qed

lemma suite:
  "inv s \<Longrightarrow> view s = Map.empty \<Longrightarrow> inj uuid \<Longrightarrow> StoreContract uuid st s"
  by (simp add: StoreContract_def passes_two_claimers passes_reclaim passes_retry passes_dead passes_profile
      passes_mark_sent passes_enqueue)

end

section \<open>Property\<close>



end
