(* ===== verification/Spec2Isabelle.thy ===== *)
theory Spec2Isabelle
  imports SsrfGuard Policy Envelope Profiles Signer Protocols MemoryStore HostSemaphores Dispatcher
    Engine HttpSender PgStore MongoStore RedisStore PgEvents MongoEvents EventIngestor
    Json IsoTime SubBackends DeliveryAdmin Routes Registry Fanout Worker
    Service StoreSuite
begin

text \<open>
  A verification library for the webhook engine (\<open>webhook_engine/\<close>): a service that takes events
  from producers, fans each out to the subscriptions it interests, and delivers it to their URLs,
  signed, at least once, with retries and a dead-letter state.

  \<^bold>\<open>The program and how its parts interact.\<close> A producer emits an event over HTTP
  (\<open>service/routes/emit.py\<close>); it waits in an event queue (\<open>ingest/\<close>). The ingest loop claims it, asks the
  subscription store which subscriptions it interests, checks their addresses against the SSRF guard
  (\<open>ssrf_guard.py\<close>) and enqueues one delivery for each (\<open>ingest/ingestor.py\<close>). A host application may
  publish events on a bus instead, whose handlers do the same (\<open>fanout.py\<close>, \<open>fanout_installer.py\<close>, over
  the catalogue of \<open>registry.py\<close>). The tick loop (\<open>engine.py\<close>) claims due deliveries under a lease and has
  the dispatcher (\<open>dispatcher.py\<close>) make one attempt of each: resolve and check the address, build and sign
  the body (\<open>envelope.py\<close>, \<open>body.py\<close>, \<open>profiles.py\<close>, \<open>signer.py\<close>), post it pinned to that address
  (\<open>http_sender.py\<close>) under a per-host bulkhead (\<open>host_semaphores.py\<close>), classify the answer (\<open>policy.py\<close>)
  and mark the row sent, to be retried, or dead. Deliveries live in one of four stores (\<open>stores/\<close>),
  subscriptions in one of three (\<open>service/subscription_*.py\<close>). \<open>service/deps.py\<close> puts it together.

  \<^bold>\<open>The theories.\<close> Each opens with what it holds. The names of the source are kept; a state is a record, a
  method a computation \<open>(exc, 's, 'a) comp\<close> that returns or raises, with the mutations made before.
    \<^item> Ground. \<open>Prelude\<close>: computations, dictionaries, slices. \<open>Tables\<close>: rows in a list and their view.
      \<open>PyStr\<close>, \<open>PyFloat\<close>, \<open>IpAddr\<close>, \<open>UrlSplit\<close>, \<open>Json\<close>, \<open>IsoTime\<close>: what the program uses of Python's
      library: text, binary64 with its rounding, \<open>ipaddress\<close> on words of 32 and 128 bits, \<open>urlsplit\<close>,
      \<open>json\<close>, \<open>isoformat\<close>.
    \<^item> Data. \<open>Types\<close>: \<open>types.py\<close>, \<open>enums.py\<close>, \<open>config.py\<close>, \<open>exceptions.py\<close>. \<open>Protocols\<close>: \<open>protocols.py\<close>.
    \<^item> One delivery. \<open>SsrfGuard\<close>, \<open>Policy\<close>, \<open>Envelope\<close> (with \<open>body.py\<close> and the redaction of \<open>meta.py\<close>),
      \<open>Profiles\<close>, \<open>Signer\<close> (with \<open>verify.py\<close>), \<open>HttpSender\<close>, \<open>HostSemaphores\<close>, and \<open>Dispatcher\<close> over them.
    \<^item> Delivery stores. \<open>StoreSpec\<close>: the interface, the abstract view (per id a row and its lease) and the
      contract, the locale \<open>delivery_store_contract\<close>. \<open>MemoryStore\<close>, \<open>PgStore\<close> (over \<open>PgSchema\<close>, both
      \<open>service/pg_repos.py\<close> and \<open>stores/pg.py\<close>) and \<open>MongoStore\<close> interpret it. \<open>RedisStore\<close> does not keep
      it, since it accepts an id a second time, and has its own invariant. \<open>StoreSuite\<close>:
      \<open>testing/store_contract.py\<close>.
    \<^item> Event queues. \<open>EventQueue\<close>: interface and contract \<open>event_store_contract\<close>; \<open>MemoryEvents\<close>,
      \<open>PgEvents\<close>, \<open>MongoEvents\<close> interpret it. \<open>EventIngestor\<close>: the ingestor, over \<open>ingest_contracts\<close>.
    \<^item> Subscriptions. \<open>SubscriptionStore\<close>: interface and contract \<open>subscription_contract\<close>; \<open>RedisSubs\<close>,
      \<open>PgSubs\<close>, \<open>MongoSubs\<close> interpret it; \<open>SubBackends\<close> compares them.
    \<^item> Loops. \<open>Engine\<close>: a tick as a function of the store. \<open>Worker\<close>: the tasks of a tick, the gate, the loop
      and the shutdown as a step relation (\<open>engine.py\<close>, \<open>service/worker.py\<close>, \<open>service/ingest_worker.py\<close>,
      the \<open>lifespan\<close> of \<open>service/app.py\<close>).
    \<^item> Surface. \<open>DeliveryAdmin\<close> (\<open>service/delivery_admin.py\<close>, over \<open>admin_contracts\<close>), \<open>Routes\<close>
      (\<open>service/routes/\<close>, \<open>service/schemas.py\<close>), \<open>Registry\<close> (\<open>meta.py\<close>, \<open>registry.py\<close>, \<open>events.py\<close>),
      \<open>Fanout\<close>, and \<open>Service\<close> (\<open>service/settings.py\<close>, \<open>service/deps.py\<close>, over \<open>service_contracts\<close>).

  \<^bold>\<open>What the lemmas show.\<close> The guard accepts no URL and no request that its rules forbid, and under the
  shipped configuration exactly the addresses outside the listed ranges. An attempt posts at most once,
  makes exactly the one store transition it reports, and the table of outcomes is as configured; the
  back-off stays within its bounds with float rounding included. What is signed verifies, with both
  secrets during a rotation, and a delivery that verifies with another mac needs a collision. In every
  store two claims never hand out a row while its lease runs; settled rows stay settled; what a
  crashed worker held comes back; the three stores that keep the contract pass the suite of the source. An
  ingest tick settles each event it claims. The three subscription stores answer alike. At most the
  configured number of deliveries is sent at a time, every batch ends, and no host exceeds its share, under
  every interleaving. Discovery ends on every class graph and finds each marked class once. Fan-out
  stays with the tenant of an event. The routes change nothing without the key and show a secret once.
  An event emitted over HTTP is queued for exactly the subscriptions it is due to, on the memory, relational and
  document back ends. Where the code departs from what it documents, the theorem states what it does.

  \<^bold>\<open>Parameters and what is relied on.\<close> Code outside the repository is an argument: the network (\<open>d_post\<close>,
  \<open>x_http\<close>), name resolution, IDNA (\<open>idna_ascii\<close>: ASCII text comes back unchanged or fails), SHA-256 and
  HMAC (nothing assumed), \<open>json.loads\<close> and \<open>isoformat\<close> where only their results are passed on, the HTTP-date
  parser, the bus, the cipher of the secrets (\<open>cipher_ok\<close>: it opens what it sealed), the codecs of Redis
  (\<open>codec_ok\<close>: \<open>fromisoformat\<close> inverts \<open>isoformat\<close>, a set arrives as its members in some order), what
  PostgreSQL and MongoDB give back for a JSON object, the value of a Mongo field path. Clocks, jitter
  draws and \<open>uuid4\<close> are arguments; new ids are distinct and unused where a theorem says so. A SQL
  statement, a Redis command or script and a Mongo command do what their text and documentation say,
  each atomically; the rows another transaction has locked are an argument of a claim.

  \<^bold>\<open>Bounds and fuel.\<close> Text is code points below 256. An instant is a number of microseconds, cut to milliseconds where
  MongoDB and the scores of Redis do so. Floats are the rationals of binary64, rounded as IEEE 754 asks; \<open>timedelta\<close> rounding is
  written out. Nothing is fuelled by an arbitrary number: the JSON reader's recursion is bounded by the
  length of its text, each call of it consuming a character, and returns on all that \<open>dumps\<close> writes
  (its round trip); the walk of the class graph ends by the classes not yet seen; the tasks of a batch take at most four steps
  each. A loop that runs until it is cancelled is given the list of its clock's values.

  \<^bold>\<open>Not modelled.\<close> Logging and the wall clock (\<open>_shared/\<close>): output and input only. The parsing of the
  environment, of requests and of response models (pydantic, FastAPI), the assembly of the application
  and uvicorn (\<open>service/app.py\<close> beyond its shutdown): framework code; what a handler relies on, such as
  the limits of a batch, is stated. Opening and closing connections, the creation of Mongo indexes. The package
  \<open>__init__\<close> files and \<open>stores/base.py\<close>: re-exports and an alias. Text beyond Latin-1. Time outs of
  the network are exceptions the parameter raises. The interleaving of store operations is
  modelled where they are not atomic: overlapping claims of the relational store, and the two
  commands of a status change in Redis.
\<close>

end
